(* ===== verification/Prelude.thy ===== *)
theory Prelude
  imports Complex_Main "HOL-Library.AList" "HOL-Library.Char_ord" "HOL-Library.List_Lexorder"
    "HOL-Library.Product_Lexorder"
begin

section \<open>Shared vocabulary of the development\<close>

text \<open>
  What the component theories share: Python values that several modules of the backend use
  (dictionaries with insertion order, ASCII string methods, decimal rounding, truthiness), the
  generic notion of a reachable state with its invariant rule, and the lemmas about them.

  Conventions. A Python \<^verbatim>\<open>float\<close> is a HOL \<open>real\<close>: the theorems are about the
  exact values the expressions denote, not about their IEEE rounding. A Python \<^verbatim>\<open>int\<close>
  is an \<open>int\<close>, or a \<open>nat\<close> where it is a length or a counter. A \<^verbatim>\<open>str\<close> is
  a \<open>string\<close> (its bytes); case folding and stripping are those of ASCII. A clock reading
  and a random draw are arguments of the operation that makes them. An f-string that only informs
  a reader is a constructor applied to the values it interpolates.
\<close>

subsection \<open>Named collections\<close>

named_theorems dict_simps \<open>rewriting of dictionary operations\<close>
named_theorems model_defs \<open>definitions of the component at hand that proofs unfold\<close>
named_theorems inv_rules \<open>preservation lemmas of the invariants\<close>

subsection \<open>Dictionaries\<close>

text \<open>
  A \<^verbatim>\<open>dict\<close> keeps its keys in insertion order: storing at a present key overwrites in
  place, storing at a new key appends, and popping a key closes the gap. That is what the
  association lists of the library do.
\<close>

type_synonym ('k, 'v) dict = "('k \<times> 'v) list"

definition dget :: "('k, 'v) dict \<Rightarrow> 'k \<Rightarrow> 'v option" where
  "dget d k = map_of d k"

definition dset :: "('k, 'v) dict \<Rightarrow> 'k \<Rightarrow> 'v \<Rightarrow> ('k, 'v) dict" where
  "dset d k v = AList.update k v d"

definition dpop :: "('k, 'v) dict \<Rightarrow> 'k \<Rightarrow> ('k, 'v) dict" where
  "dpop d k = AList.delete k d"

definition dkeys :: "('k, 'v) dict \<Rightarrow> 'k list" where
  "dkeys d = map fst d"

definition dvals :: "('k, 'v) dict \<Rightarrow> 'v list" where
  "dvals d = map snd d"

definition dict_ok :: "('k, 'v) dict \<Rightarrow> bool" where
  "dict_ok d = distinct (map fst d)"

text \<open>
  The contract a client of a dictionary relies on, and what follows from it alone: the effect of
  a whole loop of stores.
\<close>

locale finite_dict =
  fixes get :: "'d \<Rightarrow> 'k \<Rightarrow> 'v option"
    and put :: "'d \<Rightarrow> 'k \<Rightarrow> 'v \<Rightarrow> 'd"
    and del :: "'d \<Rightarrow> 'k \<Rightarrow> 'd"
    and ok :: "'d \<Rightarrow> bool"
  assumes get_put: "get (put d k v) k' = (if k' = k then Some v else get d k')"
    and get_del: "get (del d k) k' = (if k' = k then None else get d k')"
    and ok_put: "ok d \<Longrightarrow> ok (put d k v)"
    and ok_del: "ok d \<Longrightarrow> ok (del d k)"
begin

lemma get_put_many:
  "get (foldl (\<lambda>d (k, v). put d k v) d kvs) k' =
     (case map_of (rev kvs) k' of None \<Rightarrow> get d k' | Some v \<Rightarrow> Some v)"
proof (induction kvs arbitrary: d)
  case Nil
  then show ?case by simp
next
  case (Cons kv kvs)
  obtain k v where kv: "kv = (k, v)" by (cases kv) auto
  show ?case
    by (auto simp: kv Cons.IH get_put map_add_def split: option.splits)
qed

lemma get_del_many:
  "get (foldl del d ks) k' = (if k' \<in> set ks then None else get d k')"
  by (induction ks arbitrary: d) (auto simp: get_del)

lemma ok_put_many: "ok d \<Longrightarrow> ok (foldl (\<lambda>d (k, v). put d k v) d kvs)"
  by (induction kvs arbitrary: d) (auto intro: ok_put split: prod.splits)

lemma ok_del_many: "ok d \<Longrightarrow> ok (foldl del d ks)"
  by (induction ks arbitrary: d) (auto intro: ok_del)

end

interpretation py_dict: finite_dict dget dset dpop dict_ok
  by unfold_locales
    (auto simp: dget_def dset_def dpop_def dict_ok_def update_conv' delete_conv'
       distinct_update distinct_delete)

declare py_dict.get_put [simp, dict_simps] py_dict.get_del [simp, dict_simps]
declare py_dict.ok_put [simp, intro] py_dict.ok_del [simp, intro]

lemma dget_Nil [simp, dict_simps]: "dget [] k = None"
  by (simp add: dget_def)

lemma dict_ok_Nil [simp]: "dict_ok []"
  by (simp add: dict_ok_def)

lemma dget_Cons [dict_simps]: "dget ((k, v) # d) k' = (if k' = k then Some v else dget d k')"
  by (simp add: dget_def)

lemma dget_Some_in: "dget d k = Some v \<Longrightarrow> (k, v) \<in> set d"
  by (simp add: dget_def map_of_SomeD)

lemma dget_eq_Some: "dict_ok d \<Longrightarrow> dget d k = Some v \<longleftrightarrow> (k, v) \<in> set d"
  by (simp add: dget_def dict_ok_def)

lemma dget_None_iff: "dget d k = None \<longleftrightarrow> k \<notin> set (dkeys d)"
  by (simp add: dget_def dkeys_def map_of_eq_None_iff)

lemma set_dkeys_dom: "set (dkeys d) = {k. dget d k \<noteq> None}"
  by (auto simp: dget_None_iff)

lemma set_dkeys_dset [simp]: "set (dkeys (dset d k v)) = insert k (set (dkeys d))"
  unfolding set_dkeys_dom by (auto split: if_splits)

lemma set_dkeys_dpop [simp]: "set (dkeys (dpop d k)) = set (dkeys d) - {k}"
  unfolding set_dkeys_dom by (auto split: if_splits)

lemma distinct_dkeys: "dict_ok d \<longleftrightarrow> distinct (dkeys d)"
  by (simp add: dict_ok_def dkeys_def)

lemma in_dset_iff:
  "dict_ok d \<Longrightarrow> (k', v') \<in> set (dset d k v) \<longleftrightarrow> (if k' = k then v' = v else (k', v') \<in> set d)"
  using py_dict.ok_put [of d k v] by (auto simp: dget_eq_Some [symmetric] split: if_splits)

lemma in_dpop_iff:
  "dict_ok d \<Longrightarrow> (k', v') \<in> set (dpop d k) \<longleftrightarrow> k' \<noteq> k \<and> (k', v') \<in> set d"
  using py_dict.ok_del [of d k] by (auto simp: dget_eq_Some [symmetric] split: if_splits)

lemma length_dset:
  "length (dset d k v) = (if dget d k = None then Suc (length d) else length d)"
  by (induction d) (auto simp: dset_def dget_def)

lemma length_dpop_le: "length (dpop d k) \<le> length d"
  by (simp add: dpop_def length_delete_le)

lemma length_dpop:
  "dict_ok d \<Longrightarrow> length (dpop d k) = (if dget d k = None then length d else length d - 1)"
proof (induction d)
  case Nil
  then show ?case by (simp add: dpop_def)
next
  case (Cons kv d)
  obtain x v where kv: "kv = (x, v)" by (cases kv) auto
  from Cons.prems kv have ok: "dict_ok d" and nin: "x \<notin> fst ` set d"
    by (auto simp: dict_ok_def)
  show ?case
  proof (cases "x = k")
    case True
    with nin have "AList.delete k d = d"
      by (simp add: delete_idem)
    with True kv show ?thesis by (simp add: dpop_def dget_Cons)
  next
    case False
    have ne: "length d = 0 \<Longrightarrow> dget d k = None" by simp
    from False kv Cons.IH [OF ok] ne show ?thesis
      by (cases "length d") (auto simp: dpop_def dget_Cons)
  qed
qed

text \<open>Mapping a function over the values of a dictionary leaves its keys alone.\<close>

definition dmap :: "('k \<Rightarrow> 'v \<Rightarrow> 'w) \<Rightarrow> ('k, 'v) dict \<Rightarrow> ('k, 'w) dict" where
  "dmap f d = map (\<lambda>(k, v). (k, f k v)) d"

lemma dget_dmap [simp, dict_simps]: "dget (dmap f d) k = map_option (f k) (dget d k)"
  by (induction d) (auto simp: dmap_def dget_def)

lemma dkeys_dmap [simp]: "dkeys (dmap f d) = dkeys d"
  by (simp add: dmap_def dkeys_def comp_def case_prod_unfold)

lemma dict_ok_dmap [simp]: "dict_ok (dmap f d) = dict_ok d"
  by (simp add: distinct_dkeys)

lemma length_dmap [simp]: "length (dmap f d) = length d"
  by (simp add: dmap_def)

subsection \<open>Strings\<close>

definition py_space :: "char \<Rightarrow> bool" where
  "py_space c = (of_char c \<in> {9, 10, 11, 12, 13, 28, 29, 30, 31, 32 :: nat})"

definition py_lstrip :: "string \<Rightarrow> string" where
  "py_lstrip s = dropWhile py_space s"

definition py_strip :: "string \<Rightarrow> string" where
  "py_strip s = rev (dropWhile py_space (rev (py_lstrip s)))"

definition lower_char :: "char \<Rightarrow> char" where
  "lower_char c = (let n = of_char c :: nat in if 65 \<le> n \<and> n \<le> 90 then char_of (n + 32) else c)"

definition py_lower :: "string \<Rightarrow> string" where
  "py_lower s = map lower_char s"

text \<open>\<^verbatim>\<open>x or y\<close> on strings: the empty string is falsy.\<close>

definition str_or :: "string \<Rightarrow> string \<Rightarrow> string" where
  "str_or a b = (if a = [] then b else a)"

lemma py_lstrip_head: "py_lstrip s \<noteq> [] \<Longrightarrow> \<not> py_space (hd (py_lstrip s))"
  by (simp add: py_lstrip_def hd_dropWhile)

lemma py_lstrip_idem [simp]: "py_lstrip (py_lstrip s) = py_lstrip s"
  by (simp add: py_lstrip_def)

lemma py_strip_last: "py_strip s \<noteq> [] \<Longrightarrow> \<not> py_space (last (py_strip s))"
  by (simp add: py_strip_def last_rev hd_dropWhile)

lemma py_strip_Nil_iff: "py_strip s = [] \<longleftrightarrow> (\<forall>c\<in>set s. py_space c)"
proof
  assume "py_strip s = []"
  then have "\<forall>c\<in>set (py_lstrip s). py_space c"
    by (simp add: py_strip_def dropWhile_eq_Nil_conv)
  moreover have "py_lstrip s = [] \<or> \<not> py_space (hd (py_lstrip s))"
    using py_lstrip_head by blast
  ultimately have "py_lstrip s = []"
    by (cases "py_lstrip s") auto
  then show "\<forall>c\<in>set s. py_space c"
    by (simp add: py_lstrip_def dropWhile_eq_Nil_conv)
next
  assume "\<forall>c\<in>set s. py_space c"
  then have "py_lstrip s = []"
    by (simp add: py_lstrip_def dropWhile_eq_Nil_conv)
  then show "py_strip s = []" by (simp add: py_strip_def)
qed

lemma py_strip_sub: "set (py_strip s) \<subseteq> set s"
  by (auto simp: py_strip_def py_lstrip_def dest!: set_dropWhileD)

lemma py_strip_fixed: "s = [] \<or> \<not> py_space (hd s) \<and> \<not> py_space (last s) \<Longrightarrow> py_strip s = s"
proof -
  have d: "xs = [] \<or> \<not> P (hd xs) \<Longrightarrow> dropWhile P xs = xs" for P :: "char \<Rightarrow> bool" and xs by (cases xs) auto
  assume "s = [] \<or> \<not> py_space (hd s) \<and> \<not> py_space (last s)"
  then show ?thesis by (auto simp: py_strip_def py_lstrip_def d hd_rev)
qed

lemma py_strip_hd: "py_strip s \<noteq> [] \<Longrightarrow> \<not> py_space (hd (py_strip s))"
proof -
  assume n: "py_strip s \<noteq> []"
  let ?l = "py_lstrip s"
  have s: "py_strip s = rev (dropWhile py_space (rev ?l))" by (simp add: py_strip_def)
  have "?l = py_strip s @ rev (takeWhile py_space (rev ?l))" unfolding s by (metis rev_append rev_rev_ident takeWhile_dropWhile_id)
  then have "hd ?l = hd (py_strip s)" "?l \<noteq> []" using n by (metis hd_append2, auto)
  then show ?thesis using py_lstrip_head by metis
qed

lemma py_strip_idem [simp]: "py_strip (py_strip s) = py_strip s"
  using py_strip_hd [of s] py_strip_last [of s] by (intro py_strip_fixed) blast

subsection \<open>Rounding to decimals\<close>

text \<open>\<^verbatim>\<open>round(x, n)\<close>: to the nearest multiple of \<open>10\<^sup>-\<^sup>n\<close>, ties to the even one.\<close>

definition round_half_even :: "real \<Rightarrow> int" where
  "round_half_even x =
     (let f = \<lfloor>x\<rfloor>; d = x - of_int f
      in if d < 1/2 then f else if 1/2 < d then f + 1 else if even f then f else f + 1)"

definition py_round :: "nat \<Rightarrow> real \<Rightarrow> real" where
  "py_round n x = of_int (round_half_even (x * 10 ^ n)) / 10 ^ n"

lemma round_half_even_of_int [simp]: "round_half_even (of_int k) = k"
  by (simp add: round_half_even_def)

lemma round_half_even_error: "\<bar>of_int (round_half_even x) - x\<bar> \<le> 1/2"
  by (simp add: round_half_even_def Let_def abs_if) linarith

lemma round_half_even_mono:
  assumes "x \<le> y"
  shows "round_half_even x \<le> round_half_even y"
proof (cases "\<lfloor>x\<rfloor> = \<lfloor>y\<rfloor>")
  case True
  with assms show ?thesis by (auto simp: round_half_even_def Let_def)
next
  case False
  with floor_mono [OF assms] have "\<lfloor>x\<rfloor> + 1 \<le> \<lfloor>y\<rfloor>" by linarith
  moreover have "round_half_even x \<le> \<lfloor>x\<rfloor> + 1"
    by (simp add: round_half_even_def Let_def)
  moreover have "\<lfloor>y\<rfloor> \<le> round_half_even y"
    by (simp add: round_half_even_def Let_def)
  ultimately show ?thesis by linarith
qed

lemma py_round_mono: "x \<le> y \<Longrightarrow> py_round n x \<le> py_round n y"
  by (simp add: py_round_def divide_right_mono round_half_even_mono mult_right_mono)

lemma py_round_of_int [simp]: "py_round n (of_int k) = of_int k"
proof -
  have "of_int k * 10 ^ n = (of_int (k * 10 ^ n) :: real)" by simp
  then have "round_half_even (of_int k * 10 ^ n) = k * 10 ^ n"
    by (metis round_half_even_of_int)
  then show ?thesis by (simp add: py_round_def)
qed

lemma py_round_numeral [simp]: "py_round n (numeral k) = numeral k"
  using py_round_of_int [of n "numeral k"] by simp

lemma py_round_0 [simp]: "py_round n 0 = 0"
  using py_round_of_int [of n 0] by simp

lemma py_round_range:
  "of_int a \<le> x \<Longrightarrow> x \<le> of_int b \<Longrightarrow> of_int a \<le> py_round n x \<and> py_round n x \<le> of_int b"
  using py_round_mono [of "of_int a" x n] py_round_mono [of x "of_int b" n] by simp

subsection \<open>Reachable states\<close>

text \<open>
  A component whose operations may come in any order is an initial condition and a step relation;
  an invariant that the initial states have and every step keeps holds in every reachable state.
\<close>

inductive reach :: "('s \<Rightarrow> bool) \<Rightarrow> ('s \<Rightarrow> 's \<Rightarrow> bool) \<Rightarrow> 's \<Rightarrow> bool"
  for init :: "'s \<Rightarrow> bool" and step :: "'s \<Rightarrow> 's \<Rightarrow> bool" where
  reach_start: "init s \<Longrightarrow> reach init step s"
| reach_next: "reach init step s \<Longrightarrow> step s t \<Longrightarrow> reach init step t"

locale safe_system =
  fixes init :: "'s \<Rightarrow> bool"
    and step :: "'s \<Rightarrow> 's \<Rightarrow> bool"
    and inv :: "'s \<Rightarrow> bool"
  assumes inv_start: "init s \<Longrightarrow> inv s"
    and inv_next: "inv s \<Longrightarrow> step s t \<Longrightarrow> inv t"
begin

lemma reach_inv: "reach init step s \<Longrightarrow> inv s"
  by (induction rule: reach.induct) (auto intro: inv_start inv_next)

lemma steps_inv: "step\<^sup>*\<^sup>* s t \<Longrightarrow> inv s \<Longrightarrow> inv t"
  by (induction rule: rtranclp_induct) (auto intro: inv_next)

lemma steps_reach: "step\<^sup>*\<^sup>* s t \<Longrightarrow> reach init step s \<Longrightarrow> reach init step t"
  by (induction rule: rtranclp_induct) (auto intro: reach_next)

end

subsection \<open>Results\<close>

text \<open>Sequencing of fallible steps: the first error wins, as a raised exception does.\<close>

definition bind_res :: "'e + 'a \<Rightarrow> ('a \<Rightarrow> 'e + 'b) \<Rightarrow> 'e + 'b" where
  "bind_res r f = (case r of Inl e \<Rightarrow> Inl e | Inr a \<Rightarrow> f a)"

lemma bind_res_simps [simp]:
  "bind_res (Inl e) f = Inl e"
  "bind_res (Inr a) f = f a"
  by (simp_all add: bind_res_def)

lemma bind_res_Inr_iff: "bind_res r f = Inr b \<longleftrightarrow> (\<exists>a. r = Inr a \<and> f a = Inr b)"
  by (cases r) auto

lemma bind_res_Inl_iff:
  "bind_res r f = Inl e \<longleftrightarrow> r = Inl e \<or> (\<exists>a. r = Inr a \<and> f a = Inl e)"
  by (cases r) auto

subsection \<open>Lists\<close>

text \<open>\<^verbatim>\<open>list(dict.fromkeys(xs))\<close>: without duplicates, in the order of first occurrence.\<close>

definition fromkeys :: "'a list \<Rightarrow> 'a list" where
  "fromkeys xs = rev (remdups (rev xs))"

lemma set_fromkeys [simp]: "set (fromkeys xs) = set xs"
  by (simp add: fromkeys_def)

lemma distinct_fromkeys [simp]: "distinct (fromkeys xs)"
  by (simp add: fromkeys_def)

lemma fromkeys_Nil [simp]: "fromkeys [] = []"
  by (simp add: fromkeys_def)

lemma fromkeys_id: "distinct xs \<Longrightarrow> fromkeys xs = xs"
  by (simp add: fromkeys_def distinct_remdups_id)

lemma fromkeys_snoc: "fromkeys (xs @ [y]) = (if y \<in> set xs then fromkeys xs else fromkeys xs @ [y])"
  by (simp add: fromkeys_def)

lemma fromkeys_append: "fromkeys (xs @ ys) = fromkeys xs @ filter (\<lambda>y. y \<notin> set xs) (fromkeys ys)"
  by (induction ys rule: rev_induct) (auto simp: fromkeys_snoc append.assoc [symmetric] simp del: append_assoc)

text \<open>
  \<^verbatim>\<open>del xs[: len(xs) - n]\<close> once a list is longer than its bound: the last \<open>n\<close> elements stay.
\<close>

definition keep_last :: "nat \<Rightarrow> 'a list \<Rightarrow> 'a list" where
  "keep_last n xs = (if n < length xs then drop (length xs - n) xs else xs)"

lemma length_keep_last [simp]: "length (keep_last n xs) = min n (length xs)"
  by (simp add: keep_last_def)

lemma set_keep_last: "set (keep_last n xs) \<subseteq> set xs"
  by (auto simp: keep_last_def dest: in_set_dropD)

lemma keep_last_snoc_last: "0 < n \<Longrightarrow> last (keep_last n (xs @ [x])) = x"
  by (simp add: keep_last_def)

lemma keep_last_id: "length xs \<le> n \<Longrightarrow> keep_last n xs = xs"
  by (simp add: keep_last_def)

end
