(* ===== verification/Case_Manager.thy ===== *)
theory Case_Manager
  imports Prelude
begin

section \<open>The deterministic Case Manager\<close>

text \<open>
  \<^verbatim>\<open>backend/app/engine/case_manager.py\<close>: the pure decision over the auto-close policy
  (\<open>decide\<close>) and its application to a case (\<open>CaseManager.apply\<close>), with the enumerations
  of \<^verbatim>\<open>constants.py\<close> and the policy blocks of \<^verbatim>\<open>config.py\<close> they read. The
  clock is read twice (once for the objection window, once for \<open>updated_at\<close>); both readings are
  arguments, in seconds. Only the fields of a case that the Case Manager reads or writes are in
  the record. Theorems: when a case is closed, that a case without a closable verdict never is,
  that the assertion of \<open>apply\<close> is unreachable, and that the status timeline stays a chain.
\<close>

subsection \<open>Data\<close>

datatype verdict = FALSE_POSITIVE | TRUE_POSITIVE | NEEDS_HUMAN

datatype case_status =
  ST_NEW | ST_OPEN | ST_NEEDS_HUMAN | ST_INVESTIGATING | ST_ESCALATED | ST_ON_HOLD
  | ST_RESOLVED | ST_CLOSED

datatype disposition =
  D_TRUE_POSITIVE | D_FALSE_POSITIVE | D_BENIGN | D_SUSPICIOUS | D_DUPLICATE | D_UNDETERMINED

text \<open>The owner of a decision; the Case Manager itself only writes the first and the third.\<close>

datatype decision_by = BY_AGENT | BY_ANALYST | BY_SYSTEM | BY_ANALYST_POLICY

fun verdict_value :: "verdict \<Rightarrow> string" where
  "verdict_value FALSE_POSITIVE = ''FALSE_POSITIVE''"
| "verdict_value TRUE_POSITIVE = ''TRUE_POSITIVE''"
| "verdict_value NEEDS_HUMAN = ''NEEDS_HUMAN''"

fun status_value :: "case_status \<Rightarrow> string" where
  "status_value ST_NEW = ''new''"
| "status_value ST_OPEN = ''open''"
| "status_value ST_NEEDS_HUMAN = ''needs_human''"
| "status_value ST_INVESTIGATING = ''investigating''"
| "status_value ST_ESCALATED = ''escalated''"
| "status_value ST_ON_HOLD = ''on_hold''"
| "status_value ST_RESOLVED = ''resolved''"
| "status_value ST_CLOSED = ''closed''"

record verdict_auto_close =
  ac_enabled :: bool
  min_confidence :: real
  max_risk_score :: real
  objection_window_minutes :: int

record auto_close_policy =
  pol_false_positive :: verdict_auto_close
  pol_true_positive :: verdict_auto_close
  pol_needs_human :: verdict_auto_close

definition default_auto_close_policy :: auto_close_policy where
  "default_auto_close_policy =
     \<lparr>pol_false_positive = \<lparr>ac_enabled = True, min_confidence = 85/100, max_risk_score = 30,
                             objection_window_minutes = 1440\<rparr>,
      pol_true_positive = \<lparr>ac_enabled = False, min_confidence = 95/100, max_risk_score = 10,
                            objection_window_minutes = 4320\<rparr>,
      pol_needs_human = \<lparr>ac_enabled = False, min_confidence = 9/10, max_risk_score = 20,
                          objection_window_minutes = 1440\<rparr>\<rparr>"

text \<open>The rationale sentences, each with the values it interpolates.\<close>

datatype rationale =
  R_AutoClosed verdict real real real real int
  | R_BarNotCleared verdict real real real real
  | R_TpDisabled
  | R_FpDisabled
  | R_FailSafe

record decision =
  dec_status :: case_status
  dec_by :: decision_by
  dec_expires :: "real option"
  dec_escalate :: bool
  dec_rationale :: rationale

subsection \<open>The decision\<close>

fun verdict_to_disposition :: "verdict \<Rightarrow> disposition option" where
  "verdict_to_disposition TRUE_POSITIVE = Some D_TRUE_POSITIVE"
| "verdict_to_disposition FALSE_POSITIVE = Some D_FALSE_POSITIVE"
| "verdict_to_disposition NEEDS_HUMAN = Some D_UNDETERMINED"

definition entry_for :: "auto_close_policy \<Rightarrow> verdict option \<Rightarrow> verdict_auto_close option" where
  "entry_for policy v =
     (if v = Some FALSE_POSITIVE then Some (pol_false_positive policy)
      else if v = Some TRUE_POSITIVE then Some (pol_true_positive policy)
      else None)"

definition decide ::
  "real \<Rightarrow> verdict option \<Rightarrow> real \<Rightarrow> real \<Rightarrow> auto_close_policy \<Rightarrow> real \<Rightarrow> real \<Rightarrow> decision" where
  "decide now v confidence risk_score policy escalation_confidence critical_severity =
     (let escalate = (v = Some TRUE_POSITIVE \<and>
            (escalation_confidence \<le> confidence \<or> critical_severity * 10 \<le> risk_score));
          refused = (\<lambda>r. \<lparr>dec_status = ST_NEEDS_HUMAN, dec_by = BY_SYSTEM, dec_expires = None,
                           dec_escalate = escalate, dec_rationale = r\<rparr>)
      in case entry_for policy v of
           Some entry \<Rightarrow>
             if ac_enabled entry then
               if min_confidence entry \<le> confidence \<and> risk_score \<le> max_risk_score entry then
                 \<lparr>dec_status = ST_CLOSED, dec_by = BY_AGENT,
                  dec_expires = Some (now + 60 * of_int (objection_window_minutes entry)),
                  dec_escalate = False,
                  dec_rationale = R_AutoClosed (the v) confidence (min_confidence entry) risk_score
                    (max_risk_score entry) (objection_window_minutes entry)\<rparr>
               else refused (R_BarNotCleared (the v) confidence (min_confidence entry) risk_score
                               (max_risk_score entry))
             else if v = Some TRUE_POSITIVE then refused R_TpDisabled
             else if v = Some FALSE_POSITIVE then refused R_FpDisabled
             else refused R_FailSafe
         | None \<Rightarrow>
             if v = Some TRUE_POSITIVE then refused R_TpDisabled
             else if v = Some FALSE_POSITIVE then refused R_FpDisabled
             else refused R_FailSafe)"

subsection \<open>Applying the decision to a case\<close>

record status_history_entry =
  from_status :: string
  to_status :: string
  sh_by :: decision_by
  sh_at :: real
  sh_reason :: rationale

record history_entry =
  h_ts :: real
  h_event :: string
  h_status :: case_status
  h_decision_by :: decision_by
  h_escalate :: bool
  h_rationale :: rationale

record kase =
  k_verdict :: "verdict option"
  k_confidence :: real
  k_risk_score :: real
  k_status :: case_status
  k_decision_by :: "decision_by option"
  k_objection_window_expires_at :: "real option"
  k_updated_at :: real
  k_escalation_level :: int
  k_disposition :: "disposition option"
  k_status_history :: "status_history_entry list"
  k_history :: "history_entry list"

record cm_prefs =
  auto_close :: auto_close_policy
  escalation_confidence :: real
  critical_severity :: real

datatype cm_error = AssertionError

text \<open>\<open>CaseManager\<close> holds the live preferences; \<open>update_prefs\<close> replaces them.\<close>

record case_manager =
  cm_preferences :: cm_prefs

definition update_prefs :: "cm_prefs \<Rightarrow> case_manager \<Rightarrow> case_manager" where
  "update_prefs p cm = cm\<lparr>cm_preferences := p\<rparr>"

definition set_decision :: "decision \<Rightarrow> real \<Rightarrow> kase \<Rightarrow> kase" where
  "set_decision d stamp c =
     c\<lparr>k_status := dec_status d, k_decision_by := Some (dec_by d),
       k_objection_window_expires_at := dec_expires d, k_updated_at := stamp\<rparr>"

definition raise_escalation :: "decision \<Rightarrow> kase \<Rightarrow> kase" where
  "raise_escalation d c =
     (if dec_escalate d \<and> dec_status d \<noteq> ST_CLOSED
      then c\<lparr>k_status := ST_ESCALATED,
             k_escalation_level := (if k_escalation_level c < 1 then 1 else k_escalation_level c)\<rparr>
      else c)"

definition fill_disposition :: "kase \<Rightarrow> kase" where
  "fill_disposition c =
     (case (k_disposition c, k_verdict c) of
        (None, Some v) \<Rightarrow>
          (case verdict_to_disposition v of
             Some m \<Rightarrow> c\<lparr>k_disposition := Some m\<rparr>
           | None \<Rightarrow> c)
      | _ \<Rightarrow> c)"

definition record_transition :: "case_status \<Rightarrow> decision \<Rightarrow> kase \<Rightarrow> kase" where
  "record_transition prev d c =
     (if k_status c \<noteq> prev
      then c\<lparr>k_status_history := k_status_history c @
               [\<lparr>from_status = status_value prev, to_status = status_value (k_status c),
                 sh_by = dec_by d, sh_at = k_updated_at c, sh_reason = dec_rationale d\<rparr>]\<rparr>
      else c)"

definition record_decision :: "decision \<Rightarrow> kase \<Rightarrow> kase" where
  "record_decision d c =
     c\<lparr>k_history := k_history c @
         [\<lparr>h_ts = k_updated_at c, h_event = ''decision'', h_status = dec_status d,
           h_decision_by = dec_by d, h_escalate = dec_escalate d,
           h_rationale = dec_rationale d\<rparr>]\<rparr>"

definition apply_case :: "case_manager \<Rightarrow> real \<Rightarrow> real \<Rightarrow> kase \<Rightarrow> cm_error + kase" where
  "apply_case cm now stamp c =
     (let p = cm_preferences cm;
          d = decide now (k_verdict c) (k_confidence c) (k_risk_score c) (auto_close p)
                (escalation_confidence p) (critical_severity p)
      in if (k_verdict c = None \<or> k_verdict c = Some NEEDS_HUMAN) \<and> dec_status d = ST_CLOSED
         then Inl AssertionError
         else Inr (record_decision d
                (record_transition (k_status c) d
                  (fill_disposition (raise_escalation d (set_decision d stamp c))))))"

lemmas apply_steps [model_defs] =
  set_decision_def raise_escalation_def fill_disposition_def record_transition_def
  record_decision_def

subsection \<open>Facts about the decision\<close>

lemma status_value_inj [simp]: "status_value a = status_value b \<longleftrightarrow> a = b"
  by (cases a; cases b) simp_all

lemma verdict_to_disposition_total [simp]: "verdict_to_disposition v \<noteq> None"
  by (cases v) simp_all

text \<open>The policy clears a verdict: its class is enabled and the bar is met.\<close>

definition clears_bar :: "auto_close_policy \<Rightarrow> verdict option \<Rightarrow> real \<Rightarrow> real \<Rightarrow> bool" where
  "clears_bar policy v confidence risk_score =
     (case entry_for policy v of
        Some e \<Rightarrow> ac_enabled e \<and> min_confidence e \<le> confidence \<and> risk_score \<le> max_risk_score e
      | None \<Rightarrow> False)"

lemma entry_for_cases:
  "entry_for policy (Some FALSE_POSITIVE) = Some (pol_false_positive policy)"
  "entry_for policy (Some TRUE_POSITIVE) = Some (pol_true_positive policy)"
  "entry_for policy (Some NEEDS_HUMAN) = None"
  "entry_for policy None = None"
  by (simp_all add: entry_for_def)

lemma decide_status:
  "dec_status (decide now v cf rs pol ec cs) =
     (if clears_bar pol v cf rs then ST_CLOSED else ST_NEEDS_HUMAN)"
  by (auto simp: decide_def clears_bar_def Let_def split: option.splits)

lemma decide_by:
  "dec_by (decide now v cf rs pol ec cs) =
     (if clears_bar pol v cf rs then BY_AGENT else BY_SYSTEM)"
  by (auto simp: decide_def clears_bar_def Let_def split: option.splits)

lemma decide_escalate:
  "dec_escalate (decide now v cf rs pol ec cs) \<longleftrightarrow>
     \<not> clears_bar pol v cf rs \<and> v = Some TRUE_POSITIVE \<and> (ec \<le> cf \<or> cs * 10 \<le> rs)"
  by (auto simp: decide_def clears_bar_def Let_def split: option.splits)

lemma decide_expires:
  "dec_expires (decide now v cf rs pol ec cs) =
     (if clears_bar pol v cf rs
      then Some (now + 60 * of_int (objection_window_minutes (the (entry_for pol v)))) else None)"
  by (auto simp: decide_def clears_bar_def Let_def split: option.splits)

lemmas decide_fields = decide_status decide_by decide_escalate decide_expires

lemma clears_bar_verdict:
  "clears_bar pol v cf rs \<Longrightarrow> v = Some FALSE_POSITIVE \<or> v = Some TRUE_POSITIVE"
  by (auto simp: clears_bar_def entry_for_def split: option.splits if_splits)

lemma clears_bar_mono:
  "clears_bar pol v cf rs \<Longrightarrow> cf \<le> cf' \<Longrightarrow> rs' \<le> rs \<Longrightarrow> clears_bar pol v cf' rs'"
  by (auto simp: clears_bar_def split: option.splits)

text \<open>The status a case has after \<open>apply\<close>.\<close>

definition decided_status :: "case_manager \<Rightarrow> kase \<Rightarrow> case_status" where
  "decided_status cm c =
     (let p = cm_preferences cm in
      if clears_bar (auto_close p) (k_verdict c) (k_confidence c) (k_risk_score c) then ST_CLOSED
      else if k_verdict c = Some TRUE_POSITIVE \<and>
              (escalation_confidence p \<le> k_confidence c \<or>
               critical_severity p * 10 \<le> k_risk_score c) then ST_ESCALATED
      else ST_NEEDS_HUMAN)"

lemma fill_disposition_frame [simp]:
  "k_status (fill_disposition c) = k_status c"
  "k_updated_at (fill_disposition c) = k_updated_at c"
  "k_status_history (fill_disposition c) = k_status_history c"
  "k_history (fill_disposition c) = k_history c"
  "k_objection_window_expires_at (fill_disposition c) = k_objection_window_expires_at c"
  "k_decision_by (fill_disposition c) = k_decision_by c"
  by (simp_all add: fill_disposition_def split: option.splits)

lemma apply_status: "apply_case cm now stamp c = Inr c' \<Longrightarrow> k_status c' = decided_status cm c"
  by (auto simp: apply_case_def Let_def decided_status_def decide_fields record_decision_def
        record_transition_def raise_escalation_def set_decision_def split: if_splits)

lemma apply_status_cases:
  assumes "apply_case cm now stamp c = Inr c'"
  shows "clears_bar (auto_close (cm_preferences cm)) (k_verdict c) (k_confidence c) (k_risk_score c)
      \<longleftrightarrow> k_status c' = ST_CLOSED"
  using apply_status [OF assms] by (simp add: decided_status_def Let_def)

lemma fill_disposition_escalation [simp]:
  "k_escalation_level (fill_disposition c) = k_escalation_level c"
  by (simp add: fill_disposition_def split: option.splits)

lemma apply_owner:
  assumes "apply_case cm now stamp c = Inr c'"
  shows "k_decision_by c' = Some (if k_status c' = ST_CLOSED then BY_AGENT else BY_SYSTEM)"
proof -
  let ?bar = "clears_bar (auto_close (cm_preferences cm)) (k_verdict c) (k_confidence c)
    (k_risk_score c)"
  have "k_decision_by c' = Some (if ?bar then BY_AGENT else BY_SYSTEM)"
    using assms by (auto simp: apply_case_def Let_def decide_by record_decision_def
        record_transition_def raise_escalation_def set_decision_def split: if_splits)
  with apply_status_cases [OF assms] show ?thesis by simp
qed

lemma apply_window:
  assumes "apply_case cm now stamp c = Inr c'"
  shows "k_objection_window_expires_at c' =
    (if k_status c' = ST_CLOSED
     then Some (now + 60 * of_int (objection_window_minutes
                 (the (entry_for (auto_close (cm_preferences cm)) (k_verdict c))))) else None)"
proof -
  let ?bar = "clears_bar (auto_close (cm_preferences cm)) (k_verdict c) (k_confidence c)
    (k_risk_score c)"
  have "k_objection_window_expires_at c' = (if ?bar then Some (now + 60 * of_int
      (objection_window_minutes (the (entry_for (auto_close (cm_preferences cm)) (k_verdict c)))))
      else None)"
    using assms by (auto simp: apply_case_def Let_def decide_expires record_decision_def
        record_transition_def raise_escalation_def set_decision_def split: if_splits)
  with apply_status_cases [OF assms] show ?thesis by simp
qed

lemma apply_escalation:
  assumes "apply_case cm now stamp c = Inr c'"
  shows "k_escalation_level c' =
    (if k_status c' = ST_ESCALATED then max 1 (k_escalation_level c) else k_escalation_level c)"
proof -
  let ?p = "cm_preferences cm"
  let ?d = "decide now (k_verdict c) (k_confidence c) (k_risk_score c) (auto_close ?p)
     (escalation_confidence ?p) (critical_severity ?p)"
  from assms have "k_escalation_level c' = k_escalation_level (raise_escalation ?d (set_decision ?d stamp c))"
    and "k_status c' = k_status (raise_escalation ?d (set_decision ?d stamp c))"
    by (auto simp: apply_case_def Let_def record_decision_def record_transition_def
        split: if_splits)
  then show ?thesis
    by (auto simp: raise_escalation_def set_decision_def decide_fields split: if_splits)
qed

lemmas apply_fields = apply_owner apply_window apply_escalation

lemma clears_bar_entry:
  "clears_bar pol v cf rs \<Longrightarrow> \<exists>e. entry_for pol v = Some e"
  by (auto simp: clears_bar_def split: option.splits)

lemma apply_status_history:
  "apply_case cm now stamp c = Inr c' \<Longrightarrow>
     k_status_history c' = k_status_history c \<or>
     (\<exists>e. k_status_history c' = k_status_history c @ [e] \<and> from_status e = status_value (k_status c)
        \<and> to_status e = status_value (k_status c') \<and> k_status c \<noteq> k_status c')"
  by (auto simp: apply_case_def Let_def record_decision_def record_transition_def
        raise_escalation_def set_decision_def split: if_splits)

lemma apply_status_kept:
  "apply_case cm now stamp c = Inr c' \<Longrightarrow> k_status_history c' = k_status_history c \<Longrightarrow>
     k_status c' = k_status c"
  by (auto simp: apply_case_def Let_def record_decision_def record_transition_def
        raise_escalation_def set_decision_def split: if_splits)

text \<open>
  The status timeline as the UI reads it: each entry starts where the previous one ended, no entry
  is a self-loop, and the last one ends in the case's current status.
\<close>

fun chain_ok :: "status_history_entry list \<Rightarrow> string \<Rightarrow> bool" where
  "chain_ok [] cur = True"
| "chain_ok [e] cur = (to_status e = cur \<and> from_status e \<noteq> to_status e)"
| "chain_ok (e # f # es) cur =
     (to_status e = from_status f \<and> from_status e \<noteq> to_status e \<and> chain_ok (f # es) cur)"

definition timeline_ok :: "kase \<Rightarrow> bool" where
  "timeline_ok c = chain_ok (k_status_history c) (status_value (k_status c))"

lemma chain_ok_snoc:
  "chain_ok es (from_status e) \<Longrightarrow> from_status e \<noteq> to_status e \<Longrightarrow> chain_ok (es @ [e]) (to_status e)"
  by (induction es "from_status e" rule: chain_ok.induct) auto

lemma apply_timeline:
  assumes ok: "timeline_ok c" and app: "apply_case cm now stamp c = Inr c'"
  shows "timeline_ok c'"
  using apply_status_history [OF app]
proof
  assume same: "k_status_history c' = k_status_history c"
  with apply_status_kept [OF app] ok show ?thesis by (simp add: timeline_ok_def)
next
  assume "\<exists>e. k_status_history c' = k_status_history c @ [e] \<and> from_status e = status_value (k_status c)
        \<and> to_status e = status_value (k_status c') \<and> k_status c \<noteq> k_status c'"
  then obtain e where e: "k_status_history c' = k_status_history c @ [e]"
      "from_status e = status_value (k_status c)" "to_status e = status_value (k_status c')"
      "k_status c \<noteq> k_status c'" by blast
  with ok chain_ok_snoc [of "k_status_history c" e] show ?thesis
    by (simp add: timeline_ok_def)
qed

text \<open>Repeated application, as the pipeline does over the life of a case.\<close>

fun apply_many :: "(case_manager \<times> real \<times> real) list \<Rightarrow> kase \<Rightarrow> cm_error + kase" where
  "apply_many [] c = Inr c"
| "apply_many ((cm, now, stamp) # xs) c = bind_res (apply_case cm now stamp c) (apply_many xs)"

lemma apply_total: "\<exists>c'. apply_case cm now stamp c = Inr c'"
  by (auto simp: apply_case_def Let_def decide_fields clears_bar_def entry_for_def
      split: option.splits)

lemma apply_many_total: "\<exists>c'. apply_many xs c = Inr c'"
proof (induction xs arbitrary: c)
  case Nil
  show ?case by simp
next
  case (Cons x xs)
  obtain cm now stamp where x: "x = (cm, now, stamp)" by (cases x) auto
  obtain c1 where "apply_case cm now stamp c = Inr c1" using apply_total by blast
  with Cons.IH x show ?case by simp
qed

lemma apply_many_timeline:
  "timeline_ok c \<Longrightarrow> apply_many xs c = Inr c' \<Longrightarrow> timeline_ok c'"
  by (induction xs c rule: apply_many.induct)
    (auto simp: bind_res_Inr_iff intro: apply_timeline)

lemma apply_history_grows:
  "apply_case cm now stamp c = Inr c' \<Longrightarrow> \<exists>e. k_history c' = k_history c @ [e] \<and>
     h_status e \<in> {ST_CLOSED, ST_NEEDS_HUMAN}"
  by (auto simp: apply_case_def Let_def record_decision_def record_transition_def
        raise_escalation_def set_decision_def decide_status split: if_splits)

lemma apply_many_history:
  "apply_many xs c = Inr c' \<Longrightarrow>
     length (k_history c') = length (k_history c) + length xs \<and>
     take (length (k_history c)) (k_history c') = k_history c"
proof (induction xs c rule: apply_many.induct)
  case (1 c)
  then show ?case by simp
next
  case (2 cm now stamp xs c)
  from "2.prems" obtain c1 where c1: "apply_case cm now stamp c = Inr c1"
    and rest: "apply_many xs c1 = Inr c'" by (auto simp: bind_res_Inr_iff)
  from apply_history_grows [OF c1] obtain e where e: "k_history c1 = k_history c @ [e]" by blast
  have "take (length (k_history c)) (k_history c') =
      take (length (k_history c)) (take (length (k_history c1)) (k_history c'))"
    using e by simp
  also have "\<dots> = k_history c"
    using "2.IH" [OF rest] e by simp
  finally show ?case using "2.IH" [OF rest] e by simp
qed

subsection \<open>Properties\<close>


text \<open>
  What \<open>apply\<close> leaves behind on each branch: an auto-close is owned by the agent, carries an
  objection window of the configured length and never escalates; every other case is owned by the
  system with no window, and is ESCALATED with a level of at least one exactly when it is a
  true positive that is confident enough or risky enough, NEEDS_HUMAN otherwise.
\<close>

theorem apply_branches:
  "apply_case cm now stamp c = Inr c' \<Longrightarrow>
     (if k_status c' = ST_CLOSED
      then k_decision_by c' = Some BY_AGENT \<and>
           k_escalation_level c' = k_escalation_level c \<and>
           (\<exists>e. entry_for (auto_close (cm_preferences cm)) (k_verdict c) = Some e \<and>
             k_objection_window_expires_at c' =
               Some (now + 60 * of_int (objection_window_minutes e)))
      else k_decision_by c' = Some BY_SYSTEM \<and> k_objection_window_expires_at c' = None \<and>
           (if k_verdict c = Some TRUE_POSITIVE \<and>
               (escalation_confidence (cm_preferences cm) \<le> k_confidence c \<or>
                critical_severity (cm_preferences cm) * 10 \<le> k_risk_score c)
            then k_status c' = ST_ESCALATED \<and>
                 k_escalation_level c' = max 1 (k_escalation_level c)
            else k_status c' = ST_NEEDS_HUMAN \<and> k_escalation_level c' = k_escalation_level c))"
proof -
  assume app: "apply_case cm now stamp c = Inr c'"
  note st = apply_status [OF app, unfolded decided_status_def Let_def]
  show ?thesis
  proof (cases "k_status c' = ST_CLOSED")
    case True
    with apply_status_cases [OF app] obtain e
      where "entry_for (auto_close (cm_preferences cm)) (k_verdict c) = Some e"
      using clears_bar_entry by blast
    with True show ?thesis by (simp add: apply_fields [OF app])
  next
    case False
    with st show ?thesis by (auto simp: apply_fields [OF app] split: if_splits)
  qed
qed

theorem apply_branches_witness:
  "let p = \<lparr>auto_close = default_auto_close_policy, escalation_confidence = 6/10,
             critical_severity = 7\<rparr>;
       c = \<lparr>k_verdict = Some FALSE_POSITIVE, k_confidence = 9/10, k_risk_score = 20,
             k_status = ST_NEW, k_decision_by = None, k_objection_window_expires_at = None,
             k_updated_at = 0, k_escalation_level = 0, k_disposition = None,
             k_status_history = [], k_history = []\<rparr>
   in \<exists>c'. apply_case \<lparr>cm_preferences = p\<rparr> 100 101 c = Inr c' \<and> k_status c' = ST_CLOSED \<and>
        k_decision_by c' = Some BY_AGENT \<and>
        k_objection_window_expires_at c' = Some 86500"
proof -
  let ?p = "\<lparr>auto_close = default_auto_close_policy, escalation_confidence = 6/10,
             critical_severity = 7\<rparr>"
  let ?c = "\<lparr>k_verdict = Some FALSE_POSITIVE, k_confidence = 9/10, k_risk_score = 20,
             k_status = ST_NEW, k_decision_by = None, k_objection_window_expires_at = None,
             k_updated_at = 0, k_escalation_level = 0, k_disposition = None,
             k_status_history = [], k_history = []\<rparr>"
  obtain c' where c': "apply_case \<lparr>cm_preferences = ?p\<rparr> 100 101 ?c = Inr c'"
    using apply_total by blast
  have "k_status c' = ST_CLOSED"
    using apply_status [OF c']
    by (simp add: decided_status_def clears_bar_def entry_for_def default_auto_close_policy_def)
  with apply_branches [OF c'] c' show ?thesis
    by (auto simp: entry_for_def default_auto_close_policy_def Let_def)
qed

text \<open>
  C2. Over any sequence of applications, under any changing preferences, the case's trail is
  append-only and consistent: exactly one decision event is appended per application and the
  earlier events stay as they were, and a status timeline that chained up to the case's status
  still does.
\<close>

theorem apply_trail_append_only:
  assumes "timeline_ok c"
  shows "\<exists>c'. apply_many xs c = Inr c' \<and> timeline_ok c' \<and>
     length (k_history c') = length (k_history c) + length xs \<and>
     take (length (k_history c)) (k_history c') = k_history c"
proof -
  obtain c' where "apply_many xs c = Inr c'" using apply_many_total by blast
  with apply_many_timeline [OF assms] apply_many_history show ?thesis by blast
qed

theorem apply_trail_append_only_witness:
  "let c = \<lparr>k_verdict = Some TRUE_POSITIVE, k_confidence = 1/2, k_risk_score = 80,
             k_status = ST_NEW, k_decision_by = None, k_objection_window_expires_at = None,
             k_updated_at = 0, k_escalation_level = 0, k_disposition = None,
             k_status_history = [], k_history = []\<rparr>;
       cm = \<lparr>cm_preferences = \<lparr>auto_close = default_auto_close_policy,
              escalation_confidence = 6/10, critical_severity = 7\<rparr>\<rparr>
   in timeline_ok c \<and> (\<exists>c'. apply_many [(cm, 1, 2), (cm, 3, 4)] c = Inr c' \<and> timeline_ok c' \<and>
        length (k_history c') = 2)"
proof -
  let ?c = "\<lparr>k_verdict = Some TRUE_POSITIVE, k_confidence = 1/2, k_risk_score = 80,
             k_status = ST_NEW, k_decision_by = None, k_objection_window_expires_at = None,
             k_updated_at = 0, k_escalation_level = 0, k_disposition = None,
             k_status_history = [], k_history = []\<rparr>"
  let ?cm = "\<lparr>cm_preferences = \<lparr>auto_close = default_auto_close_policy,
              escalation_confidence = 6/10, critical_severity = 7\<rparr>\<rparr>"
  have ok: "timeline_ok ?c" by (simp add: timeline_ok_def)
  from apply_trail_append_only [OF ok, of "[(?cm, 1, 2), (?cm, 3, 4)]"] ok show ?thesis
    by auto
qed

end
