(* ===== verification/Provider_Health.thy ===== *)
theory Provider_Health
  imports Prelude
begin

section \<open>Provider health and the circuit breaker\<close>

text \<open>
  \<^verbatim>\<open>backend/app/llm/provider_health.py\<close>: per-channel failure runs and the count-based
  circuit breaker per (provider, channel, role, model) and per (provider, channel). The monotonic
  clock, the wall clock and the jitter draw are arguments: \<open>now\<close> and \<open>wall\<close> in seconds,
  \<open>jit\<close> the value of \<open>random.random()\<close> for the row that opens, so that
  \<open>random.uniform(0, wait)\<close> is \<open>jit * wait\<close>. A row of the registry is a record; an
  operation on it returns the new row with the new transition log, and the registry stores it back
  under its key. The \<^verbatim>\<open>try/except\<close> blocks of the source have no branch here: none of
  the operations they guard raises on values of the types below.
\<close>

subsection \<open>Constants and policy\<close>

definition STALE_AFTER_SECONDS :: real where "STALE_AFTER_SECONDS = 3600"
definition DEFAULT_FAILURE_THRESHOLD :: int where "DEFAULT_FAILURE_THRESHOLD = 3"

datatype health_state =
  STATE_OK | STATE_UNAUTHENTICATED | STATE_QUOTA_EXHAUSTED | STATE_UNAVAILABLE | STATE_UNSUPPORTED

definition class_to_state :: "string \<Rightarrow> health_state option" where
  "class_to_state c =
     (if c = ''unauthenticated'' then Some STATE_UNAUTHENTICATED
      else if c = ''quota'' then Some STATE_QUOTA_EXHAUSTED
      else if c = ''unsupported'' then Some STATE_UNSUPPORTED
      else if c = ''unavailable'' then Some STATE_UNAVAILABLE
      else None)"

definition IGNORED_PROVIDERS :: "string set" where
  "IGNORED_PROVIDERS = {''mock'', ''demo''}"

definition CHANNEL_COMPLETION :: string where "CHANNEL_COMPLETION = ''completion''"

datatype breaker_state = BREAKER_CLOSED | BREAKER_OPEN | BREAKER_HALF_OPEN

definition IMMEDIATE_TRIP_CLASSES :: "string set" where
  "IMMEDIATE_TRIP_CLASSES = {''unauthenticated'', ''quota''}"

definition MAX_BREAKER_KEYS :: nat where "MAX_BREAKER_KEYS = 500"
definition MAX_TRANSITIONS :: nat where "MAX_TRANSITIONS = 200"

datatype breaker_reason =
  REASON_NONE | REASON_IMMEDIATE | REASON_FAILURE_RATE | REASON_PROBE_FAILED
  | REASON_PROBE_SUCCEEDED | REASON_WAIT_ELAPSED | REASON_EVIDENCE_AGED_OUT
  | REASON_OBSERVED_SUCCESS

datatype scope = SCOPE_ROLE | SCOPE_PROVIDER

text \<open>The duck-typed policy: a missing object or a missing attribute reads as the default.\<close>

record resilience =
  rp_enabled :: "bool option"
  rp_enforce :: "bool option"
  rp_window_size :: "int option"
  rp_minimum_calls :: "int option"
  rp_failure_rate_threshold :: "real option"
  rp_wait_seconds :: "real option"
  rp_max_wait_seconds :: "real option"
  rp_half_open_successes :: "int option"
  rp_outcome_max_age_seconds :: "real option"

definition pget :: "resilience option \<Rightarrow> (resilience \<Rightarrow> 'a option) \<Rightarrow> 'a \<Rightarrow> 'a" where
  "pget policy field dflt =
     (case policy of None \<Rightarrow> dflt
      | Some p \<Rightarrow> (case field p of None \<Rightarrow> dflt | Some v \<Rightarrow> v))"

definition observing :: "resilience option \<Rightarrow> bool" where
  "observing pol = pget pol rp_enabled True"

definition enforcing :: "resilience option \<Rightarrow> bool" where
  "enforcing pol = (pget pol rp_enabled True \<and> pget pol rp_enforce False)"

definition window_size :: "resilience option \<Rightarrow> nat" where
  "window_size pol = nat (max 2 (pget pol rp_window_size 20))"

definition quorum :: "resilience option \<Rightarrow> nat" where
  "quorum pol = min (nat (max 1 (pget pol rp_minimum_calls 10))) (window_size pol)"

definition failure_rate_threshold :: "resilience option \<Rightarrow> real" where
  "failure_rate_threshold pol = min 1 (max (1/2) (pget pol rp_failure_rate_threshold (1/2)))"

definition wait_seconds :: "resilience option \<Rightarrow> real" where
  "wait_seconds pol = max 1 (pget pol rp_wait_seconds 60)"

definition max_wait_seconds :: "resilience option \<Rightarrow> real" where
  "max_wait_seconds pol = max (wait_seconds pol) (pget pol rp_max_wait_seconds 600)"

definition half_open_successes :: "resilience option \<Rightarrow> int" where
  "half_open_successes pol = max 1 (pget pol rp_half_open_successes 2)"

definition outcome_max_age :: "resilience option \<Rightarrow> real" where
  "outcome_max_age pol = max 1 (pget pol rp_outcome_max_age_seconds 3600)"

subsection \<open>Keys\<close>

definition breaker_key :: "string \<Rightarrow> string \<Rightarrow> string \<Rightarrow> string \<Rightarrow> string" where
  "breaker_key provider channel role model =
     str_or provider ''unknown'' @ '':'' @ str_or channel CHANNEL_COMPLETION @ '':'' @
     str_or role ''*'' @ '':'' @ str_or model ''*''"

definition coarse_key :: "string \<Rightarrow> string \<Rightarrow> string" where
  "coarse_key provider channel = breaker_key provider channel ''*'' ''*''"

definition health_key :: "string \<Rightarrow> string \<Rightarrow> string" where
  "health_key provider channel = str_or provider ''unknown'' @ '':'' @ str_or channel CHANNEL_COMPLETION"

definition ignored :: "string \<Rightarrow> string \<Rightarrow> bool" where
  "ignored provider model = (py_lower provider \<in> IGNORED_PROVIDERS \<or> take 4 model = ''mock'')"

subsection \<open>Rows and state\<close>

record prow =
  p_provider :: string
  p_channel :: string
  consecutive_failures :: int
  last_failure_class :: string
  last_attempt_at :: "real option"
  last_success_at :: "real option"
  last_failure_at :: "real option"

record brow =
  b_key :: string
  b_scope :: scope
  b_provider :: string
  b_channel :: string
  b_role :: string
  b_model :: string
  b_state :: breaker_state
  b_window :: "(real \<times> bool) list"
  b_open_until :: real
  b_open_reason :: breaker_reason
  b_trip_class :: string
  b_wait_seconds :: real
  b_half_open_successes :: int
  b_opens :: int
  b_failure_rate :: "real option"
  b_last_transition_at :: "real option"

record transition =
  t_at :: "real option"
  t_key :: string
  t_scope :: scope
  t_provider :: string
  t_channel :: string
  t_role :: string
  t_model :: string
  t_from :: breaker_state
  t_to :: breaker_state
  t_reason :: breaker_reason
  t_failure_class :: string
  t_samples :: nat
  t_failure_rate :: "real option"
  t_wait_seconds :: real
  t_enforced :: bool

record provider_health =
  ph_threshold :: int
  ph_providers :: "(string, prow) dict"
  ph_breakers :: "(string, brow) dict"
  ph_transitions :: "transition list"
  ph_policy :: "resilience option"

definition new_provider_health :: "int \<Rightarrow> resilience option \<Rightarrow> provider_health" where
  "new_provider_health threshold pol =
     \<lparr>ph_threshold = max 1 threshold, ph_providers = [], ph_breakers = [], ph_transitions = [],
      ph_policy = pol\<rparr>"

definition set_policy :: "resilience option \<Rightarrow> provider_health \<Rightarrow> provider_health" where
  "set_policy pol h = h\<lparr>ph_policy := pol\<rparr>"

definition reset_health :: "provider_health \<Rightarrow> provider_health" where
  "reset_health h = h\<lparr>ph_providers := [], ph_breakers := [], ph_transitions := []\<rparr>"

subsection \<open>Operations on one breaker row\<close>

text \<open>A row with the transition log it writes to.\<close>

type_synonym cell = "brow \<times> transition list"

definition transition_entry ::
  "resilience option \<Rightarrow> brow \<Rightarrow> breaker_state \<Rightarrow> breaker_state \<Rightarrow> breaker_reason \<Rightarrow> transition" where
  "transition_entry pol row previous to_state reason =
     \<lparr>t_at = b_last_transition_at row, t_key = b_key row, t_scope = b_scope row,
      t_provider = b_provider row, t_channel = b_channel row, t_role = b_role row,
      t_model = b_model row, t_from = previous, t_to = to_state, t_reason = reason,
      t_failure_class = b_trip_class row, t_samples = length (b_window row),
      t_failure_rate = b_failure_rate row, t_wait_seconds = py_round 3 (b_wait_seconds row),
      t_enforced = enforcing pol\<rparr>"

definition transition_row ::
  "resilience option \<Rightarrow> real \<Rightarrow> breaker_state \<Rightarrow> breaker_reason \<Rightarrow> cell \<Rightarrow> cell" where
  "transition_row pol wall to_state reason c =
     (let row = fst c; log = snd c; previous = b_state row;
          row1 = row\<lparr>b_state := to_state, b_last_transition_at := Some wall\<rparr>;
          row2 = (if to_state \<noteq> BREAKER_OPEN then row1\<lparr>b_open_until := 0\<rparr> else row1);
          row3 = (if to_state = BREAKER_CLOSED
                  then row2\<lparr>b_open_reason := REASON_NONE, b_trip_class := []\<rparr> else row2)
      in if previous = to_state then (row3, log)
         else (row3, keep_last MAX_TRANSITIONS
                       (log @ [transition_entry pol row3 previous to_state reason])))"

definition open_row ::
  "resilience option \<Rightarrow> real \<Rightarrow> real \<Rightarrow> real \<Rightarrow> breaker_reason \<Rightarrow> cell \<Rightarrow> cell" where
  "open_row pol now wall jit reason c =
     (let row = fst c; wait = max 1 (b_wait_seconds row)
      in transition_row pol wall BREAKER_OPEN reason
           (row\<lparr>b_open_until := now + jit * wait, b_open_reason := reason,
                b_half_open_successes := 0, b_opens := b_opens row + 1\<rparr>, snd c))"

definition probe_succeeded :: "resilience option \<Rightarrow> real \<Rightarrow> cell \<Rightarrow> cell" where
  "probe_succeeded pol wall c =
     (let row = fst c; n = b_half_open_successes row + 1;
          row1 = row\<lparr>b_half_open_successes := n\<rparr>
      in if n < half_open_successes pol then (row1, snd c)
         else transition_row pol wall BREAKER_CLOSED REASON_PROBE_SUCCEEDED
                (row1\<lparr>b_window := [], b_wait_seconds := wait_seconds pol\<rparr>, snd c))"

definition trim_row :: "resilience option \<Rightarrow> brow \<Rightarrow> brow" where
  "trim_row pol row = row\<lparr>b_window := keep_last (window_size pol) (b_window row)\<rparr>"

definition settle_row :: "resilience option \<Rightarrow> real \<Rightarrow> real \<Rightarrow> cell \<Rightarrow> cell" where
  "settle_row pol now wall c =
     (let row = fst c;
          row1 = (if b_window row \<noteq> [] \<and> outcome_max_age pol < now - fst (last (b_window row))
                  then row\<lparr>b_window := [], b_failure_rate := None\<rparr> else row)
      in if b_window row1 = [] \<and> b_state row1 \<noteq> BREAKER_CLOSED \<and> b_open_until row1 \<le> now
         then transition_row pol wall BREAKER_CLOSED REASON_EVIDENCE_AGED_OUT
                (row1\<lparr>b_wait_seconds := wait_seconds pol, b_half_open_successes := 0\<rparr>, snd c)
         else (row1, snd c))"

definition window_failures :: "(real \<times> bool) list \<Rightarrow> nat" where
  "window_failures w = length (filter (\<lambda>(_, sample_ok). \<not> sample_ok) w)"

definition fold_half_open ::
  "resilience option \<Rightarrow> real \<Rightarrow> real \<Rightarrow> real \<Rightarrow> bool \<Rightarrow> string \<Rightarrow> cell \<Rightarrow> cell" where
  "fold_half_open pol now wall jit ok fclass c =
     (if ok then probe_succeeded pol wall c
      else let row = fst c in
        open_row pol now wall jit REASON_PROBE_FAILED
          (row\<lparr>b_wait_seconds := min (max_wait_seconds pol) (max 1 (b_wait_seconds row) * 2),
               b_trip_class := str_or fclass (b_trip_class row)\<rparr>, snd c))"

definition fold_closed ::
  "resilience option \<Rightarrow> real \<Rightarrow> real \<Rightarrow> real \<Rightarrow> string \<Rightarrow> bool \<Rightarrow> bool \<Rightarrow> cell \<Rightarrow> cell" where
  "fold_closed pol now wall jit fclass immediate evaluate_rate c =
     (let row = fst c; window = b_window row
      in if immediate then
           open_row pol now wall jit REASON_IMMEDIATE (row\<lparr>b_trip_class := fclass\<rparr>, snd c)
         else if \<not> evaluate_rate \<or> length window < quorum pol then c
         else let rate = real (window_failures window) / real (length window)
              in if failure_rate_threshold pol \<le> rate then
                   open_row pol now wall jit REASON_FAILURE_RATE
                     (row\<lparr>b_trip_class := str_or fclass (b_trip_class row),
                          b_failure_rate := Some (py_round 4 rate)\<rparr>, snd c)
                 else c)"

definition fold_row ::
  "resilience option \<Rightarrow> real \<Rightarrow> real \<Rightarrow> real \<Rightarrow> bool \<Rightarrow> string \<Rightarrow> bool \<Rightarrow> bool \<Rightarrow> cell \<Rightarrow> cell" where
  "fold_row pol now wall jit ok fclass immediate evaluate_rate c =
     (let c1 = settle_row pol now wall c; row = fst c1
      in if b_state row = BREAKER_HALF_OPEN then fold_half_open pol now wall jit ok fclass c1
         else
           let row2 = trim_row pol (row\<lparr>b_window := b_window row @ [(now, ok)]\<rparr>);
               c2 = (row2, snd c1)
           in if b_state row2 = BREAKER_OPEN then
                if ok then
                  probe_succeeded pol wall
                    (transition_row pol wall BREAKER_HALF_OPEN REASON_OBSERVED_SUCCESS
                       (row2\<lparr>b_half_open_successes := 0\<rparr>, snd c1))
                else c2
              else fold_closed pol now wall jit fclass immediate evaluate_rate c2)"

subsection \<open>The key registry\<close>

definition evict_if_needed :: "(string, brow) dict \<Rightarrow> (string, brow) dict" where
  "evict_if_needed bs =
     (if length bs < MAX_BREAKER_KEYS then bs
      else let closed = sort (map (\<lambda>(k, row). (length (b_window row), k))
                               (filter (\<lambda>(k, row). b_state row = BREAKER_CLOSED) bs))
           in foldl dpop bs
                (map snd (take (max 1 (length bs - MAX_BREAKER_KEYS + 1)) closed)))"

definition new_row ::
  "resilience option \<Rightarrow> string \<Rightarrow> scope \<Rightarrow> string \<Rightarrow> string \<Rightarrow> string \<Rightarrow> string \<Rightarrow> brow" where
  "new_row pol key sc provider channel role model =
     \<lparr>b_key = key, b_scope = sc, b_provider = str_or provider ''unknown'',
      b_channel = str_or channel CHANNEL_COMPLETION, b_role = str_or role ''*'',
      b_model = str_or model ''*'', b_state = BREAKER_CLOSED, b_window = [], b_open_until = 0,
      b_open_reason = REASON_NONE, b_trip_class = [], b_wait_seconds = wait_seconds pol,
      b_half_open_successes = 0, b_opens = 0, b_failure_rate = None,
      b_last_transition_at = None\<rparr>"

definition breaker_row ::
  "resilience option \<Rightarrow> string \<Rightarrow> scope \<Rightarrow> string \<Rightarrow> string \<Rightarrow> string \<Rightarrow> string \<Rightarrow>
   (string, brow) dict \<Rightarrow> brow \<times> (string, brow) dict" where
  "breaker_row pol key sc provider channel role model bs =
     (case dget bs key of
        Some row \<Rightarrow> (row, bs)
      | None \<Rightarrow> let row = new_row pol key sc provider channel role model
                in (row, dset (evict_if_needed bs) key row))"

definition fold_key ::
  "real \<Rightarrow> real \<Rightarrow> real \<Rightarrow> string \<Rightarrow> scope \<Rightarrow> string \<Rightarrow> string \<Rightarrow> string \<Rightarrow> string \<Rightarrow> bool \<Rightarrow> string \<Rightarrow>
   bool \<Rightarrow> provider_health \<Rightarrow> provider_health" where
  "fold_key now wall jit key sc provider channel role model ok fclass immediate h =
     (let pol = ph_policy h;
          (row, bs) = breaker_row pol key sc provider channel
             (if sc = SCOPE_PROVIDER then ''*'' else role)
             (if sc = SCOPE_PROVIDER then ''*'' else model) (ph_breakers h);
          (row', log') = fold_row pol now wall jit ok fclass
             (immediate \<and> sc = SCOPE_PROVIDER) (sc = SCOPE_ROLE) (row, ph_transitions h)
      in h\<lparr>ph_breakers := dset bs key row', ph_transitions := log'\<rparr>)"

definition record_outcome ::
  "real \<Rightarrow> real \<Rightarrow> (scope \<Rightarrow> real) \<Rightarrow> string \<Rightarrow> string \<Rightarrow> string \<Rightarrow> string \<Rightarrow> bool \<Rightarrow> string \<Rightarrow>
   provider_health \<Rightarrow> provider_health" where
  "record_outcome now wall jit provider channel role model ok fclass h =
     (if \<not> observing (ph_policy h) then h
      else let immediate = (\<not> ok \<and> fclass \<in> IMMEDIATE_TRIP_CLASSES);
               h1 = fold_key now wall (jit SCOPE_PROVIDER) (coarse_key provider channel)
                      SCOPE_PROVIDER provider channel role model ok fclass immediate h
           in fold_key now wall (jit SCOPE_ROLE) (breaker_key provider channel role model)
                SCOPE_ROLE provider channel role model ok fclass immediate h1)"

subsection \<open>Recording and reading health\<close>

definition health_row :: "string \<Rightarrow> string \<Rightarrow> provider_health \<Rightarrow> prow" where
  "health_row provider channel h =
     (case dget (ph_providers h) (health_key (str_or provider ''unknown'') channel) of
        Some row \<Rightarrow> row
      | None \<Rightarrow> \<lparr>p_provider = str_or provider ''unknown'',
                  p_channel = str_or channel CHANNEL_COMPLETION, consecutive_failures = 0,
                  last_failure_class = [], last_attempt_at = None, last_success_at = None,
                  last_failure_at = None\<rparr>)"

definition put_health_row :: "string \<Rightarrow> string \<Rightarrow> prow \<Rightarrow> provider_health \<Rightarrow> provider_health" where
  "put_health_row provider channel row h =
     h\<lparr>ph_providers := dset (ph_providers h) (health_key (str_or provider ''unknown'') channel) row\<rparr>"

definition record_success ::
  "real \<Rightarrow> real \<Rightarrow> (scope \<Rightarrow> real) \<Rightarrow> string \<Rightarrow> string \<Rightarrow> string \<Rightarrow> string \<Rightarrow>
   provider_health \<Rightarrow> provider_health" where
  "record_success now wall jit provider model channel role h =
     (if ignored provider model then h
      else let row = health_row provider channel h;
               row' = row\<lparr>last_attempt_at := Some wall, last_success_at := Some wall,
                          consecutive_failures := 0, last_failure_class := []\<rparr>
           in record_outcome now wall jit provider channel role model True []
                (put_health_row provider channel row' h))"

definition record_failure ::
  "real \<Rightarrow> real \<Rightarrow> (scope \<Rightarrow> real) \<Rightarrow> string \<Rightarrow> string \<Rightarrow> string \<Rightarrow> string \<Rightarrow> string \<Rightarrow>
   provider_health \<Rightarrow> provider_health" where
  "record_failure now wall jit provider fclass model channel role h =
     (if ignored provider model \<or> fclass = ''not_configured'' then h
      else let row = health_row provider channel h;
               row' = row\<lparr>last_attempt_at := Some wall, last_failure_class := fclass,
                          consecutive_failures := consecutive_failures row + 1,
                          last_failure_at := Some wall\<rparr>
           in record_outcome now wall jit provider channel role model False fclass
                (put_health_row provider channel row' h))"

text \<open>\<open>None\<close> is the age of a stamp that was never written: infinite.\<close>

definition age_seconds :: "real \<Rightarrow> real option \<Rightarrow> real option" where
  "age_seconds wall stamp = map_option (\<lambda>t. max 0 (wall - t)) stamp"

definition state_for :: "real \<Rightarrow> string \<Rightarrow> string \<Rightarrow> provider_health \<Rightarrow> health_state" where
  "state_for wall provider channel h =
     (case dget (ph_providers h) (health_key (str_or provider ''unknown'') channel) of
        None \<Rightarrow> STATE_OK
      | Some row \<Rightarrow>
          if consecutive_failures row < ph_threshold h then STATE_OK
          else (case age_seconds wall (last_failure_at row) of
                  None \<Rightarrow> STATE_OK
                | Some age \<Rightarrow>
                    if STALE_AFTER_SECONDS < age then STATE_OK
                    else (case class_to_state (last_failure_class row) of
                            None \<Rightarrow> STATE_UNAVAILABLE | Some s \<Rightarrow> s)))"

definition worst_step :: "health_state \<Rightarrow> health_state \<Rightarrow> health_state" where
  "worst_step worst s =
     (if s \<noteq> STATE_OK \<and> worst = STATE_OK then s
      else if s = STATE_UNAUTHENTICATED then STATE_UNAUTHENTICATED else worst)"

definition snapshot_worst :: "real \<Rightarrow> provider_health \<Rightarrow> health_state" where
  "snapshot_worst wall h =
     foldl (\<lambda>worst (name, row). worst_step worst (state_for wall (p_provider row) (p_channel row) h))
       STATE_OK (sort_key fst (ph_providers h))"

subsection \<open>Admission\<close>

text \<open>
  One key visited by \<open>allows\<close>: its evidence is aged, an OPEN row whose wait is over becomes
  HALF\_OPEN, an OPEN row still waiting is the refusal unless one was found already.
\<close>

definition visit_key ::
  "real \<Rightarrow> real \<Rightarrow> string \<Rightarrow> provider_health \<times> (breaker_reason \<times> string) option \<Rightarrow>
   provider_health \<times> (breaker_reason \<times> string) option" where
  "visit_key now wall key hr =
     (let h = fst hr; refusal = snd hr; pol = ph_policy h in
      case dget (ph_breakers h) key of
        None \<Rightarrow> hr
      | Some row \<Rightarrow>
          let (row1, log1) = settle_row pol now wall (row, ph_transitions h);
              store = (\<lambda>(r, l). h\<lparr>ph_breakers := dset (ph_breakers h) key r, ph_transitions := l\<rparr>)
          in (case b_state row1 of
                BREAKER_CLOSED \<Rightarrow> (store (row1, log1), refusal)
              | BREAKER_OPEN \<Rightarrow>
                  if b_open_until row1 \<le> now
                  then (store (transition_row pol wall BREAKER_HALF_OPEN REASON_WAIT_ELAPSED
                                 (row1, log1)), refusal)
                  else (store (row1, log1),
                        (case refusal of
                           None \<Rightarrow> Some ((if b_open_reason row1 = REASON_NONE
                                          then REASON_FAILURE_RATE else b_open_reason row1),
                                         b_trip_class row1)
                         | Some r \<Rightarrow> Some r))
              | BREAKER_HALF_OPEN \<Rightarrow> (store (row1, log1), refusal)))"

definition allows ::
  "real \<Rightarrow> real \<Rightarrow> string \<Rightarrow> string \<Rightarrow> string \<Rightarrow> string \<Rightarrow> provider_health \<Rightarrow>
   (bool \<times> breaker_reason \<times> string) \<times> provider_health" where
  "allows now wall provider channel role model h =
     (if \<not> observing (ph_policy h) \<or> ignored provider model
      then ((True, REASON_NONE, []), h)
      else let (h', refusal) =
                 visit_key now wall (breaker_key provider channel role model)
                   (visit_key now wall (coarse_key provider channel) (h, None))
           in (case refusal of
                 Some (r, f) \<Rightarrow> if enforcing (ph_policy h) then ((False, r, f), h')
                                else ((True, REASON_NONE, []), h')
               | None \<Rightarrow> ((True, REASON_NONE, []), h')))"

definition settle_key :: "real \<Rightarrow> real \<Rightarrow> string \<Rightarrow> provider_health \<Rightarrow> provider_health" where
  "settle_key now wall key h =
     (case dget (ph_breakers h) key of
        None \<Rightarrow> h
      | Some row \<Rightarrow>
          let (row1, log1) = settle_row (ph_policy h) now wall (row, ph_transitions h)
          in h\<lparr>ph_breakers := dset (ph_breakers h) key row1, ph_transitions := log1\<rparr>)"

definition key_state :: "string \<Rightarrow> provider_health \<Rightarrow> breaker_state" where
  "key_state key h =
     (case dget (ph_breakers h) key of None \<Rightarrow> BREAKER_CLOSED | Some row \<Rightarrow> b_state row)"

definition breaker_state_of ::
  "real \<Rightarrow> real \<Rightarrow> string \<Rightarrow> string \<Rightarrow> string \<Rightarrow> string \<Rightarrow> provider_health \<Rightarrow>
   breaker_state \<times> provider_health" where
  "breaker_state_of now wall provider channel role model h =
     (let h1 = settle_key now wall (coarse_key provider channel) h
      in if key_state (coarse_key provider channel) h1 \<noteq> BREAKER_CLOSED
         then (key_state (coarse_key provider channel) h1, h1)
         else let h2 = settle_key now wall (breaker_key provider channel role model) h1
              in (key_state (breaker_key provider channel role model) h2, h2))"

definition settle_all :: "real \<Rightarrow> real \<Rightarrow> provider_health \<Rightarrow> provider_health" where
  "settle_all now wall h = foldl (\<lambda>h k. settle_key now wall k h) h (dkeys (ph_breakers h))"

definition open_keys :: "provider_health \<Rightarrow> string list" where
  "open_keys h = sort (map fst (filter (\<lambda>(k, row). b_state row \<noteq> BREAKER_CLOSED) (ph_breakers h)))"

text \<open>What \<open>breaker_snapshot\<close> reports of one key, and the whole snapshot.\<close>

record key_view =
  kv_state :: breaker_state
  kv_samples :: nat
  kv_failures :: nat
  kv_failure_rate :: "real option"
  kv_opens :: int
  kv_failure_class :: string
  kv_open_reason :: breaker_reason
  kv_wait_seconds :: real
  kv_last_transition_at :: "real option"

definition view_row :: "brow \<Rightarrow> key_view" where
  "view_row row =
     (let w = b_window row; f = window_failures w in
      \<lparr>kv_state = b_state row, kv_samples = length w, kv_failures = f,
       kv_failure_rate = (if w = [] then None else Some (py_round 4 (real f / real (length w)))),
       kv_opens = b_opens row, kv_failure_class = b_trip_class row,
       kv_open_reason = b_open_reason row, kv_wait_seconds = py_round 3 (b_wait_seconds row),
       kv_last_transition_at = b_last_transition_at row\<rparr>)"

record breaker_view =
  bv_enabled :: bool
  bv_enforced :: bool
  bv_open_keys :: "string list"
  bv_keys :: "(string \<times> key_view) list"
  bv_transitions_total :: nat
  bv_transitions :: "transition list"

definition breaker_snapshot ::
  "real \<Rightarrow> real \<Rightarrow> nat \<Rightarrow> provider_health \<Rightarrow> breaker_view \<times> provider_health" where
  "breaker_snapshot now wall limit h =
     (let h1 = settle_all now wall h in
      (\<lparr>bv_enabled = observing (ph_policy h1), bv_enforced = enforcing (ph_policy h1),
        bv_open_keys = open_keys h1,
        bv_keys = map (\<lambda>(k, row). (k, view_row row)) (sort_key fst (ph_breakers h1)),
        bv_transitions_total = length (ph_transitions h1),
        bv_transitions = (if 0 < limit then keep_last limit (ph_transitions h1) else [])\<rparr>, h1))"

text \<open>\<open>snapshot\<close>: every tracked channel with its state, the worst state, and the breaker block.\<close>

record health_view =
  hv_state :: health_state
  hv_degraded :: bool
  hv_threshold :: int
  hv_providers :: "(string \<times> prow \<times> health_state) list"
  hv_breaker :: breaker_view

definition SNAPSHOT_TRANSITIONS :: nat where "SNAPSHOT_TRANSITIONS = 25"

definition snapshot :: "real \<Rightarrow> real \<Rightarrow> provider_health \<Rightarrow> health_view \<times> provider_health" where
  "snapshot now wall h =
     (let worst = snapshot_worst wall h;
          (bv, h1) = breaker_snapshot now wall SNAPSHOT_TRANSITIONS h
      in (\<lparr>hv_state = worst, hv_degraded = (worst \<noteq> STATE_OK), hv_threshold = ph_threshold h,
           hv_providers = map (\<lambda>(name, row).
             (name, row, state_for wall (p_provider row) (p_channel row) h))
             (sort_key fst (ph_providers h)),
           hv_breaker = bv\<rparr>, h1))"

subsection \<open>Policy bounds\<close>

lemma window_size_ge: "2 \<le> window_size pol"
  by (simp add: window_size_def nat_le_iff)

lemma quorum_le_window: "quorum pol \<le> window_size pol"
  by (simp add: quorum_def)

lemma quorum_pos: "1 \<le> quorum pol"
  using window_size_ge [of pol] by (simp add: quorum_def Suc_le_eq)

lemma wait_seconds_ge: "1 \<le> wait_seconds pol"
  by (simp add: wait_seconds_def)

lemma wait_le_max: "wait_seconds pol \<le> max_wait_seconds pol"
  by (simp add: max_wait_seconds_def)

lemma half_open_successes_ge: "1 \<le> half_open_successes pol"
  by (simp add: half_open_successes_def)

lemma failure_rate_threshold_ge: "1/2 \<le> failure_rate_threshold pol"
  by (simp add: failure_rate_threshold_def)

lemma outcome_max_age_ge: "1 \<le> outcome_max_age pol"
  by (simp add: outcome_max_age_def)

subsection \<open>The row invariant\<close>

text \<open>
  The bounds are those of every policy that was live: \<open>M\<close> the longest back-off, \<open>W\<close> the
  largest ring. \<open>clock\<close> is the latest reading of the monotonic clock.
\<close>

definition row_inv :: "real \<Rightarrow> nat \<Rightarrow> real \<Rightarrow> brow \<Rightarrow> bool" where
  "row_inv M W clock row =
     (1 \<le> b_wait_seconds row \<and> b_wait_seconds row \<le> M \<and>
      length (b_window row) \<le> W \<and>
      (\<forall>x\<in>set (b_window row). fst x \<le> clock) \<and>
      (case b_state row of
         BREAKER_CLOSED \<Rightarrow> b_open_until row = 0 \<and> b_open_reason row = REASON_NONE \<and>
                            b_trip_class row = []
       | BREAKER_HALF_OPEN \<Rightarrow> b_open_until row = 0
       | BREAKER_OPEN \<Rightarrow> b_open_until row \<le> clock + M \<and> b_open_reason row \<noteq> REASON_NONE))"

definition log_ok :: "transition list \<Rightarrow> bool" where
  "log_ok lg = (length lg \<le> MAX_TRANSITIONS \<and> (\<forall>t\<in>set lg. t_from t \<noteq> t_to t))"

definition cell_inv :: "real \<Rightarrow> nat \<Rightarrow> real \<Rightarrow> cell \<Rightarrow> bool" where
  "cell_inv M W clock c = (row_inv M W clock (fst c) \<and> log_ok (snd c))"

definition policy_within :: "real \<Rightarrow> nat \<Rightarrow> resilience option \<Rightarrow> bool" where
  "policy_within M W pol = (max_wait_seconds pol \<le> M \<and> window_size pol \<le> W)"

lemma policy_withinD:
  assumes "policy_within M W pol"
  shows "wait_seconds pol \<le> M" "max_wait_seconds pol \<le> M" "window_size pol \<le> W" "1 \<le> M"
  using assms wait_le_max [of pol] wait_seconds_ge [of pol] by (auto simp: policy_within_def)

lemma row_inv_clock: "row_inv M W clock row \<Longrightarrow> clock \<le> now \<Longrightarrow> row_inv M W now row"
  by (force simp: row_inv_def split: breaker_state.splits)

lemma log_ok_snoc:
  "log_ok lg \<Longrightarrow> t_from e \<noteq> t_to e \<Longrightarrow> log_ok (keep_last MAX_TRANSITIONS (lg @ [e]))"
  using set_keep_last [of MAX_TRANSITIONS "lg @ [e]"] by (auto simp: log_ok_def)

lemma transition_row_key [simp]: "b_key (fst (transition_row pol wall s r c)) = b_key (fst c)"
  by (simp add: transition_row_def Let_def)

lemma transition_row_state [simp]: "b_state (fst (transition_row pol wall s r c)) = s"
  by (simp add: transition_row_def Let_def)

lemma transition_row_window [simp]:
  "b_window (fst (transition_row pol wall s r c)) = b_window (fst c)"
  by (simp add: transition_row_def Let_def)

lemma transition_row_fields [simp]:
  "b_open_until (fst (transition_row pol wall s r c)) =
     (if s = BREAKER_OPEN then b_open_until (fst c) else 0)"
  "b_open_reason (fst (transition_row pol wall s r c)) =
     (if s = BREAKER_CLOSED then REASON_NONE else b_open_reason (fst c))"
  "b_trip_class (fst (transition_row pol wall s r c)) =
     (if s = BREAKER_CLOSED then [] else b_trip_class (fst c))"
  "b_wait_seconds (fst (transition_row pol wall s r c)) = b_wait_seconds (fst c)"
  "b_half_open_successes (fst (transition_row pol wall s r c)) = b_half_open_successes (fst c)"
  "b_scope (fst (transition_row pol wall s r c)) = b_scope (fst c)"
  by (simp_all add: transition_row_def Let_def)

lemma transition_row_log: "log_ok (snd c) \<Longrightarrow> log_ok (snd (transition_row pol wall s r c))"
  by (auto simp: transition_row_def Let_def transition_entry_def intro!: log_ok_snoc)

lemma transition_row_inv:
  assumes "log_ok (snd c)" "s \<noteq> BREAKER_OPEN"
    "1 \<le> b_wait_seconds (fst c)" "b_wait_seconds (fst c) \<le> M"
    "length (b_window (fst c)) \<le> W" "\<forall>x\<in>set (b_window (fst c)). fst x \<le> now"
  shows "cell_inv M W now (transition_row pol wall s r c)"
  using assms transition_row_log [of c pol wall s r]
  by (auto simp: cell_inv_def row_inv_def split: breaker_state.splits)

lemma open_row_inv:
  assumes "log_ok (snd c)" "0 \<le> jit" "jit \<le> 1" "r \<noteq> REASON_NONE"
    "1 \<le> b_wait_seconds (fst c)" "b_wait_seconds (fst c) \<le> M"
    "length (b_window (fst c)) \<le> W" "\<forall>x\<in>set (b_window (fst c)). fst x \<le> now"
  shows "cell_inv M W now (open_row pol now wall jit r c)"
proof -
  have "jit * max 1 (b_wait_seconds (fst c)) \<le> 1 * M"
    using assms by (intro mult_mono) auto
  with assms show ?thesis
    unfolding open_row_def Let_def
    by (auto simp: cell_inv_def row_inv_def intro!: transition_row_log)
qed

lemma open_row_key [simp]: "b_key (fst (open_row pol now wall jit r c)) = b_key (fst c)"
  by (simp add: open_row_def Let_def)

lemma open_row_state [simp]: "b_state (fst (open_row pol now wall jit r c)) = BREAKER_OPEN"
  by (simp add: open_row_def Let_def)

lemma probe_succeeded_key [simp]: "b_key (fst (probe_succeeded pol wall c)) = b_key (fst c)"
  by (simp add: probe_succeeded_def Let_def)

lemma settle_row_key [simp]: "b_key (fst (settle_row pol now wall c)) = b_key (fst c)"
  by (simp add: settle_row_def Let_def)

lemma probe_succeeded_inv:
  assumes inv: "cell_inv M W now c" and st: "b_state (fst c) \<noteq> BREAKER_CLOSED"
    and pol: "policy_within M W pol"
  shows "cell_inv M W now (probe_succeeded pol wall c)"
proof (cases "b_half_open_successes (fst c) + 1 < half_open_successes pol")
  case True
  with inv show ?thesis
    by (auto simp: probe_succeeded_def Let_def cell_inv_def row_inv_def split: breaker_state.splits)
next
  case False
  have "cell_inv M W now (transition_row pol wall BREAKER_CLOSED REASON_PROBE_SUCCEEDED
      ((fst c)\<lparr>b_half_open_successes := b_half_open_successes (fst c) + 1, b_window := [],
         b_wait_seconds := wait_seconds pol\<rparr>, snd c))"
    using inv policy_withinD [OF pol] wait_seconds_ge [of pol]
    by (intro transition_row_inv) (auto simp: cell_inv_def)
  with False show ?thesis by (simp add: probe_succeeded_def Let_def)
qed

lemma settle_row_inv:
  assumes inv: "cell_inv M W now c" and pol: "policy_within M W pol"
  shows "cell_inv M W now (settle_row pol now wall c)"
proof -
  define row1 where "row1 =
    (if b_window (fst c) \<noteq> [] \<and> outcome_max_age pol < now - fst (last (b_window (fst c)))
     then (fst c)\<lparr>b_window := [], b_failure_rate := None\<rparr> else fst c)"
  have r1: "row_inv M W now row1"
    using inv by (auto simp: row1_def cell_inv_def row_inv_def split: breaker_state.splits)
  have "cell_inv M W now (transition_row pol wall BREAKER_CLOSED REASON_EVIDENCE_AGED_OUT
      (row1\<lparr>b_wait_seconds := wait_seconds pol, b_half_open_successes := 0\<rparr>, snd c))"
    using r1 inv policy_withinD [OF pol] wait_seconds_ge [of pol]
    by (intro transition_row_inv) (auto simp: cell_inv_def row_inv_def)
  with r1 inv show ?thesis
    by (simp add: settle_row_def Let_def row1_def [symmetric] cell_inv_def)
qed

lemma fold_half_open_inv:
  assumes inv: "cell_inv M W now c" and st: "b_state (fst c) = BREAKER_HALF_OPEN"
    and pol: "policy_within M W pol" and jit: "0 \<le> jit" "jit \<le> 1"
  shows "cell_inv M W now (fold_half_open pol now wall jit ok fclass c)"
proof (cases ok)
  case True
  with probe_succeeded_inv [OF inv _ pol] st show ?thesis by (simp add: fold_half_open_def)
next
  case False
  have ge: "1 \<le> max_wait_seconds pol" using wait_le_max [of pol] wait_seconds_ge [of pol] by linarith
  have "cell_inv M W now (open_row pol now wall jit REASON_PROBE_FAILED
      ((fst c)\<lparr>b_wait_seconds := min (max_wait_seconds pol) (max 1 (b_wait_seconds (fst c)) * 2),
               b_trip_class := str_or fclass (b_trip_class (fst c))\<rparr>, snd c))"
    using inv ge jit policy_withinD [OF pol]
    by (intro open_row_inv) (auto simp: cell_inv_def row_inv_def)
  with False show ?thesis by (simp add: fold_half_open_def Let_def)
qed

lemma fold_closed_inv:
  assumes inv: "cell_inv M W now c" and pol: "policy_within M W pol" and jit: "0 \<le> jit" "jit \<le> 1"
  shows "cell_inv M W now (fold_closed pol now wall jit fclass imm ev c)"
proof -
  have opened: "cell_inv M W now (open_row pol now wall jit r
      ((fst c)\<lparr>b_trip_class := t, b_failure_rate := fr\<rparr>, snd c))"
    if "r \<noteq> REASON_NONE" for r t fr
    using inv jit that by (intro open_row_inv) (auto simp: cell_inv_def row_inv_def)
  from opened [where r = REASON_IMMEDIATE and t = fclass and fr = "b_failure_rate (fst c)"]
    opened [where r = REASON_FAILURE_RATE] inv
  show ?thesis by (simp add: fold_closed_def Let_def)
qed

lemma trim_row_inv:
  assumes "row_inv M W now row" "policy_within M W pol"
  shows "row_inv M W now (trim_row pol (row\<lparr>b_window := b_window row @ [(now, ok)]\<rparr>))"
  using assms set_keep_last [of "window_size pol" "b_window row @ [(now, ok)]"] policy_withinD(3) [OF assms(2)]
  by (fastforce simp: row_inv_def trim_row_def split: breaker_state.splits)

lemma trim_row_state [simp]: "b_state (trim_row pol row) = b_state row"
  by (simp add: trim_row_def)

lemma trim_row_key [simp]: "b_key (trim_row pol row) = b_key row"
  by (simp add: trim_row_def)

lemma fold_half_open_key [simp]:
  "b_key (fst (fold_half_open pol now wall jit ok fclass c)) = b_key (fst c)"
  by (simp add: fold_half_open_def Let_def)

lemma fold_closed_key [simp]:
  "b_key (fst (fold_closed pol now wall jit fclass imm ev c)) = b_key (fst c)"
  by (simp add: fold_closed_def Let_def)

lemma fold_row_key [simp]:
  "b_key (fst (fold_row pol now wall jit ok fclass imm ev c)) = b_key (fst c)"
  by (simp add: fold_row_def Let_def)

lemma fold_row_inv:
  assumes inv: "cell_inv M W now c" and pol: "policy_within M W pol" and jit: "0 \<le> jit" "jit \<le> 1"
  shows "cell_inv M W now (fold_row pol now wall jit ok fclass imm ev c)"
proof -
  define c1 where "c1 = settle_row pol now wall c"
  define row2 where "row2 = trim_row pol ((fst c1)\<lparr>b_window := b_window (fst c1) @ [(now, ok)]\<rparr>)"
  have i1: "cell_inv M W now c1" unfolding c1_def by (rule settle_row_inv [OF inv pol])
  have i2: "cell_inv M W now (row2, snd c1)"
    using i1 trim_row_inv [OF _ pol] by (simp add: cell_inv_def row2_def)
  have i3: "cell_inv M W now (transition_row pol wall BREAKER_HALF_OPEN REASON_OBSERVED_SUCCESS
      (row2\<lparr>b_half_open_successes := 0\<rparr>, snd c1))"
    using i2 by (intro transition_row_inv) (auto simp: cell_inv_def row_inv_def)
  from fold_half_open_inv [OF i1 _ pol jit] i2 probe_succeeded_inv [OF i3 _ pol]
    fold_closed_inv [OF i2 pol jit]
  show ?thesis
    by (auto simp: fold_row_def Let_def c1_def [symmetric] row2_def [symmetric])
qed

subsection \<open>The registry invariant\<close>

definition registry_inv :: "real \<Rightarrow> nat \<Rightarrow> real \<Rightarrow> (string, brow) dict \<Rightarrow> bool" where
  "registry_inv M W clock bs =
     (dict_ok bs \<and> (\<forall>k row. dget bs k = Some row \<longrightarrow> b_key row = k \<and> row_inv M W clock row))"

definition health_inv :: "real \<Rightarrow> nat \<Rightarrow> real \<Rightarrow> provider_health \<Rightarrow> bool" where
  "health_inv M W clock h =
     (policy_within M W (ph_policy h) \<and> registry_inv M W clock (ph_breakers h) \<and>
      log_ok (ph_transitions h))"

lemma registry_inv_dset:
  "registry_inv M W clock bs \<Longrightarrow> b_key row = k \<Longrightarrow> row_inv M W clock row \<Longrightarrow>
     registry_inv M W clock (dset bs k row)"
  by (auto simp: registry_inv_def)

lemma registry_inv_clock: "registry_inv M W clock bs \<Longrightarrow> clock \<le> now \<Longrightarrow> registry_inv M W now bs"
  by (auto simp: registry_inv_def intro: row_inv_clock)

lemma health_inv_clock: "health_inv M W clock h \<Longrightarrow> clock \<le> now \<Longrightarrow> health_inv M W now h"
  by (auto simp: health_inv_def intro: registry_inv_clock)

lemma new_row_inv:
  "policy_within M W pol \<Longrightarrow> row_inv M W clock (new_row pol key sc p c r m)"
  using wait_seconds_ge [of pol] policy_withinD [of M W pol]
  by (simp add: row_inv_def new_row_def)

lemma evict_get:
  "dget (evict_if_needed bs) k = Some row \<Longrightarrow> dget bs k = Some row"
  by (auto simp: evict_if_needed_def Let_def py_dict.get_del_many split: if_splits)

lemma evict_ok: "dict_ok bs \<Longrightarrow> dict_ok (evict_if_needed bs)"
  by (simp add: evict_if_needed_def Let_def py_dict.ok_del_many)

text \<open>Eviction never drops live safety state: a row that is not CLOSED survives it.\<close>

lemma evict_keeps_live:
  assumes ok: "dict_ok bs" and row: "dget bs k = Some row" and live: "b_state row \<noteq> BREAKER_CLOSED"
  shows "dget (evict_if_needed bs) k = Some row"
proof -
  let ?closed = "sort (map (\<lambda>(k, row). (length (b_window row), k))
      (filter (\<lambda>(k, row). b_state row = BREAKER_CLOSED) bs))"
  have "k \<notin> snd ` set ?closed"
  proof
    assume "k \<in> snd ` set ?closed"
    then obtain r where "(k, r) \<in> set bs" "b_state r = BREAKER_CLOSED" by auto
    with ok row live show False by (simp add: dget_eq_Some [symmetric])
  qed
  then have "k \<notin> set (map snd (take n ?closed))" for n
    using in_set_takeD by fastforce
  with row show ?thesis
    by (simp add: evict_if_needed_def Let_def py_dict.get_del_many)
qed

lemma registry_inv_evict:
  "registry_inv M W clock bs \<Longrightarrow> registry_inv M W clock (evict_if_needed bs)"
  by (auto simp: registry_inv_def evict_ok dest: evict_get)

lemma breaker_row_inv:
  assumes "registry_inv M W clock bs" "policy_within M W pol"
    "breaker_row pol key sc p c r m bs = (row, bs')"
  shows "registry_inv M W clock bs' \<and> row_inv M W clock row \<and> b_key row = key"
proof (cases "dget bs key")
  case (Some r0)
  with assms show ?thesis by (auto simp: breaker_row_def registry_inv_def)
next
  case None
  let ?new = "new_row pol key sc p c r m"
  have key: "b_key ?new = key" by (simp add: new_row_def)
  have "row = ?new" "bs' = dset (evict_if_needed bs) key ?new"
    using None assms(3) by (auto simp: breaker_row_def Let_def)
  with key new_row_inv [OF assms(2)] registry_inv_evict [OF assms(1)] show ?thesis
    by (simp add: registry_inv_dset)
qed

lemma fold_key_inv:
  assumes inv: "health_inv M W now h" and jit: "0 \<le> jit" "jit \<le> 1"
  shows "health_inv M W now (fold_key now wall jit key sc p c r m ok fclass imm h)"
proof -
  let ?rl = "if sc = SCOPE_PROVIDER then ''*'' else r" and ?ml = "if sc = SCOPE_PROVIDER then ''*'' else m"
  obtain row bs where br: "breaker_row (ph_policy h) key sc p c ?rl ?ml (ph_breakers h) = (row, bs)"
    by (cases "breaker_row (ph_policy h) key sc p c ?rl ?ml (ph_breakers h)") auto
  from inv have pol: "policy_within M W (ph_policy h)" by (simp add: health_inv_def)
  from breaker_row_inv [OF _ pol br] inv
  have reg: "registry_inv M W now bs" and ci: "cell_inv M W now (row, ph_transitions h)"
    and key: "b_key row = key"
    by (auto simp: health_inv_def cell_inv_def)
  define c' where "c' = fold_row (ph_policy h) now wall jit ok fclass (imm \<and> sc = SCOPE_PROVIDER)
      (sc = SCOPE_ROLE) (row, ph_transitions h)"
  have "cell_inv M W now c'" unfolding c'_def by (rule fold_row_inv [OF ci pol jit])
  moreover have "b_key (fst c') = key" by (simp add: c'_def key)
  moreover have "fold_key now wall jit key sc p c r m ok fclass imm h =
      h\<lparr>ph_breakers := dset bs key (fst c'), ph_transitions := snd c'\<rparr>"
    by (simp add: fold_key_def Let_def br c'_def split_beta)
  ultimately show ?thesis
    using pol reg by (simp add: health_inv_def cell_inv_def registry_inv_dset)
qed

lemma record_outcome_inv:
  assumes "health_inv M W now h" "\<And>sc. 0 \<le> jit sc \<and> jit sc \<le> 1"
  shows "health_inv M W now (record_outcome now wall jit p c r m ok fclass h)"
  using assms by (simp add: record_outcome_def Let_def fold_key_inv)

lemma put_health_row_inv [simp]:
  "health_inv M W clock (put_health_row p c row h) = health_inv M W clock h"
  by (simp add: health_inv_def put_health_row_def)

lemma settle_key_inv:
  assumes "health_inv M W now h"
  shows "health_inv M W now (settle_key now wall key h)"
proof (cases "dget (ph_breakers h) key")
  case None
  with assms show ?thesis by (simp add: settle_key_def)
next
  case (Some row)
  with assms have "cell_inv M W now (row, ph_transitions h)" "b_key row = key"
    by (auto simp: health_inv_def registry_inv_def cell_inv_def)
  with assms Some settle_row_inv [of M W now "(row, ph_transitions h)" "ph_policy h" wall]
  show ?thesis
    by (auto simp: settle_key_def health_inv_def cell_inv_def registry_inv_dset split: prod.splits)
      (metis fst_conv registry_inv_dset settle_row_key)
qed

lemma visit_key_inv:
  assumes inv: "health_inv M W now (fst hr)"
  shows "health_inv M W now (fst (visit_key now wall key hr))"
proof (cases "dget (ph_breakers (fst hr)) key")
  case None
  with inv show ?thesis by (simp add: visit_key_def Let_def)
next
  case (Some row)
  let ?h = "fst hr" let ?pol = "ph_policy ?h"
  let ?c1 = "settle_row ?pol now wall (row, ph_transitions ?h)"
  let ?c2 = "transition_row ?pol wall BREAKER_HALF_OPEN REASON_WAIT_ELAPSED ?c1"
  from inv Some have pol: "policy_within M W ?pol" and key: "b_key row = key"
    and ci: "cell_inv M W now (row, ph_transitions ?h)"
    by (auto simp: health_inv_def registry_inv_def cell_inv_def)
  have c1: "cell_inv M W now ?c1" by (rule settle_row_inv [OF ci pol])
  then have c2: "cell_inv M W now ?c2"
    by (intro transition_row_inv) (auto simp: cell_inv_def row_inv_def)
  have put: "health_inv M W now (?h\<lparr>ph_breakers := dset (ph_breakers ?h) key (fst c),
      ph_transitions := snd c\<rparr>)" if "cell_inv M W now c" "b_key (fst c) = key" for c
    using inv that by (simp add: health_inv_def cell_inv_def registry_inv_dset)
  from put [OF c1] put [OF c2] key show ?thesis
    by (simp add: visit_key_def Let_def Some split_beta split: breaker_state.split)
qed

lemma allows_inv:
  assumes "health_inv M W now h"
  shows "health_inv M W now (snd (allows now wall p c r m h))"
  using visit_key_inv [OF visit_key_inv [where hr = "(h, None)"]] assms
  by (auto simp: allows_def Let_def split_beta split: option.split prod.split)

lemma breaker_state_of_inv:
  "health_inv M W now h \<Longrightarrow> health_inv M W now (snd (breaker_state_of now wall p c r m h))"
  by (simp add: breaker_state_of_def Let_def settle_key_inv)

lemma settle_all_inv:
  assumes "health_inv M W now h"
  shows "health_inv M W now (settle_all now wall h)"
proof -
  have "health_inv M W now h \<Longrightarrow> health_inv M W now (foldl (\<lambda>h k. settle_key now wall k h) h ks)"
    for ks h by (induction ks arbitrary: h) (auto intro: settle_key_inv)
  with assms show ?thesis by (simp add: settle_all_def)
qed

lemma snapshot_inv:
  "health_inv M W now h \<Longrightarrow> health_inv M W now (snd (snapshot now wall h))"
  by (simp add: snapshot_def breaker_snapshot_def Let_def settle_all_inv)

subsection \<open>The tracker as a transition system\<close>

text \<open>
  Every public operation, at any later reading of the monotonic clock, with any jitter draws; a
  policy may be swapped at any time for another within the bounds.
\<close>

inductive health_step ::
  "real \<Rightarrow> nat \<Rightarrow> provider_health \<times> real \<Rightarrow> provider_health \<times> real \<Rightarrow> bool"
  for M :: real and W :: nat where
  hs_success: "clock \<le> now \<Longrightarrow> (\<And>sc. 0 \<le> jit sc \<and> jit sc \<le> 1) \<Longrightarrow>
     health_step M W (h, clock) (record_success now wall jit p m c r h, now)"
| hs_failure: "clock \<le> now \<Longrightarrow> (\<And>sc. 0 \<le> jit sc \<and> jit sc \<le> 1) \<Longrightarrow>
     health_step M W (h, clock) (record_failure now wall jit p f m c r h, now)"
| hs_allows: "clock \<le> now \<Longrightarrow>
     health_step M W (h, clock) (snd (allows now wall p c r m h), now)"
| hs_state: "clock \<le> now \<Longrightarrow>
     health_step M W (h, clock) (snd (breaker_state_of now wall p c r m h), now)"
| hs_snapshot: "clock \<le> now \<Longrightarrow>
     health_step M W (h, clock) (snd (snapshot now wall h), now)"
| hs_policy: "policy_within M W pol \<Longrightarrow> health_step M W (h, clock) (set_policy pol h, clock)"
| hs_reset: "health_step M W (h, clock) (reset_health h, clock)"

definition health_init :: "real \<Rightarrow> nat \<Rightarrow> provider_health \<times> real \<Rightarrow> bool" where
  "health_init M W s =
     (\<exists>threshold pol. policy_within M W pol \<and> fst s = new_provider_health threshold pol)"

lemma record_success_inv:
  assumes "health_inv M W now h" "\<And>sc. 0 \<le> jit sc \<and> jit sc \<le> 1"
  shows "health_inv M W now (record_success now wall jit p m c r h)"
  using assms by (simp add: record_success_def Let_def record_outcome_inv)

lemma record_failure_inv:
  assumes "health_inv M W now h" "\<And>sc. 0 \<le> jit sc \<and> jit sc \<le> 1"
  shows "health_inv M W now (record_failure now wall jit p f m c r h)"
  using assms by (simp add: record_failure_def Let_def record_outcome_inv)

lemmas health_op_inv [inv_rules] =
  record_success_inv record_failure_inv allows_inv breaker_state_of_inv snapshot_inv

lemma health_step_inv:
  "health_step M W s t \<Longrightarrow> health_inv M W (snd s) (fst s) \<Longrightarrow> health_inv M W (snd t) (fst t)"
proof (induction rule: health_step.induct)
  case (hs_policy pol h clock)
  then show ?case by (simp add: health_inv_def set_policy_def)
next
  case (hs_reset h clock)
  then show ?case by (simp add: health_inv_def reset_health_def registry_inv_def log_ok_def)
qed (auto intro!: health_op_inv dest: health_inv_clock)

interpretation breaker: safe_system "health_init M W" "health_step M W"
    "\<lambda>s. health_inv M W (snd s) (fst s)" for M W
proof unfold_locales
  fix s assume "health_init M W s"
  then show "health_inv M W (snd s) (fst s)"
    by (auto simp: health_init_def health_inv_def new_provider_health_def registry_inv_def log_ok_def)
next
  fix s t assume "health_inv M W (snd s) (fst s)" "health_step M W s t"
  then show "health_inv M W (snd t) (fst t)" using health_step_inv by blast
qed

subsection \<open>What refuses a call\<close>

definition row_refusal :: "real \<Rightarrow> brow option \<Rightarrow> (breaker_reason \<times> string) option" where
  "row_refusal now rw =
     (case rw of
        None \<Rightarrow> None
      | Some row \<Rightarrow>
          if b_state row = BREAKER_OPEN \<and> now < b_open_until row
          then Some ((if b_open_reason row = REASON_NONE then REASON_FAILURE_RATE
                      else b_open_reason row), b_trip_class row)
          else None)"

lemma settle_row_waiting:
  assumes "b_state (fst c) = BREAKER_OPEN" "now < b_open_until (fst c)"
  shows "b_state (fst (settle_row pol now wall c)) = BREAKER_OPEN"
    "b_open_until (fst (settle_row pol now wall c)) = b_open_until (fst c)"
    "b_open_reason (fst (settle_row pol now wall c)) = b_open_reason (fst c)"
    "b_trip_class (fst (settle_row pol now wall c)) = b_trip_class (fst c)"
  using assms by (auto simp: settle_row_def Let_def)

lemma settle_row_open:
  assumes "b_state (fst (settle_row pol now wall c)) = BREAKER_OPEN"
  shows "b_state (fst c) = BREAKER_OPEN \<and>
    b_open_until (fst (settle_row pol now wall c)) = b_open_until (fst c)"
  using assms by (auto simp: settle_row_def Let_def split: if_splits)

lemma visit_key_refusal:
  "snd (visit_key now wall key hr) =
     (case snd hr of Some r \<Rightarrow> Some r | None \<Rightarrow> row_refusal now (dget (ph_breakers (fst hr)) key))"
proof (cases "dget (ph_breakers (fst hr)) key")
  case None
  then show ?thesis by (simp add: visit_key_def row_refusal_def split: option.split)
next
  case (Some row)
  let ?c = "(row, ph_transitions (fst hr))"
  let ?c1 = "settle_row (ph_policy (fst hr)) now wall ?c"
  show ?thesis
  proof (cases "b_state row = BREAKER_OPEN \<and> now < b_open_until row")
    case True
    with Some settle_row_waiting [of ?c now "ph_policy (fst hr)" wall] show ?thesis
      by (simp add: visit_key_def Let_def split_beta row_refusal_def split: option.split)
  next
    case False
    have "b_state (fst ?c1) = BREAKER_OPEN \<Longrightarrow> b_open_until (fst ?c1) \<le> now"
      using settle_row_open [of "ph_policy (fst hr)" now wall ?c] False by auto
    with Some False show ?thesis
      by (auto simp: visit_key_def Let_def split_beta row_refusal_def
          split: option.split breaker_state.split)
  qed
qed

lemma visit_key_other:
  "k \<noteq> key \<Longrightarrow> dget (ph_breakers (fst (visit_key now wall key hr))) k =
     dget (ph_breakers (fst hr)) k"
  by (simp add: visit_key_def Let_def split_beta split: option.split breaker_state.split)

lemma visit_key_same_refusal:
  "row_refusal now (dget (ph_breakers (fst (visit_key now wall key hr))) key) =
     row_refusal now (dget (ph_breakers (fst hr)) key)"
proof (cases "dget (ph_breakers (fst hr)) key")
  case None
  then show ?thesis by (simp add: visit_key_def Let_def)
next
  case (Some row)
  let ?c = "(row, ph_transitions (fst hr))"
  let ?c1 = "settle_row (ph_policy (fst hr)) now wall ?c"
  show ?thesis
  proof (cases "b_state row = BREAKER_OPEN \<and> now < b_open_until row")
    case True
    with Some settle_row_waiting [of ?c now "ph_policy (fst hr)" wall] show ?thesis
      by (simp add: visit_key_def Let_def split_beta row_refusal_def)
  next
    case False
    have "b_state (fst ?c1) = BREAKER_OPEN \<Longrightarrow> b_open_until (fst ?c1) \<le> now"
      using settle_row_open [of "ph_policy (fst hr)" now wall ?c] False by auto
    with Some False show ?thesis
      by (auto simp: visit_key_def Let_def split_beta row_refusal_def split: breaker_state.split)
  qed
qed

definition call_refusal ::
  "real \<Rightarrow> string \<Rightarrow> string \<Rightarrow> string \<Rightarrow> string \<Rightarrow> provider_health \<Rightarrow> (breaker_reason \<times> string) option" where
  "call_refusal now p c r m h =
     (case row_refusal now (dget (ph_breakers h) (coarse_key p c)) of
        Some x \<Rightarrow> Some x
      | None \<Rightarrow> row_refusal now (dget (ph_breakers h) (breaker_key p c r m)))"

lemma allows_verdict:
  "fst (allows now wall p c r m h) =
     (if observing (ph_policy h) \<and> \<not> ignored p m \<and> enforcing (ph_policy h)
      then (case call_refusal now p c r m h of Some (rs, f) \<Rightarrow> (False, rs, f)
            | None \<Rightarrow> (True, REASON_NONE, []))
      else (True, REASON_NONE, []))"
proof -
  let ?v1 = "visit_key now wall (coarse_key p c) (h, None)"
  have "row_refusal now (dget (ph_breakers (fst ?v1)) (breaker_key p c r m)) =
      row_refusal now (dget (ph_breakers h) (breaker_key p c r m))"
    using visit_key_other [of "breaker_key p c r m" "coarse_key p c" now wall "(h, None)"]
      visit_key_same_refusal [of now wall "coarse_key p c" "(h, None)"]
    by (cases "breaker_key p c r m = coarse_key p c") auto
  then have "snd (visit_key now wall (breaker_key p c r m) ?v1) = call_refusal now p c r m h"
    by (simp add: visit_key_refusal call_refusal_def split: option.split)
  then show ?thesis
    by (auto simp: allows_def Let_def split_beta split: option.split prod.split)
qed

subsection \<open>Keys are told apart\<close>

lemma append_colon_eq:
  "CHR '':'' \<notin> set a \<Longrightarrow> CHR '':'' \<notin> set a' \<Longrightarrow>
     a @ CHR '':'' # b = a' @ CHR '':'' # b' \<longleftrightarrow> a = a' \<and> b = b'"
proof (induction a arbitrary: a')
  case Nil
  then show ?case by (cases a') auto
next
  case (Cons x a)
  then show ?case by (cases a') auto
qed

lemma breaker_key_inj:
  assumes "CHR '':'' \<notin> set r" "CHR '':'' \<notin> set r'" "CHR '':'' \<notin> set p" "CHR '':'' \<notin> set c"
    "breaker_key p c r m = breaker_key p c r' m'"
  shows "str_or r ''*'' = str_or r' ''*''"
  using assms append_colon_eq [of "str_or r ''*''" "str_or r' ''*''" "str_or m ''*''" "str_or m' ''*''"]
  by (auto simp: breaker_key_def str_or_def split: if_splits)

subsection \<open>The effect of one outcome on the rows\<close>

lemma fold_row_quiet:
  assumes "b_state (fst c) = BREAKER_CLOSED"
  shows "b_state (fst (fold_row pol now wall jit ok fclass False False c)) = BREAKER_CLOSED"
  using assms by (auto simp: fold_row_def settle_row_def fold_closed_def Let_def)

lemma fold_key_other:
  assumes "k \<noteq> key" "dict_ok (ph_breakers h)"
  shows "row_refusal t (dget (ph_breakers (fold_key now wall jit key sc p c r m ok f imm h)) k) =
    row_refusal t (dget (ph_breakers h) k)"
proof -
  have "row_refusal t (dget (evict_if_needed (ph_breakers h)) k) = row_refusal t (dget (ph_breakers h) k)"
    using evict_keeps_live [OF assms(2), of k] evict_get [of "ph_breakers h" k]
    by (cases "dget (evict_if_needed (ph_breakers h)) k"; cases "dget (ph_breakers h) k")
      (force simp: row_refusal_def)+
  with assms(1) show ?thesis
    by (auto simp: fold_key_def Let_def split_beta breaker_row_def split: option.split)
qed

lemma fold_key_dict_ok:
  "dict_ok (ph_breakers h) \<Longrightarrow> dict_ok (ph_breakers (fold_key now wall jit key sc p c r m ok f imm h))"
  by (auto simp: fold_key_def Let_def split_beta breaker_row_def evict_ok split: option.split)

lemma fold_key_coarse_quiet:
  assumes "\<forall>row. dget (ph_breakers h) key = Some row \<longrightarrow> b_state row = BREAKER_CLOSED"
  shows "row_refusal t (dget (ph_breakers
    (fold_key now wall jit key SCOPE_PROVIDER p c r m ok f False h)) key) = None"
proof -
  let ?br = "breaker_row (ph_policy h) key SCOPE_PROVIDER p c ''*'' ''*'' (ph_breakers h)"
  have "b_state (fst ?br) = BREAKER_CLOSED"
    using assms by (auto simp: breaker_row_def Let_def new_row_def split: option.split)
  then have "b_state (fst (fold_row (ph_policy h) now wall jit ok f False False
      (fst ?br, ph_transitions h))) = BREAKER_CLOSED"
    by (intro fold_row_quiet) simp
  then show ?thesis
    by (simp add: fold_key_def Let_def split_beta row_refusal_def)
qed

lemma fold_row_opens_on_rate:
  assumes "b_state (fst c) = BREAKER_CLOSED"
    "b_state (fst (fold_row pol now wall jit ok fclass False ev c)) \<noteq> BREAKER_CLOSED"
  shows "\<exists>w. b_window (fst (fold_row pol now wall jit ok fclass False ev c)) = w \<and> ev \<and>
     quorum pol \<le> length w \<and> length w \<le> window_size pol \<and>
     failure_rate_threshold pol * real (length w) \<le> real (window_failures w) \<and>
     b_open_reason (fst (fold_row pol now wall jit ok fclass False ev c)) = REASON_FAILURE_RATE"
proof -
  define c1 where "c1 = settle_row pol now wall c"
  define row2 where "row2 = trim_row pol ((fst c1)\<lparr>b_window := b_window (fst c1) @ [(now, ok)]\<rparr>)"
  have st1: "b_state (fst c1) = BREAKER_CLOSED"
    using assms(1) by (auto simp: c1_def settle_row_def Let_def)
  then have eq: "fold_row pol now wall jit ok fclass False ev c =
      fold_closed pol now wall jit fclass False ev (row2, snd c1)"
    by (simp add: fold_row_def Let_def c1_def [symmetric] row2_def)
  have len: "length (b_window row2) \<le> window_size pol" by (simp add: row2_def trim_row_def)
  let ?w = "b_window row2"
  have "b_state row2 = BREAKER_CLOSED" using st1 by (simp add: row2_def)
  with assms(2) have ev: "ev" "quorum pol \<le> length ?w"
    "failure_rate_threshold pol \<le> real (window_failures ?w) / real (length ?w)"
    by (auto simp: eq fold_closed_def Let_def split: if_splits)
  moreover have "0 < length ?w" using ev(2) quorum_pos [of pol] by linarith
  ultimately have rate: "failure_rate_threshold pol * real (length ?w) \<le> real (window_failures ?w)"
    by (simp add: pos_le_divide_eq)
  have "b_window (fst (fold_row pol now wall jit ok fclass False ev c)) = ?w \<and>
      b_open_reason (fst (fold_row pol now wall jit ok fclass False ev c)) = REASON_FAILURE_RATE"
    unfolding eq using ev by (simp add: fold_closed_def Let_def open_row_def)
  with ev len rate show ?thesis by blast
qed

lemma probe_run:
  assumes "b_state (fst c) = BREAKER_HALF_OPEN" "b_half_open_successes (fst c) = 0"
    "b_window (fst c) \<noteq> []" "outcome_max_age pol \<ge> now - fst (last (b_window (fst c)))"
    "int (Suc n) \<le> half_open_successes pol"
  shows "let c' = ((\<lambda>c. fold_row pol now wall jit True f imm ev c) ^^ Suc n) c in
     (if int (Suc n) < half_open_successes pol
      then b_state (fst c') = BREAKER_HALF_OPEN \<and> b_half_open_successes (fst c') = int (Suc n) \<and>
           b_window (fst c') = b_window (fst c)
      else b_state (fst c') = BREAKER_CLOSED \<and> b_window (fst c') = [] \<and>
           b_wait_seconds (fst c') = wait_seconds pol)"
  using assms(5)
proof (induction n)
  case 0
  have "settle_row pol now wall c = c"
    using assms by (simp add: settle_row_def Let_def)
  with assms show ?case
    by (auto simp: fold_row_def fold_half_open_def probe_succeeded_def Let_def)
next
  case (Suc n)
  let ?c = "((\<lambda>c. fold_row pol now wall jit True f imm ev c) ^^ Suc n) c"
  have IH: "b_state (fst ?c) = BREAKER_HALF_OPEN" "b_half_open_successes (fst ?c) = int (Suc n)"
    "b_window (fst ?c) = b_window (fst c)"
    using Suc by (simp_all add: Let_def)
  have "settle_row pol now wall ?c = ?c"
    using assms IH by (simp add: settle_row_def Let_def)
  then have "fold_row pol now wall jit True f imm ev ?c = probe_succeeded pol wall ?c"
    using IH by (simp add: fold_row_def fold_half_open_def Let_def)
  with IH Suc.prems show ?case
    by (auto simp: probe_succeeded_def Let_def)
qed

subsection \<open>Worst state\<close>

lemma worst_step_fold:
  "foldl worst_step w ss =
     (if w = STATE_UNAUTHENTICATED \<or> STATE_UNAUTHENTICATED \<in> set ss then STATE_UNAUTHENTICATED
      else if w \<noteq> STATE_OK then w
      else (case filter (\<lambda>s. s \<noteq> STATE_OK) ss of [] \<Rightarrow> STATE_OK | s # _ \<Rightarrow> s))"
  by (induction ss arbitrary: w) (auto simp: worst_step_def)

lemma first_bad_state:
  "filter (\<lambda>s. s \<noteq> STATE_OK) ss = s # rest \<Longrightarrow> s \<in> set ss \<and> s \<noteq> STATE_OK"
  by (metis (mono_tags, lifting) filter_eq_ConsD in_set_conv_decomp)

lemma worst_fold_unauth:
  "foldl worst_step STATE_OK ss = STATE_UNAUTHENTICATED \<longleftrightarrow> STATE_UNAUTHENTICATED \<in> set ss"
proof (cases "filter (\<lambda>s. s \<noteq> STATE_OK) ss")
  case Nil
  then show ?thesis by (simp add: worst_step_fold)
next
  case (Cons s rest)
  with first_bad_state [OF Cons] show ?thesis by (auto simp: worst_step_fold)
qed

lemma worst_fold_ok:
  "foldl worst_step STATE_OK ss \<noteq> STATE_OK \<longleftrightarrow> (\<exists>s\<in>set ss. s \<noteq> STATE_OK)"
proof (cases "filter (\<lambda>s. s \<noteq> STATE_OK) ss")
  case Nil
  then have "\<forall>s\<in>set ss. s = STATE_OK" by (simp add: filter_empty_conv)
  with Nil show ?thesis by (auto simp: worst_step_fold)
next
  case (Cons s rest)
  with first_bad_state [OF Cons] show ?thesis by (auto simp: worst_step_fold)
qed

subsection \<open>Properties\<close>

text \<open>
  C33. In every state the tracker can reach, whatever the interleaving of outcomes, admission
  checks, reads, policy swaps within the bounds and resets: every ring holds at most \<open>W\<close>
  samples, every back-off lies between one second and \<open>M\<close>, a CLOSED key carries no refusal
  data, an OPEN key has a recorded reason and re-admits at most \<open>M\<close> seconds after the latest
  event, the transition log holds at most 200 entries and none of them is a self-loop.
\<close>

theorem breaker_reachable_invariant:
  assumes "reach (health_init M W) (health_step M W) (h, clock)"
  shows "length (ph_transitions h) \<le> 200 \<and> (\<forall>t\<in>set (ph_transitions h). t_from t \<noteq> t_to t) \<and>
    (\<forall>k row. dget (ph_breakers h) k = Some row \<longrightarrow>
       b_key row = k \<and> length (b_window row) \<le> W \<and>
       1 \<le> b_wait_seconds row \<and> b_wait_seconds row \<le> M \<and>
       (b_state row = BREAKER_CLOSED \<longrightarrow>
          b_open_until row = 0 \<and> b_open_reason row = REASON_NONE \<and> b_trip_class row = []) \<and>
       (b_state row = BREAKER_OPEN \<longrightarrow>
          b_open_until row \<le> clock + M \<and> b_open_reason row \<noteq> REASON_NONE))"
proof -
  from breaker.reach_inv [OF assms] have "health_inv M W clock h" by simp
  then show ?thesis
    by (auto simp: health_inv_def log_ok_def MAX_TRANSITIONS_def registry_inv_def row_inv_def
        split: breaker_state.splits)
qed

lemma default_policy_within: "policy_within 600 20 None"
  by (simp add: policy_within_def max_wait_seconds_def wait_seconds_def window_size_def pget_def)

lemma breaker_example_reachable:
  "reach (health_init 600 20) (health_step 600 20)
     (record_failure 5 5 (\<lambda>_. 1/2) ''openai'' ''unauthenticated'' ''gpt'' ''completion'' ''router''
        (new_provider_health 3 None), 5)"
  by (rule reach.reach_next [OF reach.reach_start [of _ "(new_provider_health 3 None, 0)"]])
    (auto simp: health_init_def intro: default_policy_within intro!: hs_failure)

theorem breaker_reachable_invariant_witness:
  "\<exists>h. reach (health_init 600 20) (health_step 600 20) (h, 5) \<and>
     length (ph_transitions h) \<le> 200 \<and>
     (\<forall>k row. dget (ph_breakers h) k = Some row \<longrightarrow> b_wait_seconds row \<le> 600)"
  using breaker_example_reachable breaker_reachable_invariant [OF breaker_example_reachable]
  by blast

text \<open>
  The breaker can delay work but never stop it: in a reachable state whose latest event was at
  \<open>clock\<close>, a call is refused only if refusal was switched on by the operator, only before
  \<open>clock + M\<close>, and only because its own key or its provider's key is OPEN and still waiting.
\<close>

theorem allows_refusal_bounded:
  assumes "reach (health_init M W) (health_step M W) (h, clock)"
    and "\<not> fst (fst (allows now wall p c r m h))"
  shows "enforcing (ph_policy h) \<and> now < clock + M \<and>
    (\<exists>k row. k \<in> {coarse_key p c, breaker_key p c r m} \<and> dget (ph_breakers h) k = Some row \<and>
       b_state row = BREAKER_OPEN \<and> now < b_open_until row)"
proof -
  from breaker.reach_inv [OF assms(1)] have inv: "health_inv M W clock h" by simp
  from assms(2) have enf: "enforcing (ph_policy h)" and "call_refusal now p c r m h \<noteq> None"
    by (auto simp: allows_verdict split: if_splits option.splits)
  then obtain k row where k: "k \<in> {coarse_key p c, breaker_key p c r m}"
    "dget (ph_breakers h) k = Some row" "b_state row = BREAKER_OPEN" "now < b_open_until row"
    by (fastforce simp: call_refusal_def row_refusal_def split: option.splits if_splits)
  with inv have "row_inv M W clock row" by (auto simp: health_inv_def registry_inv_def)
  with k(3) have "b_open_until row \<le> clock + M" by (simp add: row_inv_def)
  with k have "now < clock + M" by linarith
  with enf k show ?thesis by blast
qed

definition enforcing_policy :: "resilience option" where
  "enforcing_policy = Some \<lparr>rp_enabled = None, rp_enforce = Some True, rp_window_size = None,
     rp_minimum_calls = None, rp_failure_rate_threshold = None, rp_wait_seconds = None,
     rp_max_wait_seconds = None, rp_half_open_successes = None, rp_outcome_max_age_seconds = None\<rparr>"

definition tripped_example :: provider_health where
  "tripped_example = record_failure 5 5 (\<lambda>_. 1/2) ''openai'' ''unauthenticated'' ''gpt''
     ''completion'' ''router'' (new_provider_health 3 enforcing_policy)"

lemma tripped_example_reachable:
  "reach (health_init 600 20) (health_step 600 20) (tripped_example, 5)"
proof -
  have "policy_within 600 20 enforcing_policy"
    by (simp add: policy_within_def max_wait_seconds_def wait_seconds_def window_size_def pget_def
        enforcing_policy_def)
  then show ?thesis
    unfolding tripped_example_def
    by (intro reach.reach_next [OF reach.reach_start [of _ "(new_provider_health 3 enforcing_policy, 0)"]])
      (auto simp: health_init_def intro!: hs_failure)
qed

lemmas breaker_eval =
  record_failure_def record_outcome_def fold_key_def breaker_row_def fold_row_def settle_row_def
  trim_row_def fold_closed_def fold_half_open_def open_row_def transition_row_def probe_succeeded_def
  new_row_def health_row_def put_health_row_def new_provider_health_def enforcing_policy_def
  observing_def enforcing_def pget_def ignored_def IGNORED_PROVIDERS_def py_lower_def lower_char_def
  coarse_key_def breaker_key_def health_key_def str_or_def CHANNEL_COMPLETION_def
  IMMEDIATE_TRIP_CLASSES_def evict_if_needed_def MAX_BREAKER_KEYS_def window_size_def keep_last_def
  quorum_def wait_seconds_def max_wait_seconds_def outcome_max_age_def half_open_successes_def Let_def

lemma tripped_example_row:
  "\<exists>row. dget (ph_breakers tripped_example) (coarse_key ''openai'' ''completion'') = Some row \<and>
     b_state row = BREAKER_OPEN \<and> b_open_until row = 35 \<and> enforcing (ph_policy tripped_example)"
  by (simp add: tripped_example_def breaker_eval dset_def dget_def)

theorem allows_refusal_bounded_witness:
  "\<not> fst (fst (allows 10 10 ''openai'' ''completion'' ''router'' ''gpt'' tripped_example)) \<and>
   (10::real) < 5 + 600"
proof -
  have "\<not> fst (fst (allows 10 10 ''openai'' ''completion'' ''router'' ''gpt'' tripped_example))"
    using tripped_example_row
    by (auto simp: allows_verdict call_refusal_def row_refusal_def observing_def enforcing_def
        ignored_def IGNORED_PROVIDERS_def py_lower_def lower_char_def split: option.split)
  with allows_refusal_bounded [OF tripped_example_reachable this] show ?thesis by simp
qed

text \<open>
  Roles do not borrow each other's evidence: while the provider-wide key is CLOSED (or absent),
  an ordinary failure of one role leaves the admission verdict of every other role on the same
  provider and channel exactly as it was. Provider, channel and role names contain no colon.
\<close>

theorem role_failure_isolated:
  assumes "dict_ok (ph_breakers h)"
    and "fclass \<notin> IMMEDIATE_TRIP_CLASSES"
    and "\<forall>row. dget (ph_breakers h) (coarse_key p c) = Some row \<longrightarrow> b_state row = BREAKER_CLOSED"
    and "CHR '':'' \<notin> set p" "CHR '':'' \<notin> set c" "CHR '':'' \<notin> set r" "CHR '':'' \<notin> set r'"
    and "r \<noteq> r'" "r \<notin> {[], ''*''}" "r' \<notin> {[], ''*''}"
  shows "fst (allows t wall' p c r' m' (record_failure now wall jit p fclass m c r h)) =
     fst (allows t wall' p c r' m' h)"
proof (cases "ignored p m \<or> fclass = ''not_configured'' \<or> \<not> observing (ph_policy h)")
  case True
  then show ?thesis
    by (auto simp: record_failure_def record_outcome_def Let_def put_health_row_def allows_verdict
        call_refusal_def)
next
  case False
  let ?co = "coarse_key p c" let ?fi = "breaker_key p c r m" let ?fi' = "breaker_key p c r' m'"
  have ne: "?fi' \<noteq> ?co" "?fi' \<noteq> ?fi" "?fi \<noteq> ?co"
    using assms breaker_key_inj [of r' "''*''" p c m' "''*''"] breaker_key_inj [of r' r p c m' m]
      breaker_key_inj [of r "''*''" p c m "''*''"]
    by (auto simp: coarse_key_def str_or_def split: if_splits)
  define h0 where "h0 = put_health_row p c ((health_row p c h)\<lparr>last_attempt_at := Some wall,
      last_failure_class := fclass, consecutive_failures := consecutive_failures (health_row p c h) + 1,
      last_failure_at := Some wall\<rparr>) h"
  define h1 where "h1 = fold_key now wall (jit SCOPE_PROVIDER) ?co SCOPE_PROVIDER p c r m False fclass
      False h0"
  have rec: "record_failure now wall jit p fclass m c r h =
      fold_key now wall (jit SCOPE_ROLE) ?fi SCOPE_ROLE p c r m False fclass False h1"
    using False assms(2)
    by (simp add: record_failure_def record_outcome_def Let_def h1_def h0_def put_health_row_def)
  have ok0: "dict_ok (ph_breakers h0)" and b0: "ph_breakers h0 = ph_breakers h"
    using assms(1) by (simp_all add: h0_def put_health_row_def)
  have ok1: "dict_ok (ph_breakers h1)" unfolding h1_def by (rule fold_key_dict_ok [OF ok0])
  have co: "row_refusal t (dget (ph_breakers (record_failure now wall jit p fclass m c r h)) ?co) = None"
    using fold_key_coarse_quiet [of h0 ?co] assms(3) ne b0
      fold_key_other [of ?co ?fi h1, OF _ ok1]
    by (simp add: rec h1_def)
  have fi: "row_refusal t (dget (ph_breakers (record_failure now wall jit p fclass m c r h)) ?fi') =
      row_refusal t (dget (ph_breakers h) ?fi')"
    using fold_key_other [of ?fi' ?fi h1, OF ne(2) ok1]
      fold_key_other [of ?fi' ?co h0, OF ne(1) ok0] b0
    by (simp add: rec h1_def)
  have co0: "row_refusal t (dget (ph_breakers h) ?co) = None"
    using assms(3) by (auto simp: row_refusal_def split: option.split)
  have "ph_policy (record_failure now wall jit p fclass m c r h) = ph_policy h"
    by (simp add: rec fold_key_def h1_def h0_def put_health_row_def Let_def split_beta)
  then show ?thesis by (simp add: allows_verdict call_refusal_def co co0 fi)
qed

theorem role_failure_isolated_witness:
  "fst (allows 9 9 ''openai'' ''completion'' ''investigator'' ''gpt''
     (record_failure 5 5 (\<lambda>_. 1/2) ''openai'' ''unavailable'' ''gpt'' ''completion'' ''router''
        (new_provider_health 3 enforcing_policy))) = (True, REASON_NONE, [])"
proof -
  let ?h = "new_provider_health 3 enforcing_policy"
  have "fst (allows 9 9 ''openai'' ''completion'' ''investigator'' ''gpt''
     (record_failure 5 5 (\<lambda>_. 1/2) ''openai'' ''unavailable'' ''gpt'' ''completion'' ''router'' ?h)) =
     fst (allows 9 9 ''openai'' ''completion'' ''investigator'' ''gpt'' ?h)"
    by (rule role_failure_isolated) (simp_all add: new_provider_health_def IMMEDIATE_TRIP_CLASSES_def)
  also have "\<dots> = (True, REASON_NONE, [])"
    by (simp add: allows_verdict call_refusal_def row_refusal_def new_provider_health_def)
  finally show ?thesis .
qed

text \<open>
  A key trips on a failure rate only with the evidence it still holds: when a CLOSED row is
  folded with an outcome that is not an immediate-trip class and leaves the CLOSED state, then the
  row is one that evaluates rates (never the provider-wide one), the ring it now stores has reached
  the quorum, and at least the configured share of it, never less than one half, are failures.
\<close>

theorem rate_trip_needs_quorum:
  assumes "b_state (fst c) = BREAKER_CLOSED"
    and "b_state (fst (fold_row pol now wall jit ok fclass False evaluate_rate c)) \<noteq> BREAKER_CLOSED"
  shows "evaluate_rate \<and>
    (let w = b_window (fst (fold_row pol now wall jit ok fclass False evaluate_rate c)) in
       quorum pol \<le> length w \<and> length w \<le> window_size pol \<and>
       real (length w) \<le> 2 * real (window_failures w) \<and>
       failure_rate_threshold pol * real (length w) \<le> real (window_failures w))"
proof -
  from fold_row_opens_on_rate [OF assms] obtain w
    where w: "b_window (fst (fold_row pol now wall jit ok fclass False evaluate_rate c)) = w"
      "evaluate_rate" "quorum pol \<le> length w" "length w \<le> window_size pol"
      "failure_rate_threshold pol * real (length w) \<le> real (window_failures w)" by blast
  have "1/2 * real (length w) \<le> failure_rate_threshold pol * real (length w)"
    using failure_rate_threshold_ge [of pol] by (intro mult_right_mono) auto
  with w show ?thesis by (simp add: Let_def)
qed

definition pair_policy :: "resilience option" where
  "pair_policy = Some \<lparr>rp_enabled = None, rp_enforce = Some True, rp_window_size = Some 2,
     rp_minimum_calls = Some 2, rp_failure_rate_threshold = None, rp_wait_seconds = None,
     rp_max_wait_seconds = None, rp_half_open_successes = None, rp_outcome_max_age_seconds = None\<rparr>"

theorem rate_trip_needs_quorum_witness:
  "let c = ((new_row pair_policy ''k'' SCOPE_ROLE ''p'' ''c'' ''r'' ''m'')\<lparr>b_window := [(1, True)]\<rparr>, []);
       c' = fold_row pair_policy 2 2 0 False ''unavailable'' False True c
   in b_state (fst c) = BREAKER_CLOSED \<and> b_state (fst c') = BREAKER_OPEN \<and>
      2 \<le> length (b_window (fst c'))"
proof -
  let ?c = "((new_row pair_policy ''k'' SCOPE_ROLE ''p'' ''c'' ''r'' ''m'')\<lparr>b_window := [(1, True)]\<rparr>,
     [] :: transition list)"
  let ?c' = "fold_row pair_policy 2 2 0 False ''unavailable'' False True ?c"
  have cl: "b_state (fst ?c) = BREAKER_CLOSED" by (simp add: new_row_def)
  have op: "b_state (fst ?c') = BREAKER_OPEN"
    by (simp add: fold_row_def settle_row_def trim_row_def fold_closed_def open_row_def
        transition_row_def new_row_def pair_policy_def window_size_def quorum_def pget_def
        outcome_max_age_def failure_rate_threshold_def window_failures_def keep_last_def Let_def)
  from rate_trip_needs_quorum [OF cl, of pair_policy 2 2 0 False "''unavailable''" True] op
  have "quorum pair_policy \<le> length (b_window (fst ?c'))" by (simp add: Let_def)
  moreover have "quorum pair_policy = 2"
    by (simp add: quorum_def window_size_def pget_def pair_policy_def)
  ultimately show ?thesis using cl op by (simp add: Let_def)
qed

text \<open>
  Recovery terminates: a HALF\_OPEN key that sees the configured number of successful probes in
  a row, within the evidence age, is CLOSED with an empty ring and the base back-off; one success
  fewer leaves it HALF\_OPEN.
\<close>

theorem half_open_recovers:
  assumes "b_state (fst c) = BREAKER_HALF_OPEN" "b_half_open_successes (fst c) = 0"
    and "b_window (fst c) \<noteq> []" "now - fst (last (b_window (fst c))) \<le> outcome_max_age pol"
    and "1 \<le> n" "int n \<le> half_open_successes pol"
  shows "b_state (fst (((\<lambda>c. fold_row pol now wall jit True f imm ev c) ^^ n) c)) =
     (if int n < half_open_successes pol then BREAKER_HALF_OPEN else BREAKER_CLOSED) \<and>
   (int n = half_open_successes pol \<longrightarrow>
      b_window (fst (((\<lambda>c. fold_row pol now wall jit True f imm ev c) ^^ n) c)) = [] \<and>
      b_wait_seconds (fst (((\<lambda>c. fold_row pol now wall jit True f imm ev c) ^^ n) c)) =
        wait_seconds pol)"
proof -
  obtain k where k: "n = Suc k" using assms(5) by (cases n) auto
  from probe_run [where c = c and pol = pol and now = now and n = k and wall = wall and jit = jit
      and f = f and imm = imm and ev = ev] assms show ?thesis
    unfolding k Let_def by (simp del: funpow.simps split: if_splits)
qed

theorem half_open_recovers_witness:
  "let c = ((new_row None ''k'' SCOPE_ROLE ''p'' ''c'' ''r'' ''m'')
              \<lparr>b_state := BREAKER_HALF_OPEN, b_window := [(1, False)]\<rparr>, [])
   in b_state (fst (((\<lambda>c. fold_row None 2 2 0 True [] False True c) ^^ 2) c)) = BREAKER_CLOSED"
proof -
  let ?c = "((new_row None ''k'' SCOPE_ROLE ''p'' ''c'' ''r'' ''m'')
              \<lparr>b_state := BREAKER_HALF_OPEN, b_window := [(1, False)]\<rparr>, [] :: transition list)"
  have "half_open_successes None = 2" by (simp add: half_open_successes_def pget_def)
  with half_open_recovers [of ?c 2 None 2 2 0 "[]" False True]
  show ?thesis by (simp add: new_row_def outcome_max_age_def pget_def Let_def)
qed

text \<open>
  The health summary: the snapshot reports degraded exactly when some tracked channel is in a
  state other than ok, and reports \<open>unauthenticated\<close> whenever any channel is, whatever the
  order in which the channels are listed.
\<close>

theorem snapshot_worst_state:
  "(hv_degraded (fst (snapshot now wall h)) \<longleftrightarrow>
     (\<exists>(name, row)\<in>set (ph_providers h). state_for wall (p_provider row) (p_channel row) h \<noteq> STATE_OK)) \<and>
   (hv_state (fst (snapshot now wall h)) = STATE_UNAUTHENTICATED \<longleftrightarrow>
     (\<exists>(name, row)\<in>set (ph_providers h).
        state_for wall (p_provider row) (p_channel row) h = STATE_UNAUTHENTICATED))"
proof -
  define ss where "ss = map (\<lambda>(name, row). state_for wall (p_provider row) (p_channel row) h)
     (sort_key fst (ph_providers h))"
  have st: "hv_state (fst (snapshot now wall h)) = foldl worst_step STATE_OK ss"
    by (simp add: snapshot_def snapshot_worst_def Let_def split_beta ss_def foldl_map case_prod_unfold)
  have dg: "hv_degraded (fst (snapshot now wall h)) \<longleftrightarrow> foldl worst_step STATE_OK ss \<noteq> STATE_OK"
    by (simp add: snapshot_def snapshot_worst_def Let_def split_beta ss_def foldl_map case_prod_unfold)
  have set_ss: "set ss = (\<lambda>(name, row). state_for wall (p_provider row) (p_channel row) h) ` set (ph_providers h)"
    by (simp add: ss_def)
  have nok: "foldl worst_step STATE_OK ss \<noteq> STATE_OK \<longleftrightarrow> (\<exists>s\<in>set ss. s \<noteq> STATE_OK)"
    and un: "foldl worst_step STATE_OK ss = STATE_UNAUTHENTICATED \<longleftrightarrow> STATE_UNAUTHENTICATED \<in> set ss"
    by (simp_all add: worst_fold_ok worst_fold_unauth)
  show ?thesis
    unfolding dg nok st un set_ss by force
qed

end
