(* ===== verification/Py_Json.thy ===== *)
theory Py_Json
  imports Prelude
begin

section \<open>Documents\<close>

text \<open>
  The JSON-like values that events, job parameters and stored rows are made of, with the built-in
  conversions the code applies to them (\<^verbatim>\<open>bool\<close>, \<^verbatim>\<open>str\<close>, \<^verbatim>\<open>str.split\<close>, \<^verbatim>\<open>str.join\<close>)
  and \<^verbatim>\<open>app.utils.dotted_get\<close>, which reads a dotted path from a nested or flattened document.
  The textual form of a float or of a container is a parameter \<open>shw\<close> of the conversions: no
  property depends on how Python spells those.
\<close>

datatype json =
    JNull
  | JBool bool
  | JInt int
  | JFloat real
  | JStr string
  | JList "json list"
  | JDict "(string \<times> json) list"

subsection \<open>Decimal numerals\<close>

fun digits_of :: "nat \<Rightarrow> string" where
  "digits_of n = (if n < 10 then [char_of (48 + n)] else digits_of (n div 10) @ [char_of (48 + n mod 10)])"

declare digits_of.simps [simp del]

definition str_int :: "int \<Rightarrow> string" where
  "str_int i = (if i < 0 then CHR ''-'' # digits_of (nat (- i)) else digits_of (nat i))"

definition digit_char :: "char \<Rightarrow> bool" where
  "digit_char c = (48 \<le> (of_char c :: nat) \<and> (of_char c :: nat) \<le> 57)"

definition digit_val :: "char \<Rightarrow> nat" where
  "digit_val c = of_char c - 48"

text \<open>The value of a run of digits, most significant first.\<close>

definition nat_of_digits :: "string \<Rightarrow> nat" where
  "nat_of_digits s = foldl (\<lambda>n c. 10 * n + digit_val c) 0 s"

lemma digit_char_of [simp]: "(n :: nat) < 10 \<Longrightarrow> digit_char (char_of (48 + n))"
  by (simp add: digit_char_def)

lemma digit_val_of [simp]: "(n :: nat) < 10 \<Longrightarrow> digit_val (char_of (48 + n)) = n"
  by (simp add: digit_val_def)

lemma nat_of_digits_snoc: "nat_of_digits (s @ [c]) = 10 * nat_of_digits s + digit_val c"
  by (simp add: nat_of_digits_def)

lemma nat_of_digits_of [simp]: "nat_of_digits (digits_of n) = n"
proof (induction n rule: digits_of.induct)
  case (1 n)
  show ?case
  proof (cases "n < 10")
    case True
    then show ?thesis by (simp add: digits_of.simps [of n] nat_of_digits_def)
  next
    case False
    with 1 show ?thesis
      by (simp add: digits_of.simps [of n] nat_of_digits_snoc)
  qed
qed

lemma digits_of_digits: "\<forall>c \<in> set (digits_of n). digit_char c"
proof (induction n rule: digits_of.induct)
  case (1 n)
  then show ?case by (cases "n < 10") (auto simp: digits_of.simps [of n])
qed

lemma digits_of_nonempty [simp]: "digits_of n \<noteq> []"
  by (subst digits_of.simps) simp

lemma digits_of_inj: "digits_of m = digits_of n \<longleftrightarrow> m = n"
  by (metis nat_of_digits_of)

subsection \<open>Truth and text of a value\<close>

fun truthy :: "json \<Rightarrow> bool" where
  "truthy JNull = False"
| "truthy (JBool b) = b"
| "truthy (JInt i) = (i \<noteq> 0)"
| "truthy (JFloat x) = (x \<noteq> 0)"
| "truthy (JStr s) = (s \<noteq> [])"
| "truthy (JList xs) = (xs \<noteq> [])"
| "truthy (JDict d) = (d \<noteq> [])"

fun py_str :: "(json \<Rightarrow> string) \<Rightarrow> json \<Rightarrow> string" where
  "py_str shw JNull = ''None''"
| "py_str shw (JBool b) = (if b then ''True'' else ''False'')"
| "py_str shw (JInt i) = str_int i"
| "py_str shw (JStr s) = s"
| "py_str shw v = shw v"

text \<open>
  \<^verbatim>\<open>float(v)\<close>, with \<open>None\<close> for the \<^verbatim>\<open>TypeError\<close> or \<^verbatim>\<open>ValueError\<close> it raises; \<open>fl\<close> is the
  reading of numeric text. \<^verbatim>\<open>float(v or 0.0)\<close> is \<open>float_or_0\<close>.
\<close>

fun py_float :: "(string \<Rightarrow> real option) \<Rightarrow> json \<Rightarrow> real option" where
  "py_float fl (JBool b) = Some (if b then 1 else 0)"
| "py_float fl (JInt i) = Some (of_int i)"
| "py_float fl (JFloat x) = Some x"
| "py_float fl (JStr s) = fl s"
| "py_float fl v = None"

definition float_or_0 :: "(string \<Rightarrow> real option) \<Rightarrow> json \<Rightarrow> real option" where
  "float_or_0 fl v = (if truthy v then py_float fl v else Some 0)"

text \<open>\<^verbatim>\<open>doc.get(key)\<close> on a document, with \<^verbatim>\<open>None\<close> for an absent key.\<close>

definition jget :: "(string \<times> json) list \<Rightarrow> string \<Rightarrow> json" where
  "jget d k = (case dget d k of None \<Rightarrow> JNull | Some v \<Rightarrow> v)"

text \<open>The rows an iteration over a value visits; \<open>None\<close> where it is not iterable.\<close>

fun iter_rows :: "json \<Rightarrow> json list option" where
  "iter_rows (JList xs) = Some xs"
| "iter_rows (JDict d) = Some (map (JStr \<circ> fst) d)"
| "iter_rows (JStr s) = Some (map (\<lambda>c. JStr [c]) s)"
| "iter_rows v = None"

subsection \<open>Splitting and joining\<close>

fun split_on :: "char \<Rightarrow> string \<Rightarrow> string list" where
  "split_on c [] = [[]]"
| "split_on c (x # xs) =
     (if x = c then [] # split_on c xs
      else case split_on c xs of [] \<Rightarrow> [[x]] | p # ps \<Rightarrow> (x # p) # ps)"

fun join_with :: "string \<Rightarrow> string list \<Rightarrow> string" where
  "join_with sep [] = []"
| "join_with sep [p] = p"
| "join_with sep (p # q # ps) = p @ sep @ join_with sep (q # ps)"

lemma split_on_nonempty [simp]: "split_on c s \<noteq> []"
  by (induction s) (auto split: list.splits)

lemma join_split [simp]: "join_with [c] (split_on c s) = s"
proof (induction s)
  case (Cons x xs)
  then show ?case
    by (cases "split_on c xs"; cases "tl (split_on c xs)") auto
qed simp

lemma split_on_parts: "p \<in> set (split_on c s) \<Longrightarrow> c \<notin> set p"
  by (induction s arbitrary: p) (auto split: list.splits if_splits)

lemma split_on_plain: "c \<notin> set p \<Longrightarrow> split_on c p = [p]"
  by (induction p) auto

lemma split_on_append: "c \<notin> set p \<Longrightarrow> split_on c (p @ c # s) = p # split_on c s"
  by (induction p) auto

lemma split_join:
  "ps \<noteq> [] \<Longrightarrow> \<forall>p \<in> set ps. c \<notin> set p \<Longrightarrow> split_on c (join_with [c] ps) = ps"
proof (induction ps rule: induct_list012)
  case (3 p q ps)
  then show ?case by (simp add: split_on_append)
qed (auto simp: split_on_plain)

subsection \<open>Dotted paths\<close>

fun walk_path :: "json \<Rightarrow> string list \<Rightarrow> json option" where
  "walk_path cur [] = Some cur"
| "walk_path (JDict d) (part # parts) =
     (case dget d part of None \<Rightarrow> None | Some v \<Rightarrow> walk_path v parts)"
| "walk_path cur (part # parts) = None"

definition dotted_get :: "(string \<times> json) list \<Rightarrow> string \<Rightarrow> json \<Rightarrow> json" where
  "dotted_get doc path dflt =
     (if path = [] then dflt
      else case dget doc path of
             Some v \<Rightarrow> v
           | None \<Rightarrow> (case walk_path (JDict doc) (split_on CHR ''.'' path) of
                        Some v \<Rightarrow> v | None \<Rightarrow> dflt))"

text \<open>The flattened key wins over the nested one; a path of one part is a plain lookup.\<close>

lemma dotted_get_flat: "path \<noteq> [] \<Longrightarrow> dget doc path = Some v \<Longrightarrow> dotted_get doc path dflt = v"
  by (simp add: dotted_get_def)

lemma dotted_get_single:
  "path \<noteq> [] \<Longrightarrow> CHR ''.'' \<notin> set path \<Longrightarrow>
     dotted_get doc path dflt = (case dget doc path of Some v \<Rightarrow> v | None \<Rightarrow> dflt)"
  by (simp add: dotted_get_def split_on_plain split: option.splits)

end
