(* ===== verification/Case_Budget.thy ===== *)
theory Case_Budget
  imports Py_Json
begin

section \<open>The per-case cost gate and the investigation loop it bounds\<close>

text \<open>
  \<^verbatim>\<open>engine/cost_gate.py\<close>: suppression (\<open>passes_suppression\<close>) and the per-case budget of
  tool calls, tokens and time (\<open>case_budget\<close>), together with its only client, the ReAct loop of
  \<^verbatim>\<open>agents/investigator.py\<close> (\<open>react_loop\<close>). What the model answers on a turn, how long the
  request took and what it cost are the \<open>turn\<close> the loop is given; parsing of the model's text
  (\<^verbatim>\<open>extract_json\<close>, \<^verbatim>\<open>coerce_verdict\<close>) and the wording of the messages are outside the model.
  The monotonic clock is an argument of each operation that reads it.
\<close>

subsection \<open>Suppression rules\<close>

record suppression_rule =
  sr_field :: string
  sr_value :: string
  sr_enabled :: bool
  sr_expires_at :: "real option"

definition is_live :: "suppression_rule \<Rightarrow> real \<Rightarrow> bool" where
  "is_live r now =
     (if \<not> sr_enabled r then False
      else case sr_expires_at r of None \<Rightarrow> True | Some e \<Rightarrow> \<not> e \<le> now)"

definition rule_matches :: "(json \<Rightarrow> string) \<Rightarrow> (string \<times> json) list \<Rightarrow> suppression_rule \<Rightarrow> bool" where
  "rule_matches shw src r = (py_str shw (dotted_get src (sr_field r) JNull) = sr_value r)"

fun some_unsuppressed ::
  "(json \<Rightarrow> string) \<Rightarrow> suppression_rule list \<Rightarrow> (string \<times> json) list list \<Rightarrow> bool" where
  "some_unsuppressed shw rules [] = False"
| "some_unsuppressed shw rules (ev # evs) =
     (if \<not> list_ex (rule_matches shw ev) rules then True else some_unsuppressed shw rules evs)"

definition passes_suppression ::
  "(json \<Rightarrow> string) \<Rightarrow> (string \<times> json) list list \<Rightarrow> suppression_rule list \<Rightarrow> real \<Rightarrow> bool" where
  "passes_suppression shw members rls now =
     (let rules = filter (\<lambda>r. is_live r now) rls
      in if rules = [] then True else some_unsuppressed shw rules members)"

subsection \<open>The budget\<close>

record caps =
  max_tool_calls :: int
  max_tokens :: int
  timeout_seconds :: int
  request_timeout_seconds :: int
  kill_switch :: bool

datatype capped_reason =
    Kill_switch_engaged
  | Max_tool_calls_reached int
  | Max_tokens_reached int
  | Only_reserve_left real real real
  | Slice_not_viable real real

record case_budget =
  cb_caps :: caps
  tool_calls :: int
  tokens :: int
  capped :: "capped_reason option"
  deadline :: "real option"
  req_timeout :: "real option"
  reserve :: real
  cb_span :: real
  longest_request :: real

definition FORMATTER_RESERVE_FRACTION :: real where
  "FORMATTER_RESERVE_FRACTION = 15 / 100"

definition new_budget :: "caps \<Rightarrow> case_budget" where
  "new_budget c = \<lparr>cb_caps = c, tool_calls = 0, tokens = 0, capped = None, deadline = None,
     req_timeout = None, reserve = 0, cb_span = 0, longest_request = 0\<rparr>"

definition can_call_tool :: "case_budget \<Rightarrow> bool \<times> case_budget" where
  "can_call_tool b =
     (if kill_switch (cb_caps b) then (False, b\<lparr>capped := Some Kill_switch_engaged\<rparr>)
      else if max_tool_calls (cb_caps b) \<le> tool_calls b then
        (False, b\<lparr>capped := Some (Max_tool_calls_reached (max_tool_calls (cb_caps b)))\<rparr>)
      else (True, b))"

definition record_tool_call :: "case_budget \<Rightarrow> case_budget" where
  "record_tool_call b = b\<lparr>tool_calls := tool_calls b + 1\<rparr>"

definition add_tokens :: "case_budget \<Rightarrow> int \<Rightarrow> int \<Rightarrow> case_budget" where
  "add_tokens b p c = b\<lparr>tokens := tokens b + (p + c)\<rparr>"

definition exceeded :: "case_budget \<Rightarrow> bool \<times> case_budget" where
  "exceeded b =
     (if kill_switch (cb_caps b) then (True, b\<lparr>capped := Some Kill_switch_engaged\<rparr>)
      else if max_tokens (cb_caps b) \<le> tokens b then
        (True, b\<lparr>capped := Some (Max_tokens_reached (max_tokens (cb_caps b)))\<rparr>)
      else (False, b))"

definition or_zero :: "real option \<Rightarrow> real" where
  "or_zero x = (case x of None \<Rightarrow> 0 | Some r \<Rightarrow> r)"

definition start_budget :: "case_budget \<Rightarrow> real option \<Rightarrow> real option \<Rightarrow> real \<Rightarrow> case_budget" where
  "start_budget b timeout_s request_timeout_s now =
     (let spn = or_zero timeout_s;
          req = or_zero request_timeout_s;
          b1 = b\<lparr>req_timeout := (if 0 < req then Some req else None), cb_span := max 0 spn\<rparr>
      in if spn \<le> 0 then b1\<lparr>deadline := None, reserve := 0\<rparr>
         else b1\<lparr>deadline := Some (now + spn),
                 reserve := (if 0 < req then min req (spn * FORMATTER_RESERVE_FRACTION) else 0)\<rparr>)"

definition remaining :: "case_budget \<Rightarrow> real \<Rightarrow> real option" where
  "remaining b now = (case deadline b of None \<Rightarrow> None | Some d \<Rightarrow> Some (max 0 (d - now)))"

definition note_request :: "case_budget \<Rightarrow> real \<Rightarrow> real \<Rightarrow> case_budget" where
  "note_request b started_at now =
     (let elapsed = now - started_at
      in if longest_request b < elapsed then b\<lparr>longest_request := elapsed\<rparr> else b)"

definition min_viable_slice :: "case_budget \<Rightarrow> real" where
  "min_viable_slice b = max 0 (longest_request b)"

definition time_exhausted :: "case_budget \<Rightarrow> real \<Rightarrow> bool \<times> case_budget" where
  "time_exhausted b now =
     (case remaining b now of
        None \<Rightarrow> (False, b)
      | Some rem \<Rightarrow>
          (let usable = rem - reserve b; viable = min_viable_slice b
           in if usable \<le> 0 then
                (True, b\<lparr>capped := Some (Only_reserve_left (py_round 3 rem) (py_round 3 (cb_span b))
                                            (py_round 3 (reserve b)))\<rparr>)
              else if usable < viable then
                (True, b\<lparr>capped := Some (Slice_not_viable (py_round 3 usable) (py_round 3 viable))\<rparr>)
              else (False, b)))"

definition request_timeout :: "case_budget \<Rightarrow> real \<Rightarrow> real option" where
  "request_timeout b now =
     (case remaining b now of
        None \<Rightarrow> req_timeout b
      | Some rem \<Rightarrow>
          (let usable = max 0 (rem - reserve b)
           in case req_timeout b of None \<Rightarrow> Some usable | Some cfg \<Rightarrow> Some (min cfg usable)))"

lemmas budget_defs [model_defs] =
  can_call_tool_def record_tool_call_def add_tokens_def exceeded_def remaining_def note_request_def
  min_viable_slice_def time_exhausted_def request_timeout_def Let_def

subsection \<open>The investigation loop\<close>

datatype tool_tier = SAFE | MANAGED | REQUIRES_APPROVAL | FORBIDDEN

text \<open>What the model's answer asks for, and how the request that produced it ended.\<close>

datatype 'v model_action =
    No_action
  | Final string 'v
  | Tool_request string
  | Other_action

datatype 'v outcome =
    Completed int int real "'v model_action"
  | Request_timed_out real
  | Request_cancelled real
  | Gateway_error string string real
  | Other_exception string

record 'v turn =
  clock_gate :: real
  clock_slice :: real
  clock_start :: real
  clock_done :: real
  result :: "'v outcome"
  tool_raises :: "string option"

datatype reasoning_note =
    Capped_note "capped_reason option"
  | Slice_note real
  | Model_reasoning string

datatype audit_row = Tool_blocked string tool_tier | Tool_called string

text \<open>One row per dispatched model request: the slice it was given, when, and the tokens spent before.\<close>

record dispatch =
  d_slice :: "real option"
  d_at :: real
  d_tokens_before :: int

record loop_state =
  l_budget :: case_budget
  l_cost :: real
  l_sink :: "real list"
  l_notes :: "reasoning_note list"
  l_audit :: "audit_row list"
  l_executed :: "string list"
  l_dispatched :: "dispatch list"

datatype 'v loop_exit =
    Drafted 'v
  | Inconclusive
  | Model_error string string
  | Crashed string
  | Cancelled_run

definition account :: "loop_state \<Rightarrow> real \<Rightarrow> loop_state" where
  "account st c = st\<lparr>l_cost := l_cost st + c, l_sink := l_sink st @ [c]\<rparr>"

definition add_note :: "loop_state \<Rightarrow> reasoning_note \<Rightarrow> loop_state" where
  "add_note st n = st\<lparr>l_notes := l_notes st @ [n]\<rparr>"

text \<open>
  The \<^verbatim>\<open>action == "tool"\<close> branch. \<open>Inl\<close> leaves the loop, \<open>Inr\<close> continues it.
\<close>

definition run_tool ::
  "(string \<Rightarrow> tool_tier option) \<Rightarrow> string \<Rightarrow> string option \<Rightarrow> loop_state
     \<Rightarrow> 'v loop_exit \<times> loop_state + loop_state" where
  "run_tool tools name raises st =
     (let (ok, b) = can_call_tool (l_budget st); st1 = st\<lparr>l_budget := b\<rparr>
      in if \<not> ok then Inl (Inconclusive, add_note st1 (Capped_note (capped b)))
         else
           let st2 = st1\<lparr>l_budget := record_tool_call b\<rparr>
           in case tools name of
                None \<Rightarrow> Inr st2
              | Some tier \<Rightarrow>
                  if tier = FORBIDDEN \<or> tier = REQUIRES_APPROVAL then
                    Inr (st2\<lparr>l_audit := l_audit st2 @ [Tool_blocked name tier]\<rparr>)
                  else
                    let st3 = st2\<lparr>l_executed := l_executed st2 @ [name]\<rparr>
                    in case raises of
                         Some e \<Rightarrow> Inl (Crashed e, st3)
                       | None \<Rightarrow> Inr (st3\<lparr>l_audit := l_audit st3 @ [Tool_called name]\<rparr>))"

definition handle_answer ::
  "(string \<Rightarrow> tool_tier option) \<Rightarrow> 'v turn \<Rightarrow> int \<Rightarrow> int \<Rightarrow> real \<Rightarrow> 'v model_action \<Rightarrow> loop_state
     \<Rightarrow> 'v loop_exit \<times> loop_state + loop_state" where
  "handle_answer tools t p c cst act st =
     (let b = note_request (l_budget st) (clock_start t) (clock_done t);
          st1 = account (st\<lparr>l_budget := b\<rparr>) cst;
          st2 = st1\<lparr>l_budget := add_tokens b p c\<rparr>
      in case act of
           No_action \<Rightarrow> Inr st2
         | Final reasoning v \<Rightarrow> Inl (Drafted v, st2\<lparr>l_notes := [Model_reasoning reasoning]\<rparr>)
         | Tool_request name \<Rightarrow> run_tool tools name (tool_raises t) st2
         | Other_action \<Rightarrow> Inr st2)"

definition react_turn ::
  "(string \<Rightarrow> tool_tier option) \<Rightarrow> 'v turn \<Rightarrow> loop_state \<Rightarrow> 'v loop_exit \<times> loop_state + loop_state" where
  "react_turn tools t st =
     (let (over, b1) = exceeded (l_budget st);
          (stop, b2) = (if over then (True, b1) else time_exhausted b1 (clock_gate t));
          st1 = st\<lparr>l_budget := b2\<rparr>
      in if stop then Inl (Inconclusive, add_note st1 (Capped_note (capped b2)))
         else
           let slice = request_timeout b2 (clock_slice t);
               st2 = st1\<lparr>l_dispatched := l_dispatched st1 @
                       [\<lparr>d_slice = slice, d_at = clock_slice t, d_tokens_before = tokens b2\<rparr>]\<rparr>
           in case result t of
                Completed p c cst act \<Rightarrow> handle_answer tools t p c cst act st2
              | Request_timed_out cst \<Rightarrow>
                  Inl (Inconclusive, add_note (account st2 cst)
                                       (Slice_note (py_round 3 (or_zero slice))))
              | Request_cancelled cst \<Rightarrow> Inl (Cancelled_run, st2\<lparr>l_sink := l_sink st2 @ [cst]\<rparr>)
              | Gateway_error cls msg cst \<Rightarrow> Inl (Model_error cls msg, account st2 cst)
              | Other_exception e \<Rightarrow> Inl (Crashed e, st2))"

text \<open>\<^verbatim>\<open>for _step in range(max_steps)\<close>; the \<open>i\<close>-th turn of the loop reads the \<open>i\<close>-th environment turn.\<close>

fun react_loop ::
  "nat \<Rightarrow> (string \<Rightarrow> tool_tier option) \<Rightarrow> (nat \<Rightarrow> 'v turn) \<Rightarrow> nat \<Rightarrow> loop_state \<Rightarrow> 'v loop_exit \<times> loop_state" where
  "react_loop 0 tools env i st = (Inconclusive, st)"
| "react_loop (Suc n) tools env i st =
     (case react_turn tools (env i) st of
        Inl r \<Rightarrow> r
      | Inr st' \<Rightarrow> react_loop n tools env (Suc i) st')"

definition new_loop :: "case_budget \<Rightarrow> loop_state" where
  "new_loop b = \<lparr>l_budget = b, l_cost = 0, l_sink = [], l_notes = [], l_audit = [],
     l_executed = [], l_dispatched = []\<rparr>"

definition investigate_loop ::
  "(string \<Rightarrow> tool_tier option) \<Rightarrow> (nat \<Rightarrow> 'v turn) \<Rightarrow> case_budget \<Rightarrow> 'v loop_exit \<times> loop_state" where
  "investigate_loop tools env b =
     react_loop (nat (max_tool_calls (cb_caps b) + 3)) tools env 0 (new_loop b)"

subsection \<open>What the budget operations keep\<close>

text \<open>The part of a budget that only \<^const>\<open>start_budget\<close> writes.\<close>

definition same_limits :: "case_budget \<Rightarrow> case_budget \<Rightarrow> bool" where
  "same_limits b b' \<longleftrightarrow> cb_caps b' = cb_caps b \<and> deadline b' = deadline b \<and>
     req_timeout b' = req_timeout b \<and> reserve b' = reserve b \<and> cb_span b' = cb_span b"

lemma same_limits_refl [simp]: "same_limits b b"
  by (simp add: same_limits_def)

lemma same_limits_trans: "same_limits a b \<Longrightarrow> same_limits b c \<Longrightarrow> same_limits a c"
  by (simp add: same_limits_def)

lemma limits_ops [simp]:
  "same_limits a (snd (can_call_tool b)) = same_limits a b"
  "same_limits a (record_tool_call b) = same_limits a b"
  "same_limits a (add_tokens b p c) = same_limits a b"
  "same_limits a (snd (exceeded b)) = same_limits a b"
  "same_limits a (snd (time_exhausted b now)) = same_limits a b"
  "same_limits a (note_request b s now) = same_limits a b"
  by (auto simp: same_limits_def budget_defs split: option.splits)

lemma counters_ops [simp]:
  "tool_calls (snd (can_call_tool b)) = tool_calls b"
  "tool_calls (record_tool_call b) = tool_calls b + 1"
  "tool_calls (add_tokens b p c) = tool_calls b"
  "tool_calls (snd (exceeded b)) = tool_calls b"
  "tool_calls (snd (time_exhausted b now)) = tool_calls b"
  "tool_calls (note_request b s now) = tool_calls b"
  "tokens (snd (can_call_tool b)) = tokens b"
  "tokens (record_tool_call b) = tokens b"
  "tokens (add_tokens b p c) = tokens b + p + c"
  "tokens (snd (exceeded b)) = tokens b"
  "tokens (snd (time_exhausted b now)) = tokens b"
  "tokens (note_request b s now) = tokens b"
  by (auto simp: budget_defs split: option.splits)

lemma can_call_tool_iff:
  "fst (can_call_tool b) \<longleftrightarrow> \<not> kill_switch (cb_caps b) \<and> tool_calls b < max_tool_calls (cb_caps b)"
  by (auto simp: can_call_tool_def)

lemma exceeded_iff:
  "fst (exceeded b) \<longleftrightarrow> kill_switch (cb_caps b) \<or> max_tokens (cb_caps b) \<le> tokens b"
  by (auto simp: exceeded_def)

lemma request_timeout_same:
  "same_limits a b \<Longrightarrow> request_timeout b now = request_timeout a now"
  unfolding same_limits_def by (elim conjE) (simp add: request_timeout_def remaining_def split: option.splits)

text \<open>The slice of a request ends before the reserve begins, and never outlasts the configured timeout.\<close>

definition slice_ok :: "case_budget \<Rightarrow> real \<Rightarrow> real option \<Rightarrow> bool" where
  "slice_ok b now s \<longleftrightarrow>
     (case s of
        None \<Rightarrow> deadline b = None \<and> req_timeout b = None
      | Some t \<Rightarrow>
          (case req_timeout b of None \<Rightarrow> True | Some cfg \<Rightarrow> t \<le> cfg) \<and>
          (case deadline b of None \<Rightarrow> True | Some d \<Rightarrow> t \<le> max 0 (d - reserve b - now)))"

lemma request_timeout_slice: "0 \<le> reserve b \<Longrightarrow> slice_ok b now (request_timeout b now)"
  by (auto simp: slice_ok_def budget_defs split: option.splits)

lemma start_budget_reserve:
  "0 \<le> reserve (start_budget b ts rs now)"
  "reserve (start_budget b ts rs now) \<le> FORMATTER_RESERVE_FRACTION * cb_span (start_budget b ts rs now)"
  by (auto simp: start_budget_def Let_def FORMATTER_RESERVE_FRACTION_def)

lemma cb_caps_start [simp]: "cb_caps (start_budget b ts rs now) = cb_caps b"
  by (simp add: start_budget_def Let_def)

lemma tool_calls_start [simp]: "tool_calls (start_budget b ts rs now) = tool_calls b"
  by (simp add: start_budget_def Let_def)

subsection \<open>A rule for the loop\<close>

lemma react_loop_rule:
  assumes "P st"
    and stay: "\<And>i st st'. P st \<Longrightarrow> react_turn tools (env i) st = Inr st' \<Longrightarrow> P st'"
    and leave: "\<And>i st x st'. P st \<Longrightarrow> react_turn tools (env i) st = Inl (x, st') \<Longrightarrow> Q x st'"
    and stop: "\<And>st. P st \<Longrightarrow> Q Inconclusive st"
  shows "case react_loop n tools env i st of (x, st') \<Rightarrow> Q x st'"
  using assms(1)
proof (induction n arbitrary: i st)
  case 0
  then show ?case by (simp add: stop)
next
  case (Suc n)
  show ?case
  proof (cases "react_turn tools (env i) st")
    case (Inl r)
    with leave [OF Suc.prems] show ?thesis by (cases r) simp
  next
    case (Inr st')
    with Suc.IH [OF stay [OF Suc.prems Inr]] show ?thesis by simp
  qed
qed

text \<open>
  One turn decomposed: it either stops before the request, or dispatches exactly one request
  inside the caps and then handles what came back.
\<close>

definition dispatch_state :: "'v turn \<Rightarrow> loop_state \<Rightarrow> case_budget \<Rightarrow> loop_state" where
  "dispatch_state t st b =
     st\<lparr>l_budget := b, l_dispatched := l_dispatched st @
          [\<lparr>d_slice = request_timeout b (clock_slice t), d_at = clock_slice t, d_tokens_before = tokens b\<rparr>]\<rparr>"

lemma react_turn_cases:
  obtains (stopped) b where
      "react_turn tools t st = Inl (Inconclusive, add_note (st\<lparr>l_budget := b\<rparr>) (Capped_note (capped b)))"
      "same_limits (l_budget st) b" "tool_calls b = tool_calls (l_budget st)" "tokens b = tokens (l_budget st)"
  | (dispatched) b where
      "react_turn tools t st =
         (let st2 = dispatch_state t st b in
          case result t of
            Completed p c cst act \<Rightarrow> handle_answer tools t p c cst act st2
          | Request_timed_out cst \<Rightarrow>
              Inl (Inconclusive, add_note (account st2 cst)
                 (Slice_note (py_round 3 (or_zero (request_timeout b (clock_slice t))))))
          | Request_cancelled cst \<Rightarrow> Inl (Cancelled_run, st2\<lparr>l_sink := l_sink st2 @ [cst]\<rparr>)
          | Gateway_error cls msg cst \<Rightarrow> Inl (Model_error cls msg, account st2 cst)
          | Other_exception e \<Rightarrow> Inl (Crashed e, st2))"
      "same_limits (l_budget st) b" "tool_calls b = tool_calls (l_budget st)" "tokens b = tokens (l_budget st)"
      "\<not> kill_switch (cb_caps b)" "tokens b < max_tokens (cb_caps b)"
proof -
  obtain over b1 where e: "exceeded (l_budget st) = (over, b1)" by (cases "exceeded (l_budget st)")
  obtain tx b2 where t2: "time_exhausted b1 (clock_gate t) = (tx, b2)"
    by (cases "time_exhausted b1 (clock_gate t)")
  have b1: "same_limits (l_budget st) b1" "tool_calls b1 = tool_calls (l_budget st)"
      "tokens b1 = tokens (l_budget st)"
    using e limits_ops(4) [of "l_budget st" "l_budget st"] counters_ops(4,10) [of "l_budget st"] by simp_all
  have b2: "same_limits (l_budget st) b2" "tool_calls b2 = tool_calls (l_budget st)"
      "tokens b2 = tokens (l_budget st)"
    using b1 t2 limits_ops(5) [of "l_budget st" b1 "clock_gate t"]
      counters_ops(5,11) [of b1 "clock_gate t"] by simp_all
  show thesis
  proof (cases "over \<or> tx")
    case True
    show thesis
    proof (cases over)
      case True
      then show thesis using stopped [of b1] b1 e by (simp add: react_turn_def)
    next
      case False
      with \<open>over \<or> tx\<close> show thesis using stopped [of b2] b2 e t2 by (simp add: react_turn_def)
    qed
  next
    case False
    with e have "\<not> kill_switch (cb_caps (l_budget st))" "tokens (l_budget st) < max_tokens (cb_caps (l_budget st))"
      using exceeded_iff [of "l_budget st"] by auto
    moreover have "cb_caps b2 = cb_caps (l_budget st)" using b2 by (simp add: same_limits_def)
    ultimately have caps: "\<not> kill_switch (cb_caps b2)" "tokens b2 < max_tokens (cb_caps b2)"
      using b2 by simp_all
    show thesis
      by (rule dispatched [OF _ b2 caps])
        (use False e t2 in \<open>simp add: react_turn_def Let_def dispatch_state_def\<close>)
  qed
qed

subsection \<open>The invariant of the loop\<close>

definition dispatch_ok :: "case_budget \<Rightarrow> dispatch \<Rightarrow> bool" where
  "dispatch_ok b0 d \<longleftrightarrow> \<not> kill_switch (cb_caps b0) \<and> d_tokens_before d < max_tokens (cb_caps b0) \<and>
     slice_ok b0 (d_at d) (d_slice d)"

definition autonomous :: "(string \<Rightarrow> tool_tier option) \<Rightarrow> string \<Rightarrow> bool" where
  "autonomous tools name \<longleftrightarrow> tools name \<in> {Some SAFE, Some MANAGED}"

definition loop_inv :: "(string \<Rightarrow> tool_tier option) \<Rightarrow> case_budget \<Rightarrow> loop_state \<Rightarrow> bool" where
  "loop_inv tools b0 st \<longleftrightarrow>
     same_limits b0 (l_budget st) \<and> tool_calls (l_budget st) \<le> max_tool_calls (cb_caps b0) \<and>
     int (length (l_executed st)) \<le> tool_calls (l_budget st) \<and>
     list_all (autonomous tools) (l_executed st) \<and>
     list_all (dispatch_ok b0) (l_dispatched st)"

definition called :: "audit_row list \<Rightarrow> string list" where
  "called rows = concat (map (\<lambda>r. case r of Tool_called n \<Rightarrow> [n] | _ \<Rightarrow> []) rows)"

lemma called_simps [simp]:
  "called [] = []" "called (rs @ rs') = called rs @ called rs'"
  "called [Tool_called n] = [n]" "called [Tool_blocked n t] = []"
  by (simp_all add: called_def)

lemma loop_inv_note [simp]: "loop_inv tools b0 (add_note st n) = loop_inv tools b0 st"
  by (simp add: loop_inv_def add_note_def)

lemma loop_inv_account [simp]: "loop_inv tools b0 (account st c) = loop_inv tools b0 st"
  by (simp add: loop_inv_def account_def)

lemma loop_inv_sink [simp]: "loop_inv tools b0 (st\<lparr>l_sink := x\<rparr>) = loop_inv tools b0 st"
  by (simp add: loop_inv_def)

lemma loop_inv_notes [simp]: "loop_inv tools b0 (st\<lparr>l_notes := x\<rparr>) = loop_inv tools b0 st"
  by (simp add: loop_inv_def)

lemma loop_inv_budget:
  "loop_inv tools b0 st \<Longrightarrow> same_limits (l_budget st) b \<Longrightarrow> tool_calls b = tool_calls (l_budget st)
     \<Longrightarrow> loop_inv tools b0 (st\<lparr>l_budget := b\<rparr>)"
  by (auto simp: loop_inv_def intro: same_limits_trans)

lemma loop_inv_dispatch:
  assumes "loop_inv tools b0 st" "same_limits (l_budget st) b" "tool_calls b = tool_calls (l_budget st)"
    "\<not> kill_switch (cb_caps b)" "tokens b < max_tokens (cb_caps b)" "0 \<le> reserve b0"
  shows "loop_inv tools b0 (dispatch_state t st b)"
proof -
  from assms have same: "same_limits b0 b" by (auto simp: loop_inv_def intro: same_limits_trans)
  then have "dispatch_ok b0 \<lparr>d_slice = request_timeout b (clock_slice t), d_at = clock_slice t, d_tokens_before = tokens b\<rparr>"
    using assms request_timeout_slice [of b0 "clock_slice t"]
    by (simp add: dispatch_ok_def request_timeout_same [OF same] same_limits_def)
  with assms same show ?thesis by (simp add: loop_inv_def dispatch_state_def)
qed

lemma run_tool_inv:
  assumes "loop_inv tools b0 st"
  shows "case run_tool tools name raises st of Inl (x, st') \<Rightarrow> loop_inv tools b0 st' | Inr st' \<Rightarrow> loop_inv tools b0 st'"
proof -
  obtain ok b where c: "can_call_tool (l_budget st) = (ok, b)" by (cases "can_call_tool (l_budget st)")
  have b: "same_limits (l_budget st) b" "tool_calls b = tool_calls (l_budget st)"
    using c limits_ops(1) [of "l_budget st" "l_budget st"] counters_ops(1) [of "l_budget st"] by simp_all
  have st1: "loop_inv tools b0 (st\<lparr>l_budget := b\<rparr>)" by (rule loop_inv_budget [OF assms b])
  show ?thesis
  proof (cases ok)
    case False
    with c st1 show ?thesis by (simp add: run_tool_def)
  next
    case True
    with c can_call_tool_iff [of "l_budget st"] have "tool_calls (l_budget st) < max_tool_calls (cb_caps (l_budget st))"
      by simp
    then have "tool_calls b < max_tool_calls (cb_caps b0)"
      using assms b by (simp add: loop_inv_def same_limits_def)
    then show ?thesis
      using True c st1
      by (cases "the (tools name)"; cases "tools name")
        (auto simp: run_tool_def Let_def loop_inv_def autonomous_def split: option.splits)
  qed
qed

lemma account_budget: "(account (st\<lparr>l_budget := x\<rparr>) c)\<lparr>l_budget := b\<rparr> = (account st c)\<lparr>l_budget := b\<rparr>"
  by (cases st) (simp add: account_def)

text \<open>The state after a completed request has been measured, paid and counted.\<close>

definition answered :: "'v turn \<Rightarrow> int \<Rightarrow> int \<Rightarrow> real \<Rightarrow> loop_state \<Rightarrow> loop_state" where
  "answered t p c cst st = (account st cst)\<lparr>l_budget :=
     add_tokens (note_request (l_budget st) (clock_start t) (clock_done t)) p c\<rparr>"

lemma handle_answer_eq:
  "handle_answer tools t p c cst act st =
     (let st2 = answered t p c cst st in
      case act of No_action \<Rightarrow> Inr st2 | Final r v \<Rightarrow> Inl (Drafted v, st2\<lparr>l_notes := [Model_reasoning r]\<rparr>)
      | Tool_request name \<Rightarrow> run_tool tools name (tool_raises t) st2 | Other_action \<Rightarrow> Inr st2)"
proof -
  have "(account (st\<lparr>l_budget := note_request (l_budget st) (clock_start t) (clock_done t)\<rparr>) cst)
      \<lparr>l_budget := add_tokens (note_request (l_budget st) (clock_start t) (clock_done t)) p c\<rparr> = answered t p c cst st"
    by (simp only: account_budget answered_def)
  then show ?thesis unfolding handle_answer_def Let_def by (simp only:)
qed

lemma handle_answer_inv:
  assumes "loop_inv tools b0 st"
  shows "case handle_answer tools t p c cst act st of
           Inl (x, st') \<Rightarrow> loop_inv tools b0 st' | Inr st' \<Rightarrow> loop_inv tools b0 st'"
proof -
  have "loop_inv tools b0 (answered t p c cst st)"
    unfolding answered_def using assms
    by (intro loop_inv_budget) (simp, simp_all add: account_def)
  then show ?thesis
    using run_tool_inv [of tools b0 "answered t p c cst st"]
    by (cases act) (simp_all add: handle_answer_eq Let_def)
qed

lemma react_turn_inv:
  assumes "loop_inv tools b0 st" "0 \<le> reserve b0"
  shows "case react_turn tools t st of Inl (x, st') \<Rightarrow> loop_inv tools b0 st' | Inr st' \<Rightarrow> loop_inv tools b0 st'"
proof (cases rule: react_turn_cases [of tools t st])
  case (stopped b)
  then show ?thesis using loop_inv_budget [OF assms(1)] by simp
next
  case (dispatched b)
  have d: "loop_inv tools b0 (dispatch_state t st b)"
    using dispatched assms by (intro loop_inv_dispatch) auto
  show ?thesis
    unfolding dispatched(1) Let_def
    using d handle_answer_inv [OF d] by (cases "result t") (simp_all add: case_prod_beta')
qed

lemma loop_inv_new:
  "tool_calls b = 0 \<Longrightarrow> 0 \<le> max_tool_calls (cb_caps b) \<Longrightarrow> loop_inv tools b (new_loop b)"
  by (simp add: loop_inv_def new_loop_def)

lemma react_loop_inv:
  assumes "loop_inv tools b0 st" "0 \<le> reserve b0"
  shows "loop_inv tools b0 (snd (react_loop n tools env i st))"
proof -
  have "case react_loop n tools env i st of (x, st') \<Rightarrow> loop_inv tools b0 st'"
    using assms(1)
  proof (rule react_loop_rule)
    fix i st st' assume "loop_inv tools b0 st" "react_turn tools (env i) st = Inr st'"
    then show "loop_inv tools b0 st'" using react_turn_inv [OF _ assms(2), of tools st "env i"] by simp
  next
    fix i st x st' assume "loop_inv tools b0 st" "react_turn tools (env i) st = Inl (x, st')"
    then show "loop_inv tools b0 st'" using react_turn_inv [OF _ assms(2), of tools st "env i"] by simp
  qed
  then show ?thesis by (simp add: case_prod_beta')
qed

subsection \<open>How often the loop asks, what it pays and where its verdict comes from\<close>

lemma run_tool_frame:
  assumes "run_tool tools name raises st = r"
  shows "case r of Inl (x, st') \<Rightarrow> l_dispatched st' = l_dispatched st \<and> l_sink st' = l_sink st \<and>
             l_cost st' = l_cost st \<and> (x = Inconclusive \<or> (\<exists>e. x = Crashed e))
         | Inr st' \<Rightarrow> l_dispatched st' = l_dispatched st \<and> l_sink st' = l_sink st \<and> l_cost st' = l_cost st"
  using assms
  by (auto simp: run_tool_def Let_def add_note_def split: prod.splits option.splits if_splits)

lemma run_tool_audit:
  assumes "run_tool tools name raises st = r" "called (l_audit st) = l_executed st"
  shows "case r of
           Inl (x, st') \<Rightarrow> called (l_audit st') = l_executed st' \<or>
               (\<exists>e. x = Crashed e) \<and> called (l_audit st') = butlast (l_executed st')
         | Inr st' \<Rightarrow> called (l_audit st') = l_executed st'"
  using assms
  by (auto simp: run_tool_def Let_def add_note_def split: prod.splits option.splits if_splits)

text \<open>The ledger view of a state: money returned and money mirrored into the sink agree.\<close>

definition ledger_ok :: "loop_state \<Rightarrow> bool" where
  "ledger_ok st \<longleftrightarrow> sum_list (l_sink st) = l_cost st \<and> called (l_audit st) = l_executed st"

definition exit_ok :: "'v turn set \<Rightarrow> 'v loop_exit \<Rightarrow> loop_state \<Rightarrow> bool" where
  "exit_ok ts x st \<longleftrightarrow>
     (case x of
        Cancelled_run \<Rightarrow> (\<exists>c t. t \<in> ts \<and> result t = Request_cancelled c \<and> sum_list (l_sink st) = l_cost st + c)
      | _ \<Rightarrow> sum_list (l_sink st) = l_cost st) \<and>
     (case x of
        Crashed e \<Rightarrow> called (l_audit st) \<in> {l_executed st, butlast (l_executed st)}
      | _ \<Rightarrow> called (l_audit st) = l_executed st) \<and>
     (\<forall>v. x = Drafted v \<longrightarrow> (\<exists>t\<in>ts. \<exists>p c cst r. result t = Completed p c cst (Final r v)))"

lemma handle_answer_exit:
  assumes "ledger_ok st" "t \<in> ts" "result t = Completed p c cst act"
  shows "case handle_answer tools t p c cst act st of
           Inl (x, st') \<Rightarrow> exit_ok ts x st' | Inr st' \<Rightarrow> ledger_ok st'"
proof -
  define st2 where "st2 = answered t p c cst st"
  have ok: "ledger_ok st2" using assms(1) by (simp add: ledger_ok_def st2_def answered_def account_def)
  note eq = handle_answer_eq [of tools t p c cst act st, folded st2_def, unfolded Let_def]
  show ?thesis
  proof (cases act)
    case (Tool_request name)
    from ok have st2: "sum_list (l_sink st2) = l_cost st2" "called (l_audit st2) = l_executed st2"
      by (simp_all add: ledger_ok_def)
    have r: "run_tool tools name (tool_raises t) st2 = handle_answer tools t p c cst act st"
      unfolding eq by (simp add: Tool_request)
    show ?thesis
      using run_tool_frame [OF r] run_tool_audit [OF r st2(2)] st2
      by (cases "handle_answer tools t p c cst act st") (auto simp: exit_ok_def ledger_ok_def split: loop_exit.splits)
  next
    case (Final r v)
    with ok assms(2,3) show ?thesis
      unfolding eq by (auto simp: exit_ok_def ledger_ok_def intro!: bexI [of _ t])
  qed (unfold eq, use ok in simp_all)
qed

lemma ledger_ok_dispatch [simp]: "ledger_ok (dispatch_state t st b) = ledger_ok st"
  by (simp add: ledger_ok_def dispatch_state_def)

lemma react_turn_exit:
  assumes "ledger_ok st" "t \<in> ts"
  shows "case react_turn tools t st of Inl (x, st') \<Rightarrow> exit_ok ts x st' | Inr st' \<Rightarrow> ledger_ok st'"
proof (cases rule: react_turn_cases [of tools t st])
  case (stopped b)
  then show ?thesis using assms by (simp add: exit_ok_def ledger_ok_def add_note_def)
next
  case (dispatched b)
  have d: "ledger_ok (dispatch_state t st b)" using assms by simp
  show ?thesis
  proof (cases "result t")
    case (Completed p c cst act)
    with handle_answer_exit [OF d assms(2) Completed, where tools = tools] show ?thesis
      unfolding dispatched(1) Let_def by simp
  next
    case (Request_cancelled c)
    then show ?thesis
      unfolding dispatched(1) Let_def using d assms(2)
      by (auto simp: exit_ok_def ledger_ok_def intro!: exI [of _ c] exI [of _ t])
  qed (use d assms(2) in \<open>auto simp: dispatched(1) Let_def exit_ok_def ledger_ok_def account_def add_note_def\<close>)
qed

lemma react_loop_exit:
  assumes "ledger_ok st"
  shows "case react_loop n tools env i st of (x, st') \<Rightarrow> exit_ok (range env) x st'"
  using assms
proof (rule react_loop_rule)
  fix i st st' assume "ledger_ok st" "react_turn tools (env i) st = Inr st'"
  then show "ledger_ok st'" using react_turn_exit [of st "env i" "range env", where tools = tools] by simp
next
  fix i st x st' assume "ledger_ok st" "react_turn tools (env i) st = Inl (x, st')"
  then show "exit_ok (range env) x st'" using react_turn_exit [of st "env i" "range env", where tools = tools] by simp
next
  fix st assume "ledger_ok st"
  then show "exit_ok (range env) Inconclusive st" by (simp add: exit_ok_def ledger_ok_def)
qed

lemma handle_answer_dispatched:
  "case handle_answer tools t p c cst act st of
     Inl (x, st') \<Rightarrow> l_dispatched st' = l_dispatched st | Inr st' \<Rightarrow> l_dispatched st' = l_dispatched st"
proof (cases act)
  case (Tool_request name)
  have r: "run_tool tools name (tool_raises t) (answered t p c cst st) = handle_answer tools t p c cst act st"
    by (simp add: handle_answer_eq Let_def Tool_request)
  have "l_dispatched (answered t p c cst st) = l_dispatched st" by (simp add: answered_def account_def)
  with run_tool_frame [OF r] show ?thesis
    by (cases "handle_answer tools t p c cst act st") auto
qed (simp_all add: handle_answer_eq Let_def answered_def account_def)

lemma react_turn_dispatched:
  "case react_turn tools t st of
     Inl (x, st') \<Rightarrow> length (l_dispatched st') \<le> Suc (length (l_dispatched st))
   | Inr st' \<Rightarrow> length (l_dispatched st') = Suc (length (l_dispatched st))"
proof (cases rule: react_turn_cases [of tools t st])
  case (stopped b)
  then show ?thesis by (simp add: add_note_def)
next
  case (dispatched b)
  show ?thesis
  proof (cases "result t")
    case (Completed p c cst act)
    with handle_answer_dispatched [where tools = tools and t = t and p = p and c = c and cst = cst and act = act and st = "dispatch_state t st b"] show ?thesis
      unfolding dispatched(1) Let_def by (auto simp: dispatch_state_def split: sum.splits)
  qed (auto simp: dispatched(1) Let_def account_def add_note_def dispatch_state_def)
qed

lemma react_loop_dispatched:
  "length (l_dispatched (snd (react_loop n tools env i st))) \<le> length (l_dispatched st) + n"
proof (induction n arbitrary: i st)
  case (Suc n)
  show ?case
  proof (cases "react_turn tools (env i) st")
    case (Inl r)
    then show ?thesis using react_turn_dispatched [where tools = tools and t = "env i" and st = st] by (cases r) auto
  next
    case (Inr st')
    then show ?thesis using react_turn_dispatched [where tools = tools and t = "env i" and st = st] Suc.IH [of "Suc i" st'] by simp
  qed
qed simp

lemma investigate_loop_inv:
  assumes "1 \<le> max_tool_calls c"
  shows "loop_inv tools (start_budget (new_budget c) ts rs now)
           (snd (investigate_loop tools env (start_budget (new_budget c) ts rs now)))"
  unfolding investigate_loop_def
  by (intro react_loop_inv loop_inv_new) (use assms in \<open>simp_all add: start_budget_reserve new_budget_def\<close>)

subsection \<open>Properties\<close>

text \<open>
  The caps bound an investigation whatever the model answers. The loop makes at most
  \<open>max_tool_calls + 3\<close> model requests and counts at most \<open>max_tool_calls\<close> tool calls, no fewer than
  the tools it ran; every request was dispatched with the kill switch off and fewer tokens spent
  than \<open>max_tokens\<close>, so with the kill switch engaged nothing is requested and no tool runs.
\<close>

theorem investigation_within_caps:
  assumes "1 \<le> max_tool_calls c"
    and "investigate_loop tools env (start_budget (new_budget c) ts rs now) = (x, st)"
  shows "int (length (l_dispatched st)) \<le> max_tool_calls c + 3 \<and>
    int (length (l_executed st)) \<le> tool_calls (l_budget st) \<and>
    tool_calls (l_budget st) \<le> max_tool_calls c \<and>
    (\<forall>d \<in> set (l_dispatched st). \<not> kill_switch c \<and> d_tokens_before d < max_tokens c) \<and>
    (kill_switch c \<longrightarrow> l_dispatched st = [] \<and> l_executed st = [] \<and> x = Inconclusive)"
proof (intro conjI impI)
  let ?b = "start_budget (new_budget c) ts rs now"
  have caps: "cb_caps ?b = c" by (simp add: new_budget_def)
  from investigate_loop_inv [OF assms(1), of tools ts rs now env] assms(2)
  have inv: "loop_inv tools ?b st" by simp
  show "int (length (l_dispatched st)) \<le> max_tool_calls c + 3"
    using react_loop_dispatched [of "nat (max_tool_calls c + 3)" tools env 0 "new_loop ?b"] assms caps
    by (simp add: investigate_loop_def) (simp add: new_loop_def)
  show "int (length (l_executed st)) \<le> tool_calls (l_budget st)" "tool_calls (l_budget st) \<le> max_tool_calls c"
    "\<forall>d \<in> set (l_dispatched st). \<not> kill_switch c \<and> d_tokens_before d < max_tokens c"
    using inv caps by (auto simp: loop_inv_def dispatch_ok_def list_all_iff)
  assume kill: "kill_switch c"
  obtain n where n: "nat (max_tool_calls c + 3) = Suc n" using assms(1) by (cases "nat (max_tool_calls c + 3)") auto
  have "exceeded ?b = (True, ?b\<lparr>capped := Some Kill_switch_engaged\<rparr>)"
    using kill caps by (simp add: exceeded_def)
  then show "l_dispatched st = []" "l_executed st = []" "x = Inconclusive"
    using assms(2) n caps by (auto simp: investigate_loop_def react_turn_def new_loop_def add_note_def)
qed

definition sample_caps :: caps where
  "sample_caps = \<lparr>max_tool_calls = 1, max_tokens = 100, timeout_seconds = 120,
     request_timeout_seconds = 60, kill_switch = False\<rparr>"

definition sample_turn :: "nat \<Rightarrow> nat turn" where
  "sample_turn i = \<lparr>clock_gate = real i, clock_slice = real i, clock_start = real i, clock_done = real i + 1,
     result = Completed 10 5 1 (if i = 0 then Tool_request ''search'' else Final ''done'' 7),
     tool_raises = None\<rparr>"

definition sample_tools :: "string \<Rightarrow> tool_tier option" where
  "sample_tools n = (if n = ''search'' then Some SAFE else None)"

lemma sample_run:
  "fst (investigate_loop sample_tools sample_turn (start_budget (new_budget sample_caps) (Some 120) (Some 60) 0)) = Drafted 7"
  "l_executed (snd (investigate_loop sample_tools sample_turn (start_budget (new_budget sample_caps) (Some 120) (Some 60) 0))) = [''search'']"
  "length (l_dispatched (snd (investigate_loop sample_tools sample_turn (start_budget (new_budget sample_caps) (Some 120) (Some 60) 0)))) = 2"
  by (simp_all add: investigate_loop_def new_budget_def sample_caps_def sample_turn_def sample_tools_def
      start_budget_def or_zero_def FORMATTER_RESERVE_FRACTION_def react_turn_def new_loop_def budget_defs
      handle_answer_def run_tool_def account_def add_note_def eval_nat_numeral)

theorem investigation_within_caps_witness:
  "\<exists>x st. investigate_loop sample_tools sample_turn (start_budget (new_budget sample_caps) (Some 120) (Some 60) 0) = (x, st)
     \<and> l_executed st = [''search''] \<and> int (length (l_executed st)) \<le> tool_calls (l_budget st)"
proof -
  obtain x st where r: "investigate_loop sample_tools sample_turn (start_budget (new_budget sample_caps) (Some 120) (Some 60) 0) = (x, st)"
    by (metis surj_pair)
  then show ?thesis
    using investigation_within_caps [OF _ r] sample_run(2) by (simp add: sample_caps_def)
qed



text \<open>
  Time. Once a deadline is stamped, every model request is dispatched under a slice that never
  exceeds the configured per-request timeout and that ends before the formatter reserve begins, and
  that reserve is at most 15 percent of the case time; so a request started at \<open>d_at\<close> with a positive
  slice returns or is cut off with the whole reserve still left before the deadline.
\<close>

theorem request_slices_keep_reserve:
  assumes "1 \<le> max_tool_calls c" and "0 < spn" and "0 < req"
    and "investigate_loop tools env (start_budget (new_budget c) (Some spn) (Some req) now) = (x, st)"
    and "d \<in> set (l_dispatched st)"
  shows "\<exists>t. d_slice d = Some t \<and> t \<le> req \<and>
    (0 < t \<longrightarrow> d_at d + t \<le> now + spn - reserve (l_budget st)) \<and>
    0 < reserve (l_budget st) \<and> reserve (l_budget st) \<le> spn * 15 / 100"
proof -
  let ?b = "start_budget (new_budget c) (Some spn) (Some req) now"
  have b: "deadline ?b = Some (now + spn)" "req_timeout ?b = Some req" "reserve ?b = min req (spn * 15 / 100)"
    using assms(2,3) by (simp_all add: start_budget_def or_zero_def Let_def FORMATTER_RESERVE_FRACTION_def)
  from investigate_loop_inv [OF assms(1), of tools "Some spn" "Some req" now env] assms(4)
  have inv: "loop_inv tools ?b st" by simp
  then have "slice_ok ?b (d_at d) (d_slice d)" and res: "reserve (l_budget st) = reserve ?b"
    using assms(5) by (auto simp: loop_inv_def dispatch_ok_def same_limits_def list_all_iff)
  then show ?thesis
    using b assms(2,3) by (auto simp: slice_ok_def split: option.splits)
qed

theorem request_slices_keep_reserve_witness:
  "\<exists>x st d t. investigate_loop sample_tools sample_turn (start_budget (new_budget sample_caps) (Some 120) (Some 60) 0) = (x, st)
     \<and> d \<in> set (l_dispatched st) \<and> d_slice d = Some t \<and> t \<le> 60"
proof -
  obtain x st where r: "investigate_loop sample_tools sample_turn (start_budget (new_budget sample_caps) (Some 120) (Some 60) 0) = (x, st)"
    by (metis surj_pair)
  with sample_run(3) have "l_dispatched st \<noteq> []" by auto
  then obtain d where d: "d \<in> set (l_dispatched st)" by (cases "l_dispatched st") auto
  show ?thesis
    using request_slices_keep_reserve [OF _ _ _ r d] r d by (auto simp: sample_caps_def)
qed

text \<open>
  No spend is lost and no verdict is invented. On every way out of the loop the costs mirrored
  into the sink add up to the cost the investigator returns (a cancelled run has in addition the cost
  of the request it was cut off in), and the only exit that carries a verdict carries one the model
  gave in a completed request; every other exit is one the code routes to a human.
\<close>

theorem investigation_ledger_and_verdict:
  "case investigate_loop tools env b of (x, st) \<Rightarrow>
     (case x of
        Cancelled_run \<Rightarrow> \<exists>c i. result (env i) = Request_cancelled c \<and> sum_list (l_sink st) = l_cost st + c
      | Drafted v \<Rightarrow> sum_list (l_sink st) = l_cost st \<and> (\<exists>i p c cst r. result (env i) = Completed p c cst (Final r v))
      | _ \<Rightarrow> sum_list (l_sink st) = l_cost st)"
proof -
  have "case react_loop (nat (max_tool_calls (cb_caps b) + 3)) tools env 0 (new_loop b) of (x, st) \<Rightarrow> exit_ok (range env) x st"
    by (rule react_loop_exit) (simp add: ledger_ok_def new_loop_def)
  then show ?thesis
    unfolding investigate_loop_def by (auto simp: exit_ok_def split: prod.splits loop_exit.splits)
qed

lemma some_unsuppressed_iff:
  "some_unsuppressed shw rules evs \<longleftrightarrow> (\<exists>ev \<in> set evs. \<forall>r \<in> set rules. \<not> rule_matches shw ev r)"
  by (induction evs) (auto simp: list_ex_iff)

lemma is_live_expires: "is_live r now' \<Longrightarrow> now \<le> now' \<Longrightarrow> is_live r now"
  by (auto simp: is_live_def split: if_splits option.splits)

lemma passes_suppression_iff:
  "passes_suppression shw members rls now \<longleftrightarrow>
     (\<forall>r \<in> set rls. \<not> is_live r now) \<or>
     (\<exists>ev \<in> set members. \<forall>r \<in> set rls. is_live r now \<longrightarrow> \<not> rule_matches shw ev r)"
  by (auto simp: passes_suppression_def Let_def some_unsuppressed_iff filter_empty_conv)

text \<open>
  Suppression is never wider than its live rules. A cluster passes exactly when no rule is live
  or one of its events matches no live rule; and since rules only expire, a cluster with events that
  passed keeps passing later, also after rules were deleted.
\<close>

theorem suppression_only_live_rules:
  assumes "passes_suppression shw members rls now" and "now \<le> now'"
    and "set rls' \<subseteq> set rls" and "members \<noteq> []"
  shows "passes_suppression shw members rls' now' \<and>
    (\<exists>ev \<in> set members. \<forall>r \<in> set rls'. is_live r now' \<longrightarrow> \<not> rule_matches shw ev r)"
proof -
  obtain ev where ev: "ev \<in> set members" "\<forall>r \<in> set rls. is_live r now \<longrightarrow> \<not> rule_matches shw ev r"
    using assms(1,4) unfolding passes_suppression_iff by (cases members) auto
  then have "\<forall>r \<in> set rls'. is_live r now' \<longrightarrow> \<not> rule_matches shw ev r"
    using assms(3) is_live_expires [OF _ assms(2)] by blast
  with ev(1) show ?thesis unfolding passes_suppression_iff by blast
qed

definition sample_rule :: suppression_rule where
  "sample_rule = \<lparr>sr_field = ''host'', sr_value = ''a'', sr_enabled = True, sr_expires_at = Some 10\<rparr>"

theorem suppression_only_live_rules_witness:
  "\<not> passes_suppression (\<lambda>_. []) [[(''host'', JStr ''a'')]] [sample_rule] 5
   \<and> passes_suppression (\<lambda>_. []) [[(''host'', JStr ''a'')], [(''host'', JStr ''b'')]] [sample_rule] 5
   \<and> passes_suppression (\<lambda>_. []) [[(''host'', JStr ''a'')], [(''host'', JStr ''b'')]] [sample_rule] 9"
proof -
  have 1: "\<not> passes_suppression (\<lambda>_. []) [[(''host'', JStr ''a'')]] [sample_rule] 5"
    and 2: "passes_suppression (\<lambda>_. []) [[(''host'', JStr ''a'')], [(''host'', JStr ''b'')]] [sample_rule] 5"
    by (simp_all add: passes_suppression_def sample_rule_def is_live_def rule_matches_def dotted_get_def dget_def)
  from suppression_only_live_rules [OF 2, of 9 "[sample_rule]"] 1 2 show ?thesis by simp
qed

end
