(* ===== verification/Spend_Gate.thy ===== *)
theory Spend_Gate
  imports Py_Json
begin

section \<open>Pricing and the spend gate\<close>

text \<open>
  \<^verbatim>\<open>llm/pricing.py\<close>: the price of a model (\<open>resolve_price\<close>) and of a call (\<open>cost_for\<close>); and
  \<^verbatim>\<open>engine/budget.py\<close>: the gate that compares projected spend with the daily and monthly ceilings
  (\<open>check\<close>) and its status view (\<open>status\<close>). The bundled model registry is an argument, as read from
  its file; the usage ledger is a function from a window in hours to the summary it returns, or \<open>None\<close>
  where the read raises; \<open>fl\<close> is the reading of numeric text by \<^verbatim>\<open>float\<close>.
\<close>

subsection \<open>Prices\<close>

type_synonym price = "real \<times> real"
type_synonym registry = "(string, (string \<times> json) list) dict"

definition PRICES :: "(string, price) dict" where
  "PRICES =
    [(''claude-fable-5'', (10, 50)),
     (''claude-opus-4-8'', (5, 25)),
     (''claude-opus-4-7'', (5, 25)),
     (''claude-sonnet-4-6'', (3, 15)),
     (''claude-haiku-4-5'', (1, 5)),
     (''claude-haiku-4-5-20251001'', (1, 5)),
     (''gpt-4o'', (25 / 10, 10)),
     (''gpt-4o-mini'', (15 / 100, 60 / 100)),
     (''gpt-4.1'', (2, 8)),
     (''gpt-4.1-mini'', (40 / 100, 160 / 100)),
     (''gpt-4-turbo'', (10, 30)),
     (''gpt-4'', (30, 60)),
     (''o4-mini'', (110 / 100, 440 / 100)),
     (''gpt-5.6-luna'', (20 / 100, 120 / 100)),
     (''gpt-5'', (125 / 100, 10)),
     (''gpt-5-mini'', (25 / 100, 2)),
     (''text-embedding-3-small'', (2 / 100, 0)),
     (''text-embedding-3-large'', (13 / 100, 0)),
     (''mock'', (0, 0))]"

definition DEFAULT_PRICE :: price where
  "DEFAULT_PRICE = (1, 3)"

definition TIER_HEURISTIC :: "(string \<times> price) list" where
  "TIER_HEURISTIC =
    [(''claude-fable'', (10, 50)),
     (''claude-opus'', (5, 25)),
     (''claude-sonnet'', (3, 15)),
     (''claude-haiku'', (1, 5)),
     (''gpt-5.6-luna'', (20 / 100, 120 / 100)),
     (''gpt-5-mini'', (25 / 100, 2)),
     (''gpt-5'', (125 / 100, 10)),
     (''gpt-4o-mini'', (15 / 100, 60 / 100)),
     (''gpt-4o'', (25 / 10, 10)),
     (''gpt-4.1-mini'', (40 / 100, 160 / 100)),
     (''gpt-4.1'', (2, 8)),
     (''o4-mini'', (110 / 100, 440 / 100)),
     (''text-embedding-3-large'', (13 / 100, 0)),
     (''text-embedding-3'', (2 / 100, 0)),
     (''text-embedding'', (2 / 100, 0))]"

definition startswith :: "string \<Rightarrow> string \<Rightarrow> bool" where
  "startswith s p = (take (length p) s = p)"

definition heuristic_price :: "string \<Rightarrow> price option" where
  "heuristic_price model = map_option snd (find (\<lambda>(prefix, _). startswith model prefix) TIER_HEURISTIC)"

definition registry_entry :: "registry \<Rightarrow> string \<Rightarrow> (string \<times> json) list option" where
  "registry_entry reg model =
     (case dget reg (py_strip model) of Some e \<Rightarrow> (if e = [] then None else Some e) | None \<Rightarrow> None)"

definition registry_price :: "(string \<Rightarrow> real option) \<Rightarrow> registry \<Rightarrow> string \<Rightarrow> price option" where
  "registry_price fl reg model =
     (case registry_entry reg model of
        None \<Rightarrow> None
      | Some e \<Rightarrow>
          (case (float_or_0 fl (jget e ''input_per_million''), float_or_0 fl (jget e ''output_per_million'')) of
             (Some i, Some out) \<Rightarrow> Some (i, out)
           | _ \<Rightarrow> None))"

definition rate_or :: "(string \<Rightarrow> real option) \<Rightarrow> json \<Rightarrow> real \<Rightarrow> real option" where
  "rate_or fl v dflt = (if v = JNull then Some dflt else py_float fl v)"

definition cache_rates ::
  "(string \<Rightarrow> real option) \<Rightarrow> registry \<Rightarrow> string \<Rightarrow> real \<Rightarrow> real \<times> real \<times> real" where
  "cache_rates fl reg model input_rate =
     (let read_default = 1/10 * input_rate; write_5m_default = 5/4 * input_rate; write_1h = 2 * input_rate
      in case registry_entry reg model of
           None \<Rightarrow> (read_default, write_5m_default, write_1h)
         | Some e \<Rightarrow>
             (case (rate_or fl (jget e ''cache_read_per_million'') read_default,
                    rate_or fl (jget e ''cache_write_per_million'') write_5m_default) of
                (Some r, Some w) \<Rightarrow> (r, w, write_1h)
              | _ \<Rightarrow> (read_default, write_5m_default, write_1h)))"

text \<open>\<^verbatim>\<open>a or b\<close> on optional results: a found price is a non-empty tuple, hence true.\<close>

fun first_price :: "price option list \<Rightarrow> price \<Rightarrow> price" where
  "first_price [] d = d"
| "first_price (Some p # ps) d = p"
| "first_price (None # ps) d = first_price ps d"

definition resolve_price ::
  "(string \<Rightarrow> real option) \<Rightarrow> registry \<Rightarrow> string \<Rightarrow> price option \<Rightarrow> price" where
  "resolve_price fl reg model overlay =
     (if startswith model ''mock'' then (0, 0)
      else case overlay of
             Some p \<Rightarrow> p
           | None \<Rightarrow> first_price [dget PRICES model, registry_price fl reg model, heuristic_price model] DEFAULT_PRICE)"

datatype pricing_source = Zero | Exact | Heuristic | Default_rate

definition pricing_source_of :: "(string \<Rightarrow> real option) \<Rightarrow> registry \<Rightarrow> string \<Rightarrow> pricing_source" where
  "pricing_source_of fl reg model =
     (if startswith model ''mock'' then Zero
      else if dget PRICES model \<noteq> None then Exact
      else if registry_price fl reg model \<noteq> None then Exact
      else if heuristic_price model \<noteq> None then Heuristic
      else Default_rate)"

definition provider_for :: "(json \<Rightarrow> string) \<Rightarrow> registry \<Rightarrow> string \<Rightarrow> string" where
  "provider_for shw reg model =
     (if startswith model ''claude-'' then ''anthropic''
      else if startswith model ''gpt-'' \<or> startswith model ''text-embedding-'' \<or>
              startswith model ''o1'' \<or> startswith model ''o3'' \<or> startswith model ''o4'' then ''openai''
      else if startswith model ''mock'' then ''mock''
      else case registry_entry reg model of
             None \<Rightarrow> ''other''
           | Some e \<Rightarrow>
               (let v = jget e ''provider'';
                    declared = py_strip (if truthy v then py_str shw v else [])
                in if declared \<noteq> [] then declared else ''other''))"

record cache_use =
  cache_read_tokens :: int
  cache_write_tokens :: int
  cache_write_ttl :: string
  batch :: bool

definition no_cache :: cache_use where
  "no_cache = \<lparr>cache_read_tokens = 0, cache_write_tokens = 0, cache_write_ttl = ''5m'', batch = False\<rparr>"

definition cost_for ::
  "(string \<Rightarrow> real option) \<Rightarrow> registry \<Rightarrow> string \<Rightarrow> int \<Rightarrow> int \<Rightarrow> price option \<Rightarrow> cache_use \<Rightarrow> real" where
  "cost_for fl reg model prompt_tokens completion_tokens overlay cu =
     (if startswith model ''mock'' then 0
      else
        let (in_price, out_price) = resolve_price fl reg model overlay;
            tot = of_int prompt_tokens / 1000000 * in_price + of_int completion_tokens / 1000000 * out_price;
            tot = (if cache_read_tokens cu \<noteq> 0 \<or> cache_write_tokens cu \<noteq> 0 then
                       let (read_rate, write_5m, write_1h) = cache_rates fl reg model in_price;
                           write_rate = (if cache_write_ttl cu = ''1h'' then write_1h else write_5m)
                       in tot + (of_int (cache_read_tokens cu) / 1000000 * read_rate
                                   + of_int (cache_write_tokens cu) / 1000000 * write_rate)
                     else tot);
            tot = (if batch cu then tot * (1/2) else tot)
        in py_round 8 tot)"

subsection \<open>The gate\<close>

datatype on_exceed = Warn_only | Block_spend

record budget_config =
  bc_enabled :: bool
  daily_usd :: "real option"
  monthly_usd :: "real option"
  soft_warn_pct :: real
  bc_on_exceed :: on_exceed

definition default_budget :: budget_config where
  "default_budget = \<lparr>bc_enabled = True, daily_usd = Some 10, monthly_usd = None,
     soft_warn_pct = 8/10, bc_on_exceed = Block_spend\<rparr>"

type_synonym usage = "int \<Rightarrow> json option"

definition DAILY_HOURS :: int where "DAILY_HOURS = 24"
definition MONTHLY_HOURS :: int where "MONTHLY_HOURS = 24 * 30"

definition estimate_tokens_from_chars :: "int \<Rightarrow> int" where
  "estimate_tokens_from_chars n = max 1 (n div 4)"

definition estimate_cost ::
  "(string \<Rightarrow> real option) \<Rightarrow> registry \<Rightarrow> int \<Rightarrow> int \<Rightarrow> string \<Rightarrow> price option \<Rightarrow> real" where
  "estimate_cost fl reg prompt_chars max_tokens model overlay =
     (let in_tokens = estimate_tokens_from_chars prompt_chars;
          out_tokens = max 0 max_tokens;
          (in_rate, out_rate) = resolve_price fl reg model overlay
      in py_round 8 (of_int in_tokens / 1000000 * in_rate + of_int out_tokens / 1000000 * out_rate))"

definition row_cost :: "(string \<Rightarrow> real option) \<Rightarrow> string list \<Rightarrow> json \<Rightarrow> real" where
  "row_cost fl surfaces row =
     (case row of
        JDict d \<Rightarrow>
          (case jget d ''key'' of
             JStr k \<Rightarrow>
               if k \<in> set surfaces then (case float_or_0 fl (jget d ''cost'') of Some c \<Rightarrow> c | None \<Rightarrow> 0) else 0
           | _ \<Rightarrow> 0)
      | _ \<Rightarrow> 0)"

definition surface_cost :: "(string \<Rightarrow> real option) \<Rightarrow> json option \<Rightarrow> string list \<Rightarrow> real option" where
  "surface_cost fl summary surfaces =
     (case summary of
        Some (JDict d) \<Rightarrow>
          if surfaces = [] then Some 0
          else
            let rows = jget d ''by_surface''; rows = (if truthy rows then rows else JList [])
            in map_option (\<lambda>xs. sum_list (map (row_cost fl surfaces) xs)) (iter_rows rows)
      | _ \<Rightarrow> Some 0)"

definition today_surface_cost :: "(string \<Rightarrow> real option) \<Rightarrow> json option \<Rightarrow> string list \<Rightarrow> real option" where
  "today_surface_cost fl summary surfaces =
     (case summary of
        Some (JDict d) \<Rightarrow>
          (case jget d ''today_by_surface'' of
             JList rows \<Rightarrow> surface_cost fl (Some (JDict [(''by_surface'', JList rows)])) surfaces
           | _ \<Rightarrow> None)
      | _ \<Rightarrow> None)"

record spend =
  sp_daily :: real
  sp_monthly :: real
  sp_excluded_daily :: real

text \<open>The reads of \<^verbatim>\<open>_window_spend\<close>, each in its own \<^verbatim>\<open>try\<close>.\<close>

definition today_cost_of :: "(string \<Rightarrow> real option) \<Rightarrow> json option \<Rightarrow> real" where
  "today_cost_of fl day =
     (case day of
        Some (JDict d) \<Rightarrow>
          (let v = (case dget d ''today_cost'' of Some v \<Rightarrow> v
                    | None \<Rightarrow> (case dget d ''total_cost'' of Some v \<Rightarrow> v | None \<Rightarrow> JFloat 0))
           in case float_or_0 fl v of Some c \<Rightarrow> c | None \<Rightarrow> 0)
      | _ \<Rightarrow> 0)"

definition monthly_of :: "(string \<Rightarrow> real option) \<Rightarrow> json option \<Rightarrow> string list \<Rightarrow> real" where
  "monthly_of fl month exclude =
     (case month of
        Some (JDict d) \<Rightarrow>
          (case float_or_0 fl (case dget d ''total_cost'' of Some v \<Rightarrow> v | None \<Rightarrow> JFloat 0) of
             None \<Rightarrow> 0
           | Some tot \<Rightarrow>
               if exclude = [] then tot
               else (case surface_cost fl month exclude of Some x \<Rightarrow> max 0 (tot - x) | None \<Rightarrow> tot))
      | _ \<Rightarrow> 0)"

definition excluded_of ::
  "(string \<Rightarrow> real option) \<Rightarrow> usage \<Rightarrow> json option \<Rightarrow> string list \<Rightarrow> int \<Rightarrow> real \<Rightarrow> real" where
  "excluded_of fl usage day exclude hours daily =
     (case today_surface_cost fl day exclude of
        Some exact \<Rightarrow> min daily exact
      | None \<Rightarrow>
          if 0 < hours then
            (case usage hours of
               None \<Rightarrow> 0
             | Some today \<Rightarrow> (case surface_cost fl (Some today) exclude of Some x \<Rightarrow> min daily x | None \<Rightarrow> 0))
          else min daily 0)"

definition window_spend ::
  "(string \<Rightarrow> real option) \<Rightarrow> usage \<Rightarrow> int \<Rightarrow> string list \<Rightarrow> spend" where
  "window_spend fl usage hours exclude =
     (let day = usage DAILY_HOURS;
          daily = today_cost_of fl day;
          monthly = monthly_of fl (usage MONTHLY_HOURS) exclude
      in if exclude \<noteq> [] \<and> 0 < daily then
           let ex = excluded_of fl usage day exclude hours daily
           in \<lparr>sp_daily = max 0 (daily - ex), sp_monthly = monthly, sp_excluded_daily = ex\<rparr>
         else \<lparr>sp_daily = daily, sp_monthly = monthly, sp_excluded_daily = 0\<rparr>)"

datatype window = Daily | Monthly

datatype budget_note = Would_exceed window real real real | Near_ceiling window real real

datatype budget_decision =
    Allow
  | Warn "budget_note list"
  | Block window budget_note real real real

fun spent_in :: "spend \<Rightarrow> window \<Rightarrow> real" where
  "spent_in sp Daily = sp_daily sp"
| "spent_in sp Monthly = sp_monthly sp"

fun cap_of :: "budget_config \<Rightarrow> window \<Rightarrow> real option" where
  "cap_of b Daily = daily_usd b"
| "cap_of b Monthly = monthly_usd b"

definition warn_pct :: "budget_config \<Rightarrow> real" where
  "warn_pct b = (if soft_warn_pct b = 0 then 8/10 else soft_warn_pct b)"

fun decide_windows ::
  "budget_config \<Rightarrow> spend \<Rightarrow> real \<Rightarrow> window list \<Rightarrow> budget_note list \<Rightarrow> budget_decision" where
  "decide_windows b sp est [] warnings = (if warnings \<noteq> [] then Warn warnings else Allow)"
| "decide_windows b sp est (w # ws) warnings =
     (case cap_of b w of
        None \<Rightarrow> decide_windows b sp est ws warnings
      | Some cap \<Rightarrow>
          if cap \<le> 0 then decide_windows b sp est ws warnings
          else
            let projected = spent_in sp w + est; reason = Would_exceed w (spent_in sp w) est cap
            in if cap < projected then
                 (if bc_on_exceed b = Block_spend then Block w reason (py_round 6 (spent_in sp w)) cap est
                  else decide_windows b sp est ws (warnings @ [reason]))
               else if cap * warn_pct b \<le> projected then
                 decide_windows b sp est ws (warnings @ [Near_ceiling w (projected / cap) cap])
               else decide_windows b sp est ws warnings)"

definition decide_spend :: "budget_config \<Rightarrow> spend \<Rightarrow> real \<Rightarrow> budget_decision" where
  "decide_spend b sp est = decide_windows b sp est [Daily, Monthly] []"

text \<open>\<^verbatim>\<open>get_budget\<close> may raise or return nothing: both are \<open>None\<close>.\<close>

definition check ::
  "(string \<Rightarrow> real option) \<Rightarrow> registry \<Rightarrow> budget_config option \<Rightarrow> usage \<Rightarrow> int \<Rightarrow> int \<Rightarrow> int \<Rightarrow> string
     \<Rightarrow> price option \<Rightarrow> string list \<Rightarrow> budget_decision" where
  "check fl reg budget usage hours prompt_chars max_tokens model overlay exclude =
     (case budget of
        None \<Rightarrow> Allow
      | Some b \<Rightarrow>
          if \<not> bc_enabled b then Allow
          else decide_spend b (window_spend fl usage hours exclude)
                 (estimate_cost fl reg prompt_chars max_tokens model overlay))"

definition surface_spend_today ::
  "(string \<Rightarrow> real option) \<Rightarrow> usage \<Rightarrow> int \<Rightarrow> string \<Rightarrow> real option" where
  "surface_spend_today fl usage hours_up surface =
     (case usage DAILY_HOURS of
        None \<Rightarrow> Some 0
      | Some day \<Rightarrow>
          (case today_surface_cost fl (Some day) [surface] of
             Some exact \<Rightarrow> Some exact
           | None \<Rightarrow>
               (case usage (max 1 hours_up) of
                  None \<Rightarrow> Some 0
                | Some summary \<Rightarrow> surface_cost fl (Some summary) [surface])))"

datatype band = Band_ok | Band_warn | Band_over

record window_view =
  wv_spent :: real
  wv_cap :: "real option"
  wv_fraction :: "real option"
  wv_band :: band

definition window_status :: "real \<Rightarrow> real option \<Rightarrow> real \<Rightarrow> window_view" where
  "window_status spent cap pct =
     (case cap of
        None \<Rightarrow> \<lparr>wv_spent = py_round 6 spent, wv_cap = None, wv_fraction = None, wv_band = Band_ok\<rparr>
      | Some c \<Rightarrow>
          if c \<le> 0 then \<lparr>wv_spent = py_round 6 spent, wv_cap = None, wv_fraction = None, wv_band = Band_ok\<rparr>
          else \<lparr>wv_spent = py_round 6 spent, wv_cap = Some c, wv_fraction = Some (py_round 4 (spent / c)),
                wv_band = (if c < spent then Band_over else if pct \<le> spent / c then Band_warn else Band_ok)\<rparr>)"

record budget_status =
  bs_enabled :: bool
  bs_on_exceed :: on_exceed
  bs_warn_pct :: real
  bs_daily :: window_view
  bs_monthly :: window_view
  bs_excluded_surfaces :: "string list"
  bs_excluded_today :: real

definition status ::
  "(string \<Rightarrow> real option) \<Rightarrow> budget_config option \<Rightarrow> usage \<Rightarrow> int \<Rightarrow> string list \<Rightarrow> budget_status" where
  "status fl budget usage hours exclude =
     (let sp = window_spend fl usage hours exclude;
          pct = (case budget of Some b \<Rightarrow> warn_pct b | None \<Rightarrow> 8/10);
          cap = (\<lambda>w. case budget of Some b \<Rightarrow> cap_of b w | None \<Rightarrow> None)
      in \<lparr>bs_enabled = (case budget of Some b \<Rightarrow> bc_enabled b | None \<Rightarrow> False),
          bs_on_exceed = (case budget of Some b \<Rightarrow> bc_on_exceed b | None \<Rightarrow> Warn_only),
          bs_warn_pct = pct,
          bs_daily = window_status (sp_daily sp) (cap Daily) pct,
          bs_monthly = window_status (sp_monthly sp) (cap Monthly) pct,
          bs_excluded_surfaces = exclude,
          bs_excluded_today = py_round 6 (sp_excluded_daily sp)\<rparr>)"

subsection \<open>The decision, characterised\<close>

text \<open>A window whose ceiling the projected spend crosses, and one it comes near.\<close>

definition over_cap :: "budget_config \<Rightarrow> spend \<Rightarrow> real \<Rightarrow> window \<Rightarrow> bool" where
  "over_cap b sp est w \<longleftrightarrow> (\<exists>cap. cap_of b w = Some cap \<and> 0 < cap \<and> cap < spent_in sp w + est)"

definition near_cap :: "budget_config \<Rightarrow> spend \<Rightarrow> real \<Rightarrow> window \<Rightarrow> bool" where
  "near_cap b sp est w \<longleftrightarrow>
     (\<exists>cap. cap_of b w = Some cap \<and> 0 < cap \<and> cap * warn_pct b \<le> spent_in sp w + est)"

fun is_block :: "budget_decision \<Rightarrow> bool" where
  "is_block (Block w n s c e) = True"
| "is_block _ = False"

lemma decide_windows_block:
  "is_block (decide_windows b sp est ws warnings) \<longleftrightarrow>
     bc_on_exceed b = Block_spend \<and> (\<exists>w \<in> set ws. over_cap b sp est w)"
  by (induction b sp est ws warnings rule: decide_windows.induct)
    (auto simp: over_cap_def Let_def split: option.splits)

lemma decide_windows_allow:
  "decide_windows b sp est ws warnings = Allow \<longleftrightarrow>
     warnings = [] \<and> (\<forall>w \<in> set ws. \<not> over_cap b sp est w \<and> \<not> near_cap b sp est w)"
  by (induction b sp est ws warnings rule: decide_windows.induct)
    (auto simp: over_cap_def near_cap_def Let_def split: option.splits)

lemma window_all: "(\<forall>w \<in> set [Daily, Monthly]. P w) \<longleftrightarrow> (\<forall>w. P w)"
  by (auto, metis window.exhaust)

lemma window_ex: "(\<exists>w \<in> set [Daily, Monthly]. P w) \<longleftrightarrow> (\<exists>w. P w)"
  using window_all [of "\<lambda>w. \<not> P w"] by blast

lemma decide_spend_block:
  "is_block (decide_spend b sp est) \<longleftrightarrow> bc_on_exceed b = Block_spend \<and> (\<exists>w. over_cap b sp est w)"
  unfolding decide_spend_def decide_windows_block window_ex ..

lemma decide_spend_allow:
  "decide_spend b sp est = Allow \<longleftrightarrow> (\<forall>w. \<not> over_cap b sp est w \<and> \<not> near_cap b sp est w)"
  unfolding decide_spend_def decide_windows_allow window_all by simp

lemma window_spend_unreadable [simp]:
  "window_spend fl (\<lambda>_. None) hours exclude = \<lparr>sp_daily = 0, sp_monthly = 0, sp_excluded_daily = 0\<rparr>"
  by (simp add: window_spend_def today_cost_of_def monthly_of_def)

subsection \<open>Prices and rounding\<close>

lemma py_round_grid: "py_round n (of_int k / 10 ^ n) = of_int k / 10 ^ n"
  by (simp add: py_round_def)

lemma first_price_P:
  "P d \<Longrightarrow> (\<forall>p. Some p \<in> set ps \<longrightarrow> P p) \<Longrightarrow> P (first_price ps d)"
  by (induction ps d rule: first_price.induct) auto

definition priced :: "price \<Rightarrow> bool" where
  "priced p \<longleftrightarrow> 1/50 \<le> fst p \<and> 0 \<le> snd p"

lemma PRICES_priced: "dget PRICES m = Some p \<Longrightarrow> m \<noteq> ''mock'' \<Longrightarrow> priced p"
  by (auto simp: PRICES_def dget_def priced_def split: if_splits)

lemma TIER_priced: "(pre, p) \<in> set TIER_HEURISTIC \<Longrightarrow> priced p"
  by (auto simp: TIER_HEURISTIC_def priced_def)

lemma heuristic_priced: "heuristic_price m = Some p \<Longrightarrow> priced p"
  using TIER_priced by (auto simp: heuristic_price_def find_Some_iff) (metis nth_mem)

lemma resolve_price_priced:
  assumes "\<not> startswith m ''mock''" "registry_price fl reg m = None"
  shows "priced (resolve_price fl reg m None)"
proof -
  have ne: "m \<noteq> ''mock''" using assms(1) by (auto simp: startswith_def)
  have "priced (first_price [dget PRICES m, None, heuristic_price m] DEFAULT_PRICE)"
  proof (rule first_price_P)
    show "priced DEFAULT_PRICE" by (simp add: DEFAULT_PRICE_def priced_def)
    show "\<forall>p. Some p \<in> set [dget PRICES m, None, heuristic_price m] \<longrightarrow> priced p"
      using PRICES_priced [OF _ ne] heuristic_priced [of m] by (metis empty_iff empty_set option.distinct(1) set_ConsD)
  qed
  with assms show ?thesis by (simp add: resolve_price_def)
qed

lemma estimate_is_cost:
  "\<not> startswith m ''mock'' \<Longrightarrow>
   estimate_cost fl reg chars mx m ov = cost_for fl reg m (estimate_tokens_from_chars chars) (max 0 mx) ov no_cache"
  by (simp add: estimate_cost_def cost_for_def no_cache_def Let_def case_prod_beta')

lemma cost_for_plain:
  "\<not> startswith m ''mock'' \<Longrightarrow> cost_for fl reg m p c ov no_cache =
     py_round 8 (of_int p / 1000000 * fst (resolve_price fl reg m ov) + of_int c / 1000000 * snd (resolve_price fl reg m ov))"
  by (simp add: cost_for_def no_cache_def Let_def case_prod_beta')

lemma cost_for_mono:
  assumes "0 \<le> fst (resolve_price fl reg m ov)" "0 \<le> snd (resolve_price fl reg m ov)" "p \<le> p'" "c \<le> c'"
  shows "cost_for fl reg m p c ov no_cache \<le> cost_for fl reg m p' c' ov no_cache"
proof (cases "startswith m ''mock''")
  case True
  then show ?thesis by (simp add: cost_for_def)
next
  case False
  have "of_int p / 1000000 * fst (resolve_price fl reg m ov) \<le> of_int p' / 1000000 * fst (resolve_price fl reg m ov)"
    "of_int c / 1000000 * snd (resolve_price fl reg m ov) \<le> of_int c' / 1000000 * snd (resolve_price fl reg m ov)"
    using assms by (intro mult_right_mono divide_right_mono; simp)+
  then show ?thesis by (simp add: cost_for_plain [OF False] py_round_mono)
qed

subsection \<open>Properties\<close>


text \<open>
  The status page shows what the gate enforces. The band of a window is \<open>over\<close> exactly when the gate
  in blocking mode would refuse a free call now, and both bands are \<open>ok\<close> exactly when it would allow one
  without a warning.
\<close>

lemma window_status_over:
  "wv_band (window_status (spent_in sp w) (cap_of b w) (warn_pct b)) = Band_over \<longleftrightarrow> over_cap b sp 0 w"
  by (auto simp: window_status_def over_cap_def split: option.splits)

lemma window_status_ok:
  "wv_band (window_status (spent_in sp w) (cap_of b w) (warn_pct b)) = Band_ok \<longleftrightarrow>
     \<not> over_cap b sp 0 w \<and> \<not> near_cap b sp 0 w"
  by (auto simp: window_status_def over_cap_def near_cap_def field_simps split: option.splits)

lemma over_cap_mode [simp]: "over_cap (b\<lparr>bc_on_exceed := m\<rparr>) sp est w = over_cap b sp est w"
  by (cases w) (simp_all add: over_cap_def)

theorem status_matches_gate:
  "(wv_band (bs_daily (status fl (Some b) usage hours exclude)) = Band_over \<or>
    wv_band (bs_monthly (status fl (Some b) usage hours exclude)) = Band_over \<longleftrightarrow>
      is_block (decide_spend (b\<lparr>bc_on_exceed := Block_spend\<rparr>) (window_spend fl usage hours exclude) 0)) \<and>
   (wv_band (bs_daily (status fl (Some b) usage hours exclude)) = Band_ok \<and>
    wv_band (bs_monthly (status fl (Some b) usage hours exclude)) = Band_ok \<longleftrightarrow>
      decide_spend b (window_spend fl usage hours exclude) 0 = Allow)"
proof -
  let ?sp = "window_spend fl usage hours exclude"
  have "bs_daily (status fl (Some b) usage hours exclude) = window_status (spent_in ?sp Daily) (cap_of b Daily) (warn_pct b)"
    "bs_monthly (status fl (Some b) usage hours exclude) = window_status (spent_in ?sp Monthly) (cap_of b Monthly) (warn_pct b)"
    by (simp_all add: status_def Let_def)
  then show ?thesis
    unfolding decide_spend_block decide_spend_allow window_all [symmetric] window_ex [symmetric]
    by (simp only: window_status_over window_status_ok over_cap_mode) simp
qed

text \<open>
  Excluded surfaces are subtracted exactly. Whatever the ledger reports, the counted daily spend and
  the excluded share add up to the day's spend, the counted part is never negative for a non-negative
  day, and the excluded share is never more than the day's spend.
\<close>

theorem daily_spend_split:
  "sp_daily (window_spend fl usage hours exclude) + sp_excluded_daily (window_spend fl usage hours exclude)
     = today_cost_of fl (usage DAILY_HOURS) \<and>
   min 0 (today_cost_of fl (usage DAILY_HOURS)) \<le> sp_daily (window_spend fl usage hours exclude) \<and>
   sp_excluded_daily (window_spend fl usage hours exclude) \<le> max 0 (today_cost_of fl (usage DAILY_HOURS))"
proof -
  have le: "excluded_of fl usage day exclude hours d \<le> d" if "0 < d" for day d
    using that by (auto simp: excluded_of_def split: option.splits)
  show ?thesis
    using le [of "today_cost_of fl (usage DAILY_HOURS)"]
    by (auto simp: window_spend_def Let_def max_def)
qed

text \<open>
  C27. The pre-flight estimate covers the recorded cost: with non-negative rates, a call that uses no more
  prompt tokens than four characters each would give and no more completion tokens than \<open>max_tokens\<close>
  is recorded at no more than its estimate, and at exactly the estimate when it uses both in full.
\<close>

theorem estimate_covers_cost:
  assumes "0 \<le> fst (resolve_price fl reg model ov)" "0 \<le> snd (resolve_price fl reg model ov)"
    and "p \<le> estimate_tokens_from_chars chars" and "c \<le> max 0 mx"
  shows "cost_for fl reg model p c ov no_cache \<le> estimate_cost fl reg chars mx model ov \<and>
    estimate_cost fl reg chars mx model ov =
      cost_for fl reg model (estimate_tokens_from_chars chars) (max 0 mx) ov no_cache"
proof -
  have eq: "estimate_cost fl reg chars mx model ov =
      cost_for fl reg model (estimate_tokens_from_chars chars) (max 0 mx) ov no_cache"
  proof (cases "startswith model ''mock''")
    case True
    then show ?thesis by (simp add: estimate_cost_def cost_for_def resolve_price_def Let_def)
  qed (rule estimate_is_cost)
  with cost_for_mono [OF assms] show ?thesis by simp
qed

theorem estimate_covers_cost_witness:
  "cost_for (\<lambda>_. None) [] ''gpt-4o'' 5 10 None no_cache \<le> estimate_cost (\<lambda>_. None) [] 40 20 ''gpt-4o'' None"
proof -
  have r: "resolve_price (\<lambda>_. None) [] ''gpt-4o'' None = (5/2, 10)"
    by (simp add: resolve_price_def startswith_def PRICES_def dget_def)
  show ?thesis
    by (rule estimate_covers_cost [THEN conjunct1]) (simp_all add: r estimate_tokens_from_chars_def)
qed

text \<open>
  An unlisted model is never free: without an operator price and without a usable registry row,
  every model that is not the mock provider is charged a positive amount for any call with at least one
  prompt token, whether its price comes from the table, from its family or from the default.
\<close>

theorem unlisted_model_never_free:
  assumes "\<not> startswith model ''mock''" and "registry_price fl reg model = None"
    and "1 \<le> p" and "0 \<le> c"
  shows "0 < cost_for fl reg model p c None no_cache"
proof -
  let ?r = "resolve_price fl reg model None"
  have r: "1/50 \<le> fst ?r" "0 \<le> snd ?r"
    using resolve_price_priced [OF assms(1,2)] by (simp_all add: priced_def)
  have "1 / 1000000 * (1/50) \<le> of_int p / 1000000 * fst ?r"
    using r assms(3) by (intro mult_mono) auto
  moreover have "0 \<le> of_int c / 1000000 * snd ?r" using r assms(4) by simp
  ultimately have "py_round 8 (of_int 2 / 10 ^ 8) \<le> cost_for fl reg model p c None no_cache"
    unfolding cost_for_plain [OF assms(1)] by (intro py_round_mono) simp
  then show ?thesis unfolding py_round_grid by (rule less_le_trans [rotated]) simp
qed

theorem unlisted_model_never_free_witness:
  "0 < cost_for (\<lambda>_. None) [] ''vendor-x'' 1 0 None no_cache"
  by (rule unlisted_model_never_free) (simp_all add: startswith_def registry_price_def registry_entry_def)

end
