(* ===== verification/Correlation.thy ===== *)
theory Correlation
  imports Py_Json "HOL-Library.Multiset"
begin

section \<open>Deterministic correlation\<close>

text \<open>
  \<^verbatim>\<open>engine/correlation.py\<close> up to the cross-source pass, \<^verbatim>\<open>engine/signatures.py\<close> and the entity views
  of \<^verbatim>\<open>models.RawEvent\<close>: a polled batch is bucketed by rule, each event is resolved to an entity,
  a two-pointer scan finds the densest window of each group, and every triggered entity gathers all
  its events into one cluster. The digest behind \<^verbatim>\<open>stable_signature\<close> and the text of floats and
  containers (\<open>shw\<close>) are arguments.
\<close>

subsection \<open>Grouping into a dictionary of lists\<close>

text \<open>\<^verbatim>\<open>d[key].append(x)\<close> on a \<^verbatim>\<open>defaultdict(list)\<close>, over all \<open>x\<close> that have a key.\<close>

definition append_at :: "('k, 'a list) dict \<Rightarrow> 'k \<Rightarrow> 'a \<Rightarrow> ('k, 'a list) dict" where
  "append_at d k x = dset d k ((case dget d k of None \<Rightarrow> [] | Some xs \<Rightarrow> xs) @ [x])"

fun group_into :: "('a \<Rightarrow> 'k option) \<Rightarrow> ('k, 'a list) dict \<Rightarrow> 'a list \<Rightarrow> ('k, 'a list) dict" where
  "group_into f d [] = d"
| "group_into f d (x # xs) =
     group_into f (case f x of None \<Rightarrow> d | Some k \<Rightarrow> append_at d k x) xs"

lemma dget_group_into:
  "dget (group_into f d xs) k =
     (let g = filter (\<lambda>x. f x = Some k) xs
      in case dget d k of None \<Rightarrow> (if g = [] then None else Some g) | Some ys \<Rightarrow> Some (ys @ g))"
proof (induction xs arbitrary: d)
  case Nil
  then show ?case by (simp split: option.splits)
next
  case (Cons x xs)
  then show ?case
    by (cases "f x") (auto simp: append_at_def Let_def split: option.splits)
qed

lemma dict_ok_group_into: "dict_ok d \<Longrightarrow> dict_ok (group_into f d xs)"
  by (induction xs arbitrary: d) (auto simp: append_at_def split: option.splits)

lemma group_into_item:
  "(k, g) \<in> set (group_into f [] xs) \<longleftrightarrow> g = filter (\<lambda>x. f x = Some k) xs \<and> g \<noteq> []"
  using dget_eq_Some [OF dict_ok_group_into [OF dict_ok_Nil], of f xs k g]
  by (auto simp: dget_group_into Let_def split: if_splits)

subsection \<open>Events\<close>

datatype entity_type = IP | USER | HOST | FILE_HASH | DOMAIN | RULE

fun et_value :: "entity_type \<Rightarrow> string" where
  "et_value IP = ''ip''"
| "et_value USER = ''user''"
| "et_value HOST = ''host''"
| "et_value FILE_HASH = ''file_hash''"
| "et_value DOMAIN = ''domain''"
| "et_value RULE = ''rule''"

lemma et_value_inj [simp]: "et_value a = et_value b \<longleftrightarrow> a = b"
  by (cases a; cases b) auto

text \<open>Entity types are ordered as their values are.\<close>

instantiation entity_type :: linorder
begin

definition less_eq_entity_type :: "entity_type \<Rightarrow> entity_type \<Rightarrow> bool" where
  "less_eq_entity_type a b = (et_value a \<le> et_value b)"

definition less_entity_type :: "entity_type \<Rightarrow> entity_type \<Rightarrow> bool" where
  "less_entity_type a b = (et_value a < et_value b)"

instance
  by intro_classes (auto simp: less_eq_entity_type_def less_entity_type_def less_le_not_le)

end

record raw_event =
  ev_id :: string
  ev_index :: string
  ev_source :: "(string \<times> json) list"
  timestamp_millis :: int
  ev_ip :: "string option"
  ev_user :: "string option"
  ev_host :: "string option"
  ev_rule :: "string option"
  ev_rule_name :: "string option"
  ev_severity :: real
  index_role :: string
  ev_source_id :: "string option"
  ev_source_name :: "string option"
  feed_id :: string
  ev_auto_eligible :: bool

definition CURSOR_KEY_SEPARATOR :: char where
  "CURSOR_KEY_SEPARATOR = char_of (31 :: nat)"

definition make_cursor_event_key :: "string \<Rightarrow> string \<Rightarrow> string" where
  "make_cursor_event_key index event_id =
     (if index \<noteq> [] then index @ CURSOR_KEY_SEPARATOR # event_id else event_id)"

definition split_cursor_event_key :: "string \<Rightarrow> string option \<times> string" where
  "split_cursor_event_key v =
     (if CURSOR_KEY_SEPARATOR \<notin> set v then (None, v)
      else (Some (takeWhile (\<lambda>c. c \<noteq> CURSOR_KEY_SEPARATOR) v), tl (dropWhile (\<lambda>c. c \<noteq> CURSOR_KEY_SEPARATOR) v)))"

definition event_key :: "raw_event \<Rightarrow> string" where
  "event_key ev = make_cursor_event_key (ev_index ev) (ev_id ev)"

definition as_str :: "(json \<Rightarrow> string) \<Rightarrow> json \<Rightarrow> string option" where
  "as_str shw v =
     (case v of
        JNull \<Rightarrow> None
      | JList [] \<Rightarrow> None
      | JList (x # xs) \<Rightarrow> (if x = JNull then None else Some (py_str shw x))
      | _ \<Rightarrow> Some (py_str shw v))"

definition FILE_HASH_FIELDS :: "string list" where
  "FILE_HASH_FIELDS = [''file.hash.sha256'', ''file.hash.sha1'', ''file.hash.md5'',
     ''process.hash.sha256'', ''hash.sha256'', ''sha256'', ''data.sha256'']"

definition DOMAIN_FIELDS :: "string list" where
  "DOMAIN_FIELDS = [''url.domain'', ''destination.domain'', ''dns.question.name'',
     ''domain'', ''data.domain'', ''host.domain'']"

fun first_field :: "(json \<Rightarrow> string) \<Rightarrow> (string \<times> json) list \<Rightarrow> string list \<Rightarrow> string option" where
  "first_field shw src [] = None"
| "first_field shw src (f # fs) =
     (case as_str shw (dotted_get src f JNull) of
        Some v \<Rightarrow> if v \<noteq> [] then Some v else first_field shw src fs
      | None \<Rightarrow> first_field shw src fs)"

fun cross_source_value :: "(json \<Rightarrow> string) \<Rightarrow> raw_event \<Rightarrow> entity_type \<Rightarrow> string option" where
  "cross_source_value shw ev IP = ev_ip ev"
| "cross_source_value shw ev HOST = ev_host ev"
| "cross_source_value shw ev USER = ev_user ev"
| "cross_source_value shw ev FILE_HASH = map_option py_lower (first_field shw (ev_source ev) FILE_HASH_FIELDS)"
| "cross_source_value shw ev DOMAIN = first_field shw (ev_source ev) DOMAIN_FIELDS"
| "cross_source_value shw ev RULE = None"

definition RULE_BUCKET_SECONDS :: int where
  "RULE_BUCKET_SECONDS = 300"

text \<open>\<^verbatim>\<open>self.rule or self.rule_name\<close>, empty text being false.\<close>

definition opt_or :: "string option \<Rightarrow> string option \<Rightarrow> string option" where
  "opt_or a b = (case a of Some (c # cs) \<Rightarrow> a | _ \<Rightarrow> b)"

definition entity_value :: "(json \<Rightarrow> string) \<Rightarrow> raw_event \<Rightarrow> entity_type \<Rightarrow> string option" where
  "entity_value shw ev group_by =
     (if group_by = RULE then
        (case opt_or (ev_rule ev) (ev_rule_name ev) of
           None \<Rightarrow> None
         | Some r \<Rightarrow>
             if r = [] then None
             else Some (r @ ''|'' @ str_int (timestamp_millis ev div (RULE_BUCKET_SECONDS * 1000))))
      else if group_by = FILE_HASH \<or> group_by = DOMAIN then cross_source_value shw ev group_by
      else case group_by of IP \<Rightarrow> ev_ip ev | USER \<Rightarrow> ev_user ev | HOST \<Rightarrow> ev_host ev | _ \<Rightarrow> None)"

subsection \<open>Signatures\<close>

definition stable_signature :: "(string \<Rightarrow> string) \<Rightarrow> string list \<Rightarrow> string" where
  "stable_signature digest parts = take 32 (digest (join_with ''|'' parts))"

definition cluster_signature ::
  "(string \<Rightarrow> string) \<Rightarrow> entity_type \<Rightarrow> string \<Rightarrow> string option \<Rightarrow> string" where
  "cluster_signature digest et value source_id =
     (case source_id of
        Some (c # cs) \<Rightarrow> stable_signature digest [''cluster'', c # cs, et_value et, value]
      | _ \<Rightarrow> stable_signature digest [''cluster'', et_value et, value])"

definition cross_source_signature :: "(string \<Rightarrow> string) \<Rightarrow> entity_type \<Rightarrow> string \<Rightarrow> int \<Rightarrow> int \<Rightarrow> string" where
  "cross_source_signature digest et value ts window_seconds =
     (let window_ms = max 1 window_seconds * 1000;
          bucket = (if ts \<noteq> 0 then ts div window_ms else 0)
      in stable_signature digest [''xsrc'', et_value et, value, str_int bucket])"

subsection \<open>Configuration\<close>

datatype correlation_mode = EVERY | THRESHOLD | NEVER

record correlation_rule =
  cr_mode :: correlation_mode
  cr_n :: int
  cr_window_seconds :: int
  cr_group_by :: entity_type

datatype entity_strategy = S_AUTO | S_IP | S_HOST | S_USER | S_RULE

record rule_definition =
  rd_name :: string
  rd_correlation :: "correlation_rule option"

record correlation_prefs =
  correlation_rules :: "(string, correlation_rule) dict"
  default_correlation :: correlation_rule
  rule_catalog :: "rule_definition list"
  entity_strategy_pref :: entity_strategy

definition correlation_for :: "correlation_prefs \<Rightarrow> string \<Rightarrow> correlation_rule" where
  "correlation_for p r = (case dget (correlation_rules p) r of Some c \<Rightarrow> c | None \<Rightarrow> default_correlation p)"

definition correlation_for_def :: "correlation_prefs \<Rightarrow> rule_definition option \<Rightarrow> correlation_rule" where
  "correlation_for_def p rd =
     (case rd of
        None \<Rightarrow> default_correlation p
      | Some d \<Rightarrow> (case rd_correlation d of Some c \<Rightarrow> c | None \<Rightarrow> correlation_for p (rd_name d)))"

text \<open>\<^verbatim>\<open>{rd.name: rd for rd in prefs.rule_catalog}\<close>: the last definition of a name wins.\<close>

definition rule_defs :: "correlation_prefs \<Rightarrow> (string, rule_definition) dict" where
  "rule_defs p = foldl (\<lambda>d rd. dset d (rd_name rd) rd) [] (rule_catalog p)"

definition bucket_cfg :: "correlation_prefs \<Rightarrow> string \<Rightarrow> correlation_rule" where
  "bucket_cfg p r =
     (case dget (rule_defs p) r of Some rd \<Rightarrow> correlation_for_def p (Some rd) | None \<Rightarrow> correlation_for p r)"

subsection \<open>Resolving an event\<close>

definition AUTO_LADDER :: "entity_type list" where
  "AUTO_LADDER = [IP, HOST, USER, RULE]"

fun PINNED_LADDER :: "entity_strategy \<Rightarrow> entity_type list" where
  "PINNED_LADDER S_IP = [IP, RULE]"
| "PINNED_LADDER S_HOST = [HOST, RULE]"
| "PINNED_LADDER S_USER = [USER, RULE]"
| "PINNED_LADDER S_RULE = [RULE]"
| "PINNED_LADDER S_AUTO = AUTO_LADDER"

fun walk_ladder :: "(json \<Rightarrow> string) \<Rightarrow> raw_event \<Rightarrow> entity_type list \<Rightarrow> (entity_type \<times> string) option" where
  "walk_ladder shw ev [] = None"
| "walk_ladder shw ev (et # ets) =
     (case entity_value shw ev et of Some v \<Rightarrow> Some (et, v) | None \<Rightarrow> walk_ladder shw ev ets)"

definition resolve_entity ::
  "(json \<Rightarrow> string) \<Rightarrow> raw_event \<Rightarrow> entity_type \<Rightarrow> entity_strategy \<Rightarrow> (entity_type \<times> string) option" where
  "resolve_entity shw ev group_by strategy =
     (if strategy = S_AUTO then
        (case entity_value shw ev group_by of
           Some v \<Rightarrow> Some (group_by, v)
         | None \<Rightarrow> walk_ladder shw ev AUTO_LADDER)
      else walk_ladder shw ev (PINNED_LADDER strategy))"

subsection \<open>The densest window\<close>

record window_detail =
  observed_count :: int
  window_start :: int
  window_end :: int

text \<open>
  \<^verbatim>\<open>while times[right] - times[left] > span: left += 1\<close>. The span is positive
  (\<^verbatim>\<open>window_seconds\<close> is at least 1), so the loop stops at \<open>left = right\<close> at the latest.
\<close>

function advance :: "int list \<Rightarrow> int \<Rightarrow> nat \<Rightarrow> nat \<Rightarrow> nat" where
  "advance ts spn right left =
     (if left < right \<and> spn < ts ! right - ts ! left then advance ts spn right (Suc left) else left)"
  by pat_completeness auto
termination
  by (relation "measure (\<lambda>(ts, spn, right, left). right - left)") auto

declare advance.simps [simp del]

definition scan_step ::
  "int list \<Rightarrow> int \<Rightarrow> int \<Rightarrow> nat \<times> window_detail option \<Rightarrow> nat \<Rightarrow> nat \<times> window_detail option" where
  "scan_step ts spn n = (\<lambda>(left, best) right.
     let left' = advance ts spn right left;
         count = int right - int left' + 1
     in (left',
         if n \<le> count \<and> (case best of None \<Rightarrow> True | Some b \<Rightarrow> observed_count b < count)
         then Some \<lparr>observed_count = count, window_start = ts ! left', window_end = ts ! right\<rparr>
         else best))"

definition window_detail_of :: "raw_event list \<Rightarrow> correlation_rule \<Rightarrow> window_detail option" where
  "window_detail_of events cfg =
     (if events = [] then None
      else
        let ts = sort (map timestamp_millis events)
        in if cr_mode cfg = EVERY \<or> cr_n cfg \<le> 1 then
             Some \<lparr>observed_count = int (length events), window_start = ts ! 0,
                   window_end = ts ! (length ts - 1)\<rparr>
           else if int (length events) < cr_n cfg then None
           else snd (foldl (scan_step ts (cr_window_seconds cfg * 1000) (cr_n cfg)) (0, None) [0..<length ts]))"

definition window_breach :: "raw_event list \<Rightarrow> int \<Rightarrow> int \<Rightarrow> bool" where
  "window_breach events n window_seconds =
     (let cfg = \<lparr>cr_mode = THRESHOLD, cr_n = max 1 n, cr_window_seconds = max 1 window_seconds, cr_group_by = IP\<rparr>
      in if n \<le> 1 then 1 \<le> length events else window_detail_of events cfg \<noteq> None)"

subsection \<open>Clusters\<close>

record trigger_meta =
  tm_rule :: string
  tm_mode :: correlation_mode
  tm_n :: int
  tm_window_seconds :: int
  tm_group_by :: entity_type
  tm_detail :: window_detail
  tm_severity :: "(real \<times> real) option"

datatype sentence =
    Threshold_sentence int string entity_type string int int entity_type
  | Every_sentence string entity_type string
  | Plain_sentence int string entity_type string

record trigger_reason =
  tr_meta :: trigger_meta
  tr_entity :: "entity_type \<times> string"
  tr_rule_values :: "string list"
  tr_sentence :: sentence
  tr_severity_shown :: bool

record cluster =
  signature :: string
  legacy_signature :: "string option"
  cl_entity :: "entity_type \<times> string"
  rule_values :: "string list"
  member_event_ids :: "string list"
  member_event_keys :: "string list"
  member_events :: "raw_event list"
  first_seen_millis :: int
  last_seen_millis :: int
  cl_count :: nat
  cl_trigger :: "trigger_reason option"
  cl_source_id :: "string option"
  cl_source_name :: "string option"
  is_alert :: bool
  source_ids :: "string list"
  auto_investigate_eligible :: bool
  feed_ids :: "string list"

text \<open>\<^verbatim>\<open>value.rsplit("|", 1)[0]\<close>.\<close>

definition rsplit_head :: "char \<Rightarrow> string \<Rightarrow> string" where
  "rsplit_head c s = (if c \<in> set s then rev (tl (dropWhile (\<lambda>x. x \<noteq> c) (rev s))) else s)"

definition build_trigger_reason ::
  "entity_type \<Rightarrow> string \<Rightarrow> string list \<Rightarrow> trigger_meta option \<Rightarrow> trigger_reason option" where
  "build_trigger_reason et value rvs meta =
     (case meta of
        None \<Rightarrow> None
      | Some m \<Rightarrow>
          Some \<lparr>tr_meta = m, tr_entity = (et, value), tr_rule_values = rvs,
            tr_sentence =
              (case tm_mode m of
                 THRESHOLD \<Rightarrow> Threshold_sentence (observed_count (tm_detail m)) (tm_rule m) et value
                                (tm_window_seconds m) (tm_n m) (tm_group_by m)
               | EVERY \<Rightarrow> Every_sentence (tm_rule m) et value
               | NEVER \<Rightarrow> Plain_sentence (observed_count (tm_detail m)) (tm_rule m) et value),
            tr_severity_shown = (case tm_severity m of Some (lo, hi) \<Rightarrow> lo \<noteq> 0 \<or> hi \<noteq> 0 | None \<Rightarrow> False)\<rparr>)"

definition nonempty :: "string option \<Rightarrow> bool" where
  "nonempty v = (case v of Some (c # cs) \<Rightarrow> True | _ \<Rightarrow> False)"

definition first_of :: "(raw_event \<Rightarrow> string option) \<Rightarrow> raw_event list \<Rightarrow> string option" where
  "first_of f evs = (case find (\<lambda>e. nonempty (f e)) evs of Some e \<Rightarrow> f e | None \<Rightarrow> None)"

definition sorted_values :: "(raw_event \<Rightarrow> string option) \<Rightarrow> raw_event list \<Rightarrow> string list" where
  "sorted_values f evs = sort (remdups (map (the \<circ> f) (filter (\<lambda>e. nonempty (f e)) evs)))"

definition build_cluster ::
  "(string \<Rightarrow> string) \<Rightarrow> entity_type \<Rightarrow> string \<Rightarrow> raw_event list \<Rightarrow> trigger_meta option \<Rightarrow> cluster" where
  "build_cluster digest et value members meta =
     (let members_sorted = sort_key timestamp_millis members;
          rvs = sorted_values ev_rule members;
          display_value = (if et = RULE then rsplit_head CHR ''|'' value else value);
          sid = first_of ev_source_id members_sorted
      in \<lparr>signature = cluster_signature digest et value sid,
          legacy_signature = (if nonempty sid then Some (cluster_signature digest et value None) else None),
          cl_entity = (et, display_value),
          rule_values = rvs,
          member_event_ids = map ev_id members_sorted,
          member_event_keys = map event_key members_sorted,
          member_events = members_sorted,
          first_seen_millis = timestamp_millis (hd members_sorted),
          last_seen_millis = timestamp_millis (last members_sorted),
          cl_count = length members_sorted,
          cl_trigger = build_trigger_reason et display_value rvs meta,
          cl_source_id = sid,
          cl_source_name = first_of ev_source_name members_sorted,
          is_alert = list_ex (\<lambda>e. index_role e = ''alerts'') members_sorted,
          source_ids = sorted_values ev_source_id members_sorted,
          auto_investigate_eligible = list_ex ev_auto_eligible members_sorted,
          feed_ids = sorted_values (\<lambda>e. Some (feed_id e)) members_sorted\<rparr>)"

subsection \<open>The pass over a batch\<close>

definition severity_range :: "raw_event list \<Rightarrow> (real \<times> real) option" where
  "severity_range g = (if g = [] then None else Some (Min (ev_severity ` set g), Max (ev_severity ` set g)))"

definition effective_cfg :: "bool \<Rightarrow> raw_event list \<Rightarrow> correlation_rule \<Rightarrow> correlation_rule" where
  "effective_cfg batch_is_alerts g cfg =
     (if batch_is_alerts \<or> list_ex (\<lambda>e. index_role e = ''alerts'') g
      then cfg\<lparr>cr_mode := EVERY, cr_n := 1\<rparr> else cfg)"

definition rule_bucket :: "raw_event \<Rightarrow> string option" where
  "rule_bucket ev = Some (case ev_rule ev of Some (c # cs) \<Rightarrow> c # cs | _ \<Rightarrow> ''unknown'')"

text \<open>What one entity group of a rule contributes to the triggers, if anything.\<close>

definition group_trigger ::
  "bool \<Rightarrow> string \<Rightarrow> correlation_rule \<Rightarrow> (entity_type \<times> string) \<times> raw_event list
     \<Rightarrow> ((entity_type \<times> string) \<times> trigger_meta) list" where
  "group_trigger alerts rule cfg = (\<lambda>((et, value), g).
     let eff = effective_cfg alerts g cfg
     in case window_detail_of g eff of
          None \<Rightarrow> []
        | Some d \<Rightarrow> [((et, value), \<lparr>tm_rule = rule, tm_mode = cr_mode eff, tm_n = cr_n eff,
                       tm_window_seconds = cr_window_seconds eff, tm_group_by = et, tm_detail = d,
                       tm_severity = severity_range g\<rparr>)])"

definition rule_triggers ::
  "(json \<Rightarrow> string) \<Rightarrow> correlation_prefs \<Rightarrow> entity_strategy \<Rightarrow> bool \<Rightarrow> string \<times> raw_event list
     \<Rightarrow> ((entity_type \<times> string) \<times> trigger_meta) list" where
  "rule_triggers shw p strategy alerts = (\<lambda>(rule, evs).
     let cfg = bucket_cfg p rule
     in if cr_mode cfg = NEVER then []
        else concat (map (group_trigger alerts rule cfg)
               (group_into (\<lambda>e. resolve_entity shw e (cr_group_by cfg) strategy) [] evs)))"

definition keep_primary ::
  "((entity_type \<times> string), trigger_meta) dict \<Rightarrow> (entity_type \<times> string) \<times> trigger_meta
     \<Rightarrow> ((entity_type \<times> string), trigger_meta) dict" where
  "keep_primary d = (\<lambda>(k, m).
     case dget d k of
       None \<Rightarrow> dset d k m
     | Some m' \<Rightarrow> (if observed_count (tm_detail m') < observed_count (tm_detail m) then dset d k m else d))"

definition triggers_of ::
  "(json \<Rightarrow> string) \<Rightarrow> correlation_prefs \<Rightarrow> entity_strategy \<Rightarrow> bool \<Rightarrow> raw_event list
     \<Rightarrow> ((entity_type \<times> string), trigger_meta) dict" where
  "triggers_of shw p strategy alerts events =
     foldl keep_primary [] (concat (map (rule_triggers shw p strategy alerts) (group_into rule_bucket [] events)))"

definition correlate ::
  "(json \<Rightarrow> string) \<Rightarrow> (string \<Rightarrow> string) \<Rightarrow> raw_event list \<Rightarrow> correlation_prefs \<Rightarrow> entity_strategy option
     \<Rightarrow> string \<Rightarrow> cluster list" where
  "correlate shw digest events p strategy role =
     (let st = (case strategy of Some s \<Rightarrow> s | None \<Rightarrow> entity_strategy_pref p);
          trg = triggers_of shw p st (py_lower role = ''alerts'') events
      in concat (map (\<lambda>((et, value), m).
           let members = filter (\<lambda>e. entity_value shw e et = Some value) events
           in if members \<noteq> [] then [build_cluster digest et value members (Some m)] else [])
         (sort_key (\<lambda>((et, v), m). (et_value et, v)) trg)))"

text \<open>Attaching a cluster to an open case, with the bridge to entity-only signatures.\<close>

record open_case =
  oc_id :: string
  oc_source_id :: "string option"

definition find_open_case_for_cluster ::
  "(string \<Rightarrow> string) \<Rightarrow> (string \<Rightarrow> open_case option) \<Rightarrow> cluster \<Rightarrow> open_case option" where
  "find_open_case_for_cluster digest find_open cl =
     (let existing = find_open (signature cl)
      in if existing \<noteq> None \<or> \<not> nonempty (cl_source_id cl) then existing
         else
           let legacy = (if nonempty (legacy_signature cl) then the (legacy_signature cl)
                         else cluster_signature digest (fst (cl_entity cl)) (snd (cl_entity cl)) None)
           in if legacy = signature cl then None
              else case find_open legacy of
                     None \<Rightarrow> None
                   | Some c \<Rightarrow>
                       if nonempty (oc_source_id c) \<and> oc_source_id c \<noteq> cl_source_id cl then None else Some c)"

subsection \<open>The scan finds the densest window\<close>

text \<open>The number of times in the window of length \<open>spn\<close> that opens at \<open>a\<close>.\<close>

definition in_window :: "int list \<Rightarrow> int \<Rightarrow> int \<Rightarrow> int" where
  "in_window ts a spn = int (length (filter (\<lambda>t. a \<le> t \<and> t \<le> a + spn) ts))"

text \<open>\<open>l\<close> is the first index whose time is within \<open>spn\<close> of the time at \<open>r\<close>.\<close>

definition leftmost :: "int list \<Rightarrow> int \<Rightarrow> nat \<Rightarrow> nat \<Rightarrow> bool" where
  "leftmost ts spn l r \<longleftrightarrow> l \<le> r \<and> ts ! r - ts ! l \<le> spn \<and> (\<forall>k<l. spn < ts ! r - ts ! k)"

lemma leftmost_unique: "leftmost ts spn l r \<Longrightarrow> leftmost ts spn l' r \<Longrightarrow> l = l'"
  unfolding leftmost_def by (metis linorder_neqE_nat not_less)

lemma advance_leftmost:
  assumes "left \<le> right" "\<forall>k<left. spn < ts ! right - ts ! k" "0 \<le> spn"
  shows "leftmost ts spn (advance ts spn right left) right"
  using assms
proof (induction ts spn right left rule: advance.induct)
  case (1 ts spn right left)
  show ?case
  proof (cases "left < right \<and> spn < ts ! right - ts ! left")
    case True
    then have "\<forall>k<Suc left. spn < ts ! right - ts ! k" using 1(3) less_Suc_eq by auto
    with 1(1) [OF True] 1(4) True show ?thesis by (subst advance.simps) auto
  next
    case False
    with 1 show ?thesis
      by (subst advance.simps) (auto simp: leftmost_def)
  qed
qed

definition scan_inv :: "int list \<Rightarrow> int \<Rightarrow> int \<Rightarrow> nat \<Rightarrow> nat \<times> window_detail option \<Rightarrow> bool" where
  "scan_inv ts spn n m s \<longleftrightarrow>
     (\<forall>k<fst s. m < length ts \<longrightarrow> spn < ts ! m - ts ! k) \<and> fst s \<le> m \<and>
     (\<forall>r<m. \<forall>l. leftmost ts spn l r \<longrightarrow> n \<le> int r - int l + 1 \<longrightarrow>
        (\<exists>b. snd s = Some b \<and> int r - int l + 1 \<le> observed_count b)) \<and>
     (\<forall>b. snd s = Some b \<longrightarrow>
        (\<exists>l r. r < m \<and> leftmost ts spn l r \<and> n \<le> observed_count b \<and>
           b = \<lparr>observed_count = int r - int l + 1, window_start = ts ! l, window_end = ts ! r\<rparr>))"

lemma scan_step_inv:
  assumes inv: "scan_inv ts spn n m (left, best)" and m: "m < length ts" and srt: "sorted ts" and spn: "0 \<le> spn"
  shows "scan_inv ts spn n (Suc m) (scan_step ts spn n (left, best) m)"
proof -
  let ?l = "advance ts spn m left"
  have lm: "leftmost ts spn ?l m"
    using inv m spn by (intro advance_leftmost) (auto simp: scan_inv_def)
  have uniq: "l = ?l" if "leftmost ts spn l m" for l using leftmost_unique [OF that lm] .
  have next_left: "spn < ts ! Suc m - ts ! k" if "k < ?l" "Suc m < length ts" for k
    using lm that sorted_nth_mono [OF srt, of m "Suc m"] unfolding leftmost_def by force
  define best' where "best' = snd (scan_step ts spn n (left, best) m)"
  have best': "best' = (if n \<le> int m - int ?l + 1 \<and> (case best of None \<Rightarrow> True | Some b \<Rightarrow> observed_count b < int m - int ?l + 1)
       then Some \<lparr>observed_count = int m - int ?l + 1, window_start = ts ! ?l, window_end = ts ! m\<rparr> else best)"
    by (simp add: best'_def scan_step_def Let_def)
  have fst': "fst (scan_step ts spn n (left, best) m) = ?l" by (simp add: scan_step_def Let_def)
  have old: "\<exists>b. best = Some b \<and> int r - int l + 1 \<le> observed_count b"
    if "r < m" "leftmost ts spn l r" "n \<le> int r - int l + 1" for r l
    using inv that by (auto simp: scan_inv_def)
  have cover: "\<exists>b. best' = Some b \<and> int r - int l + 1 \<le> observed_count b"
    if "r < Suc m" "leftmost ts spn l r" "n \<le> int r - int l + 1" for r l
  proof (cases "r = m")
    case True
    with that uniq have "l = ?l" by simp
    with that True show ?thesis unfolding best' by (auto split: option.splits)
  next
    case False
    with that old [of r l] show ?thesis unfolding best' by (fastforce split: option.splits)
  qed
  have orig: "\<exists>l r. r < Suc m \<and> leftmost ts spn l r \<and> n \<le> observed_count b \<and>
      b = \<lparr>observed_count = int r - int l + 1, window_start = ts ! l, window_end = ts ! r\<rparr>" if "best' = Some b" for b
  proof (cases "best = Some b")
    case True
    with inv show ?thesis unfolding scan_inv_def by (metis less_Suc_eq snd_conv)
  next
    case False
    with that have "n \<le> int m - int ?l + 1"
      "b = \<lparr>observed_count = int m - int ?l + 1, window_start = ts ! ?l, window_end = ts ! m\<rparr>"
      unfolding best' by (auto split: if_splits)
    with lm show ?thesis by (metis lessI window_detail.select_convs(1))
  qed
  show ?thesis
    unfolding scan_inv_def best'_def [symmetric] fst'
    using next_left cover orig lm by (auto simp: leftmost_def)
qed

lemma scan_foldl_inv:
  assumes "sorted ts" "0 \<le> spn" "m \<le> length ts"
  shows "scan_inv ts spn n m (foldl (scan_step ts spn n) (0, None) [0..<m])"
  using assms(3)
proof (induction m)
  case 0
  then show ?case by (simp add: scan_inv_def)
next
  case (Suc m)
  then show ?case
    using scan_step_inv [OF _ _ assms(1,2), where m = m] by (cases "foldl (scan_step ts spn n) (0, None) [0..<m]") auto
qed

lemma in_window_card:
  "in_window ts a spn = int (card {k. k < length ts \<and> a \<le> ts ! k \<and> ts ! k \<le> a + spn})"
  by (simp add: in_window_def length_filter_conv_card)

lemma in_window_leftmost:
  assumes "sorted ts" "0 \<le> spn" "0 < in_window ts a spn"
  obtains l r where "r < length ts" "leftmost ts spn l r" "in_window ts a spn \<le> int r - int l + 1"
proof -
  let ?K = "{k. k < length ts \<and> a \<le> ts ! k \<and> ts ! k \<le> a + spn}"
  have fin: "finite ?K" by simp
  have ne: "?K \<noteq> {}" using assms(3) unfolding in_window_card by (metis card.empty less_irrefl of_nat_0)
  let ?r = "Max ?K"
  let ?l = "advance ts spn ?r 0"
  have r: "?r \<in> ?K" using Max_in [OF fin ne] .
  have lm: "leftmost ts spn ?l ?r" using assms(2) by (intro advance_leftmost) auto
  have "?K \<subseteq> {?l..?r}"
  proof
    fix k assume k: "k \<in> ?K"
    then have "k \<le> ?r" using fin by simp
    moreover have "ts ! ?r - ts ! k \<le> spn" using k r by auto
    then have "\<not> k < ?l" using lm unfolding leftmost_def by force
    ultimately show "k \<in> {?l..?r}" by simp
  qed
  then have "card ?K \<le> card {?l..?r}" by (rule card_mono [rotated]) simp
  then have "card ?K \<le> Suc ?r - ?l" unfolding card_atLeastAtMost .
  then have "in_window ts a spn \<le> int (Suc ?r - ?l)"
    unfolding in_window_card by (rule of_nat_mono)
  moreover have "?l \<le> ?r" using lm unfolding leftmost_def by blast
  then have "int (Suc ?r - ?l) = int ?r - int ?l + 1" by (simp add: of_nat_diff)
  ultimately have "in_window ts a spn \<le> int ?r - int ?l + 1" by simp
  with that [OF _ lm] r show thesis by simp
qed

lemma leftmost_range:
  assumes "sorted ts" "leftmost ts spn l r" "r < length ts"
  shows "int r - int l + 1 \<le> int (length (filter (\<lambda>t. ts ! l \<le> t \<and> t \<le> ts ! r) ts))"
proof -
  have "{l..r} \<subseteq> {k. k < length ts \<and> ts ! l \<le> ts ! k \<and> ts ! k \<le> ts ! r}"
    using assms by (auto intro: sorted_nth_mono)
  then have "card {l..r} \<le> card {k. k < length ts \<and> ts ! l \<le> ts ! k \<and> ts ! k \<le> ts ! r}"
    by (rule card_mono [rotated]) simp
  with assms(2) show ?thesis by (simp add: length_filter_conv_card leftmost_def)
qed

text \<open>The scan agrees with the definition of a densest window of at least \<open>n\<close> times.\<close>

lemma scan_densest:
  assumes "sorted ts" "0 \<le> spn" "1 \<le> n"
  shows "case snd (foldl (scan_step ts spn n) (0, None) [0..<length ts]) of
           None \<Rightarrow> \<forall>a. in_window ts a spn < n
         | Some d \<Rightarrow> n \<le> observed_count d \<and> (\<forall>a. in_window ts a spn \<le> observed_count d) \<and>
             window_end d - window_start d \<le> spn \<and>
             observed_count d = in_window ts (window_start d) (window_end d - window_start d)"
proof -
  let ?s = "foldl (scan_step ts spn n) (0, None) [0..<length ts]"
  have inv: "scan_inv ts spn n (length ts) ?s" by (rule scan_foldl_inv [OF assms(1,2)]) simp
  have big: "\<exists>b. snd ?s = Some b \<and> in_window ts a spn \<le> observed_count b" if a: "n \<le> in_window ts a spn" for a
  proof -
    have "0 < in_window ts a spn" using a assms(3) by linarith
    then obtain l r where "r < length ts" "leftmost ts spn l r" "in_window ts a spn \<le> int r - int l + 1"
      by (rule in_window_leftmost [OF assms(1,2)])
    with inv a show ?thesis unfolding scan_inv_def by (meson order_trans)
  qed
  show ?thesis
  proof (cases "snd ?s")
    case None
    with big show ?thesis by (auto simp: not_le [symmetric])
  next
    case (Some d)
    with inv obtain l r where lr: "r < length ts" "leftmost ts spn l r" "n \<le> observed_count d"
        and d: "d = \<lparr>observed_count = int r - int l + 1, window_start = ts ! l, window_end = ts ! r\<rparr>"
      unfolding scan_inv_def by blast
    have all: "in_window ts a spn \<le> observed_count d" for a
      using big [of a] Some lr(3) by (cases "n \<le> in_window ts a spn") auto
    have "int (length (filter (\<lambda>t. ts ! l \<le> t \<and> t \<le> ts ! r) ts)) \<le> in_window ts (ts ! l) spn"
      unfolding in_window_def length_filter_conv_card using lr(2)
      by (intro of_nat_mono card_mono) (auto simp: leftmost_def)
    also have "\<dots> \<le> int r - int l + 1" using all [of "ts ! l"] d by simp
    finally have "observed_count d = int (length (filter (\<lambda>t. ts ! l \<le> t \<and> t \<le> ts ! r) ts))"
      using leftmost_range [OF assms(1) lr(2,1)] d by simp
    moreover have "in_window ts (ts ! l) (ts ! r - ts ! l) = int (length (filter (\<lambda>t. ts ! l \<le> t \<and> t \<le> ts ! r) ts))"
      by (simp add: in_window_def)
    ultimately show ?thesis using Some lr d all by (simp add: leftmost_def)
  qed
qed

lemma sort_mset: "mset xs = mset ys \<Longrightarrow> sort xs = sort (ys :: 'a :: linorder list)"
  by (metis mset_sort properties_for_sort sorted_sort)

lemma window_detail_mset:
  assumes "mset xs = mset ys"
  shows "window_detail_of xs cfg = window_detail_of ys cfg"
proof -
  have "xs = [] \<longleftrightarrow> ys = []" using assms by (metis mset_zero_iff_right mset_zero_iff)
  moreover have "sort (map timestamp_millis xs) = sort (map timestamp_millis ys)"
    using assms by (intro sort_mset) simp
  moreover have "length xs = length ys" using assms by (rule mset_eq_length)
  ultimately show ?thesis by (simp add: window_detail_of_def Let_def)
qed

lemma window_detail_every:
  "g \<noteq> [] \<Longrightarrow> cr_mode cfg = EVERY \<Longrightarrow> window_detail_of g cfg \<noteq> None"
  by (simp add: window_detail_of_def Let_def)

lemma effective_cfg_mset: "mset xs = mset ys \<Longrightarrow> effective_cfg a xs cfg = effective_cfg a ys cfg"
  by (simp add: effective_cfg_def list_ex_iff) (metis set_mset_mset)

subsection \<open>Resolution\<close>

lemma walk_ladder_sound: "walk_ladder shw ev ets = Some (et, v) \<Longrightarrow> et \<in> set ets \<and> entity_value shw ev et = Some v"
  by (induction ets) (auto split: option.splits)

lemma resolve_entity_sound: "resolve_entity shw ev gb st = Some (et, v) \<Longrightarrow> entity_value shw ev et = Some v"
  by (auto simp: resolve_entity_def split: if_splits option.splits dest: walk_ladder_sound)

lemma walk_ladder_None: "walk_ladder shw ev ets = None \<longleftrightarrow> (\<forall>et \<in> set ets. entity_value shw ev et = None)"
  by (induction ets) (auto split: option.splits)

lemma RULE_in_ladders: "RULE \<in> set AUTO_LADDER" "RULE \<in> set (PINNED_LADDER st)"
  by (simp_all add: AUTO_LADDER_def) (cases st; simp add: AUTO_LADDER_def)

text \<open>An event that names its rule always resolves, whatever the strategy.\<close>

lemma resolve_entity_rule:
  assumes "nonempty (ev_rule ev) \<or> nonempty (ev_rule_name ev)"
  shows "resolve_entity shw ev gb st \<noteq> None"
proof -
  have "entity_value shw ev RULE \<noteq> None"
    using assms by (auto simp: entity_value_def opt_or_def nonempty_def split: option.splits list.splits)
  then have "walk_ladder shw ev ets \<noteq> None" if "RULE \<in> set ets" for ets
    unfolding walk_ladder_None using that by auto
  from this [OF RULE_in_ladders(1)] this [OF RULE_in_ladders(2), of st] show ?thesis
    unfolding resolve_entity_def by (auto split: option.splits)
qed

subsection \<open>Triggers\<close>

definition key_group ::
  "(json \<Rightarrow> string) \<Rightarrow> correlation_prefs \<Rightarrow> entity_strategy \<Rightarrow> raw_event list \<Rightarrow> string \<Rightarrow> entity_type \<times> string
     \<Rightarrow> raw_event list" where
  "key_group shw p st events rule k =
     filter (\<lambda>e. resolve_entity shw e (cr_group_by (bucket_cfg p rule)) st = Some k)
       (filter (\<lambda>e. rule_bucket e = Some rule) events)"

definition fires ::
  "(json \<Rightarrow> string) \<Rightarrow> correlation_prefs \<Rightarrow> entity_strategy \<Rightarrow> bool \<Rightarrow> raw_event list \<Rightarrow> string
     \<Rightarrow> entity_type \<times> string \<Rightarrow> bool" where
  "fires shw p st alerts events rule k \<longleftrightarrow>
     cr_mode (bucket_cfg p rule) \<noteq> NEVER \<and>
     (let g = key_group shw p st events rule k
      in window_detail_of g (effective_cfg alerts g (bucket_cfg p rule)) \<noteq> None)"

definition meta_of ::
  "(json \<Rightarrow> string) \<Rightarrow> correlation_prefs \<Rightarrow> entity_strategy \<Rightarrow> bool \<Rightarrow> raw_event list \<Rightarrow> string
     \<Rightarrow> entity_type \<times> string \<Rightarrow> trigger_meta" where
  "meta_of shw p st alerts events rule k =
     (let g = key_group shw p st events rule k; eff = effective_cfg alerts g (bucket_cfg p rule)
      in \<lparr>tm_rule = rule, tm_mode = cr_mode eff, tm_n = cr_n eff, tm_window_seconds = cr_window_seconds eff,
          tm_group_by = fst k, tm_detail = the (window_detail_of g eff), tm_severity = severity_range g\<rparr>)"

lemma window_detail_Nil [simp]: "window_detail_of [] cfg = None"
  by (simp add: window_detail_of_def)

lemma candidates_iff:
  "(k, m) \<in> set (concat (map (rule_triggers shw p st alerts) (group_into rule_bucket [] events))) \<longleftrightarrow>
     (\<exists>rule. fires shw p st alerts events rule k \<and> m = meta_of shw p st alerts events rule k)"
proof -
  have gt: "(k, m) \<in> set (group_trigger alerts rule cfg (k', g)) \<longleftrightarrow>
      k' = k \<and> window_detail_of g (effective_cfg alerts g cfg) \<noteq> None \<and>
      m = (let eff = effective_cfg alerts g cfg in
           \<lparr>tm_rule = rule, tm_mode = cr_mode eff, tm_n = cr_n eff, tm_window_seconds = cr_window_seconds eff,
          tm_group_by = fst k, tm_detail = the (window_detail_of g eff), tm_severity = severity_range g\<rparr>)" for rule cfg k' g
    by (cases k'; cases "window_detail_of g (effective_cfg alerts g cfg)") (auto simp: group_trigger_def Let_def)
  have rt: "(k, m) \<in> set (rule_triggers shw p st alerts (rule, filter (\<lambda>e. rule_bucket e = Some rule) events)) \<longleftrightarrow>
      fires shw p st alerts events rule k \<and> m = meta_of shw p st alerts events rule k" for rule
  proof -
    have "(k, m) \<in> set (concat (map (group_trigger alerts rule cfg) (group_into f [] es))) \<longleftrightarrow>
       (let g = filter (\<lambda>x. f x = Some k) es in (k, m) \<in> set (group_trigger alerts rule cfg (k, g)))" for cfg f es
    proof
      assume "(k, m) \<in> set (concat (map (group_trigger alerts rule cfg) (group_into f [] es)))"
      then obtain k' g where "(k', g) \<in> set (group_into f [] es)" "(k, m) \<in> set (group_trigger alerts rule cfg (k', g))"
        by auto
      then show "let g = filter (\<lambda>x. f x = Some k) es in (k, m) \<in> set (group_trigger alerts rule cfg (k, g))"
        unfolding group_into_item gt Let_def by auto
    next
      assume *: "let g = filter (\<lambda>x. f x = Some k) es in (k, m) \<in> set (group_trigger alerts rule cfg (k, g))"
      then have "filter (\<lambda>x. f x = Some k) es \<noteq> []" by (auto simp: gt)
      then have "(k, filter (\<lambda>x. f x = Some k) es) \<in> set (group_into f [] es)" by (simp add: group_into_item)
      with * show "(k, m) \<in> set (concat (map (group_trigger alerts rule cfg) (group_into f [] es)))"
        by (auto simp: Let_def)
    qed
    then show ?thesis
      by (auto simp: rule_triggers_def gt fires_def meta_of_def key_group_def Let_def)
  qed
  show ?thesis
  proof
    assume "(k, m) \<in> set (concat (map (rule_triggers shw p st alerts) (group_into rule_bucket [] events)))"
    then obtain rule es where "(rule, es) \<in> set (group_into rule_bucket [] events)"
        "(k, m) \<in> set (rule_triggers shw p st alerts (rule, es))" by auto
    then show "\<exists>rule. fires shw p st alerts events rule k \<and> m = meta_of shw p st alerts events rule k"
      using rt by (auto simp: group_into_item)
  next
    assume "\<exists>rule. fires shw p st alerts events rule k \<and> m = meta_of shw p st alerts events rule k"
    then obtain rule where r: "fires shw p st alerts events rule k" "m = meta_of shw p st alerts events rule k" by blast
    then have "key_group shw p st events rule k \<noteq> []" unfolding fires_def Let_def by auto
    then have "filter (\<lambda>e. rule_bucket e = Some rule) events \<noteq> []" unfolding key_group_def by (metis filter.simps(1))
    with r rt show "(k, m) \<in> set (concat (map (rule_triggers shw p st alerts) (group_into rule_bucket [] events)))"
      by (fastforce simp: group_into_item)
  qed
qed

lemma keep_primary_fold:
  assumes "dict_ok d"
  shows "dict_ok (foldl keep_primary d xs) \<and>
    (\<forall>k. dget (foldl keep_primary d xs) k = None \<longleftrightarrow> dget d k = None \<and> k \<notin> fst ` set xs) \<and>
    (\<forall>k m. dget (foldl keep_primary d xs) k = Some m \<longrightarrow>
       (dget d k = Some m \<or> (k, m) \<in> set xs) \<and>
       (\<forall>m'. dget d k = Some m' \<or> (k, m') \<in> set xs \<longrightarrow>
          observed_count (tm_detail m') \<le> observed_count (tm_detail m)))"
  using assms
proof (induction xs arbitrary: d)
  case (Cons x xs)
  obtain k0 m0 where x: "x = (k0, m0)" by (cases x)
  define d' where "d' = keep_primary d x"
  have ok: "dict_ok d'" using Cons.prems by (auto simp: d'_def keep_primary_def x split: option.splits)
  have d': "dget d' k = (if k = k0 then (case dget d k0 of None \<Rightarrow> Some m0
        | Some m' \<Rightarrow> if observed_count (tm_detail m') < observed_count (tm_detail m0) then Some m0 else Some m') else dget d k)" for k
    by (auto simp: d'_def keep_primary_def x split: option.splits)
  note IH = Cons.IH [OF ok]
  have n: "dget (foldl keep_primary d' xs) k = None \<longleftrightarrow> dget d' k = None \<and> k \<notin> fst ` set xs" for k
    using IH by blast
  have none: "dget (foldl keep_primary d' xs) k = None \<longleftrightarrow> dget d k = None \<and> k \<notin> fst ` set (x # xs)" for k
    unfolding n d' by (cases "dget d k0") (auto simp: x)
  have some: "(dget d k = Some m \<or> (k, m) \<in> set (x # xs)) \<and>
       (\<forall>m'. dget d k = Some m' \<or> (k, m') \<in> set (x # xs) \<longrightarrow> observed_count (tm_detail m') \<le> observed_count (tm_detail m))"
    if m: "dget (foldl keep_primary d' xs) k = Some m" for k m
  proof -
    from IH m have a: "dget d' k = Some m \<or> (k, m) \<in> set xs"
      and b: "\<And>m'. dget d' k = Some m' \<or> (k, m') \<in> set xs \<Longrightarrow> observed_count (tm_detail m') \<le> observed_count (tm_detail m)"
      by blast+
    show ?thesis
    proof (cases "k = k0")
      case False
      with a b x show ?thesis by (auto simp: d')
    next
      case True
      obtain m1 where m1: "dget d' k = Some m1" "observed_count (tm_detail m0) \<le> observed_count (tm_detail m1)"
          "\<And>m'. dget d k = Some m' \<Longrightarrow> observed_count (tm_detail m') \<le> observed_count (tm_detail m1)"
          "m1 = m0 \<or> dget d k = Some m1"
      proof (cases "dget d k0")
        case None
        with True that [of m0] show thesis by (simp add: d')
      next
        case (Some a)
        with True that [of "if observed_count (tm_detail a) < observed_count (tm_detail m0) then m0 else a"] show thesis
          by (auto simp: d')
      qed
      then have le: "observed_count (tm_detail m1) \<le> observed_count (tm_detail m)" using b by blast
      have 1: "dget d k = Some m \<or> (k, m) \<in> set (x # xs)" using a m1(1,4) x True by auto
      have 2: "observed_count (tm_detail m') \<le> observed_count (tm_detail m)"
        if "dget d k = Some m' \<or> (k, m') \<in> set (x # xs)" for m'
      proof -
        from that consider "dget d k = Some m'" | "m' = m0" | "(k, m') \<in> set xs" using x by auto
        then show ?thesis
          by cases (use m1(2,3) le b in \<open>auto intro: order_trans [OF _ le]\<close>)
      qed
      from 1 2 show ?thesis by blast
    qed
  qed
  show ?case using IH none some by (simp add: d'_def)
qed simp

lemma triggers_of_facts:
  "dict_ok (triggers_of shw p st alerts events)"
  "dget (triggers_of shw p st alerts events) k \<noteq> None \<longleftrightarrow> (\<exists>rule. fires shw p st alerts events rule k)"
  "dget (triggers_of shw p st alerts events) k = Some m \<Longrightarrow>
     \<exists>rule. fires shw p st alerts events rule k \<and> m = meta_of shw p st alerts events rule k \<and>
       (\<forall>rule'. fires shw p st alerts events rule' k \<longrightarrow>
          observed_count (tm_detail (meta_of shw p st alerts events rule' k)) \<le> observed_count (tm_detail m))"
proof -
  define xs where "xs = concat (map (rule_triggers shw p st alerts) (group_into rule_bucket [] events))"
  have T: "triggers_of shw p st alerts events = foldl keep_primary [] xs"
    by (simp add: triggers_of_def xs_def)
  note f = keep_primary_fold [OF dict_ok_Nil, of xs]
  note c = candidates_iff [where shw = shw and p = p and st = st and alerts = alerts and events = events, folded xs_def]
  show "dict_ok (triggers_of shw p st alerts events)" unfolding T using f by blast
  have "dget (foldl keep_primary [] xs) k = None \<longleftrightarrow> dget ([] :: (entity_type \<times> string, trigger_meta) dict) k = None \<and> k \<notin> fst ` set xs"
    using f by blast
  then have "dget (foldl keep_primary [] xs) k = None \<longleftrightarrow> k \<notin> fst ` set xs" by simp
  moreover have "k \<in> fst ` set xs \<longleftrightarrow> (\<exists>m. (k, m) \<in> set xs)" by force
  ultimately show "dget (triggers_of shw p st alerts events) k \<noteq> None \<longleftrightarrow> (\<exists>rule. fires shw p st alerts events rule k)"
    unfolding T c by auto
  show "\<exists>rule. fires shw p st alerts events rule k \<and> m = meta_of shw p st alerts events rule k \<and>
       (\<forall>rule'. fires shw p st alerts events rule' k \<longrightarrow>
          observed_count (tm_detail (meta_of shw p st alerts events rule' k)) \<le> observed_count (tm_detail m))"
    if m: "dget (triggers_of shw p st alerts events) k = Some m"
  proof -
    from f m have "dget ([] :: (entity_type \<times> string, trigger_meta) dict) k = Some m \<or> (k, m) \<in> set xs"
      "\<And>m'. (k, m') \<in> set xs \<Longrightarrow> observed_count (tm_detail m') \<le> observed_count (tm_detail m)"
      unfolding T by blast+
    then have "(k, m) \<in> set xs" "\<And>m'. (k, m') \<in> set xs \<Longrightarrow> observed_count (tm_detail m') \<le> observed_count (tm_detail m)"
      by simp_all
    then show ?thesis unfolding c by blast
  qed
qed

subsection \<open>The clusters of a batch\<close>

lemma fires_group: "fires shw p st alerts events rule k \<Longrightarrow> key_group shw p st events rule k \<noteq> []"
  unfolding fires_def Let_def by auto

lemma key_group_members:
  "e \<in> set (key_group shw p st events rule (et, v)) \<Longrightarrow> e \<in> set events \<and> entity_value shw e et = Some v"
  unfolding key_group_def using resolve_entity_sound by auto

definition cluster_members :: "(json \<Rightarrow> string) \<Rightarrow> raw_event list \<Rightarrow> entity_type \<times> string \<Rightarrow> raw_event list" where
  "cluster_members shw events k = filter (\<lambda>e. entity_value shw e (fst k) = Some (snd k)) events"

definition strategy_for :: "correlation_prefs \<Rightarrow> entity_strategy option \<Rightarrow> entity_strategy" where
  "strategy_for p strategy = (case strategy of Some s \<Rightarrow> s | None \<Rightarrow> entity_strategy_pref p)"

abbreviation batch_triggers where
  "batch_triggers shw events p strategy role \<equiv>
     triggers_of shw p (strategy_for p strategy) (py_lower role = ''alerts'') events"

definition key_order :: "(entity_type \<times> string) \<times> trigger_meta \<Rightarrow> string \<times> string" where
  "key_order = (\<lambda>((et, v), m). (et_value et, v))"

lemma fires_members:
  assumes "fires shw p st alerts events rule k"
  shows "cluster_members shw events k \<noteq> []"
proof -
  obtain et v where k: "k = (et, v)" by (cases k)
  obtain e where "e \<in> set (key_group shw p st events rule k)"
    using fires_group [OF assms] by (cases "key_group shw p st events rule k") auto
  then have "e \<in> set (cluster_members shw events k)"
    using key_group_members [of e shw p st events rule et v] unfolding k cluster_members_def by auto
  then show ?thesis by auto
qed

text \<open>No triggered entity is left without members, so clusters and triggers correspond one to one.\<close>

lemma correlate_eq:
  "correlate shw digest events p strategy role =
     map (\<lambda>(k, m). build_cluster digest (fst k) (snd k) (cluster_members shw events k) (Some m))
       (sort_key key_order (batch_triggers shw events p strategy role))"
proof -
  let ?T = "batch_triggers shw events p strategy role"
  have mem: "cluster_members shw events k \<noteq> []" if "(k, m) \<in> set ?T" for k m
    using that triggers_of_facts(1,2) dget_eq_Some fires_members by (metis option.distinct(1))
  have "concat (map (\<lambda>((et, value), m).
           let members = filter (\<lambda>e. entity_value shw e et = Some value) events
           in if members \<noteq> [] then [build_cluster digest et value members (Some m)] else []) xs) =
     map (\<lambda>(k, m). build_cluster digest (fst k) (snd k) (cluster_members shw events k) (Some m)) xs"
    if "set xs \<subseteq> set ?T" for xs
    using that
  proof (induction xs)
    case (Cons x xs)
    obtain et v m where x: "x = ((et, v), m)" by (metis surj_pair)
    from Cons.prems x mem have "filter (\<lambda>e. entity_value shw e et = Some v) events \<noteq> []"
      unfolding cluster_members_def by force
    with Cons x show ?case by (simp add: cluster_members_def)
  qed simp
  then show ?thesis
    by (simp add: correlate_def Let_def strategy_for_def key_order_def)
qed

lemma correlate_cluster_iff:
  "cl \<in> set (correlate shw digest events p strategy role) \<longleftrightarrow>
     (\<exists>k m. dget (batch_triggers shw events p strategy role) k = Some m \<and>
        cl = build_cluster digest (fst k) (snd k) (cluster_members shw events k) (Some m))"
  unfolding correlate_eq using dget_eq_Some [OF triggers_of_facts(1)] by force

lemma build_cluster_members [simp]:
  "member_events (build_cluster digest et v ms meta) = sort_key timestamp_millis ms"
  "set (member_events (build_cluster digest et v ms meta)) = set ms"
  by (simp_all add: build_cluster_def Let_def)

lemma build_cluster_fields [simp]:
  "cl_entity (build_cluster digest et v ms meta) = (et, if et = RULE then rsplit_head CHR ''|'' v else v)"
  "cl_count (build_cluster digest et v ms meta) = length ms"
  "is_alert (build_cluster digest et v ms meta) = list_ex (\<lambda>e. index_role e = ''alerts'') ms"
  "auto_investigate_eligible (build_cluster digest et v ms meta) = list_ex ev_auto_eligible ms"
  by (simp_all add: build_cluster_def Let_def list_ex_iff)

lemma build_cluster_span:
  assumes "e \<in> set ms"
  shows "first_seen_millis (build_cluster digest et v ms meta) \<le> timestamp_millis e"
    and "timestamp_millis e \<le> last_seen_millis (build_cluster digest et v ms meta)"
proof -
  let ?s = "sort_key timestamp_millis ms"
  have srt: "sorted (map timestamp_millis ?s)" by simp
  obtain i where i: "i < length ?s" "?s ! i = e" using assms by (metis in_set_conv_nth set_sort)
  have "map timestamp_millis ?s ! 0 \<le> map timestamp_millis ?s ! i"
    "map timestamp_millis ?s ! i \<le> map timestamp_millis ?s ! (length ?s - 1)"
    using i by (intro sorted_nth_mono [OF srt]; simp)+
  moreover have "?s \<noteq> []" "0 < length ms" using i(1) by (metis length_0_conv not_less_zero, auto)
  ultimately show "first_seen_millis (build_cluster digest et v ms meta) \<le> timestamp_millis e"
    "timestamp_millis e \<le> last_seen_millis (build_cluster digest et v ms meta)"
    using i by (simp_all add: build_cluster_def Let_def hd_conv_nth last_conv_nth)
qed

subsection \<open>Properties\<close>

text \<open>
  C36. The two-pointer scan computes the densest window. For a threshold rule that needs two or more
  events, it reports nothing exactly when no window of the configured length holds \<open>n\<close> of them, and
  otherwise a window no longer than that whose reported count is the number of events in it, at least
  \<open>n\<close>, and the largest number any such window holds.
\<close>

theorem window_detail_densest:
  assumes "cr_mode cfg = THRESHOLD" "2 \<le> cr_n cfg" "1 \<le> cr_window_seconds cfg"
  shows "case window_detail_of events cfg of
     None \<Rightarrow> \<forall>a. in_window (map timestamp_millis events) a (cr_window_seconds cfg * 1000) < cr_n cfg
   | Some d \<Rightarrow> cr_n cfg \<le> observed_count d \<and>
       (\<forall>a. in_window (map timestamp_millis events) a (cr_window_seconds cfg * 1000) \<le> observed_count d) \<and>
       window_end d - window_start d \<le> cr_window_seconds cfg * 1000 \<and>
       observed_count d = in_window (map timestamp_millis events) (window_start d) (window_end d - window_start d)"
proof -
  let ?t = "map timestamp_millis events"
  have len: "length (filter P (sort ?t)) = length (filter P ?t)" for P
    by (metis mset_filter mset_sort size_mset)
  have iw: "in_window (sort ?t) a spn = in_window ?t a spn" for a spn by (simp add: in_window_def len)
  have few: "in_window ?t a spn \<le> int (length events)" for a spn
    unfolding in_window_def using length_filter_le [of _ ?t] by simp
  show ?thesis
  proof (cases "int (length events) < cr_n cfg")
    case True
    then have none: "window_detail_of events cfg = None" using assms by (simp add: window_detail_of_def Let_def)
    have "in_window ?t a spn < cr_n cfg" for a spn using few True by (rule le_less_trans)
    with none show ?thesis by simp
  next
    case False
    then have "events \<noteq> []" using assms(2) by auto
    with False assms have eq: "window_detail_of events cfg =
        snd (foldl (scan_step (sort ?t) (cr_window_seconds cfg * 1000) (cr_n cfg)) (0, None) [0..<length (sort ?t)])"
      by (simp add: window_detail_of_def Let_def)
    have "0 \<le> cr_window_seconds cfg * 1000" "1 \<le> cr_n cfg" using assms by simp_all
    from scan_densest [OF sorted_sort this, of ?t, unfolded iw] show ?thesis unfolding eq .
  qed
qed

definition sample_event :: "string \<Rightarrow> int \<Rightarrow> string \<Rightarrow> raw_event" where
  "sample_event i t role = \<lparr>ev_id = i, ev_index = [], ev_source = [], timestamp_millis = t, ev_ip = Some ''10.0.0.1'',
     ev_user = None, ev_host = None, ev_rule = Some ''brute'', ev_rule_name = None, ev_severity = 1,
     index_role = role, ev_source_id = None, ev_source_name = None, feed_id = [], ev_auto_eligible = True\<rparr>"

definition sample_rule_cfg :: correlation_rule where
  "sample_rule_cfg = \<lparr>cr_mode = THRESHOLD, cr_n = 2, cr_window_seconds = 10, cr_group_by = IP\<rparr>"

definition sample_prefs :: correlation_prefs where
  "sample_prefs = \<lparr>correlation_rules = [], default_correlation = sample_rule_cfg, rule_catalog = [],
     entity_strategy_pref = S_AUTO\<rparr>"

lemma sample_window:
  "window_detail_of [sample_event ''a'' 90000 ''events'', sample_event ''b'' 1000 ''events'', sample_event ''c'' 5000 ''events'']
     sample_rule_cfg = Some \<lparr>observed_count = 2, window_start = 1000, window_end = 5000\<rparr>"
  by (simp add: window_detail_of_def sample_rule_cfg_def sample_event_def scan_step_def Let_def
      advance.simps upt_rec eval_nat_numeral)

theorem window_detail_densest_witness:
  "\<forall>a. in_window [90000, 1000, 5000] a 10000 \<le> 2"
  using window_detail_densest [of sample_rule_cfg
      "[sample_event ''a'' 90000 ''events'', sample_event ''b'' 1000 ''events'', sample_event ''c'' 5000 ''events'']"]
  unfolding sample_window by (simp add: sample_rule_cfg_def sample_event_def)

lemma alert_clusters:
  assumes "ev \<in> set events"
    and "index_role ev = ''alerts'' \<or> py_lower role = ''alerts''"
    and "nonempty (ev_rule ev) \<or> nonempty (ev_rule_name ev)"
    and "\<forall>r. rule_bucket ev = Some r \<longrightarrow> cr_mode (bucket_cfg p r) \<noteq> NEVER"
  shows "\<exists>cl \<in> set (correlate shw digest events p strategy role).
    ev \<in> set (member_events cl) \<and> (index_role ev = ''alerts'' \<longrightarrow> is_alert cl)"
proof -
  let ?st = "strategy_for p strategy" and ?al = "py_lower role = ''alerts''"
  obtain r where r: "rule_bucket ev = Some r" by (simp add: rule_bucket_def)
  obtain k where k: "resolve_entity shw ev (cr_group_by (bucket_cfg p r)) ?st = Some k"
    using resolve_entity_rule [OF assms(3)] by (metis option.exhaust)
  let ?g = "key_group shw p ?st events r k"
  have ev: "ev \<in> set ?g" using assms(1) r k by (simp add: key_group_def)
  then have "?g \<noteq> []" by auto
  moreover have "cr_mode (effective_cfg ?al ?g (bucket_cfg p r)) = EVERY"
    using ev assms(2) by (auto simp: effective_cfg_def list_ex_iff)
  ultimately have "fires shw p ?st ?al events r k"
    using assms(4) r window_detail_every by (auto simp: fires_def Let_def)
  then obtain m where m: "dget (batch_triggers shw events p strategy role) k = Some m"
    using triggers_of_facts(2) by (metis option.exhaust)
  let ?cl = "build_cluster digest (fst k) (snd k) (cluster_members shw events k) (Some m)"
  have "ev \<in> set (cluster_members shw events k)"
    using key_group_members [of ev shw p ?st events r "fst k" "snd k"] ev by (simp add: cluster_members_def)
  moreover have "?cl \<in> set (correlate shw digest events p strategy role)"
    unfolding correlate_cluster_iff using m by blast
  ultimately show ?thesis
    by (intro bexI [of _ ?cl]) (auto simp: list_ex_iff)
qed

text \<open>
  No alert is lost. Every event of an alerts feed (or of a batch declared as alerts) whose rule is
  not configured NEVER and that names its rule is a member of some cluster of the batch, a lone one
  included, and that cluster is flagged for auto-forwarding when the event is marked as an alert.
\<close>

theorem alert_always_clusters:
  assumes "ev \<in> set events"
    and "index_role ev = ''alerts'' \<or> py_lower role = ''alerts''"
    and "nonempty (ev_rule ev) \<or> nonempty (ev_rule_name ev)"
    and "\<forall>r. rule_bucket ev = Some r \<longrightarrow> cr_mode (bucket_cfg p r) \<noteq> NEVER"
  shows "\<exists>cl \<in> set (correlate shw digest events p strategy role).
    ev \<in> set (member_events cl) \<and> (index_role ev = ''alerts'' \<longrightarrow> is_alert cl)"
  using assms by (rule alert_clusters)

theorem alert_always_clusters_witness:
  "\<exists>cl \<in> set (correlate (\<lambda>_. []) id [sample_event ''a'' 5 ''alerts''] sample_prefs None []).
     sample_event ''a'' 5 ''alerts'' \<in> set (member_events cl)"
  using alert_always_clusters [of "sample_event ''a'' 5 ''alerts''" "[sample_event ''a'' 5 ''alerts'']" "[]" sample_prefs
      "\<lambda>_. []" id None]
  by (auto simp: sample_event_def nonempty_def rule_bucket_def sample_prefs_def bucket_cfg_def rule_defs_def
      correlation_for_def sample_rule_cfg_def)

text \<open>
  Every cluster is what its trigger says. Its members are exactly the events of the batch with its
  entity, at least one, all between its first and last time; its primary rule fired on a group of that
  rule's events that resolve to the entity, in the mode and window the reason records, and no other
  firing rule of the entity observed more events.
\<close>

theorem cluster_justified:
  assumes "cl \<in> set (correlate shw digest events p strategy role)"
  shows "\<exists>k rule. fires shw p (strategy_for p strategy) (py_lower role = ''alerts'') events rule k \<and>
    fst (cl_entity cl) = fst k \<and>
    set (member_events cl) = {e \<in> set events. entity_value shw e (fst k) = Some (snd k)} \<and>
    member_events cl \<noteq> [] \<and> cl_count cl = length (member_events cl) \<and>
    (\<forall>e \<in> set (member_events cl). first_seen_millis cl \<le> timestamp_millis e \<and> timestamp_millis e \<le> last_seen_millis cl) \<and>
    (\<exists>tr. cl_trigger cl = Some tr \<and>
       tr_meta tr = meta_of shw p (strategy_for p strategy) (py_lower role = ''alerts'') events rule k \<and>
       (\<forall>rule'. fires shw p (strategy_for p strategy) (py_lower role = ''alerts'') events rule' k \<longrightarrow>
          observed_count (tm_detail (meta_of shw p (strategy_for p strategy) (py_lower role = ''alerts'') events rule' k))
            \<le> observed_count (tm_detail (tr_meta tr))))"
proof -
  from assms obtain k m where m: "dget (batch_triggers shw events p strategy role) k = Some m"
      and cl: "cl = build_cluster digest (fst k) (snd k) (cluster_members shw events k) (Some m)"
    unfolding correlate_cluster_iff by blast
  from triggers_of_facts(3) [OF m] obtain rule where
    f: "fires shw p (strategy_for p strategy) (py_lower role = ''alerts'') events rule k"
    and meta: "m = meta_of shw p (strategy_for p strategy) (py_lower role = ''alerts'') events rule k"
    and best: "\<forall>rule'. fires shw p (strategy_for p strategy) (py_lower role = ''alerts'') events rule' k \<longrightarrow>
          observed_count (tm_detail (meta_of shw p (strategy_for p strategy) (py_lower role = ''alerts'') events rule' k))
            \<le> observed_count (tm_detail m)"
    by blast
  have ne: "cluster_members shw events k \<noteq> []" by (rule fires_members [OF f])
  have tr: "\<exists>tr. cl_trigger cl = Some tr \<and> tr_meta tr = m"
    by (simp add: cl build_cluster_def Let_def build_trigger_reason_def)
  have "sort_key timestamp_millis (cluster_members shw events k) \<noteq> []" using ne by (metis set_empty set_sort)
  with f meta best tr show ?thesis
    using build_cluster_span [of _ "cluster_members shw events k" digest "fst k" "snd k" "Some m"]
    by (intro exI [of _ k] exI [of _ rule]) (auto simp: cl cluster_members_def)
qed

theorem cluster_justified_witness:
  "\<exists>cl \<in> set (correlate (\<lambda>_. []) id [sample_event ''a'' 5 ''alerts''] sample_prefs None []).
     member_events cl \<noteq> [] \<and> cl_count cl = length (member_events cl)"
proof -
  obtain cl where cl: "cl \<in> set (correlate (\<lambda>_. []) id [sample_event ''a'' 5 ''alerts''] sample_prefs None [])"
    using alert_clusters [of "sample_event ''a'' 5 ''alerts''" "[sample_event ''a'' 5 ''alerts'']" "[]" sample_prefs
      "\<lambda>_. []" id None]
    by (auto simp: sample_event_def nonempty_def rule_bucket_def sample_prefs_def bucket_cfg_def rule_defs_def
      correlation_for_def sample_rule_cfg_def)
  from cluster_justified [OF this] cl show ?thesis by blast
qed

subsection \<open>Order of the batch\<close>

lemma fires_mset:
  assumes "mset es = mset es'"
  shows "fires shw p st alerts es rule k = fires shw p st alerts es' rule k"
proof -
  have g: "mset (key_group shw p st es rule k) = mset (key_group shw p st es' rule k)"
    using assms by (simp add: key_group_def)
  show ?thesis
    unfolding fires_def Let_def effective_cfg_mset [OF g] window_detail_mset [OF g] ..
qed

definition entity_order :: "entity_type \<times> string \<Rightarrow> string \<times> string" where
  "entity_order k = (et_value (fst k), snd k)"

lemma inj_entity_order: "inj entity_order"
  by (auto simp: inj_def entity_order_def)

definition trigger_keys ::
  "(json \<Rightarrow> string) \<Rightarrow> raw_event list \<Rightarrow> correlation_prefs \<Rightarrow> entity_strategy option \<Rightarrow> string
     \<Rightarrow> (entity_type \<times> string) list" where
  "trigger_keys shw events p strategy role = map fst (sort_key key_order (batch_triggers shw events p strategy role))"

lemma key_order_entity: "key_order km = entity_order (fst km)"
  by (cases km) (auto simp: key_order_def entity_order_def)

lemma trigger_keys_facts:
  "sorted (map entity_order (trigger_keys shw events p strategy role))"
  "distinct (trigger_keys shw events p strategy role)"
  "set (trigger_keys shw events p strategy role) =
     {k. \<exists>rule. fires shw p (strategy_for p strategy) (py_lower role = ''alerts'') events rule k}"
proof -
  let ?T = "batch_triggers shw events p strategy role"
  have "map entity_order (trigger_keys shw events p strategy role) = map key_order (sort_key key_order ?T)"
    by (simp add: trigger_keys_def key_order_entity)
  then show "sorted (map entity_order (trigger_keys shw events p strategy role))" by (metis sorted_sort_key)
  have "mset (trigger_keys shw events p strategy role) = mset (dkeys ?T)"
    by (simp add: trigger_keys_def dkeys_def)
  then show "distinct (trigger_keys shw events p strategy role)"
    using triggers_of_facts(1) distinct_dkeys by (metis mset_eq_imp_distinct_iff)
  show "set (trigger_keys shw events p strategy role) =
     {k. \<exists>rule. fires shw p (strategy_for p strategy) (py_lower role = ''alerts'') events rule k}"
    using mset_eq_setD [OF \<open>mset (trigger_keys shw events p strategy role) = mset (dkeys ?T)\<close>]
    unfolding set_dkeys_dom triggers_of_facts(2) .
qed

lemma trigger_keys_mset:
  assumes "mset es = mset es'"
  shows "trigger_keys shw es p strategy role = trigger_keys shw es' p strategy role"
proof -
  have "map entity_order (trigger_keys shw es p strategy role) = map entity_order (trigger_keys shw es' p strategy role)"
  proof (rule sorted_distinct_set_unique)
    show "set (map entity_order (trigger_keys shw es p strategy role)) = set (map entity_order (trigger_keys shw es' p strategy role))"
      using fires_mset [OF assms] by (simp add: trigger_keys_facts(3))
  qed (simp_all add: trigger_keys_facts distinct_map inj_on_subset [OF inj_entity_order])
  then show ?thesis by (rule injD [OF inj_mapI [OF inj_entity_order]])
qed

definition cluster_view :: "cluster \<Rightarrow> (entity_type \<times> string) \<times> raw_event multiset" where
  "cluster_view cl = (cl_entity cl, mset (member_events cl))"

lemma correlate_view:
  "map cluster_view (correlate shw digest events p strategy role) =
     map (\<lambda>k. ((fst k, if fst k = RULE then rsplit_head CHR ''|'' (snd k) else snd k),
               mset (cluster_members shw events k))) (trigger_keys shw events p strategy role)"
  unfolding correlate_eq trigger_keys_def by (simp add: cluster_view_def case_prod_beta')



subsection \<open>Case identity\<close>

lemma join_bar_inj:
  assumes "CHR ''|'' \<notin> set a" "CHR ''|'' \<notin> set b"
    and "a @ CHR ''|'' # s = b @ CHR ''|'' # t"
  shows "a = b \<and> s = t"
proof -
  have "split_on CHR ''|'' (a @ CHR ''|'' # s) = a # split_on CHR ''|'' s"
    "split_on CHR ''|'' (b @ CHR ''|'' # t) = b # split_on CHR ''|'' t"
    using assms(1,2) by (simp_all add: split_on_append)
  with assms(3) have "a = b" by (metis list.inject)
  with assms(3) show ?thesis by simp
qed

lemma et_value_plain: "CHR ''|'' \<notin> set (et_value et)"
  by (cases et) auto

text \<open>
  A case key identifies its incident. Where the digest (cut to 32 digits) does not collide on the
  two texts and source ids are free of the separator, two clusters of sources have the same signature
  only if they agree on source, entity type and entity value.
\<close>

theorem signature_identifies_incident:
  assumes "cluster_signature digest et v (Some src) = cluster_signature digest et' v' (Some src')"
    and "src \<noteq> []" "src' \<noteq> []" "CHR ''|'' \<notin> set src" "CHR ''|'' \<notin> set src'"
    and "\<forall>x y. take 32 (digest x) = take 32 (digest y) \<longrightarrow>
      {x, y} \<subseteq> {join_with ''|'' [''cluster'', src, et_value et, v], join_with ''|'' [''cluster'', src', et_value et', v']} \<longrightarrow> x = y"
  shows "src = src' \<and> et = et' \<and> v = v'"
proof -
  let ?x = "join_with ''|'' [''cluster'', src, et_value et, v]"
  let ?y = "join_with ''|'' [''cluster'', src', et_value et', v']"
  have "cluster_signature digest et v (Some src) = take 32 (digest ?x)"
    "cluster_signature digest et' v' (Some src') = take 32 (digest ?y)"
    using assms(2,3) by (cases src; cases src'; simp add: cluster_signature_def stable_signature_def)+
  with assms(1,6) have "?x = ?y" by (metis empty_subsetI insert_subset insertI1 insertI2)
  then have "src @ CHR ''|'' # et_value et @ CHR ''|'' # v = src' @ CHR ''|'' # et_value et' @ CHR ''|'' # v'" by simp
  from join_bar_inj [OF assms(4,5) this] have s: "src = src'"
    and r: "et_value et @ CHR ''|'' # v = et_value et' @ CHR ''|'' # v'" by simp_all
  from join_bar_inj [OF et_value_plain et_value_plain r] s show ?thesis by simp
qed

theorem signature_identifies_incident_witness:
  "cluster_signature id IP ''10.0.0.1'' (Some ''s1'') = cluster_signature id IP ''10.0.0.1'' (Some ''s1'') \<and> ''s1'' = ''s1''"
  using signature_identifies_incident [of id IP "''10.0.0.1''" "''s1''" IP "''10.0.0.1''" "''s1''"] by auto

text \<open>
  The separator is not escaped, so without a source id the key of a rule-grouped incident can equal
  that of another incident with one.
\<close>

lemma signature_source_ambiguity:
  "cluster_signature digest USER ''5'' (Some ''rule'') = cluster_signature digest RULE ''user|5'' None"
  by (simp add: cluster_signature_def stable_signature_def)

text \<open>
  Attaching never crosses sources through the legacy key: the open case found for a cluster is one
  stored under the cluster's own signature, or one stored under the entity-only key that records no
  source or the cluster's source; and a cluster without a source only ever looks up its own signature.
\<close>

theorem attach_respects_source:
  assumes "find_open_case_for_cluster digest find_open cl = Some c"
  shows "find_open (signature cl) = Some c \<or>
    (find_open (signature cl) = None \<and> nonempty (cl_source_id cl) \<and>
     (\<not> nonempty (oc_source_id c) \<or> oc_source_id c = cl_source_id cl))"
  using assms
  by (auto simp: find_open_case_for_cluster_def Let_def split: if_splits option.splits)

definition sample_cluster :: cluster where
  "sample_cluster = build_cluster id IP ''10.0.0.1'' [(sample_event ''a'' 5 ''alerts'')\<lparr>ev_source_id := Some ''s1''\<rparr>] None"

theorem attach_respects_source_witness:
  "find_open_case_for_cluster id (\<lambda>s. if s = ''cluster|ip|10.0.0.1'' then Some \<lparr>oc_id = ''c1'', oc_source_id = None\<rparr> else None)
     sample_cluster = Some \<lparr>oc_id = ''c1'', oc_source_id = None\<rparr> \<and> nonempty (cl_source_id sample_cluster)"
proof -
  let ?f = "\<lambda>s. if s = ''cluster|ip|10.0.0.1'' then Some \<lparr>oc_id = ''c1'', oc_source_id = None\<rparr> else None"
  have f: "find_open_case_for_cluster id ?f sample_cluster = Some \<lparr>oc_id = ''c1'', oc_source_id = None\<rparr>"
    and s: "?f (signature sample_cluster) = None"
    by (simp_all add: find_open_case_for_cluster_def sample_cluster_def build_cluster_def Let_def sample_event_def
        first_of_def nonempty_def cluster_signature_def stable_signature_def)
  from attach_respects_source [OF f] s f show ?thesis by simp
qed

text \<open>
  Event identities survive their encoding: splitting the cursor key of an event of a named index
  gives back index and id, for every id, as long as the index name does not contain the separator.
\<close>

theorem cursor_key_roundtrip:
  assumes "index \<noteq> []" "CURSOR_KEY_SEPARATOR \<notin> set index"
  shows "split_cursor_event_key (make_cursor_event_key index event_id) = (Some index, event_id)"
  using assms
  by (auto simp: split_cursor_event_key_def make_cursor_event_key_def takeWhile_append dropWhile_append)

theorem cursor_key_roundtrip_witness:
  "split_cursor_event_key (make_cursor_event_key ''logs-1'' ''42'') = (Some ''logs-1'', ''42'')"
  by (rule cursor_key_roundtrip) (simp_all add: CURSOR_KEY_SEPARATOR_def char_of_def)

end
