(* ===== verification/Cross_Source.thy ===== *)
theory Cross_Source
  imports Correlation
begin

section \<open>Cross-source correlation\<close>

text \<open>
  The second pass of \<^verbatim>\<open>engine/correlation.py\<close>: open cases of different sources that share an entity in
  a time bucket form a group, and overlapping groups (with persisted component seeds) collapse into
  components by a union-find with path compression whose roots are the lexically least ids. Both loops
  of \<^verbatim>\<open>find\<close> carry fuel; \<open>find_returns\<close> shows that the number of known ids is always enough.
\<close>

subsection \<open>Union-find\<close>

type_synonym parents = "(string, string) dict"

definition par :: "parents \<Rightarrow> string \<Rightarrow> string option" where
  "par p x = dget p x"

text \<open>\<^verbatim>\<open>while parent[root] != root: root = parent[root]\<close>; a missing key is a \<^verbatim>\<open>KeyError\<close>, here \<open>None\<close>.\<close>

fun find_root :: "nat \<Rightarrow> parents \<Rightarrow> string \<Rightarrow> string option" where
  "find_root 0 p x = None"
| "find_root (Suc n) p x =
     (case par p x of
        None \<Rightarrow> None
      | Some y \<Rightarrow> if y = x then Some x else find_root n p y)"

text \<open>The compressing loop: every node on the path is pointed at the root.\<close>

fun compress :: "nat \<Rightarrow> parents \<Rightarrow> string \<Rightarrow> string \<Rightarrow> parents option" where
  "compress 0 p rt x = None"
| "compress (Suc n) p rt x =
     (case par p x of
        None \<Rightarrow> None
      | Some y \<Rightarrow> if y = x then Some p else compress n (dset p x rt) rt y)"

definition find_case :: "parents \<Rightarrow> string \<Rightarrow> (string \<times> parents) option" where
  "find_case p x =
     (case find_root (length p) p x of
        None \<Rightarrow> None
      | Some r \<Rightarrow> (case compress (length p) p r x of None \<Rightarrow> None | Some p' \<Rightarrow> Some (r, p')))"

fun union_rest :: "string \<Rightarrow> parents \<Rightarrow> string list \<Rightarrow> parents option" where
  "union_rest rt p [] = Some p"
| "union_rest rt p (m # ms) =
     (case find_case p m of
        None \<Rightarrow> None
      | Some (other, p') \<Rightarrow>
          if rt = other then union_rest rt p' ms
          else let low = min rt other; high = max rt other
               in union_rest low (dset p' high low) ms)"

definition union_members :: "parents \<Rightarrow> string list \<Rightarrow> parents option" where
  "union_members p members =
     (case members of
        [] \<Rightarrow> Some p
      | [_] \<Rightarrow> Some p
      | m # ms \<Rightarrow> (case find_case p m of None \<Rightarrow> None | Some (rt, p') \<Rightarrow> union_rest rt p' ms))"

fun union_all :: "parents \<Rightarrow> string list list \<Rightarrow> parents option" where
  "union_all p [] = Some p"
| "union_all p (g # gs) = (case union_members p g of None \<Rightarrow> None | Some p' \<Rightarrow> union_all p' gs)"

subsection \<open>The pass\<close>

record cross_source_item =
  xi_id :: string
  xi_source_id :: string
  xi_ts :: int
  xi_entities :: "(entity_type \<times> string) list"

record component_seed =
  seed_id :: string
  seed_members :: "string list"

record cross_source_config =
  xc_enabled :: bool
  xc_time_window_seconds :: int
  xc_min_sources :: int
  xc_entity_keys :: "string list"

fun entity_type_of :: "string \<Rightarrow> entity_type option" where
  "entity_type_of s = find (\<lambda>et. et_value et = s) [IP, USER, HOST, FILE_HASH, DOMAIN, RULE]"

definition entity_keys :: "cross_source_config \<Rightarrow> entity_type list" where
  "entity_keys cfg = List.map_filter entity_type_of (xc_entity_keys cfg)"

definition cluster_cross_source_entities ::
  "(json \<Rightarrow> string) \<Rightarrow> cluster \<Rightarrow> entity_type list \<Rightarrow> (entity_type \<times> string) list" where
  "cluster_cross_source_entities shw cl keys =
     remdups ((if fst (cl_entity cl) \<in> set keys \<and> snd (cl_entity cl) \<noteq> [] then [cl_entity cl] else []) @
       concat (map (\<lambda>ev. concat (map (\<lambda>et. case cross_source_value shw ev et of
             Some v \<Rightarrow> (if v \<noteq> [] then [(et, v)] else []) | None \<Rightarrow> []) keys)) (member_events cl)))"

record xs_slot =
  slot_ids :: "string list"
  slot_sources :: "string list"
  slot_type :: entity_type
  slot_value :: string

record xs_group =
  cross_source_cluster_id :: string
  xg_entity_type :: string
  xg_entity_value :: string
  xg_members :: "string list"

type_synonym xs_key = "string \<times> string \<times> int"

definition add_once :: "'a \<Rightarrow> 'a list \<Rightarrow> 'a list" where
  "add_once x xs = (if x \<in> set xs then xs else xs @ [x])"

definition bucket_of :: "int \<Rightarrow> cross_source_item \<Rightarrow> int" where
  "bucket_of window_ms item = (if xi_ts item \<noteq> 0 then xi_ts item div window_ms else 0)"

definition put_entity ::
  "cross_source_item \<Rightarrow> int \<Rightarrow> (xs_key, xs_slot) dict \<Rightarrow> entity_type \<times> string \<Rightarrow> (xs_key, xs_slot) dict" where
  "put_entity item bucket d = (\<lambda>(et, v).
     if v = [] then d
     else
       let key = (et_value et, v, bucket);
           slot = (case dget d key of Some sl \<Rightarrow> sl
                   | None \<Rightarrow> \<lparr>slot_ids = [], slot_sources = [], slot_type = et, slot_value = v\<rparr>)
       in dset d key (slot\<lparr>slot_ids := add_once (xi_id item) (slot_ids slot),
                           slot_sources := add_once (xi_source_id item) (slot_sources slot)\<rparr>))"

definition buckets_of :: "int \<Rightarrow> cross_source_item list \<Rightarrow> (xs_key, xs_slot) dict" where
  "buckets_of window_ms items =
     foldl (\<lambda>d item. foldl (put_entity item (bucket_of window_ms item)) d (xi_entities item)) [] items"

definition group_of_slot :: "(string \<Rightarrow> string) \<Rightarrow> int \<Rightarrow> xs_key \<times> xs_slot \<Rightarrow> xs_group" where
  "group_of_slot digest window = (\<lambda>((etv, v, bucket), slot).
     \<lparr>cross_source_cluster_id = cross_source_signature digest (slot_type slot) v (bucket * (window * 1000)) window,
      xg_entity_type = et_value (slot_type slot), xg_entity_value = v, xg_members = sort (slot_ids slot)\<rparr>)"

definition eligible_groups ::
  "(string \<Rightarrow> string) \<Rightarrow> int \<Rightarrow> int \<Rightarrow> cross_source_item list \<Rightarrow> xs_group list" where
  "eligible_groups digest window min_sources items =
     map (group_of_slot digest window)
       (filter (\<lambda>(key, slot). min_sources \<le> int (length (slot_sources slot)))
         (sort_key fst (buckets_of (window * 1000) items)))"

definition valid_cross_source_cluster_id :: "string \<Rightarrow> bool" where
  "valid_cross_source_cluster_id v \<longleftrightarrow> length v = 32 \<and> (\<forall>c \<in> set v. c \<in> set ''0123456789abcdef'')"

definition source_by_id :: "cross_source_item list \<Rightarrow> (string, string) dict" where
  "source_by_id items = foldl (\<lambda>d i. dset d (xi_id i) (xi_source_id i)) [] items"

definition known_members :: "(string, string) dict \<Rightarrow> string list \<Rightarrow> string list" where
  "known_members srcs ms = sort (remdups (filter (\<lambda>m. dget srcs m \<noteq> None) ms))"

definition valid_seeds ::
  "(string, string) dict \<Rightarrow> int \<Rightarrow> component_seed list \<Rightarrow> component_seed list" where
  "valid_seeds srcs min_sources seeds =
     concat (map (\<lambda>sd.
       let ms = known_members srcs (seed_members sd)
       in if length ms < 2 then []
          else if int (length (remdups (map (\<lambda>m. the (dget srcs m)) ms))) < min_sources then []
          else [\<lparr>seed_id = (if valid_cross_source_cluster_id (seed_id sd) then seed_id sd else []),
                 seed_members = ms\<rparr>]) seeds)"

text \<open>The root an id has in the finished partition; compression does not change it.\<close>

definition root_of :: "parents \<Rightarrow> string \<Rightarrow> string option" where
  "root_of p x = map_option fst (find_case p x)"

definition group_rank :: "xs_group \<Rightarrow> string \<times> string \<times> string \<times> string list" where
  "group_rank g = (xg_entity_type g, xg_entity_value g, cross_source_cluster_id g, xg_members g)"

definition component ::
  "parents \<Rightarrow> string list \<Rightarrow> component_seed list \<Rightarrow> string \<times> xs_group list \<Rightarrow> xs_group" where
  "component p ids seeds = (\<lambda>(rt, raw_groups).
     let members = sort (filter (\<lambda>x. root_of p x = Some rt) ids);
         canonical = hd (sort_key group_rank raw_groups);
         raw_ids = filter valid_cross_source_cluster_id (map cross_source_cluster_id raw_groups);
         persisted = map seed_id (filter (\<lambda>sd. seed_members sd \<noteq> [] \<and> seed_id sd \<noteq> [] \<and>
                        root_of p (hd (seed_members sd)) = Some rt) seeds)
     in \<lparr>cross_source_cluster_id =
           (if persisted \<noteq> [] then hd (sort persisted)
            else if raw_ids \<noteq> [] then hd (sort raw_ids) else cross_source_cluster_id canonical),
         xg_entity_type = xg_entity_type canonical, xg_entity_value = xg_entity_value canonical,
         xg_members = members\<rparr>)"

definition collapse_components ::
  "xs_group list \<Rightarrow> cross_source_item list \<Rightarrow> int \<Rightarrow> component_seed list \<Rightarrow> xs_group list option" where
  "collapse_components groups items min_sources seeds =
     (if groups = [] then Some []
      else
        let srcs = source_by_id items;
            ids = dkeys srcs;
            p0 = map (\<lambda>x. (x, x)) ids;
            vs = valid_seeds srcs min_sources seeds
        in case union_all p0 (map (known_members srcs \<circ> xg_members) groups @ map seed_members vs) of
             None \<Rightarrow> None
           | Some p \<Rightarrow>
               let raw = group_into (\<lambda>g. case known_members srcs (xg_members g) of
                           [] \<Rightarrow> None | m # _ \<Rightarrow> root_of p m) [] groups
               in Some (sort_key (\<lambda>g. (cross_source_cluster_id g, xg_members g)) (map (component p ids vs) raw)))"

definition cross_source_correlate ::
  "(string \<Rightarrow> string) \<Rightarrow> cross_source_item list \<Rightarrow> cross_source_config \<Rightarrow> component_seed list \<Rightarrow> xs_group list option" where
  "cross_source_correlate digest items cfg seeds =
     (if \<not> xc_enabled cfg \<or> items = [] then Some []
      else
        let window = max 1 (xc_time_window_seconds cfg);
            min_sources = max 2 (xc_min_sources cfg)
        in collapse_components (eligible_groups digest window min_sources items) items min_sources seeds)"

subsection \<open>Correctness of the union-find\<close>

text \<open>
  Parents are known ids and never lexically larger: chains of parents descend, so they end.
\<close>

definition uf_ok :: "parents \<Rightarrow> bool" where
  "uf_ok p \<longleftrightarrow> dict_ok p \<and> (\<forall>x y. par p x = Some y \<longrightarrow> y \<le> x \<and> par p y \<noteq> None)"

definition known :: "parents \<Rightarrow> string set" where
  "known p = {x. par p x \<noteq> None}"

lemma known_keys: "known p = set (dkeys p)"
  by (auto simp: known_def par_def dget_None_iff)

lemma finite_known [simp]: "finite (known p)"
  by (simp add: known_keys)

lemma card_known: "dict_ok p \<Longrightarrow> card (known p) = length p"
  by (simp add: known_keys distinct_dkeys distinct_card) (simp add: dkeys_def)

lemma parent_below: "uf_ok p \<Longrightarrow> par p x = Some y \<Longrightarrow> (y = x \<or> y < x) \<and> y \<in> known p"
  unfolding uf_ok_def known_def by (metis (mono_tags) mem_Collect_eq order.not_eq_order_implies_strict)

lemma below_card:
  assumes "y < x" "x \<in> known p"
  shows "card {z \<in> known p. z \<le> y} < card {z \<in> known p. z \<le> x}"
proof (rule psubset_card_mono)
  have "x \<in> {z \<in> known p. z \<le> x}" "x \<notin> {z \<in> known p. z \<le> y}" using assms by auto
  moreover have "{z \<in> known p. z \<le> y} \<subseteq> {z \<in> known p. z \<le> x}" using assms(1) by auto
  ultimately show "{z \<in> known p. z \<le> y} \<subset> {z \<in> known p. z \<le> x}" by blast
qed simp

text \<open>The root of an id, by the parent relation alone.\<close>

inductive rooted :: "parents \<Rightarrow> string \<Rightarrow> string \<Rightarrow> bool" for p where
  rooted_self: "par p x = Some x \<Longrightarrow> rooted p x x"
| rooted_up: "par p x = Some y \<Longrightarrow> y \<noteq> x \<Longrightarrow> rooted p y r \<Longrightarrow> rooted p x r"

inductive_cases rootedE: "rooted p x r"

lemma rooted_fun: "rooted p x r \<Longrightarrow> rooted p x s \<Longrightarrow> r = s"
proof (induction arbitrary: s rule: rooted.induct)
  case (rooted_self x)
  then show ?case by (auto elim: rootedE)
next
  case (rooted_up x y r)
  from rooted_up.prems rooted_up.hyps(1,2) rooted_up.IH show ?case by (auto elim: rootedE)
qed

lemma rooted_root: "rooted p x r \<Longrightarrow> par p r = Some r"
  by (induction rule: rooted.induct) auto

lemma rooted_le: "rooted p x r \<Longrightarrow> uf_ok p \<Longrightarrow> r \<le> x"
  by (induction rule: rooted.induct) (auto simp: uf_ok_def intro: order_trans)

lemma rooted_known: "rooted p x r \<Longrightarrow> x \<in> known p \<and> r \<in> known p"
  by (induction rule: rooted.induct) (auto simp: known_def)

text \<open>Fuel: the ids at or below \<open>x\<close> bound the length of its chain.\<close>

lemma find_root_enough:
  assumes "uf_ok p" "x \<in> known p" "card {y \<in> known p. y \<le> x} \<le> n"
  shows "\<exists>r. find_root n p x = Some r \<and> rooted p x r"
  using assms(2,3)
proof (induction n arbitrary: x)
  case 0
  then have "{y \<in> known p. y \<le> x} = {}" by simp
  with 0 show ?case by auto
next
  case (Suc n)
  then obtain y where y: "par p x = Some y" by (auto simp: known_def)
  show ?case
  proof (cases "y = x")
    case True
    with y show ?thesis by (auto intro: rooted_self)
  next
    case False
    with parent_below [OF assms(1) y] have lt: "y < x" and k: "y \<in> known p" by auto
    from below_card [OF lt Suc.prems(1)] Suc.prems(2) have "card {z \<in> known p. z \<le> y} \<le> n" by linarith
    from Suc.IH [OF k this] y False show ?thesis by (auto intro: rooted_up)
  qed
qed

lemma uf_ok_point:
  assumes "uf_ok p" "x \<in> known p" "r \<le> x" "r \<in> known p"
  shows "uf_ok (dset p x r)" "known (dset p x r) = known p"
  using assms by (auto simp: uf_ok_def par_def known_def)

text \<open>Pointing an id at its own root changes no root.\<close>

lemma rooted_point:
  assumes ok: "uf_ok p" and xr: "rooted p x r" and ar: "rooted p a s"
  shows "rooted (dset p x r) a s"
  using ar
proof (induction rule: rooted.induct)
  case (rooted_self a)
  show ?case
  proof (cases "a = x")
    case True
    with xr rooted_self have "r = x" by (auto elim: rootedE)
    then show ?thesis using True by (auto simp: par_def intro: rooted.rooted_self)
  next
    case False
    with rooted_self show ?thesis by (auto simp: par_def intro: rooted.rooted_self)
  qed
next
  case (rooted_up a b s)
  show ?case
  proof (cases "a = x")
    case True
    have "rooted p x s" using rooted_up True by (auto intro: rooted.rooted_up)
    then have rs: "s = r" using xr by (rule rooted_fun)
    have rr: "par p r = Some r" by (rule rooted_root [OF xr])
    with True rooted_up(1,2) have "r \<noteq> x" by auto
    with rr have "rooted (dset p x r) r r" by (auto simp: par_def intro: rooted.rooted_self)
    with True rs \<open>r \<noteq> x\<close> show ?thesis by (auto simp: par_def intro: rooted.rooted_up [of _ _ r])
  next
    case False
    with rooted_up show ?thesis by (auto simp: par_def intro: rooted.rooted_up)
  qed
qed

lemma compress_enough:
  assumes "uf_ok p" "rooted p x r" "card {y \<in> known p. y \<le> x} \<le> n"
  shows "\<exists>p'. compress n p r x = Some p' \<and> uf_ok p' \<and> known p' = known p \<and> (\<forall>a s. rooted p a s \<longrightarrow> rooted p' a s)"
  using assms
proof (induction n arbitrary: p x)
  case 0
  then have "{y \<in> known p. y \<le> x} = {}" by simp
  with 0(2) rooted_known show ?case by blast
next
  case (Suc n)
  note xk = rooted_known [OF Suc.prems(2)]
  then obtain y where y: "par p x = Some y" by (auto simp: known_def)
  show ?case
  proof (cases "y = x")
    case True
    with y Suc.prems show ?thesis by auto
  next
    case False
    have yr: "rooted p y r" using Suc.prems(2) y False by (auto elim: rootedE)
    have lt: "y < x" using parent_below [OF Suc.prems(1) y] False by auto
    let ?p = "dset p x r"
    note pt = uf_ok_point [OF Suc.prems(1) conjunct1 [OF xk] rooted_le [OF Suc.prems(2,1)] conjunct2 [OF xk]]
    from below_card [OF lt conjunct1 [OF xk]] have "card {z \<in> known ?p. z \<le> y} \<le> n" using Suc.prems(3) pt(2) by simp
    from Suc.IH [OF pt(1) rooted_point [OF Suc.prems(1,2) yr] this] obtain p' where
      "compress n ?p r y = Some p'" "uf_ok p'" "known p' = known p" "\<forall>a s. rooted ?p a s \<longrightarrow> rooted p' a s"
      using pt(2) by auto
    moreover have "\<forall>a s. rooted p a s \<longrightarrow> rooted p' a s"
      using calculation(4) rooted_point [OF Suc.prems(1,2)] by blast
    ultimately show ?thesis using y False by simp
  qed
qed

text \<open>\<^verbatim>\<open>find\<close> always returns, with the root, and compression is invisible.\<close>

lemma find_returns:
  assumes "uf_ok p" "x \<in> known p"
  obtains r p' where "find_case p x = Some (r, p')" "rooted p x r" "uf_ok p'" "known p' = known p"
    "\<And>a s. rooted p a s \<longleftrightarrow> rooted p' a s"
proof -
  have "card {y \<in> known p. y \<le> x} \<le> card (known p)" by (intro card_mono) auto
  then have le: "card {y \<in> known p. y \<le> x} \<le> length p" using card_known assms(1) by (simp add: uf_ok_def)
  from find_root_enough [OF assms le] obtain r where r: "find_root (length p) p x = Some r" "rooted p x r" by blast
  from compress_enough [OF assms(1) r(2) le] obtain p' where
    p': "compress (length p) p r x = Some p'" "uf_ok p'" "known p' = known p" "\<forall>a s. rooted p a s \<longrightarrow> rooted p' a s"
    by blast
  have "rooted p a s" if "rooted p' a s" for a s
  proof -
    from rooted_known [OF that] p'(3) have "a \<in> known p" by simp
    then obtain s' where "rooted p a s'"
      using find_root_enough [OF assms(1), of a "card {y \<in> known p. y \<le> a}"] by auto
    with p'(4) rooted_fun [OF that] show ?thesis by blast
  qed
  then have "\<And>a s. rooted p a s \<longleftrightarrow> rooted p' a s" using p'(4) by blast
  moreover have "find_case p x = Some (r, p')" using r p' by (simp add: find_case_def)
  ultimately show thesis using that r(2) p'(2,3) by blast
qed

text \<open>Two ids are together when they have the same root.\<close>

definition together :: "parents \<Rightarrow> string \<Rightarrow> string \<Rightarrow> bool" where
  "together p a b \<longleftrightarrow> (\<exists>r. rooted p a r \<and> rooted p b r)"

lemma together_sym: "together p a b \<Longrightarrow> together p b a"
  by (auto simp: together_def)

lemma together_trans: "together p a b \<Longrightarrow> together p b c \<Longrightarrow> together p a c"
  unfolding together_def by (metis rooted_fun)

lemma together_refl: "uf_ok p \<Longrightarrow> a \<in> known p \<Longrightarrow> together p a a"
  using find_root_enough [of p a "card {y \<in> known p. y \<le> a}"] by (auto simp: together_def)

lemma together_root: "rooted p a r \<Longrightarrow> together p a r"
  unfolding together_def using rooted_self [OF rooted_root] by blast

lemma together_root_iff: "rooted p x r \<Longrightarrow> together p a x \<longleftrightarrow> rooted p a r"
  unfolding together_def by (metis rooted_fun)

definition merged :: "('a \<Rightarrow> 'a \<Rightarrow> bool) \<Rightarrow> 'a set \<Rightarrow> 'a \<Rightarrow> 'a \<Rightarrow> bool" where
  "merged S M a b \<longleftrightarrow> S a b \<or> (\<exists>m \<in> M. S a m) \<and> (\<exists>m \<in> M. S b m)"

lemma merged_merged:
  assumes "\<And>a b. S a b \<Longrightarrow> S b a" "\<And>a b c. S a b \<Longrightarrow> S b c \<Longrightarrow> S a c" "l = x \<or> l = y" "S l l"
  shows "merged (merged S {x, y}) (insert l M) = merged S (insert x (insert y M))"
  unfolding merged_def fun_eq_iff using assms by blast

lemma link_rooted:
  assumes "uf_ok p" "par p high = Some high" "par p low = Some low" "low < high" "rooted p a s"
  shows "rooted (dset p high low) a (if s = high then low else s)"
  using assms(5)
proof (induction rule: rooted.induct)
  case (rooted_self a)
  have low: "rooted (dset p high low) low low" using assms(3,4) by (auto simp: par_def intro: rooted.rooted_self)
  show ?case
  proof (cases "a = high")
    case True
    with low assms(4) show ?thesis by (auto simp: par_def intro!: rooted.rooted_up [of _ high low])
  next
    case False
    with rooted_self show ?thesis by (auto simp: par_def intro: rooted.rooted_self)
  qed
next
  case (rooted_up a b s)
  then have "a \<noteq> high" using assms(2) by auto
  with rooted_up show ?case by (auto simp: par_def intro: rooted.rooted_up [of _ a b])
qed

lemma link_together:
  assumes ok: "uf_ok p" and hi: "par p high = Some high" and lo: "par p low = Some low" and lt: "low < high"
  shows "uf_ok (dset p high low)" "known (dset p high low) = known p"
    "together (dset p high low) = merged (together p) {low, high}"
proof -
  let ?q = "dset p high low"
  show q: "uf_ok ?q" "known ?q = known p" using assms by (auto simp: uf_ok_def par_def known_def)
  have tot: "\<exists>s. rooted p a s" if "a \<in> known p" for a using together_refl [OF ok that] by (auto simp: together_def)
  have down: "\<exists>s. rooted p a s \<and> t = (if s = high then low else s)" if "rooted ?q a t" for a t
  proof -
    from rooted_known [OF that] q(2) tot obtain s where s: "rooted p a s" by blast
    from rooted_fun [OF that link_rooted [OF ok hi lo lt s]] s show ?thesis by blast
  qed
  have iff: "together ?q a b \<longleftrightarrow> (\<exists>s t. rooted p a s \<and> rooted p b t \<and> (s = t \<or> {s, t} \<subseteq> {low, high}))" for a b
  proof
    assume "together ?q a b"
    then obtain r where "rooted ?q a r" "rooted ?q b r" by (auto simp: together_def)
    then obtain s t where "rooted p a s" "rooted p b t" "r = (if s = high then low else s)" "r = (if t = high then low else t)"
      using down by blast
    then show "\<exists>s t. rooted p a s \<and> rooted p b t \<and> (s = t \<or> {s, t} \<subseteq> {low, high})"
      by (intro exI [of _ s] exI [of _ t]) (auto split: if_splits)
  next
    assume "\<exists>s t. rooted p a s \<and> rooted p b t \<and> (s = t \<or> {s, t} \<subseteq> {low, high})"
    then obtain s t where st: "rooted p a s" "rooted p b t" "s = t \<or> {s, t} \<subseteq> {low, high}" by blast
    then have "(if s = high then low else s) = (if t = high then low else t)" by auto
    with link_rooted [OF ok hi lo lt st(1)] link_rooted [OF ok hi lo lt st(2)] show "together ?q a b"
      unfolding together_def by metis
  qed
  have roots: "together p a high \<longleftrightarrow> rooted p a high" "together p a low \<longleftrightarrow> rooted p a low" for a
    using hi lo by (auto intro!: together_root_iff rooted_self)
  show "together ?q = merged (together p) {low, high}"
    unfolding fun_eq_iff merged_def iff by (auto simp: roots) (auto simp: together_def)
qed

lemma together_cong: "(\<And>a s. rooted p a s \<longleftrightarrow> rooted p' a s) \<Longrightarrow> together p = together p'"
  by (simp add: together_def fun_eq_iff)

lemma union_rest_ok:
  assumes "uf_ok p" "par p rt = Some rt" "set ms \<subseteq> known p"
  shows "\<exists>p'. union_rest rt p ms = Some p' \<and> uf_ok p' \<and> known p' = known p \<and>
    together p' = merged (together p) (insert rt (set ms))"
  using assms
proof (induction ms arbitrary: rt p)
  case Nil
  have "merged (together p) {rt} = together p"
    unfolding merged_def fun_eq_iff using together_sym together_trans by blast
  with Nil show ?case by auto
next
  case (Cons m ms)
  from Cons.prems have mk: "m \<in> known p" by simp
  obtain r p1 where f: "find_case p m = Some (r, p1)" "rooted p m r" and ok1: "uf_ok p1" and k1: "known p1 = known p"
    and eq: "\<And>a s. rooted p a s \<longleftrightarrow> rooted p1 a s"
    using find_returns [OF Cons.prems(1) mk] by blast
  have tg: "together p1 = together p" using together_cong [OF eq] by simp
  have rr: "par p1 r = Some r" using rooted_root f(2) eq by blast
  have rt1: "par p1 rt = Some rt" using rooted_root [of p1 rt rt] eq [of rt rt] rooted_self [OF Cons.prems(2)] by blast
  have mr: "together p a m \<longleftrightarrow> together p a r" for a
    using together_root [OF f(2)] together_sym together_trans by blast
  have M: "merged (together p) (insert rt (insert r (set ms))) = merged (together p) (insert rt (set (m # ms)))"
    unfolding merged_def fun_eq_iff by (simp add: mr)
  show ?case
  proof (cases "rt = r")
    case True
    from Cons.IH [OF ok1 rt1] Cons.prems(3) k1 obtain p' where
      "union_rest rt p1 ms = Some p'" "uf_ok p'" "known p' = known p" "together p' = merged (together p) (insert rt (set ms))"
      using tg by auto
    with f True M show ?thesis by auto
  next
    case False
    define low high where "low = min rt r" and "high = max rt r"
    have lh: "low < high" "par p1 high = Some high" "par p1 low = Some low" "{low, high} = {rt, r}"
      using False rr rt1 by (auto simp: low_def high_def min_def max_def)
    note lk = link_together [OF ok1 lh(2,3,1)]
    have "par (dset p1 high low) low = Some low" using lh by (auto simp: par_def)
    from Cons.IH [OF lk(1) this] Cons.prems(3) k1 lk(2) obtain p' where
      p': "union_rest low (dset p1 high low) ms = Some p'" "uf_ok p'" "known p' = known p"
        "together p' = merged (together (dset p1 high low)) (insert low (set ms))"
      by auto
    have "together p' = merged (merged (together p) {rt, r}) (insert low (set ms))"
      using p'(4) lk(3) lh(4) tg by simp
    also have "\<dots> = merged (together p) (insert rt (insert r (set ms)))"
    proof (rule merged_merged)
      show "low = rt \<or> low = r" using lh(4) by auto
      show "together p low low" using together_refl [OF ok1, of low] lh(3) tg by (auto simp: known_def)
    qed (use together_sym together_trans in blast)+
    finally have "together p' = merged (together p) (insert rt (set (m # ms)))" using M by simp
    with f False p' show ?thesis by (simp add: low_def high_def Let_def)
  qed
qed

lemma union_members_ok:
  assumes "uf_ok p" "set g \<subseteq> known p"
  shows "\<exists>p'. union_members p g = Some p' \<and> uf_ok p' \<and> known p' = known p \<and> together p' = merged (together p) (set g)"
proof (cases "length g < 2")
  case True
  then consider "g = []" | x where "g = [x]" by (cases g; cases "tl g") auto
  then show ?thesis
  proof cases
    case 2
    have "merged (together p) {x} = together p"
      unfolding merged_def fun_eq_iff using together_sym together_trans by blast
    with 2 assms show ?thesis by (simp add: union_members_def)
  qed (use assms in \<open>simp add: union_members_def merged_def [abs_def]\<close>)
next
  case False
  then obtain m m' ms where g: "g = m # m' # ms" by (cases g; cases "tl g") auto
  obtain r p1 where f: "find_case p m = Some (r, p1)" "rooted p m r" and ok1: "uf_ok p1" and k1: "known p1 = known p"
    and eq: "\<And>a s. rooted p a s \<longleftrightarrow> rooted p1 a s"
    using find_returns [OF assms(1), of m] assms(2) g by auto
  have tg: "together p1 = together p" using together_cong [OF eq] by simp
  have rr: "par p1 r = Some r" using rooted_root f(2) eq by blast
  from union_rest_ok [OF ok1 rr, of "m' # ms"] assms(2) g k1 obtain p' where
    p': "union_rest r p1 (m' # ms) = Some p'" "uf_ok p'" "known p' = known p"
      "together p' = merged (together p1) (insert r (set (m' # ms)))" by auto
  have mr: "together p a m \<longleftrightarrow> together p a r" for a
    using together_root [OF f(2)] together_sym together_trans by blast
  have "merged (together p) (insert r (set (m' # ms))) = merged (together p) (set g)"
    unfolding merged_def fun_eq_iff g by (simp add: mr)
  with p' f tg g show ?thesis by (auto simp: union_members_def)
qed

text \<open>Ids that occur in one group are linked; components are the classes of the transitive closure.\<close>

definition linked :: "string list list \<Rightarrow> (string \<times> string) set" where
  "linked gs = {(a, b). \<exists>g \<in> set gs. a \<in> set g \<and> b \<in> set g}"

lemma merged_rtrancl:
  assumes "\<And>a b. S a b \<Longrightarrow> S b a" "\<And>a b c. S a b \<Longrightarrow> S b c \<Longrightarrow> S a c" "\<And>m. m \<in> M \<Longrightarrow> S m m"
  shows "{(a, b). merged S M a b} \<subseteq> ({(a, b). S a b} \<union> M \<times> M)\<^sup>*"
    and "{(a, b). S a b} \<union> M \<times> M \<subseteq> {(a, b). merged S M a b}"
proof -
  let ?R = "{(a, b). S a b} \<union> M \<times> M"
  show "?R \<subseteq> {(a, b). merged S M a b}" using assms(3) by (auto simp: merged_def)
  show "{(a, b). merged S M a b} \<subseteq> ?R\<^sup>*"
  proof
    fix x assume "x \<in> {(a, b). merged S M a b}"
    then obtain a b where x: "x = (a, b)" "merged S M a b" by auto
    then consider "S a b" | m m' where "m \<in> M" "S a m" "m' \<in> M" "S b m'" by (auto simp: merged_def)
    then show "x \<in> ?R\<^sup>*"
    proof cases
      case 2
      then have "(a, m) \<in> ?R" "(m, m') \<in> ?R" "(m', b) \<in> ?R" using assms(1) by auto
      then show ?thesis using x by (meson r_into_rtrancl rtrancl_trans)
    qed (use x in auto)
  qed
qed

lemma union_all_ok:
  assumes "uf_ok p" "\<forall>g \<in> set gs. set g \<subseteq> known p"
  shows "\<exists>p'. union_all p gs = Some p' \<and> uf_ok p' \<and> known p' = known p \<and>
    {(a, b). together p' a b}\<^sup>* = ({(a, b). together p a b} \<union> linked gs)\<^sup>*"
  using assms
proof (induction gs arbitrary: p)
  case Nil
  then show ?case by (simp add: linked_def)
next
  case (Cons g gs)
  from union_members_ok [OF Cons.prems(1), of g] Cons.prems(2) obtain p1 where
    p1: "union_members p g = Some p1" "uf_ok p1" "known p1 = known p" "together p1 = merged (together p) (set g)" by auto
  from Cons.IH [OF p1(2)] Cons.prems(2) p1(3) obtain p' where
    p': "union_all p1 gs = Some p'" "uf_ok p'" "known p' = known p"
      "{(a, b). together p' a b}\<^sup>* = ({(a, b). together p1 a b} \<union> linked gs)\<^sup>*" by auto
  have refl: "together p m m" if "m \<in> set g" for m using together_refl [OF Cons.prems(1)] Cons.prems(2) that by auto
  note mr = merged_rtrancl [of "together p" "set g", OF together_sym together_trans refl]
  have lk: "linked (g # gs) = set g \<times> set g \<union> linked gs" by (auto simp: linked_def)
  have "({(a, b). together p1 a b} \<union> linked gs)\<^sup>* = ({(a, b). together p a b} \<union> linked (g # gs))\<^sup>*" (is "?A\<^sup>* = ?B\<^sup>*")
  proof (rule rtrancl_subset_rtrancl [THEN equalityI])
    have "{(a, b). together p1 a b} \<subseteq> ({(a, b). together p a b} \<union> set g \<times> set g)\<^sup>*" unfolding p1(4) by (rule mr(1))
    also have "\<dots> \<subseteq> ?B\<^sup>*" by (rule rtrancl_mono) (auto simp: lk)
    finally show "?A \<subseteq> ?B\<^sup>*" by (auto simp: lk)
    have "{(a, b). together p a b} \<union> set g \<times> set g \<subseteq> {(a, b). together p1 a b}" unfolding p1(4) by (rule mr(2))
    then have "?B \<subseteq> ?A" by (auto simp: lk)
    then show "?B\<^sup>* \<subseteq> ?A\<^sup>*" by (rule rtrancl_mono)
  qed
  with p1 p' show ?case by auto
qed

subsection \<open>The partition the pass builds\<close>

lemma source_by_id_facts:
  "dict_ok (source_by_id items)" "set (dkeys (source_by_id items)) = xi_id ` set items"
proof -
  have "dict_ok d \<Longrightarrow> dict_ok (foldl (\<lambda>d i. dset d (xi_id i) (xi_source_id i)) d items) \<and>
      set (dkeys (foldl (\<lambda>d i. dset d (xi_id i) (xi_source_id i)) d items)) = set (dkeys d) \<union> xi_id ` set items" for d
    by (induction items arbitrary: d) auto
  from this [OF dict_ok_Nil] show "dict_ok (source_by_id items)" "set (dkeys (source_by_id items)) = xi_id ` set items"
    by (simp_all add: source_by_id_def dkeys_def)
qed

lemma known_members_set: "set (known_members srcs ms) = set ms \<inter> set (dkeys srcs)"
  by (auto simp: known_members_def dget_None_iff)

definition identity_parents :: "string list \<Rightarrow> parents" where
  "identity_parents ids = map (\<lambda>x. (x, x)) ids"

lemma par_identity: "par (identity_parents ids) x = (if x \<in> set ids then Some x else None)"
  by (induction ids) (auto simp: identity_parents_def par_def dget_def)

lemma identity_parents_ok:
  assumes "distinct ids"
  shows "uf_ok (identity_parents ids)" "known (identity_parents ids) = set ids"
    "{(a, b). together (identity_parents ids) a b} \<subseteq> Id"
proof -
  show "uf_ok (identity_parents ids)" using assms
    by (auto simp: uf_ok_def par_identity split: if_splits) (simp add: dict_ok_def identity_parents_def comp_def)
  show "known (identity_parents ids) = set ids" by (auto simp: known_def par_identity)
  have "rooted (identity_parents ids) a r \<Longrightarrow> r = a" for a r
    by (induction rule: rooted.induct) (auto simp: par_identity split: if_splits)
  then show "{(a, b). together (identity_parents ids) a b} \<subseteq> Id" by (auto simp: together_def)
qed

lemma partition_exists:
  assumes "distinct ids" "\<forall>g \<in> set gs. set g \<subseteq> set ids"
  shows "\<exists>p. union_all (identity_parents ids) gs = Some p \<and> uf_ok p \<and> known p = set ids \<and>
    (\<forall>a \<in> set ids. \<forall>b. together p a b \<longleftrightarrow> (a, b) \<in> (linked gs)\<^sup>*)"
proof -
  note i = identity_parents_ok [OF assms(1)]
  from union_all_ok [OF i(1), of gs] i(2) assms(2) obtain p where
    p: "union_all (identity_parents ids) gs = Some p" "uf_ok p" "known p = set ids"
      "{(a, b). together p a b}\<^sup>* = ({(a, b). together (identity_parents ids) a b} \<union> linked gs)\<^sup>*" by auto
  have "({(a, b). together (identity_parents ids) a b} \<union> linked gs)\<^sup>* = (linked gs)\<^sup>*"
  proof (rule rtrancl_subset_rtrancl [THEN equalityI])
    show "{(a, b). together (identity_parents ids) a b} \<union> linked gs \<subseteq> (linked gs)\<^sup>*" using i(3) by blast
    show "(linked gs)\<^sup>* \<subseteq> ({(a, b). together (identity_parents ids) a b} \<union> linked gs)\<^sup>*" by (rule rtrancl_mono) blast
  qed
  with p(4) have star: "{(a, b). together p a b}\<^sup>* = (linked gs)\<^sup>*" by simp
  have "together p a b \<longleftrightarrow> (a, b) \<in> (linked gs)\<^sup>*" if a: "a \<in> set ids" for a b
  proof
    assume "together p a b"
    then show "(a, b) \<in> (linked gs)\<^sup>*" unfolding star [symmetric] by auto
  next
    assume "(a, b) \<in> (linked gs)\<^sup>*"
    then have "(a, b) \<in> {(a, b). together p a b}\<^sup>*" unfolding star .
    then show "together p a b"
    proof (induction rule: rtrancl_induct)
      case base
      show ?case using together_refl [OF p(2)] a p(3) by simp
    next
      case (step y z)
      then show ?case using together_trans by blast
    qed
  qed
  with p show ?thesis by blast
qed

lemma root_of_iff: "uf_ok p \<Longrightarrow> x \<in> known p \<Longrightarrow> root_of p x = Some r \<longleftrightarrow> rooted p x r"
proof -
  assume ok: "uf_ok p" "x \<in> known p"
  obtain r' p' where "find_case p x = Some (r', p')" "rooted p x r'"
    by (rule find_returns [OF ok]) (rule that)
  then show ?thesis using rooted_fun [of p x] by (auto simp: root_of_def)
qed

lemma root_of_None: "x \<notin> known p \<Longrightarrow> root_of p x = None"
  by (cases "length p") (auto simp: root_of_def find_case_def known_def)

lemma root_of_together:
  assumes "uf_ok p" "a \<in> known p" "root_of p a = Some r"
  shows "root_of p b = Some r \<longleftrightarrow> together p a b"
proof (cases "b \<in> known p")
  case True
  with assms show ?thesis
    using rooted_fun [of p a] by (auto simp: root_of_iff together_def)
next
  case False
  then show ?thesis using root_of_None [OF False] rooted_known by (auto simp: together_def)
qed

subsection \<open>Buckets\<close>

definition exposes :: "int \<Rightarrow> xs_key \<Rightarrow> cross_source_item \<Rightarrow> bool" where
  "exposes window_ms key item \<longleftrightarrow>
     (\<exists>et v. (et, v) \<in> set (xi_entities item) \<and> v \<noteq> [] \<and> key = (et_value et, v, bucket_of window_ms item))"

definition slot_ok :: "(cross_source_item \<times> entity_type \<times> string) set \<Rightarrow> int \<Rightarrow> (xs_key, xs_slot) dict \<Rightarrow> bool" where
  "slot_ok S w d \<longleftrightarrow> dict_ok d \<and>
     (\<forall>key slot. dget d key = Some slot \<longrightarrow>
        distinct (slot_sources slot) \<and> et_value (slot_type slot) = fst key \<and>
        (let I = {i. \<exists>et v. (i, et, v) \<in> S \<and> v \<noteq> [] \<and> key = (et_value et, v, bucket_of w i)}
         in I \<noteq> {} \<and> set (slot_ids slot) = xi_id ` I \<and> set (slot_sources slot) = xi_source_id ` I)) \<and>
     (\<forall>i et v. (i, et, v) \<in> S \<longrightarrow> v \<noteq> [] \<longrightarrow> dget d (et_value et, v, bucket_of w i) \<noteq> None)"

lemma slot_ok_get:
  "slot_ok S w d \<Longrightarrow> dget d key = Some slot \<Longrightarrow>
     distinct (slot_sources slot) \<and> et_value (slot_type slot) = fst key \<and>
     {i. \<exists>et v. (i, et, v) \<in> S \<and> v \<noteq> [] \<and> key = (et_value et, v, bucket_of w i)} \<noteq> {} \<and>
     set (slot_ids slot) = xi_id ` {i. \<exists>et v. (i, et, v) \<in> S \<and> v \<noteq> [] \<and> key = (et_value et, v, bucket_of w i)} \<and>
     set (slot_sources slot) = xi_source_id ` {i. \<exists>et v. (i, et, v) \<in> S \<and> v \<noteq> [] \<and> key = (et_value et, v, bucket_of w i)}"
  unfolding slot_ok_def Let_def by blast

lemma add_once_facts [simp]: "set (add_once x xs) = insert x (set xs)" "distinct (add_once x xs) = distinct xs"
  by (auto simp: add_once_def)

lemma put_entity_ok:
  assumes "slot_ok S w d"
  shows "slot_ok (insert (item, e) S) w (put_entity item (bucket_of w item) d e)"
proof -
  obtain et v where e: "e = (et, v)" by (cases e)
  show ?thesis
  proof (cases "v = []")
    case True
    then have "{i. \<exists>et v. (i, et, v) \<in> insert (item, e) S \<and> v \<noteq> [] \<and> key = (et_value et, v, bucket_of w i)} =
        {i. \<exists>et v. (i, et, v) \<in> S \<and> v \<noteq> [] \<and> key = (et_value et, v, bucket_of w i)}" for key :: xs_key
      using e by auto
    with True assms show ?thesis unfolding slot_ok_def e by (simp add: put_entity_def)
  next
    case False
    let ?key = "(et_value et, v, bucket_of w item)"
    define I where "I S' key = {i. \<exists>et v. (i, et, v) \<in> S' \<and> v \<noteq> [] \<and> key = (et_value et, v, bucket_of w i)}"
      for S' and key :: xs_key
    have I: "I (insert (item, e) S) key = (if key = ?key then insert item (I S key) else I S key)" for key
      using False e by (auto simp: I_def)
    have old: "dget d key = Some slot \<Longrightarrow> distinct (slot_sources slot) \<and> et_value (slot_type slot) = fst key \<and>
        I S key \<noteq> {} \<and> set (slot_ids slot) = xi_id ` I S key \<and> set (slot_sources slot) = xi_source_id ` I S key" for key slot
      using assms unfolding slot_ok_def Let_def I_def [symmetric] by blast
    have dom: "(i, et, v) \<in> S \<Longrightarrow> v \<noteq> [] \<Longrightarrow> dget d (et_value et, v, bucket_of w i) \<noteq> None" for i et v
      using assms unfolding slot_ok_def by blast
    have empty: "I S key = {}" if "dget d key = None" for key
      using that dom unfolding I_def by blast
    have ok: "dict_ok d" using assms by (simp add: slot_ok_def)
    show ?thesis
      unfolding slot_ok_def Let_def I_def [symmetric] I
    proof (intro conjI allI impI)
      show "dict_ok (put_entity item (bucket_of w item) d e)" using ok False e by (simp add: put_entity_def Let_def)
    next
      fix i et' v' assume "(i, et', v') \<in> insert (item, e) S" "v' \<noteq> []"
      then show "dget (put_entity item (bucket_of w item) d e) (et_value et', v', bucket_of w i) \<noteq> None"
        using dom e False by (auto simp: put_entity_def Let_def)
    next
      fix key slot assume sl: "dget (put_entity item (bucket_of w item) d e) key = Some slot"
      show "distinct (slot_sources slot)" "et_value (slot_type slot) = fst key"
        "(if key = ?key then insert item (I S key) else I S key) \<noteq> {}"
        "set (slot_ids slot) = xi_id ` (if key = ?key then insert item (I S key) else I S key)"
        "set (slot_sources slot) = xi_source_id ` (if key = ?key then insert item (I S key) else I S key)"
        using sl e False old [of key] empty [of key]
        by (cases "key = ?key"; cases "dget d ?key"; auto simp: put_entity_def Let_def)+
    qed
  qed
qed

lemma buckets_ok:
  "slot_ok {(i, e). i \<in> set items \<and> e \<in> set (xi_entities i)} w (buckets_of w items)"
proof -
  have inner: "slot_ok S w d \<Longrightarrow>
      slot_ok (S \<union> {item} \<times> set es) w (foldl (put_entity item (bucket_of w item)) d es)" for S d item es
  proof (induction es arbitrary: S d)
    case (Cons e es)
    from Cons.IH [OF put_entity_ok [OF Cons.prems, of item e]] show ?case by (simp add: Sigma_def insert_commute Un_insert_right)
  qed simp
  have outer: "slot_ok S w d \<Longrightarrow> slot_ok (S \<union> {(i, e). i \<in> set items \<and> e \<in> set (xi_entities i)}) w
      (foldl (\<lambda>d item. foldl (put_entity item (bucket_of w item)) d (xi_entities item)) d items)" for S d
  proof (induction items arbitrary: S d)
    case (Cons x xs)
    have "S \<union> {x} \<times> set (xi_entities x) \<union> {(i, e). i \<in> set xs \<and> e \<in> set (xi_entities i)} =
        S \<union> {(i, e). i \<in> set (x # xs) \<and> e \<in> set (xi_entities i)}" by auto
    with Cons.IH [OF inner [OF Cons.prems, of x "xi_entities x"]] show ?case by simp
  qed simp
  have "slot_ok {} w []" by (simp add: slot_ok_def)
  from outer [OF this] show ?thesis by (simp add: buckets_of_def)
qed

text \<open>An eligible group: the ids of the items that expose one entity in one bucket, of enough sources.\<close>

lemma eligible_group:
  assumes "g \<in> set (eligible_groups digest window n items)"
  obtains key where "set (xg_members g) = xi_id ` {i \<in> set items. exposes (window * 1000) key i}"
    "n \<le> int (card (xi_source_id ` {i \<in> set items. exposes (window * 1000) key i}))" "xg_members g \<noteq> []"
    "xg_entity_type g = fst key" "xg_entity_value g = fst (snd key)"
proof -
  let ?d = "buckets_of (window * 1000) items"
  from assms obtain key slot where ks: "(key, slot) \<in> set ?d" "n \<le> int (length (slot_sources slot))"
      "g = group_of_slot digest window (key, slot)"
    by (auto simp: eligible_groups_def)
  note ok = buckets_ok [of items "window * 1000"]
  then have "dict_ok ?d" unfolding slot_ok_def by blast
  then have dg: "dget ?d key = Some slot" using ks(1) by (simp add: dget_eq_Some)
  have I: "{i. \<exists>et v. (i, et, v) \<in> {(i, e). i \<in> set items \<and> e \<in> set (xi_entities i)} \<and> v \<noteq> [] \<and>
      key = (et_value et, v, bucket_of (window * 1000) i)} = {i \<in> set items. exposes (window * 1000) key i}"
    by (auto simp: exposes_def)
  note sl1 = slot_ok_get [OF ok dg, unfolded I]
  have sl: "distinct (slot_sources slot)" "et_value (slot_type slot) = fst key"
      "{i \<in> set items. exposes (window * 1000) key i} \<noteq> {}"
      "set (slot_ids slot) = xi_id ` {i \<in> set items. exposes (window * 1000) key i}"
      "set (slot_sources slot) = xi_source_id ` {i \<in> set items. exposes (window * 1000) key i}"
    using sl1 by blast+
  obtain t v b where key: "key = (t, v, b)" by (metis surj_pair)
  have "set (sort (slot_ids slot)) \<noteq> {}" using sl(3,4) by simp
  moreover have "xg_members g = sort (slot_ids slot)" using ks(3) key by (simp add: group_of_slot_def)
  ultimately have ne: "xg_members g \<noteq> []" by (metis set_empty2)
  show thesis
  proof (rule that [of key, OF _ _ ne])
    show "set (xg_members g) = xi_id ` {i \<in> set items. exposes (window * 1000) key i}"
      using ks(3) key sl(4) by (simp add: group_of_slot_def)
    show "n \<le> int (card (xi_source_id ` {i \<in> set items. exposes (window * 1000) key i}))"
      using ks(2) distinct_card [OF sl(1)] sl(5) by simp
    show "xg_entity_type g = fst key" "xg_entity_value g = fst (snd key)"
      using ks(3) key sl(2) by (simp_all add: group_of_slot_def)
  qed
qed

definition component_links ::
  "(string \<Rightarrow> string) \<Rightarrow> cross_source_item list \<Rightarrow> cross_source_config \<Rightarrow> component_seed list \<Rightarrow> string list list" where
  "component_links digest items cfg seeds =
     map xg_members (eligible_groups digest (max 1 (xc_time_window_seconds cfg)) (max 2 (xc_min_sources cfg)) items) @
     map seed_members (valid_seeds (source_by_id items) (max 2 (xc_min_sources cfg)) seeds)"

lemma valid_seeds_members: "sd \<in> set (valid_seeds srcs n seeds) \<Longrightarrow> set (seed_members sd) \<subseteq> set (dkeys srcs)"
  by (auto simp: valid_seeds_def Let_def known_members_set split: if_splits)

lemma linked_sets: "map set gs = map set gs' \<Longrightarrow> linked gs = linked gs'"
proof -
  have "linked gs = (\<Union>m \<in> set (map set gs). m \<times> m)" for gs by (auto simp: linked_def)
  then show "map set gs = map set gs' \<Longrightarrow> linked gs = linked gs'" by metis
qed

lemma component_members: "set (xg_members (component p ids vs (rt, gs))) = {x \<in> set ids. root_of p x = Some rt}"
  by (simp add: component_def Let_def)

text \<open>What the pass returns when it has eligible groups.\<close>

lemma cross_source_result:
  assumes "xc_enabled cfg" "items \<noteq> []"
  shows "\<exists>out p. cross_source_correlate digest items cfg seeds = Some out \<and>
    (\<forall>a \<in> xi_id ` set items. \<forall>b. together p a b \<longleftrightarrow> (a, b) \<in> (linked (component_links digest items cfg seeds))\<^sup>*) \<and>
    uf_ok p \<and> known p = xi_id ` set items \<and>
    (\<forall>c \<in> set out. \<exists>g rt. g \<in> set (eligible_groups digest (max 1 (xc_time_window_seconds cfg)) (max 2 (xc_min_sources cfg)) items) \<and>
       set (xg_members c) = {x \<in> xi_id ` set items. root_of p x = Some rt} \<and> set (xg_members g) \<inter> set (xg_members c) \<noteq> {}) \<and>
    (\<forall>g \<in> set (eligible_groups digest (max 1 (xc_time_window_seconds cfg)) (max 2 (xc_min_sources cfg)) items).
       \<exists>c \<in> set out. set (xg_members g) \<inter> set (xg_members c) \<noteq> {}) \<and>
    sorted (map (\<lambda>g. (cross_source_cluster_id g, xg_members g)) out) \<and>
    distinct (map (\<lambda>c. set (xg_members c)) out)"
proof -
  define groups where "groups = eligible_groups digest (max 1 (xc_time_window_seconds cfg)) (max 2 (xc_min_sources cfg)) items"
  define srcs where "srcs = source_by_id items"
  define vs where "vs = valid_seeds srcs (max 2 (xc_min_sources cfg)) seeds"
  define links where "links = map (known_members srcs \<circ> xg_members) groups @ map seed_members vs"
  have ids: "distinct (dkeys srcs)" "set (dkeys srcs) = xi_id ` set items"
    using source_by_id_facts [of items] by (simp_all add: srcs_def distinct_dkeys)
  have gm: "set (xg_members g) \<subseteq> set (dkeys srcs)" "xg_members g \<noteq> []" if "g \<in> set groups" for g
    using that ids(2) by (auto simp: groups_def elim!: eligible_group)
  have km: "set (known_members srcs (xg_members g)) = set (xg_members g)" if "g \<in> set groups" for g
    using gm [OF that] by (auto simp: known_members_set)
  have lk: "linked links = linked (component_links digest items cfg seeds)"
    unfolding links_def component_links_def groups_def [symmetric] vs_def [unfolded srcs_def, symmetric]
    by (rule linked_sets) (simp add: km)
  have "\<forall>g \<in> set links. set g \<subseteq> set (dkeys srcs)"
    using valid_seeds_members [of _ srcs] by (fastforce simp: links_def known_members_set vs_def)
  from partition_exists [OF ids(1) this] obtain p where
    p: "union_all (identity_parents (dkeys srcs)) links = Some p" "uf_ok p" "known p = set (dkeys srcs)"
      "\<forall>a \<in> set (dkeys srcs). \<forall>b. together p a b \<longleftrightarrow> (a, b) \<in> (linked links)\<^sup>*" by blast
  define key where "key g = (case known_members srcs (xg_members g) of [] \<Rightarrow> None | m # _ \<Rightarrow> root_of p m)" for g :: xs_group
  define raw where "raw = group_into key [] groups"
  define out where "out = (if groups = [] then [] else
      sort_key (\<lambda>g. (cross_source_cluster_id g, xg_members g)) (map (component p (dkeys srcs) vs) raw))"
  have res: "cross_source_correlate digest items cfg seeds = Some out"
    using assms p(1) unfolding cross_source_correlate_def collapse_components_def out_def raw_def key_def [abs_def]
      links_def vs_def srcs_def groups_def identity_parents_def by (simp add: Let_def)
  have key: "\<exists>m rt. m \<in> set (xg_members g) \<and> root_of p m = Some rt \<and> key g = Some rt" if g: "g \<in> set groups" for g
  proof -
    from km [OF g] gm(2) [OF g] obtain m ms where m: "known_members srcs (xg_members g) = m # ms"
      by (cases "known_members srcs (xg_members g)") auto
    with km [OF g] have "m \<in> set (xg_members g)" by auto
    moreover from this gm(1) [OF g] p(3) have "m \<in> known p" by auto
    then obtain rt where "rooted p m rt" using together_refl [OF p(2)] unfolding together_def by blast
    then have "root_of p m = Some rt" using root_of_iff [OF p(2) \<open>m \<in> known p\<close>] by simp
    ultimately show ?thesis using m by (auto simp: key_def)
  qed
  have raws: "(rt, gs) \<in> set raw \<longleftrightarrow> gs = filter (\<lambda>g. key g = Some rt) groups \<and> gs \<noteq> []" for rt gs
    unfolding raw_def by (rule group_into_item)
  have pick: "\<exists>g \<in> set groups. key g = Some rt" if "(rt, gs) \<in> set raw" for rt gs
    using that unfolding raws by (auto simp: filter_empty_conv)
  have outs: "set out = component p (dkeys srcs) vs ` set raw" if "groups \<noteq> []" using that by (simp add: out_def)
  have empty: "out = []" if "groups = []" using that by (simp add: out_def)
  have comp: "\<exists>g rt. g \<in> set groups \<and> set (xg_members c) = {x \<in> xi_id ` set items. root_of p x = Some rt} \<and>
      set (xg_members g) \<inter> set (xg_members c) \<noteq> {}" if c: "c \<in> set out" for c
  proof -
    have "groups \<noteq> []" using c empty by auto
    with c outs obtain rt gs where r: "(rt, gs) \<in> set raw" "c = component p (dkeys srcs) vs (rt, gs)" by force
    from pick [OF r(1)] obtain g where g: "g \<in> set groups" "key g = Some rt" by blast
    from key [OF g(1)] g(2) obtain m where "m \<in> set (xg_members g)" "root_of p m = Some rt" by auto
    then show ?thesis using g gm(1) [OF g(1)] r(2) component_members ids(2) by fastforce
  qed
  have cover: "\<exists>c \<in> set out. set (xg_members g) \<inter> set (xg_members c) \<noteq> {}" if g: "g \<in> set groups" for g
  proof -
    from key [OF g] obtain m rt where m: "m \<in> set (xg_members g)" "root_of p m = Some rt" "key g = Some rt" by blast
    let ?gs = "filter (\<lambda>g. key g = Some rt) groups"
    have "(rt, ?gs) \<in> set raw" unfolding raws using g m by (auto simp: filter_empty_conv)
    then have "component p (dkeys srcs) vs (rt, ?gs) \<in> set out" using outs g by force
    moreover have "m \<in> set (xg_members (component p (dkeys srcs) vs (rt, ?gs)))"
      using m gm(1) [OF g] by (auto simp: component_members)
    ultimately show ?thesis using m(1) by blast
  qed
  have raw_ok: "dict_ok raw" unfolding raw_def by (rule dict_ok_group_into) simp
  have inj: "inj_on (\<lambda>r. set (xg_members (component p (dkeys srcs) vs r))) (set raw)"
  proof (rule inj_onI)
    fix r1 r2 assume r: "r1 \<in> set raw" "r2 \<in> set raw"
      and eq: "set (xg_members (component p (dkeys srcs) vs r1)) = set (xg_members (component p (dkeys srcs) vs r2))"
    obtain t1 g1 t2 g2 where rr: "r1 = (t1, g1)" "r2 = (t2, g2)" by (cases r1; cases r2)
    from pick r(1) rr obtain g where g: "g \<in> set groups" "key g = Some t1" by blast
    from key [OF g(1)] g(2) gm(1) [OF g(1)] obtain m where "m \<in> set (dkeys srcs)" "root_of p m = Some t1" by auto
    then have "m \<in> set (xg_members (component p (dkeys srcs) vs r2))"
      unfolding eq [symmetric] by (simp add: rr component_members)
    then have "root_of p m = Some t2" by (simp add: rr component_members)
    with \<open>root_of p m = Some t1\<close> have "t1 = t2" by simp
    with r rr raws show "r1 = r2" by simp
  qed
  have "mset (map (\<lambda>c. set (xg_members c)) out) = mset (if groups = [] then [] else map (\<lambda>r. set (xg_members (component p (dkeys srcs) vs r))) raw)"
    by (simp add: out_def multiset.map_comp comp_def)
  moreover have "distinct (map (\<lambda>r. set (xg_members (component p (dkeys srcs) vs r))) raw)"
    using raw_ok inj by (simp add: distinct_map dict_ok_def)
  ultimately have "distinct (map (\<lambda>c. set (xg_members c)) out)"
    using empty mset_eq_imp_distinct_iff by (cases "groups = []") (simp, fastforce)
  moreover have "sorted (map (\<lambda>g. (cross_source_cluster_id g, xg_members g)) out)" by (simp add: out_def)
  ultimately show ?thesis
    using res p(2,3,4) comp cover ids(2) unfolding lk groups_def by blast
qed

subsection \<open>Properties\<close>

text \<open>
  C38. The components are the connected components. The pass always returns (no lookup fails and the
  union-find loops end); on an enabled configuration the members of each reported component are exactly
  the known cases reachable from any one of them through eligible entity groups and valid persisted
  seeds, different components share no case, and the cases of every eligible group are in some component.
\<close>

theorem cross_source_components:
  assumes "xc_enabled cfg" "items \<noteq> []"
  shows "\<exists>out. cross_source_correlate digest items cfg seeds = Some out \<and>
    (\<forall>c \<in> set out. \<forall>a \<in> set (xg_members c).
       set (xg_members c) = {b. (a, b) \<in> (linked (component_links digest items cfg seeds))\<^sup>*}) \<and>
    (\<forall>c \<in> set out. \<forall>d \<in> set out. c \<noteq> d \<longrightarrow> set (xg_members c) \<inter> set (xg_members d) = {}) \<and>
    (\<forall>g \<in> set (eligible_groups digest (max 1 (xc_time_window_seconds cfg)) (max 2 (xc_min_sources cfg)) items).
       \<exists>c \<in> set out. set (xg_members g) \<subseteq> set (xg_members c))"
proof -
  let ?L = "linked (component_links digest items cfg seeds)"
  let ?E = "eligible_groups digest (max 1 (xc_time_window_seconds cfg)) (max 2 (xc_min_sources cfg)) items"
  obtain out p where out: "cross_source_correlate digest items cfg seeds = Some out"
    and tg: "\<forall>a \<in> xi_id ` set items. \<forall>b. together p a b \<longleftrightarrow> (a, b) \<in> ?L\<^sup>*"
    and ok: "uf_ok p" "known p = xi_id ` set items"
    and cs: "\<forall>c \<in> set out. \<exists>g rt. g \<in> set ?E \<and> set (xg_members c) = {x \<in> xi_id ` set items. root_of p x = Some rt} \<and>
        set (xg_members g) \<inter> set (xg_members c) \<noteq> {}"
    and cover: "\<forall>g \<in> set ?E. \<exists>c \<in> set out. set (xg_members g) \<inter> set (xg_members c) \<noteq> {}"
    and dist: "distinct (map (\<lambda>c. set (xg_members c)) out)"
    using cross_source_result [OF assms, of digest seeds] by blast
  have cls: "set (xg_members c) = {b. (a, b) \<in> ?L\<^sup>*}" if c: "c \<in> set out" and a: "a \<in> set (xg_members c)" for c a
  proof -
    from cs c obtain rt where m: "set (xg_members c) = {x \<in> xi_id ` set items. root_of p x = Some rt}" by blast
    with a ok(2) have ak: "a \<in> known p" "root_of p a = Some rt" by auto
    have "root_of p b = Some rt \<longleftrightarrow> (a, b) \<in> ?L\<^sup>*" for b
      using root_of_together [OF ok(1) ak] tg ak(1) ok(2) by blast
    moreover have "b \<in> known p" if "root_of p b = Some rt" for b using that root_of_None by force
    ultimately show ?thesis using m ok(2) by auto
  qed
  have "set (xg_members c) \<inter> set (xg_members d) = {}" if "c \<in> set out" "d \<in> set out" "c \<noteq> d" for c d
  proof (rule ccontr)
    assume "set (xg_members c) \<inter> set (xg_members d) \<noteq> {}"
    then obtain a where "a \<in> set (xg_members c)" "a \<in> set (xg_members d)" by blast
    then have "set (xg_members c) = set (xg_members d)" using cls that by metis
    then show False using dist that by (auto simp: distinct_map inj_on_def)
  qed
  moreover have "\<exists>c \<in> set out. set (xg_members g) \<subseteq> set (xg_members c)" if g: "g \<in> set ?E" for g
  proof -
    from cover g obtain c a where c: "c \<in> set out" "a \<in> set (xg_members g)" "a \<in> set (xg_members c)" by blast
    have "(a, b) \<in> ?L\<^sup>*" if "b \<in> set (xg_members g)" for b
      using that g c(2) by (intro r_into_rtrancl) (auto simp: linked_def component_links_def)
    then show ?thesis using cls [OF c(1,3)] c(1) by auto
  qed
  ultimately show ?thesis using out cls by blast
qed

definition sample_items :: "cross_source_item list" where
  "sample_items = [\<lparr>xi_id = ''c1'', xi_source_id = ''s1'', xi_ts = 5, xi_entities = [(IP, ''10.0.0.1'')]\<rparr>,
     \<lparr>xi_id = ''c2'', xi_source_id = ''s2'', xi_ts = 9, xi_entities = [(IP, ''10.0.0.1'')]\<rparr>]"

definition sample_config :: cross_source_config where
  "sample_config = \<lparr>xc_enabled = True, xc_time_window_seconds = 300, xc_min_sources = 2, xc_entity_keys = [''ip'']\<rparr>"

lemma sample_eligible:
  "map xg_members (eligible_groups id 300 2 sample_items) = [[''c1'', ''c2'']]"
  by (simp add: eligible_groups_def sample_items_def buckets_of_def bucket_of_def put_entity_def Let_def dset_def dget_def
      add_once_def group_of_slot_def)

theorem cross_source_components_witness:
  "\<exists>out c. cross_source_correlate id sample_items sample_config [] = Some out \<and> c \<in> set out \<and>
     {''c1'', ''c2''} \<subseteq> set (xg_members c)"
proof -
  obtain g where "eligible_groups id 300 2 sample_items = [g]" "xg_members g = [''c1'', ''c2'']"
    using sample_eligible by (auto simp: map_eq_Cons_conv)
  moreover have "max 1 (xc_time_window_seconds sample_config) = 300" "max 2 (xc_min_sources sample_config) = 2"
    by (simp_all add: sample_config_def)
  ultimately have "g \<in> set (eligible_groups id (max 1 (xc_time_window_seconds sample_config)) (max 2 (xc_min_sources sample_config)) sample_items)"
    "set (xg_members g) = {''c1'', ''c2''}" by simp_all
  moreover have "xc_enabled sample_config" "sample_items \<noteq> []" by (simp_all add: sample_config_def sample_items_def)
  ultimately show ?thesis using cross_source_components [of sample_config sample_items id "[]"] by metis
qed

text \<open>
  A single source never links to itself. Every reported component contains all cases that expose some
  one entity in some one time bucket, and those alone come from at least \<open>min_sources\<close> (never fewer than
  two) different sources; all its members are among the cases the pass was given.
\<close>

theorem cross_source_floor:
  assumes "cross_source_correlate digest items cfg seeds = Some out" "c \<in> set out"
  shows "\<exists>key. xi_id ` {i \<in> set items. exposes (max 1 (xc_time_window_seconds cfg) * 1000) key i} \<subseteq> set (xg_members c) \<and>
    max 2 (xc_min_sources cfg) \<le>
      int (card (xi_source_id ` {i \<in> set items. exposes (max 1 (xc_time_window_seconds cfg) * 1000) key i})) \<and>
    set (xg_members c) \<subseteq> xi_id ` set items"
proof -
  have en: "xc_enabled cfg" "items \<noteq> []" using assms by (auto simp: cross_source_correlate_def split: if_splits)
  let ?L = "linked (component_links digest items cfg seeds)"
  let ?E = "eligible_groups digest (max 1 (xc_time_window_seconds cfg)) (max 2 (xc_min_sources cfg)) items"
  obtain p where tg: "\<forall>a \<in> xi_id ` set items. \<forall>b. together p a b \<longleftrightarrow> (a, b) \<in> ?L\<^sup>*"
    and ok: "uf_ok p" "known p = xi_id ` set items"
    and cs: "\<forall>c \<in> set out. \<exists>g rt. g \<in> set ?E \<and> set (xg_members c) = {x \<in> xi_id ` set items. root_of p x = Some rt} \<and>
        set (xg_members g) \<inter> set (xg_members c) \<noteq> {}"
    using cross_source_result [OF en, of digest seeds] assms(1) by auto
  from cs assms(2) obtain g rt a where g: "g \<in> set ?E" and m: "set (xg_members c) = {x \<in> xi_id ` set items. root_of p x = Some rt}"
    and a: "a \<in> set (xg_members g)" "a \<in> set (xg_members c)" by blast
  from g obtain key where key: "set (xg_members g) = xi_id ` {i \<in> set items. exposes (max 1 (xc_time_window_seconds cfg) * 1000) key i}"
    "max 2 (xc_min_sources cfg) \<le> int (card (xi_source_id ` {i \<in> set items. exposes (max 1 (xc_time_window_seconds cfg) * 1000) key i}))"
    by (rule eligible_group)
  have "b \<in> set (xg_members c)" if b: "b \<in> set (xg_members g)" for b
  proof -
    have "(a, b) \<in> ?L\<^sup>*" using b g a(1) by (intro r_into_rtrancl) (auto simp: linked_def component_links_def)
    then have "together p a b" using tg a(2) m by auto
    moreover have "root_of p a = Some rt" "a \<in> known p" using a(2) m ok(2) by auto
    ultimately have "root_of p b = Some rt" using root_of_together [OF ok(1)] by blast
    then show ?thesis using m b key(1) by auto
  qed
  then show ?thesis using key m by (intro exI [of _ key]) auto
qed

theorem cross_source_floor_witness:
  "\<exists>out. cross_source_correlate id sample_items sample_config [] = Some out \<and>
     (\<forall>c \<in> set out. set (xg_members c) \<subseteq> {''c1'', ''c2''})"
proof -
  obtain out where out: "cross_source_correlate id sample_items sample_config [] = Some out"
    using cross_source_result [of sample_config sample_items id "[]"] by (auto simp: sample_config_def sample_items_def)
  have "set (xg_members c) \<subseteq> xi_id ` set sample_items" if "c \<in> set out" for c
    using cross_source_floor [OF out that] by blast
  then show ?thesis using out by (auto simp: sample_items_def)
qed

end
