(* ===== verification/Rbac.thy ===== *)
theory Rbac
  imports Py_Json
begin

section \<open>Role-based access control\<close>

text \<open>
  \<^verbatim>\<open>rbac/policy.py\<close>: the permission vocabulary and default matrix, the layering of operator overrides,
  additive resources, custom roles with cycle-guarded inheritance and denies into the effective matrix,
  and the authorisation questions \<open>can\<close>, \<open>can_for_roles\<close> and \<open>can_object\<close>. Operator configuration is an
  arbitrary document: every shape check of the code is a case of the model.
\<close>

subsection \<open>Vocabulary and default grants\<close>

type_synonym grants = "(string, string list) dict"
type_synonym matrix = "(string, grants) dict"

definition RESOURCES :: grants where
  "RESOURCES =
    [(''cases'', [''read'', ''write'', ''close'', ''assign'', ''comment'', ''reinvestigate'']),
     (''sources'', [''read'', ''manage'']),
     (''settings'', [''read'', ''manage'']),
     (''users'', [''manage'']),
     (''proposals'', [''read'', ''approve'']),
     (''playbooks'', [''read'', ''run'', ''manage'']),
     (''runbooks'', [''read'', ''manage'']),
     (''rag'', [''read'', ''manage'']),
     (''memory'', [''read'', ''manage'']),
     (''cost'', [''view'']),
     (''audit'', [''view'']),
     (''metrics'', [''view'']),
     (''data_export'', [''export'']),
     (''system_updates'', [''read'', ''apply'', ''rollback'']),
     (''notifications'', [''read'', ''manage'']),
     (''branding'', [''read'', ''manage'']),
     (''sessions'', [''read'', ''manage'']),
     (''demo'', [''read'', ''manage'']),
     (''terminology'', [''read'', ''manage'']),
     (''automation'', [''read'', ''manage'']),
     (''roles'', [''read'', ''manage'']),
     (''models'', [''read'', ''manage'']),
     (''enrichment'', [''read'', ''manage'']),
     (''inapp'', [''read'', ''manage'']),
     (''rules'', [''read'', ''manage''])]"

definition ALL_ACTIONS :: string where
  "ALL_ACTIONS = ''*''"

definition SETTINGS_SPLIT :: "string list" where
  "SETTINGS_SPLIT = [''notifications'', ''branding'', ''sessions'', ''demo'', ''terminology'', ''automation'', ''roles'', ''models'', ''enrichment'', ''inapp'', ''rules'']"

definition settings_like :: "string list \<Rightarrow> grants" where
  "settings_like settings_actions =
     (if ALL_ACTIONS \<in> set settings_actions then map (\<lambda>res. (res, [ALL_ACTIONS])) SETTINGS_SPLIT
      else if ''read'' \<in> set settings_actions then map (\<lambda>res. (res, [''read''])) SETTINGS_SPLIT
      else [])"

definition SUPER_ADMIN_ROW :: grants where
  "SUPER_ADMIN_ROW = map (\<lambda>(res, _). (res, [ALL_ACTIONS])) RESOURCES"

definition SOC_MANAGER_ROW :: grants where
  "SOC_MANAGER_ROW =
    [(''cases'', [''*'']),
     (''sources'', [''*'']),
     (''settings'', [''*'']),
     (''users'', [''manage'']),
     (''proposals'', [''*'']),
     (''playbooks'', [''*'']),
     (''runbooks'', [''*'']),
     (''rag'', [''*'']),
     (''memory'', [''*'']),
     (''cost'', [''view'']),
     (''audit'', [''view'']),
     (''metrics'', [''view'']),
     (''data_export'', [''export'']),
     (''system_updates'', [''read''])] @ settings_like [ALL_ACTIONS]"

definition ANALYST_TIER2_ROW :: grants where
  "ANALYST_TIER2_ROW =
    [(''cases'', [''read'', ''write'', ''close'', ''assign'', ''comment'', ''reinvestigate'']),
     (''sources'', [''read'']),
     (''settings'', [''read'']),
     (''proposals'', [''read'']),
     (''playbooks'', [''read'', ''run'']),
     (''runbooks'', [''read'']),
     (''rag'', [''read'']),
     (''memory'', [''read'']),
     (''cost'', [''view'']),
     (''metrics'', [''view''])] @ settings_like [''read'']"

definition ANALYST_TIER1_ROW :: grants where
  "ANALYST_TIER1_ROW =
    [(''cases'', [''read'', ''write'', ''comment'', ''assign'']),
     (''sources'', [''read'']),
     (''settings'', [''read'']),
     (''proposals'', [''read'']),
     (''playbooks'', [''read'']),
     (''runbooks'', [''read'']),
     (''rag'', [''read'']),
     (''memory'', [''read'']),
     (''cost'', [''view'']),
     (''metrics'', [''view''])] @ settings_like [''read'']"

definition RESPONDER_ROW :: grants where
  "RESPONDER_ROW =
    [(''cases'', [''read'', ''write'', ''comment'', ''assign'']),
     (''sources'', [''read'']),
     (''settings'', [''read'']),
     (''proposals'', [''read'', ''approve'']),
     (''playbooks'', [''read'', ''run'']),
     (''runbooks'', [''read'']),
     (''rag'', [''read'']),
     (''memory'', [''read'']),
     (''cost'', [''view'']),
     (''metrics'', [''view''])] @ settings_like [''read'']"

definition AUDITOR_ROW :: grants where
  "AUDITOR_ROW =
    [(''cases'', [''read'']),
     (''sources'', [''read'']),
     (''settings'', [''read'']),
     (''proposals'', [''read'']),
     (''playbooks'', [''read'']),
     (''runbooks'', [''read'']),
     (''rag'', [''read'']),
     (''memory'', [''read'']),
     (''cost'', [''view'']),
     (''audit'', [''view'']),
     (''metrics'', [''view''])] @ settings_like [''read'']"

definition SUPER_ADMIN :: string where "SUPER_ADMIN = ''super_admin''"

definition DEFAULT_MATRIX :: matrix where
  "DEFAULT_MATRIX = [(SUPER_ADMIN, SUPER_ADMIN_ROW), (''soc_manager'', SOC_MANAGER_ROW),
     (''analyst_tier2'', ANALYST_TIER2_ROW), (''analyst_tier1'', ANALYST_TIER1_ROW),
     (''responder'', RESPONDER_ROW), (''auditor'', AUDITOR_ROW)]"

definition BASE_ROLE_NAMES :: "string list" where
  "BASE_ROLE_NAMES = [''super_admin'', ''soc_manager'', ''analyst_tier2'', ''analyst_tier1'', ''responder'', ''auditor'']"

subsection \<open>Layers\<close>

definition clean_actions :: "(json \<Rightarrow> string) \<Rightarrow> string \<Rightarrow> json \<Rightarrow> string list option" where
  "clean_actions shw res acts =
     (case (dget RESOURCES res, acts) of
        (Some known, JList xs) \<Rightarrow>
          Some (filter (\<lambda>a. a \<in> set known \<or> a = ALL_ACTIONS) (map (py_str shw) xs))
      | _ \<Rightarrow> None)"

definition union_actions :: "string list \<Rightarrow> string list \<Rightarrow> string list" where
  "union_actions existing cleaned = foldl (\<lambda>m a. if a \<in> set m then m else m @ [a]) existing cleaned"

definition merge_entry :: "(json \<Rightarrow> string) \<Rightarrow> bool \<Rightarrow> grants \<Rightarrow> string \<times> json \<Rightarrow> grants" where
  "merge_entry shw adding bucket = (\<lambda>(res, acts).
     case clean_actions shw res acts of
       None \<Rightarrow> bucket
     | Some cleaned \<Rightarrow>
         if adding then
           dset bucket res (union_actions (case dget bucket res of Some e \<Rightarrow> e | None \<Rightarrow> []) cleaned)
         else dset bucket res cleaned)"

definition merge_grants :: "(json \<Rightarrow> string) \<Rightarrow> bool \<Rightarrow> grants \<Rightarrow> json \<Rightarrow> grants" where
  "merge_grants shw adding bucket g =
     (case g of JDict entries \<Rightarrow> foldl (merge_entry shw adding) bucket entries | _ \<Rightarrow> bucket)"

definition deny_entry :: "(json \<Rightarrow> string) \<Rightarrow> grants \<Rightarrow> string \<times> json \<Rightarrow> grants" where
  "deny_entry shw bucket = (\<lambda>(res, acts).
     case (dget RESOURCES res, acts) of
       (Some known, JList xs) \<Rightarrow>
         (let deny_set = set (map (py_str shw) xs)
          in case dget bucket res of
               None \<Rightarrow> bucket
             | Some current \<Rightarrow>
                 if ALL_ACTIONS \<in> deny_set then dset bucket res []
                 else
                   let current = (if ALL_ACTIONS \<in> set current then known else current)
                   in dset bucket res (filter (\<lambda>a. a \<notin> deny_set) current))
     | _ \<Rightarrow> bucket)"

definition apply_denies :: "(json \<Rightarrow> string) \<Rightarrow> grants \<Rightarrow> json \<Rightarrow> grants" where
  "apply_denies shw bucket denies =
     (case denies of JDict entries \<Rightarrow> foldl (deny_entry shw) bucket entries | _ \<Rightarrow> bucket)"

definition as_str_list :: "(json \<Rightarrow> string) \<Rightarrow> json \<Rightarrow> string list" where
  "as_str_list shw v = (case v of JList xs \<Rightarrow> map (py_str shw) xs | _ \<Rightarrow> [])"

text \<open>A row of the matrix as the document the merge reads.\<close>

definition row_json :: "grants \<Rightarrow> json" where
  "row_json row = JDict (map (\<lambda>(res, acts). (res, JList (map JStr acts))) row)"

type_synonym role_specs = "(string, (string \<times> json) list) dict"

function resolve_custom_role ::
  "(json \<Rightarrow> string) \<Rightarrow> role_specs \<Rightarrow> matrix \<Rightarrow> string list \<Rightarrow> string \<Rightarrow> grants" where
  "resolve_custom_role shw by_name base stack name =
     (if name \<in> set stack then []
      else
        let spec = (case dget by_name name of Some s \<Rightarrow> s | None \<Rightarrow> []);
            parents = map (\<lambda>parent.
              case dget base parent of
                Some row \<Rightarrow> Some row
              | None \<Rightarrow>
                  if parent \<in> set (dkeys by_name)
                  then Some (resolve_custom_role shw by_name base (stack @ [name]) parent) else None)
              (as_str_list shw (jget spec ''inherits''));
            bucket = foldl (\<lambda>b r. case r of None \<Rightarrow> b | Some row \<Rightarrow> merge_grants shw True b (row_json row)) [] parents
        in apply_denies shw (merge_grants shw True bucket (jget spec ''grants'')) (jget spec ''denies''))"
  by pat_completeness auto
termination
proof (relation "measure (\<lambda>(shw, by_name, base, stack, name). card (insert name (set (dkeys by_name)) - set stack))")
  fix shw :: "json \<Rightarrow> string" and by_name :: role_specs and base :: matrix and stack :: "string list" and name parent :: string
  assume n: "name \<notin> set stack" and p: "parent \<in> set (dkeys by_name)"
  have "insert parent (set (dkeys by_name)) - set (stack @ [name]) \<subset> insert name (set (dkeys by_name)) - set stack"
    using n p by auto
  then have "card (insert parent (set (dkeys by_name)) - set (stack @ [name])) < card (insert name (set (dkeys by_name)) - set stack)"
    by (intro psubset_card_mono) auto
  then show "((shw, by_name, base, stack @ [name], parent), shw, by_name, base, stack, name)
     \<in> measure (\<lambda>(shw, by_name, base, stack, name). card (insert name (set (dkeys by_name)) - set stack))" by simp
qed simp

declare resolve_custom_role.simps [simp del]

definition add_custom_spec :: "(json \<Rightarrow> string) \<Rightarrow> role_specs \<Rightarrow> json \<Rightarrow> role_specs" where
  "add_custom_spec shw out cr =
     (case cr of
        JDict spec \<Rightarrow>
          (let v = jget spec ''name''; nm = py_strip (if truthy v then py_str shw v else [])
           in if nm = [] \<or> nm \<in> set BASE_ROLE_NAMES then out else dset out nm spec)
      | _ \<Rightarrow> out)"

definition custom_roles_by_name :: "(json \<Rightarrow> string) \<Rightarrow> json \<Rightarrow> role_specs" where
  "custom_roles_by_name shw custom_roles =
     (case custom_roles of JList xs \<Rightarrow> foldl (add_custom_spec shw) [] xs | _ \<Rightarrow> [])"

record rbac_config =
  rc_roles :: json
  rc_resources :: json
  rc_custom_roles :: json
  rc_denies :: json
  rc_object_scoping_enabled :: json
  rc_object_scope :: json

definition no_config :: rbac_config where
  "no_config = \<lparr>rc_roles = JNull, rc_resources = JNull, rc_custom_roles = JNull, rc_denies = JNull,
     rc_object_scoping_enabled = JNull, rc_object_scope = JNull\<rparr>"

definition dict_items :: "json \<Rightarrow> (string \<times> json) list" where
  "dict_items v = (case v of JDict d \<Rightarrow> d | _ \<Rightarrow> [])"

definition merge_role :: "(json \<Rightarrow> string) \<Rightarrow> bool \<Rightarrow> matrix \<Rightarrow> string \<times> json \<Rightarrow> matrix" where
  "merge_role shw adding merged = (\<lambda>(role, res_map).
     dset merged role (merge_grants shw adding (case dget merged role of Some b \<Rightarrow> b | None \<Rightarrow> []) res_map))"

definition deny_role :: "(json \<Rightarrow> string) \<Rightarrow> matrix \<Rightarrow> string \<times> json \<Rightarrow> matrix" where
  "deny_role shw merged = (\<lambda>(role, deny_map).
     if role = SUPER_ADMIN then merged
     else case dget merged role of
            None \<Rightarrow> merged
          | Some bucket \<Rightarrow> dset merged role (apply_denies shw bucket deny_map))"

definition layered_base :: "(json \<Rightarrow> string) \<Rightarrow> rbac_config \<Rightarrow> matrix" where
  "layered_base shw cfg =
     foldl (merge_role shw True)
       (foldl (merge_role shw False) DEFAULT_MATRIX (dict_items (rc_roles cfg)))
       (dict_items (rc_resources cfg))"

definition with_custom_roles :: "(json \<Rightarrow> string) \<Rightarrow> rbac_config \<Rightarrow> matrix" where
  "with_custom_roles shw cfg =
     (let base = layered_base shw cfg; by_name = custom_roles_by_name shw (rc_custom_roles cfg)
      in foldl (\<lambda>m nm. dset m nm (resolve_custom_role shw by_name base [] nm)) base (dkeys by_name))"

definition effective_matrix :: "(json \<Rightarrow> string) \<Rightarrow> rbac_config \<Rightarrow> matrix" where
  "effective_matrix shw cfg =
     dset (foldl (deny_role shw) (with_custom_roles shw cfg) (dict_items (rc_denies cfg))) SUPER_ADMIN SUPER_ADMIN_ROW"

subsection \<open>Questions\<close>

definition row_allows :: "grants \<Rightarrow> string \<Rightarrow> string \<Rightarrow> bool" where
  "row_allows row res action =
     (case dget row res of None \<Rightarrow> False | Some acts \<Rightarrow> ALL_ACTIONS \<in> set acts \<or> action \<in> set acts)"

definition can_in :: "matrix \<Rightarrow> string \<Rightarrow> string \<Rightarrow> string \<Rightarrow> bool" where
  "can_in table role res action =
     (if role = SUPER_ADMIN then True
      else case dget table role of None \<Rightarrow> False | Some row \<Rightarrow> row_allows row res action)"

definition can :: "(json \<Rightarrow> string) \<Rightarrow> rbac_config \<Rightarrow> string \<Rightarrow> string \<Rightarrow> string \<Rightarrow> bool" where
  "can shw cfg role res action = can_in (effective_matrix shw cfg) role res action"

definition assigned_names :: "matrix \<Rightarrow> string list \<Rightarrow> string list" where
  "assigned_names table custom =
     foldl (\<lambda>ns nm. let nm_s = py_strip nm
                    in if nm_s = [] \<or> nm_s \<in> set BASE_ROLE_NAMES \<or> dget table nm_s = None then ns
                       else if nm_s \<in> set ns then ns else ns @ [nm_s]) [] custom"

definition can_for_roles ::
  "(json \<Rightarrow> string) \<Rightarrow> rbac_config \<Rightarrow> string \<Rightarrow> string list \<Rightarrow> string \<Rightarrow> string \<Rightarrow> bool" where
  "can_for_roles shw cfg base_role custom res action =
     (if base_role = SUPER_ADMIN then True
      else
        let table = effective_matrix shw cfg; ns = assigned_names table custom
        in if ns = [] then can_in table base_role res action
           else list_ex (\<lambda>role. case dget table role of None \<Rightarrow> False | Some row \<Rightarrow> row_allows row res action)
                  (base_role # ns))"

subsection \<open>Object scope\<close>

text \<open>\<^verbatim>\<open>a or b\<close> on values; conditions answer \<open>None\<close> where the code would raise.\<close>

definition jor :: "json \<Rightarrow> json \<Rightarrow> json" where
  "jor a b = (if truthy a then a else b)"

type_synonym doc = "(string \<times> json) list"

definition cond_owner :: "(json \<Rightarrow> string) \<Rightarrow> doc \<Rightarrow> doc \<Rightarrow> doc \<Rightarrow> bool option" where
  "cond_owner shw user obj ctx =
     (let uname = jget user ''username''
      in if \<not> truthy uname then Some False
         else
           let own = jor (jor (jget obj ''owner'') (jget obj ''created_by'')) (jget obj ''author'')
           in Some (truthy own \<and> py_str shw own = py_str shw uname))"

definition cond_assignee :: "(json \<Rightarrow> string) \<Rightarrow> doc \<Rightarrow> doc \<Rightarrow> doc \<Rightarrow> bool option" where
  "cond_assignee shw user obj ctx =
     (let uname = jget user ''username''
      in if \<not> truthy uname then Some False
         else
           let asg = jor (jget obj ''assignee'') (jget obj ''assigned_to'')
           in Some (truthy asg \<and> py_str shw asg = py_str shw uname))"

definition cond_source_scope :: "(json \<Rightarrow> string) \<Rightarrow> doc \<Rightarrow> doc \<Rightarrow> doc \<Rightarrow> bool option" where
  "cond_source_scope shw user obj ctx =
     (let scope = jor (jor (jget user ''source_scope'') (jget user ''sources'')) (jget ctx ''source_scope'')
      in if \<not> truthy scope then Some True
         else
           let src = jor (jor (jget obj ''source_id'') (jget obj ''source'')) (jget obj ''tenant'')
           in if src = JNull then Some False
              else map_option (\<lambda>xs. py_str shw src \<in> set (map (py_str shw) xs)) (iter_rows scope))"

definition cond_tenant_scope :: "(json \<Rightarrow> string) \<Rightarrow> doc \<Rightarrow> doc \<Rightarrow> doc \<Rightarrow> bool option" where
  "cond_tenant_scope shw user obj ctx =
     (let user_tenant = jor (jget user ''tenant'') (jget ctx ''tenant'')
      in if \<not> truthy user_tenant then Some True
         else
           let obj_tenant = jor (jget obj ''tenant'') (jget obj ''tenant_id'')
           in Some (obj_tenant \<noteq> JNull \<and> py_str shw obj_tenant = py_str shw user_tenant))"

definition cond_severity_at_most :: "(string \<Rightarrow> real option) \<Rightarrow> doc \<Rightarrow> doc \<Rightarrow> doc \<Rightarrow> bool option" where
  "cond_severity_at_most fl user obj ctx =
     (if jget ctx ''max_severity'' = JNull then Some True
      else case (py_float fl (jget obj ''severity''), py_float fl (jget ctx ''max_severity'')) of
             (Some sev, Some top_sev) \<Rightarrow> Some (sev \<le> top_sev)
           | _ \<Rightarrow> Some True)"

definition cond_time_window :: "(json \<Rightarrow> string) \<Rightarrow> doc \<Rightarrow> doc \<Rightarrow> doc \<Rightarrow> bool option" where
  "cond_time_window shw user obj ctx =
     (let after = jget ctx ''after''; before = jget ctx ''before''
      in if \<not> truthy after \<and> \<not> truthy before then Some True
         else
           let ts = jor (jor (jget obj ''created_at'') (jget obj ''ts'')) (jget obj ''timestamp'')
           in if \<not> truthy ts then Some True
              else if truthy after \<and> py_str shw ts < py_str shw after then Some False
              else if truthy before \<and> py_str shw before < py_str shw ts then Some False
              else Some True)"

definition object_condition ::
  "(json \<Rightarrow> string) \<Rightarrow> (string \<Rightarrow> real option) \<Rightarrow> string \<Rightarrow> (doc \<Rightarrow> doc \<Rightarrow> doc \<Rightarrow> bool option) option" where
  "object_condition shw fl name =
     dget [(''owner'', cond_owner shw), (''assignee'', cond_assignee shw), (''source_scope'', cond_source_scope shw),
           (''tenant_scope'', cond_tenant_scope shw), (''severity_at_most'', cond_severity_at_most fl),
           (''time_window'', cond_time_window shw)] name"

definition object_scope_conditions ::
  "(json \<Rightarrow> string) \<Rightarrow> rbac_config \<Rightarrow> string \<Rightarrow> string \<Rightarrow> string \<Rightarrow> string list" where
  "object_scope_conditions shw cfg role res action =
     (case rc_object_scope cfg of
        JDict scope_map \<Rightarrow>
          (case jget scope_map role of
             JDict role_map \<Rightarrow>
               (case jget role_map (res @ '':'' @ action) of
                  JList xs \<Rightarrow> map (py_str shw) xs
                | _ \<Rightarrow> (case jget role_map res of JList xs \<Rightarrow> map (py_str shw) xs | _ \<Rightarrow> []))
           | _ \<Rightarrow> [])
      | _ \<Rightarrow> [])"

fun all_conditions ::
  "(json \<Rightarrow> string) \<Rightarrow> (string \<Rightarrow> real option) \<Rightarrow> string list \<Rightarrow> doc \<Rightarrow> doc \<Rightarrow> doc \<Rightarrow> bool option" where
  "all_conditions shw fl [] user obj ctx = Some True"
| "all_conditions shw fl (name # rest) user obj ctx =
     (case object_condition shw fl name of
        None \<Rightarrow> Some False
      | Some f \<Rightarrow>
          (case f user obj ctx of
             None \<Rightarrow> None
           | Some ok \<Rightarrow> if \<not> ok then Some False else all_conditions shw fl rest user obj ctx))"

definition can_object ::
  "(json \<Rightarrow> string) \<Rightarrow> (string \<Rightarrow> real option) \<Rightarrow> rbac_config \<Rightarrow> doc \<Rightarrow> string \<Rightarrow> string \<Rightarrow> doc \<Rightarrow> doc \<Rightarrow> bool option" where
  "can_object shw fl cfg user res action obj ctx =
     (let role = py_str shw (jor (jget user ''role'') (JStr []))
      in if \<not> can shw cfg role res action then Some False
         else if role = SUPER_ADMIN then Some True
         else if \<not> truthy (rc_object_scoping_enabled cfg) then Some True
         else
           let conditions = object_scope_conditions shw cfg role res action
           in if conditions = [] then Some True else all_conditions shw fl conditions user obj ctx)"

subsection \<open>Rows within the vocabulary\<close>

definition row_ok :: "grants \<Rightarrow> bool" where
  "row_ok row \<longleftrightarrow> dict_ok row \<and>
     (\<forall>res acts. dget row res = Some acts \<longrightarrow>
        (\<exists>known. dget RESOURCES res = Some known \<and> set acts \<subseteq> insert ALL_ACTIONS (set known)))"

definition matrix_ok :: "matrix \<Rightarrow> bool" where
  "matrix_ok m \<longleftrightarrow> dict_ok m \<and> (\<forall>role row. dget m role = Some row \<longrightarrow> row_ok row)"

text \<open>The same as a computation, to check the tables.\<close>

definition row_check :: "grants \<Rightarrow> bool" where
  "row_check row = (distinct (map fst row) \<and>
     list_all (\<lambda>(res, acts). case dget RESOURCES res of None \<Rightarrow> False
       | Some known \<Rightarrow> list_all (\<lambda>a. a = ALL_ACTIONS \<or> a \<in> set known) acts) row)"

lemma row_check_ok:
  assumes "row_check row"
  shows "row_ok row"
proof -
  have "\<exists>known. dget RESOURCES res = Some known \<and> set acts \<subseteq> insert ALL_ACTIONS (set known)"
    if "dget row res = Some acts" for res acts
  proof -
    have "(res, acts) \<in> set row" using dget_Some_in [OF that] .
    with assms show ?thesis unfolding row_check_def list_all_iff by (cases "dget RESOURCES res") (auto 0 3)
  qed
  with assms show ?thesis by (simp add: row_ok_def row_check_def dict_ok_def)
qed

lemma row_ok_get:
  "row_ok b \<Longrightarrow> dget b res = Some acts \<Longrightarrow> dget RESOURCES res = Some known \<Longrightarrow> set acts \<subseteq> insert ALL_ACTIONS (set known)"
  by (force simp: row_ok_def)

lemma row_ok_Nil [simp]: "row_ok []"
  by (simp add: row_ok_def)

lemma DEFAULT_MATRIX_ok: "matrix_ok DEFAULT_MATRIX"
proof -
  have "row_check SUPER_ADMIN_ROW" "row_check SOC_MANAGER_ROW" "row_check ANALYST_TIER2_ROW"
    "row_check ANALYST_TIER1_ROW" "row_check RESPONDER_ROW" "row_check AUDITOR_ROW"
    by code_simp+
  then have "row_ok row" if "(role, row) \<in> set DEFAULT_MATRIX" for role row
    using that by (auto simp: DEFAULT_MATRIX_def intro: row_check_ok)
  moreover have "dict_ok DEFAULT_MATRIX" by (simp add: dict_ok_def DEFAULT_MATRIX_def SUPER_ADMIN_def)
  ultimately show ?thesis using dget_Some_in by (fastforce simp: matrix_ok_def)
qed

lemma RESOURCES_no_wildcard: "dget RESOURCES res = Some known \<Longrightarrow> ALL_ACTIONS \<notin> set known"
proof -
  have "list_all (\<lambda>(r, acts). ALL_ACTIONS \<notin> set acts) RESOURCES" by code_simp
  then show "dget RESOURCES res = Some known \<Longrightarrow> ALL_ACTIONS \<notin> set known"
    using dget_Some_in [of RESOURCES res known] by (auto simp: list_all_iff)
qed

lemma union_actions_set [simp]: "set (union_actions xs ys) = set xs \<union> set ys"
  unfolding union_actions_def by (induction ys arbitrary: xs) auto

lemma row_ok_dset:
  "row_ok row \<Longrightarrow> dget RESOURCES res = Some known \<Longrightarrow> set acts \<subseteq> insert ALL_ACTIONS (set known) \<Longrightarrow>
     row_ok (dset row res acts)"
  by (auto simp: row_ok_def)

lemma clean_actions_Some:
  "clean_actions shw res acts = Some cleaned \<Longrightarrow>
     \<exists>known. dget RESOURCES res = Some known \<and> set cleaned \<subseteq> insert ALL_ACTIONS (set known)"
  by (auto simp: clean_actions_def split: option.splits json.splits)

lemma merge_entry_ok: "row_ok b \<Longrightarrow> row_ok (merge_entry shw adding b e)"
proof -
  assume b: "row_ok b"
  obtain res acts where e: "e = (res, acts)" by (cases e)
  show ?thesis
  proof (cases "clean_actions shw res acts")
    case None
    then show ?thesis using b by (simp add: merge_entry_def e)
  next
    case (Some cleaned)
    then obtain known where k: "dget RESOURCES res = Some known" "set cleaned \<subseteq> insert ALL_ACTIONS (set known)"
      using clean_actions_Some by blast
    have "set (case dget b res of Some e \<Rightarrow> e | None \<Rightarrow> []) \<subseteq> insert ALL_ACTIONS (set known)"
      using row_ok_get [OF b _ k(1)] by (cases "dget b res") auto
    with k show ?thesis
      by (simp add: merge_entry_def e Some row_ok_dset [OF b k(1)])
  qed
qed

lemma foldl_pres: "P b \<Longrightarrow> (\<And>b x. P b \<Longrightarrow> x \<in> set xs \<Longrightarrow> P (f b x)) \<Longrightarrow> P (foldl f b xs)"
  by (induction xs arbitrary: b) auto

lemma merge_grants_ok: "row_ok b \<Longrightarrow> row_ok (merge_grants shw adding b g)"
  by (auto simp: merge_grants_def merge_entry_ok intro!: foldl_pres [where P = row_ok] split: json.splits)

lemma deny_entry_ok: "row_ok b \<Longrightarrow> row_ok (deny_entry shw b e)"
proof -
  assume b: "row_ok b"
  obtain res acts where e: "e = (res, acts)" by (cases e)
  show ?thesis
    using b row_ok_get [OF b] unfolding deny_entry_def e Let_def
    by (auto split: option.splits json.splits intro!: row_ok_dset) blast+
qed

lemma apply_denies_ok: "row_ok b \<Longrightarrow> row_ok (apply_denies shw b d)"
  by (auto simp: apply_denies_def deny_entry_ok intro!: foldl_pres [where P = row_ok] split: json.splits)

lemma resolve_ok: "row_ok (resolve_custom_role shw by_name base stack name)"
proof (cases "name \<in> set stack")
  case False
  then show ?thesis
    by (subst resolve_custom_role.simps)
      (auto simp: Let_def intro!: apply_denies_ok merge_grants_ok foldl_pres [where P = row_ok] split: option.splits)
qed (simp add: resolve_custom_role.simps)

lemma matrix_ok_dset: "matrix_ok m \<Longrightarrow> row_ok row \<Longrightarrow> matrix_ok (dset m role row)"
  by (auto simp: matrix_ok_def)

lemma matrix_row: "matrix_ok m \<Longrightarrow> row_ok (case dget m role of Some b \<Rightarrow> b | None \<Rightarrow> [])"
  by (auto simp: matrix_ok_def split: option.splits)

lemma layered_base_ok: "matrix_ok (layered_base shw cfg)"
  unfolding layered_base_def
  by (intro foldl_pres [where P = matrix_ok] DEFAULT_MATRIX_ok)
    (auto simp: merge_role_def intro!: matrix_ok_dset merge_grants_ok matrix_row)

lemma with_custom_roles_ok: "matrix_ok (with_custom_roles shw cfg)"
  unfolding with_custom_roles_def Let_def
  by (intro foldl_pres [where P = matrix_ok] layered_base_ok matrix_ok_dset resolve_ok)

lemma SUPER_ADMIN_ROW_ok: "row_ok SUPER_ADMIN_ROW"
  by (rule row_check_ok) code_simp

lemma deny_role_ok: "matrix_ok m \<Longrightarrow> matrix_ok (deny_role shw m e)"
  by (cases e) (auto simp: deny_role_def matrix_ok_def apply_denies_ok split: option.splits)

lemma effective_matrix_ok: "matrix_ok (effective_matrix shw cfg)"
  unfolding effective_matrix_def
  by (intro matrix_ok_dset SUPER_ADMIN_ROW_ok foldl_pres [where P = matrix_ok] with_custom_roles_ok deny_role_ok)

subsection \<open>Denies only remove\<close>

lemma deny_entry_shrinks: "row_allows (deny_entry shw b e) res a \<Longrightarrow> row_allows b res a"
  by (cases e) (auto simp: row_allows_def deny_entry_def Let_def split: option.splits json.splits if_splits)

lemma deny_entry_bites:
  assumes "py_str shw d \<in> {a, ALL_ACTIONS}" "d \<in> set xs" "dget RESOURCES res = Some known"
  shows "\<not> row_allows (deny_entry shw b (res, JList xs)) res a"
proof -
  have "py_str shw d \<in> set (map (py_str shw) xs)" using assms(2) by simp
  with assms(1) have "a \<in> set (map (py_str shw) xs) \<or> ALL_ACTIONS \<in> set (map (py_str shw) xs)" by auto
  then show ?thesis
    using assms(3) RESOURCES_no_wildcard [OF assms(3)]
    unfolding row_allows_def deny_entry_def Let_def
    by (auto split: option.splits simp del: set_map)
qed

lemma apply_denies_bites:
  assumes "(res, JList xs) \<in> set entries" "d \<in> set xs" "py_str shw d \<in> {a, ALL_ACTIONS}" "dget RESOURCES res = Some known"
  shows "\<not> row_allows (apply_denies shw b (JDict entries)) res a"
proof -
  have "\<not> row_allows (foldl (deny_entry shw) b entries) res a" using assms(1)
  proof (induction entries rule: rev_induct)
    case (snoc e es)
    show ?case
    proof (cases "e = (res, JList xs)")
      case True
      then show ?thesis using deny_entry_bites [OF assms(3,2,4)] by simp
    next
      case False
      with snoc have "\<not> row_allows (foldl (deny_entry shw) b es) res a" by auto
      then show ?thesis using deny_entry_shrinks [of shw "foldl (deny_entry shw) b es" e] by auto
    qed
  qed simp
  then show ?thesis by (simp add: apply_denies_def)
qed

lemma apply_denies_shrinks: "row_allows (apply_denies shw b d) res a \<Longrightarrow> row_allows b res a"
proof -
  have "row_allows (foldl (deny_entry shw) b es) res a \<Longrightarrow> row_allows b res a" for es
    by (induction es rule: rev_induct) (auto dest: deny_entry_shrinks)
  then show "row_allows (apply_denies shw b d) res a \<Longrightarrow> row_allows b res a"
    by (auto simp: apply_denies_def split: json.splits)
qed

definition denied_in :: "matrix \<Rightarrow> string \<Rightarrow> string \<Rightarrow> string \<Rightarrow> bool" where
  "denied_in m role res a \<longleftrightarrow> (case dget m role of None \<Rightarrow> True | Some row \<Rightarrow> \<not> row_allows row res a)"

lemma deny_role_keeps: "denied_in m role res a \<Longrightarrow> denied_in (deny_role shw m e) role res a"
  by (cases e) (auto simp: denied_in_def deny_role_def split: option.splits dest: apply_denies_shrinks)

lemma deny_roles_bite:
  assumes "(role, JDict entries) \<in> set items" "role \<noteq> SUPER_ADMIN"
    "(res, JList xs) \<in> set entries" "d \<in> set xs" "py_str shw d \<in> {a, ALL_ACTIONS}" "dget RESOURCES res = Some known"
  shows "denied_in (foldl (deny_role shw) m items) role res a"
  using assms(1)
proof (induction items rule: rev_induct)
  case (snoc e es)
  have "denied_in (deny_role shw m' (role, JDict entries)) role res a" for m'
    using apply_denies_bites [OF assms(3-6)] assms(2) by (auto simp: denied_in_def deny_role_def split: option.splits)
  then show ?case
    using snoc deny_role_keeps [of "foldl (deny_role shw) m es" role res a shw e]
    by (cases "e = (role, JDict entries)") auto
qed simp

subsection \<open>Where a permission of a custom role comes from\<close>

definition doc_allows :: "(json \<Rightarrow> string) \<Rightarrow> json \<Rightarrow> string \<Rightarrow> string \<Rightarrow> bool" where
  "doc_allows shw g res a \<longleftrightarrow>
     (\<exists>acts cleaned. (res, acts) \<in> set (dict_items g) \<and> clean_actions shw res acts = Some cleaned \<and>
        (ALL_ACTIONS \<in> set cleaned \<or> a \<in> set cleaned))"

lemma merge_entry_adds:
  "row_allows (merge_entry shw True b (r, acts)) res a \<Longrightarrow>
     row_allows b res a \<or> r = res \<and> (\<exists>cleaned. clean_actions shw res acts = Some cleaned \<and> (ALL_ACTIONS \<in> set cleaned \<or> a \<in> set cleaned))"
  by (auto simp: merge_entry_def row_allows_def split: option.splits if_splits)

lemma merge_grants_adds:
  "row_allows (merge_grants shw True b g) res a \<Longrightarrow> row_allows b res a \<or> doc_allows shw g res a"
proof -
  have "row_allows (foldl (merge_entry shw True) b es) res a \<Longrightarrow> row_allows b res a \<or> doc_allows shw (JDict es) res a" for es
  proof (induction es rule: rev_induct)
    case (snoc e es)
    obtain r acts where e: "e = (r, acts)" by (cases e)
    from snoc.prems e have "row_allows (foldl (merge_entry shw True) b es) res a \<or>
        r = res \<and> (\<exists>cleaned. clean_actions shw res acts = Some cleaned \<and> (ALL_ACTIONS \<in> set cleaned \<or> a \<in> set cleaned))"
      using merge_entry_adds by simp
    with snoc.IH e show ?case by (auto simp: doc_allows_def dict_items_def)
  qed simp
  then show "row_allows (merge_grants shw True b g) res a \<Longrightarrow> row_allows b res a \<or> doc_allows shw g res a"
    by (auto simp: merge_grants_def split: json.splits)
qed

lemma doc_allows_row: "row_ok row \<Longrightarrow> doc_allows shw (row_json row) res a \<Longrightarrow> row_allows row res a"
proof -
  assume ok: "row_ok row" and d: "doc_allows shw (row_json row) res a"
  then obtain acts cleaned where "(res, acts) \<in> set row" "clean_actions shw res (JList (map JStr acts)) = Some cleaned"
      "ALL_ACTIONS \<in> set cleaned \<or> a \<in> set cleaned"
    by (auto simp: doc_allows_def row_json_def dict_items_def)
  then have "(res, acts) \<in> set row" "ALL_ACTIONS \<in> set acts \<or> a \<in> set acts"
    by (auto simp: clean_actions_def split: option.splits)
  moreover have "dict_ok row" using ok by (simp add: row_ok_def)
  ultimately show "row_allows row res a" by (auto simp: row_allows_def dget_eq_Some [THEN iffD2])
qed

text \<open>A permission is granted to a custom role by its own grants or by a parent it inherits from.\<close>

inductive granted :: "(json \<Rightarrow> string) \<Rightarrow> role_specs \<Rightarrow> matrix \<Rightarrow> string \<Rightarrow> string \<Rightarrow> string \<Rightarrow> bool"
  for shw :: "json \<Rightarrow> string" and by_name :: role_specs and base :: matrix where
  own: "dget by_name nm = Some spec \<Longrightarrow> doc_allows shw (jget spec ''grants'') res a \<Longrightarrow> granted shw by_name base nm res a"
| from_base: "dget by_name nm = Some spec \<Longrightarrow> parent \<in> set (as_str_list shw (jget spec ''inherits'')) \<Longrightarrow>
    dget base parent = Some row \<Longrightarrow> row_allows row res a \<Longrightarrow> granted shw by_name base nm res a"
| from_custom: "dget by_name nm = Some spec \<Longrightarrow> parent \<in> set (as_str_list shw (jget spec ''inherits'')) \<Longrightarrow>
    granted shw by_name base parent res a \<Longrightarrow> granted shw by_name base nm res a"

lemma fold_parents_adds:
  "row_allows (foldl (\<lambda>b r. case r of None \<Rightarrow> b | Some row \<Rightarrow> merge_grants shw True b (row_json row)) b rs) res a \<Longrightarrow>
     row_allows b res a \<or> (\<exists>row. Some row \<in> set rs \<and> doc_allows shw (row_json row) res a)"
  by (induction rs rule: rev_induct) (auto split: option.splits dest!: merge_grants_adds)

lemma jget_Nil [simp]: "jget [] k = JNull"
  by (simp add: jget_def)

lemma no_grants [simp]: "\<not> doc_allows shw JNull res a"
  by (simp add: doc_allows_def dict_items_def)

lemma row_allows_Nil [simp]: "\<not> row_allows [] res a"
  by (simp add: row_allows_def)

lemma resolve_granted:
  assumes "matrix_ok base" "row_allows (resolve_custom_role shw by_name base stack name) res a"
  shows "granted shw by_name base name res a"
  using assms
proof (induction shw by_name base stack name rule: resolve_custom_role.induct [case_names step])
  case (step shw by_name base stack name)
  have notin: "name \<notin> set stack" using step.prems(2) by (auto simp: resolve_custom_role.simps)
  define spec where "spec = (case dget by_name name of Some s \<Rightarrow> s | None \<Rightarrow> [])"
  define parents where "parents = map (\<lambda>parent.
              case dget base parent of
                Some row \<Rightarrow> Some row
              | None \<Rightarrow>
                  if parent \<in> set (dkeys by_name)
                  then Some (resolve_custom_role shw by_name base (stack @ [name]) parent) else None)
              (as_str_list shw (jget spec ''inherits''))"
  from step.prems(2) notin have "row_allows (merge_grants shw True
      (foldl (\<lambda>b r. case r of None \<Rightarrow> b | Some row \<Rightarrow> merge_grants shw True b (row_json row)) [] parents) (jget spec ''grants'')) res a"
    by (subst (asm) resolve_custom_role.simps) (auto simp: Let_def spec_def parents_def dest: apply_denies_shrinks)
  from merge_grants_adds [OF this] consider "doc_allows shw (jget spec ''grants'') res a"
    | row where "Some row \<in> set parents" "doc_allows shw (row_json row) res a"
    by (elim disjE) (use fold_parents_adds [of shw "[]" parents res a] in auto)
  then show ?case
  proof cases
    case 1
    then have "dget by_name name = Some spec" by (auto simp: spec_def split: option.splits)
    then show ?thesis using 1 by (rule own)
  next
    case 2
    then obtain parent where p: "parent \<in> set (as_str_list shw (jget spec ''inherits''))"
      and row: "Some row = (case dget base parent of Some row \<Rightarrow> Some row
              | None \<Rightarrow> if parent \<in> set (dkeys by_name)
                  then Some (resolve_custom_role shw by_name base (stack @ [name]) parent) else None)"
      by (auto simp: parents_def)
    have spec: "dget by_name name = Some spec" using p by (auto simp: spec_def as_str_list_def split: option.splits)
    show ?thesis
    proof (cases "dget base parent")
      case (Some r)
      with row step.prems(1) have "row_ok row" by (simp add: matrix_ok_def)
      then have "row_allows row res a" by (rule doc_allows_row [OF _ 2(2)])
      with Some row show ?thesis by (auto intro: from_base [OF spec p])
    next
      case None
      with row have pk: "parent \<in> set (dkeys by_name)" and r: "row = resolve_custom_role shw by_name base (stack @ [name]) parent"
        by (auto split: if_splits)
      then have "row_allows row res a" using doc_allows_row [OF resolve_ok] 2(2) by blast
      then show ?thesis
        using step.IH [OF notin spec_def p None pk step.prems(1)] r by (intro from_custom [OF spec p]) simp
    qed
  qed
qed

subsection \<open>The finished matrix\<close>

lemma can_in_iff:
  "role \<noteq> SUPER_ADMIN \<Longrightarrow> can_in m role res a \<longleftrightarrow> (\<exists>row. dget m role = Some row \<and> row_allows row res a)"
  by (auto simp: can_in_def split: option.splits)

lemma effective_other: "role \<noteq> SUPER_ADMIN \<Longrightarrow>
    dget (effective_matrix shw cfg) role = dget (foldl (deny_role shw) (with_custom_roles shw cfg) (dict_items (rc_denies cfg))) role"
  by (simp add: effective_matrix_def)

lemma row_allows_known: "row_ok row \<Longrightarrow> row_allows row res a \<Longrightarrow> dget RESOURCES res \<noteq> None"
  unfolding row_ok_def row_allows_def by (cases "dget row res") fastforce+

lemma jget_head [simp]: "jget ((k, v) # d) k = v"
  by (simp add: jget_def dget_def)

lemma can_known: "role \<noteq> SUPER_ADMIN \<Longrightarrow> can shw cfg role res a \<Longrightarrow> dget RESOURCES res \<noteq> None"
  using effective_matrix_ok [of shw cfg] row_allows_known
  by (fastforce simp: can_def can_in_iff matrix_ok_def)

lemma deny_roles_shrink:
  assumes "dget (foldl (deny_role shw) m items) role = Some row" "row_allows row res a"
  shows "\<exists>row'. dget m role = Some row' \<and> row_allows row' res a"
proof (rule ccontr)
  assume "\<not> ?thesis"
  then have "denied_in m role res a" by (auto simp: denied_in_def split: option.splits)
  then have "denied_in (foldl (deny_role shw) m items) role res a"
    by (rule foldl_pres) (rule deny_role_keeps)
  with assms show False by (simp add: denied_in_def)
qed

lemma custom_names:
  "dict_ok (custom_roles_by_name shw v)" "nm \<in> set (dkeys (custom_roles_by_name shw v)) \<Longrightarrow> nm \<notin> set BASE_ROLE_NAMES"
proof -
  have "dict_ok (foldl (add_custom_spec shw) [] xs) \<and>
      set (dkeys (foldl (add_custom_spec shw) [] xs)) \<inter> set BASE_ROLE_NAMES = {}" for xs
    by (rule foldl_pres [where P = "\<lambda>d. dict_ok d \<and> set (dkeys d) \<inter> set BASE_ROLE_NAMES = {}"])
      (auto simp: add_custom_spec_def Let_def dkeys_def [of "[]"] split: json.splits)
  then show "dict_ok (custom_roles_by_name shw v)" "nm \<in> set (dkeys (custom_roles_by_name shw v)) \<Longrightarrow> nm \<notin> set BASE_ROLE_NAMES"
    by (auto simp: custom_roles_by_name_def dkeys_def [of "[]"] split: json.splits)
qed

lemma with_custom_get:
  "dget (with_custom_roles shw cfg) role =
     (if role \<in> set (dkeys (custom_roles_by_name shw (rc_custom_roles cfg)))
      then Some (resolve_custom_role shw (custom_roles_by_name shw (rc_custom_roles cfg)) (layered_base shw cfg) [] role)
      else dget (layered_base shw cfg) role)"
proof -
  have "dget (foldl (\<lambda>m nm. dset m nm (f nm)) base ks) role = (if role \<in> set ks then Some (f role) else dget base role)"
    for f :: "string \<Rightarrow> grants" and base ks
    by (induction ks arbitrary: base) auto
  then show ?thesis by (simp add: with_custom_roles_def Let_def)
qed

subsection \<open>Properties\<close>


definition sample_cfg :: rbac_config where
  "sample_cfg = no_config\<lparr>rc_denies := JDict [(''soc_manager'', JDict [(''cases'', JList [JStr ''close''])])],
     rc_custom_roles := JList [JDict [(''name'', JStr ''hunter''), (''inherits'', JList [JStr ''auditor'', JStr ''hunter'']),
       (''grants'', JDict [(''cases'', JList [JStr ''comment''])])]]\<rparr>"


text \<open>
  C40. No privilege out of nowhere. A custom role holds a permission only if it was granted: by its own
  grants, or by the row of a built-in or overridden role it inherits from, directly or through other custom
  roles. Inheritance cycles are harmless (resolution always ends), and the role stays within the vocabulary.
\<close>

theorem custom_role_no_escalation:
  assumes "nm \<in> set (dkeys (custom_roles_by_name shw (rc_custom_roles cfg)))"
    and "can shw cfg nm res a"
  shows "granted shw (custom_roles_by_name shw (rc_custom_roles cfg)) (layered_base shw cfg) nm res a \<and>
    nm \<notin> set BASE_ROLE_NAMES \<and> dget RESOURCES res \<noteq> None"
proof -
  have base: "nm \<notin> set BASE_ROLE_NAMES" by (rule custom_names(2) [OF assms(1)])
  then have nsa: "nm \<noteq> SUPER_ADMIN" by (auto simp: BASE_ROLE_NAMES_def SUPER_ADMIN_def)
  from assms(2) obtain row where row: "dget (effective_matrix shw cfg) nm = Some row" "row_allows row res a"
    by (auto simp: can_def can_in_iff [OF nsa])
  from deny_roles_shrink [OF row(1) [unfolded effective_other [OF nsa]] row(2)] assms(1)
  have "row_allows (resolve_custom_role shw (custom_roles_by_name shw (rc_custom_roles cfg)) (layered_base shw cfg) [] nm) res a"
    by (auto simp: with_custom_get)
  with resolve_granted [OF layered_base_ok] base can_known [OF nsa assms(2)] show ?thesis by blast
qed

lemma sample_cfg_hunter: "''hunter'' \<in> set (dkeys (custom_roles_by_name (\<lambda>_. []) (rc_custom_roles sample_cfg)))"
  "can (\<lambda>_. []) sample_cfg ''hunter'' ''cases'' ''comment''"
  by code_simp+

theorem custom_role_no_escalation_witness:
  "granted (\<lambda>_. []) (custom_roles_by_name (\<lambda>_. []) (rc_custom_roles sample_cfg)) (layered_base (\<lambda>_. []) sample_cfg)
     ''hunter'' ''cases'' ''comment''"
  using custom_role_no_escalation [OF sample_cfg_hunter] by simp

lemma assigned_names_set:
  "set (assigned_names table custom) =
     {nm. \<exists>c \<in> set custom. nm = py_strip c \<and> nm \<noteq> [] \<and> nm \<notin> set BASE_ROLE_NAMES \<and> dget table nm \<noteq> None}"
proof -
  define step where "step ns nm = (let nm_s = py_strip nm
                    in if nm_s = [] \<or> nm_s \<in> set BASE_ROLE_NAMES \<or> dget table nm_s = None then ns
                       else if nm_s \<in> set ns then ns else ns @ [nm_s])" for ns nm
  have "set (foldl step ns custom) = set ns \<union>
      {nm. \<exists>c \<in> set custom. nm = py_strip c \<and> nm \<noteq> [] \<and> nm \<notin> set BASE_ROLE_NAMES \<and> dget table nm \<noteq> None}" for ns
    by (induction custom arbitrary: ns) (auto simp: step_def Let_def)
  then show ?thesis by (simp add: assigned_names_def step_def [abs_def])
qed

text \<open>
  Holding several roles is the union of the roles: a user with a base role and assigned custom roles may
  do exactly what the base role may or some assigned role may that is not blank, not a built-in name and not
  unknown; with no assigned roles the answer is that of \<open>can\<close>.
\<close>

theorem can_for_roles_union:
  "can_for_roles shw cfg base_role custom res a \<longleftrightarrow>
     can shw cfg base_role res a \<or>
     (\<exists>c \<in> set custom. py_strip c \<noteq> [] \<and> py_strip c \<notin> set BASE_ROLE_NAMES \<and> can shw cfg (py_strip c) res a)"
proof (cases "base_role = SUPER_ADMIN")
  case True
  then show ?thesis by (simp add: can_for_roles_def can_def can_in_def)
next
  case False
  let ?t = "effective_matrix shw cfg"
  have nsa: "nm \<noteq> SUPER_ADMIN" if "nm \<notin> set BASE_ROLE_NAMES" for nm
    using that by (auto simp: BASE_ROLE_NAMES_def SUPER_ADMIN_def)
  have eq: "can_for_roles shw cfg base_role custom res a \<longleftrightarrow>
      can_in ?t base_role res a \<or> (\<exists>nm \<in> set (assigned_names ?t custom). \<exists>row. dget ?t nm = Some row \<and> row_allows row res a)"
    using False unfolding can_for_roles_def Let_def
    by (auto simp: list_ex_iff can_in_iff split: option.splits)
  show ?thesis
    unfolding eq assigned_names_set can_def using nsa by (fastforce simp: can_in_iff)
qed

text \<open>
  C32. Without configuration the matrix is the built-in one; there the auditor may only read or view, and no
  role but super_admin may install or roll back an update, extract data except for the SOC manager, or manage
  users except for the SOC manager.
\<close>

definition default_holders :: "string \<Rightarrow> string \<Rightarrow> string list" where
  "default_holders res a = map fst (filter (\<lambda>(role, row). row_allows row res a) DEFAULT_MATRIX)"

lemma effective_default: "effective_matrix shw no_config = DEFAULT_MATRIX"
proof -
  have "with_custom_roles shw no_config = DEFAULT_MATRIX"
    by (simp add: with_custom_roles_def layered_base_def no_config_def dict_items_def custom_roles_by_name_def dkeys_def)
  then show ?thesis
    by (simp add: effective_matrix_def no_config_def dict_items_def DEFAULT_MATRIX_def dset_def)
qed

lemma auditor_row: "list_all (\<lambda>(res, acts). set acts \<subseteq> {''read'', ''view''}) AUDITOR_ROW"
  by code_simp

theorem default_matrix_least_privilege:
  "effective_matrix shw no_config = DEFAULT_MATRIX \<and>
   (can shw no_config ''auditor'' res a \<longrightarrow> a \<in> {''read'', ''view''}) \<and>
   default_holders ''system_updates'' ''apply'' = [SUPER_ADMIN] \<and>
   default_holders ''system_updates'' ''rollback'' = [SUPER_ADMIN] \<and>
   default_holders ''data_export'' ''export'' = [SUPER_ADMIN, ''soc_manager''] \<and>
   default_holders ''users'' ''manage'' = [SUPER_ADMIN, ''soc_manager'']"
proof (intro conjI impI)
  show "effective_matrix shw no_config = DEFAULT_MATRIX" by (rule effective_default)
  show "default_holders ''system_updates'' ''apply'' = [SUPER_ADMIN]"
    "default_holders ''system_updates'' ''rollback'' = [SUPER_ADMIN]"
    "default_holders ''data_export'' ''export'' = [SUPER_ADMIN, ''soc_manager'']"
    "default_holders ''users'' ''manage'' = [SUPER_ADMIN, ''soc_manager'']"
    by code_simp+
  assume "can shw no_config ''auditor'' res a"
  then have "row_allows AUDITOR_ROW res a"
    by (auto simp: can_def effective_default can_in_def DEFAULT_MATRIX_def dget_def SUPER_ADMIN_def)
  then obtain acts where acts: "(res, acts) \<in> set AUDITOR_ROW" "ALL_ACTIONS \<in> set acts \<or> a \<in> set acts"
    using dget_Some_in by (fastforce simp: row_allows_def split: option.splits)
  moreover have "set acts \<subseteq> {''read'', ''view''}" using auditor_row acts(1) by (auto simp: list_all_iff)
  ultimately show "a \<in> {''read'', ''view''}" by (auto simp: ALL_ACTIONS_def)
qed

theorem default_matrix_least_privilege_witness:
  "can (\<lambda>_. []) no_config ''auditor'' ''cases'' ''read'' \<and> ''read'' \<in> {''read'', ''view''}"
proof -
  have "can (\<lambda>_. []) no_config ''auditor'' ''cases'' ''read''" by code_simp
  with default_matrix_least_privilege [of "\<lambda>_. []" "''cases''" "''read''"] show ?thesis by blast
qed

lemma all_conditions_True:
  "all_conditions shw fl cs user obj ctx = Some True \<Longrightarrow> c \<in> set cs \<Longrightarrow>
     \<exists>f. object_condition shw fl c = Some f \<and> f user obj ctx = Some True"
  by (induction cs) (auto split: option.splits if_splits)

text \<open>
  Object scope only narrows. An object-level allow implies the coarse one; with scoping off it holds for
  every object; and with scoping on it means, for any role but the owner, that every condition bound to the
  role for the action is one of the known names and true of the object.
\<close>

theorem object_scope_narrows:
  assumes "can_object shw fl cfg user res a obj ctx = Some True"
  shows "can shw cfg (py_str shw (jor (jget user ''role'') (JStr []))) res a \<and>
    (truthy (rc_object_scoping_enabled cfg) \<and> py_str shw (jor (jget user ''role'') (JStr [])) \<noteq> SUPER_ADMIN \<longrightarrow>
       (\<forall>c \<in> set (object_scope_conditions shw cfg (py_str shw (jor (jget user ''role'') (JStr []))) res a).
          \<exists>f. object_condition shw fl c = Some f \<and> f user obj ctx = Some True)) \<and>
    (\<not> truthy (rc_object_scoping_enabled cfg) \<longrightarrow> can_object shw fl cfg user res a obj' ctx' = Some True)"
  using assms all_conditions_True
  by (auto simp: can_object_def Let_def split: if_splits)

theorem object_scope_narrows_witness:
  "can_object (\<lambda>_. []) (\<lambda>_. None) no_config [(''role'', JStr ''auditor'')] ''cases'' ''read'' [] [] = Some True
   \<and> can (\<lambda>_. []) no_config ''auditor'' ''cases'' ''read''"
proof -
  have "can_object (\<lambda>_. []) (\<lambda>_. None) no_config [(''role'', JStr ''auditor'')] ''cases'' ''read'' [] [] = Some True"
    by code_simp
  with object_scope_narrows [OF this] show ?thesis by (simp add: jget_def dget_def jor_def)
qed

end
