(* ===== verification/Job_Store.thy ===== *)
theory Job_Store
  imports Py_Json
begin

section \<open>The durable job registry\<close>

text \<open>
  \<^verbatim>\<open>stores/jobs.py\<close>: one document holds every server-owned job, its idempotency keys and the factory
  fence, and every operation is one confirmed compare-and-set mutation of it (\<^verbatim>\<open>Kv_Cas\<close> models that
  mutation), so an operation here is a function from the registry to an error, which leaves the
  registry as it was, or to a value and the new registry. Clock readings (\<open>now_ms\<close>, \<open>now\<close>) and fresh
  identifiers are arguments; \<open>jsize\<close> is the length of a value's canonical JSON text and \<open>ip\<close> the
  reading of a number by \<^verbatim>\<open>int\<close>; both stay abstract. Rows are typed: the rejection of a document
  with an undecodable row, and the two session fields of a job that no operation reads, are left out.
\<close>

subsection \<open>Data\<close>

datatype job_kind =
    CASE_REINVESTIGATE | CASE_LIFECYCLE | CASE_ASSIGN | CASE_TAG | DATA_EXPORT_ARCHIVE | DATA_EXPORT_SEGMENT
  | PRECEDENT_BOOTSTRAP | RUNBOOK_REINDEX | RAG_IMPORT | RAG_REBUILD | TIERED_RESET
  | STORAGE_LIFECYCLE_APPLY | REPLAY_EXPERIMENT

datatype job_status = QUEUED | RUNNING | SUCCEEDED | PARTIAL | FAILED | CANCELLED

fun kind_value :: "job_kind \<Rightarrow> string" where
  "kind_value CASE_REINVESTIGATE = ''case_reinvestigate''"
| "kind_value CASE_LIFECYCLE = ''case_lifecycle''"
| "kind_value CASE_ASSIGN = ''case_assign''"
| "kind_value CASE_TAG = ''case_tag''"
| "kind_value DATA_EXPORT_ARCHIVE = ''data_export_archive''"
| "kind_value DATA_EXPORT_SEGMENT = ''data_export_segment''"
| "kind_value PRECEDENT_BOOTSTRAP = ''precedent_bootstrap''"
| "kind_value RUNBOOK_REINDEX = ''runbook_reindex''"
| "kind_value RAG_IMPORT = ''rag_import''"
| "kind_value RAG_REBUILD = ''rag_rebuild''"
| "kind_value TIERED_RESET = ''tiered_reset''"
| "kind_value STORAGE_LIFECYCLE_APPLY = ''storage_lifecycle_apply''"
| "kind_value REPLAY_EXPERIMENT = ''replay_experiment''"

fun status_value :: "job_status \<Rightarrow> string" where
  "status_value QUEUED = ''queued''"
| "status_value RUNNING = ''running''"
| "status_value SUCCEEDED = ''succeeded''"
| "status_value PARTIAL = ''partial''"
| "status_value FAILED = ''failed''"
| "status_value CANCELLED = ''cancelled''"

definition terminal :: "job_status \<Rightarrow> bool" where
  "terminal s = (s \<in> {SUCCEEDED, PARTIAL, FAILED, CANCELLED})"

definition retry_safe :: "job_kind \<Rightarrow> bool" where
  "retry_safe k = (k \<in> {DATA_EXPORT_ARCHIVE, DATA_EXPORT_SEGMENT, PRECEDENT_BOOTSTRAP, RUNBOOK_REINDEX, RAG_REBUILD})"

definition MAX_JOBS :: nat where "MAX_JOBS = 1000"
definition MAX_FAILURES :: nat where "MAX_FAILURES = 20"
definition MAX_REGISTRY_PARAM_BYTES :: int where "MAX_REGISTRY_PARAM_BYTES = 8 * 1024 * 1024"
definition MAX_RETAINED_ARTIFACTS :: nat where "MAX_RETAINED_ARTIFACTS = 50"

datatype item_state = Pending | Processing | Item_succeeded | Item_failed

record job_progress =
  p_done :: int
  p_total :: int
  p_unit :: string

record job_failure =
  f_item_ref :: string
  f_reason :: string

record job_result =
  r_kind :: string
  r_artifact_id :: "string option"
  r_counts :: "(string, int) dict"

record job_permission =
  g_resource :: string
  g_action :: string

datatype job_summary =
    Plain_note string
  | Terminal_note job_status int int int int int
  | Receipt_note job_status int int int

record job_transition =
  t_seq :: int
  t_name :: string
  t_summary :: job_summary
  t_audited :: bool

record job_artifact =
  a_id :: string
  a_filename :: string
  a_size :: int
  a_sha256 :: string

record job =
  job_id :: string
  job_kind :: job_kind
  actor :: string
  actor_generation :: string
  created_at :: string
  started_at :: "string option"
  finished_at :: "string option"
  status :: job_status
  progress :: job_progress
  failures :: "job_failure list"
  failure_count :: int
  failures_truncated :: int
  request_fingerprint :: string
  idempotency_key_hash :: string
  job_result :: "job_result option"
  params :: "(string \<times> json) list"
  required_permissions :: "job_permission list"
  fresh_authorized_until_millis :: int
  cancel_requested :: bool
  item_states :: "(string, item_state) dict"
  lease_owner :: "string option"
  lease_token :: "string option"
  lease_expires_at_millis :: int
  transition_seq :: int
  transitions :: "job_transition list"
  artifact :: "job_artifact option"
  pending_artifact_id :: "string option"
  pending_artifact_suffix :: "string option"
  inbox_synced :: bool
  retired :: bool
  app_version :: "string option"
  build_sha :: "string option"

record registry =
  jobs :: "(string, job) dict"
  keys :: "(string, string) dict"
  fence :: string

datatype job_error =
    Key_error
  | Lease_changed
  | Inconsistent_registry
  | Job_conflict
  | Fenced
  | Registry_full
  | Params_too_large
  | Bad_status
  | Bad_suffix
  | Not_reserved
  | Fence_taken
  | Fence_lost
  | Bad_params
  | No_progress

subsection \<open>Parameters\<close>

definition trunc_real :: "real \<Rightarrow> int" where
  "trunc_real x = (if 0 \<le> x then \<lfloor>x\<rfloor> else \<lceil>x\<rceil>)"

fun py_int :: "(string \<Rightarrow> int option) \<Rightarrow> json \<Rightarrow> int option" where
  "py_int ip (JInt i) = Some i"
| "py_int ip (JBool b) = Some (if b then 1 else 0)"
| "py_int ip (JFloat x) = Some (trunc_real x)"
| "py_int ip (JStr s) = ip s"
| "py_int ip v = None"

definition get_or :: "(string \<times> json) list \<Rightarrow> string \<Rightarrow> json \<Rightarrow> json" where
  "get_or d k dflt = (case dget d k of Some v \<Rightarrow> v | None \<Rightarrow> dflt)"

definition or_list :: "json \<Rightarrow> json" where
  "or_list v = (if truthy v then v else JList [])"

definition or_text :: "(json \<Rightarrow> string) \<Rightarrow> json \<Rightarrow> string" where
  "or_text shw v = (if truthy v then py_str shw v else [])"

text \<open>\<^verbatim>\<open>int(raw.get("case_count", len(raw.get("case_ids") or [])))\<close>.\<close>

definition counted :: "(string \<Rightarrow> int option) \<Rightarrow> (string \<times> json) list \<Rightarrow> string \<Rightarrow> string \<Rightarrow> int option" where
  "counted ip raw count_key list_key =
     (case iter_rows (or_list (jget raw list_key)) of
        None \<Rightarrow> None
      | Some xs \<Rightarrow> py_int ip (get_or raw count_key (JInt (int (length xs)))))"

definition arm_ids :: "(json \<Rightarrow> string) \<Rightarrow> json \<Rightarrow> string list option" where
  "arm_ids shw v =
     map_option (\<lambda>xs. concat (map (\<lambda>arm. case arm of JDict d \<Rightarrow> [or_text shw (jget d ''arm_id'')] | _ \<Rightarrow> []) xs))
       (iter_rows (or_list v))"

definition compact_params ::
  "(json \<Rightarrow> string) \<Rightarrow> (string \<Rightarrow> int option) \<Rightarrow> (string \<Rightarrow> real option) \<Rightarrow> job \<Rightarrow> (string \<times> json) list option" where
  "compact_params shw ip fl j =
     (let raw = params j;
          with_count = (\<lambda>extra. map_option (\<lambda>n. [(''case_count'', JInt n), extra]) (counted ip raw ''case_count'' ''case_ids''));
          text = (\<lambda>k n. take n (or_text shw (jget raw k)));
          number = (\<lambda>k. if truthy (jget raw k) then py_int ip (jget raw k) else Some 0)
      in case job_kind j of
           CASE_REINVESTIGATE \<Rightarrow> with_count (''model'', jget raw ''model'')
         | CASE_LIFECYCLE \<Rightarrow> with_count (''action'', jget raw ''action'')
         | CASE_ASSIGN \<Rightarrow> with_count (''assignee'', JStr (text ''assignee'' 80))
         | CASE_TAG \<Rightarrow> with_count (''tag'', JStr (text ''tag'' 40))
         | PRECEDENT_BOOTSTRAP \<Rightarrow>
             map_option (\<lambda>n. [(''limit'', JInt n), (''dry_run'', JBool (truthy (jget raw ''dry_run'')))]) (number ''limit'')
         | RUNBOOK_REINDEX \<Rightarrow>
             (let t = text ''runbook_id'' 160 in Some [(''runbook_id'', if t = [] then JNull else JStr t)])
         | RAG_IMPORT \<Rightarrow>
             map_option (\<lambda>n. [(''document_count'', JInt n)]) (counted ip raw ''document_count'' ''documents'')
         | RAG_REBUILD \<Rightarrow> Some []
         | TIERED_RESET \<Rightarrow> Some [(''scope'', JStr (text ''scope'' 20))]
         | STORAGE_LIFECYCLE_APPLY \<Rightarrow> Some [(''acknowledge'', JBool (truthy (jget raw ''acknowledge'')))]
         | REPLAY_EXPERIMENT \<Rightarrow>
             (case (iter_rows (or_list (jget raw ''fixture_ids'')), arm_ids shw (jget raw ''arms''),
                    number ''repeats'', float_or_0 fl (jget raw ''spend_bound_usd'')) of
                (Some fs, Some arms, Some n, Some usd) \<Rightarrow>
                  Some [(''fixture_count'', JInt (int (length fs))),
                        (''arm_ids'', JList (map (\<lambda>a. JStr (take 40 a)) (take 2 arms))),
                        (''repeats'', JInt n), (''spend_bound_usd'', JFloat usd)]
              | _ \<Rightarrow> None)
         | _ \<Rightarrow>
             (case iter_rows (or_list (jget raw ''scopes'')) of
                None \<Rightarrow> None
              | Some xs \<Rightarrow>
                  let scopes = (''scopes'', JList (take 20 xs))
                  in if truthy (jget raw ''page_size'')
                     then map_option (\<lambda>n. [scopes, (''page_size'', JInt n)]) (py_int ip (jget raw ''page_size''))
                     else Some [scopes]))"

subsection \<open>Steps on one row\<close>

definition count_state :: "item_state \<Rightarrow> job \<Rightarrow> int" where
  "count_state s j = int (length (filter (\<lambda>v. v = s) (dvals (item_states j))))"

definition recount :: "job \<Rightarrow> job" where
  "recount j = j\<lparr>progress := (progress j)\<lparr>p_done := count_state Item_succeeded j + count_state Item_failed j,
                                      p_total := int (length (item_states j))\<rparr>\<rparr>"

definition append_failure :: "job \<Rightarrow> string \<Rightarrow> string \<Rightarrow> job" where
  "append_failure j ref reason =
     (let n = failure_count j + 1;
          fs = (if length (failures j) < MAX_FAILURES
                then failures j @ [\<lparr>f_item_ref = take 200 ref, f_reason = take 500 reason\<rparr>] else failures j)
      in j\<lparr>failures := fs, failure_count := n, failures_truncated := max 0 (n - int (length fs))\<rparr>)"

definition transition :: "job \<Rightarrow> string \<Rightarrow> job_summary \<Rightarrow> job" where
  "transition j name summary =
     j\<lparr>transition_seq := transition_seq j + 1,
       transitions := transitions j @ [\<lparr>t_seq = transition_seq j + 1, t_name = name, t_summary = summary, t_audited = False\<rparr>]\<rparr>"

definition job_errors :: "job \<Rightarrow> int" where
  "job_errors j = max 0 (failure_count j - count_state Item_failed j)"

definition terminal_summary :: "job \<Rightarrow> job_summary" where
  "terminal_summary j = Terminal_note (status j) (p_done (progress j)) (p_total (progress j))
     (count_state Item_succeeded j) (count_state Item_failed j) (job_errors j)"

definition compact_terminal ::
  "(job \<Rightarrow> (string \<times> json) list option) \<Rightarrow> job \<Rightarrow> job_result option \<Rightarrow> job option" where
  "compact_terminal cp j0 result =
     (let j = recount j0;
          errs = job_errors j;
          res = (case result of
                   Some r \<Rightarrow> Some (if errs \<noteq> 0 then r\<lparr>r_counts := dset (r_counts r) ''job_errors'' errs\<rparr> else r)
                 | None \<Rightarrow>
                     (case job_result j of
                        Some r \<Rightarrow> Some r
                      | None \<Rightarrow>
                          Some \<lparr>r_kind = kind_value (job_kind j), r_artifact_id = None,
                            r_counts = [(''succeeded'', count_state Item_succeeded j),
                              (''failed'', count_state Item_failed j), (''total'', p_total (progress j))] @
                              (if errs \<noteq> 0 then [(''job_errors'', errs)] else [])\<rparr>))
      in map_option (\<lambda>ps. j\<lparr>job_result := res, params := ps, item_states := [],
                            pending_artifact_id := None, pending_artifact_suffix := None\<rparr>) (cp j))"

definition clear_lease :: "job \<Rightarrow> job" where
  "clear_lease j = j\<lparr>lease_owner := None, lease_token := None, lease_expires_at_millis := 0\<rparr>"

definition put_job :: "registry \<Rightarrow> string \<Rightarrow> job \<Rightarrow> registry" where
  "put_job reg k j = reg\<lparr>jobs := dset (jobs reg) k j\<rparr>"

text \<open>Decoding drops keys that name no row.\<close>

definition load :: "registry \<Rightarrow> registry" where
  "load reg = reg\<lparr>keys := filter (\<lambda>(h, i). dget (jobs reg) i \<noteq> None) (keys reg)\<rparr>"

type_synonym 'a outcome = "job_error + 'a \<times> registry"

text \<open>Python's \<^verbatim>\<open>min\<close> and \<^verbatim>\<open>max\<close> with a key keep the first of equal candidates; sorting with \<^verbatim>\<open>reverse\<close> keeps the order of equals.\<close>

fun first_min :: "('a \<Rightarrow> 'k::linorder) \<Rightarrow> 'a list \<Rightarrow> 'a option" where
  "first_min f [] = None"
| "first_min f (x # xs) = (case first_min f xs of None \<Rightarrow> Some x | Some y \<Rightarrow> Some (if f x \<le> f y then x else y))"

fun first_max :: "('a \<Rightarrow> 'k::linorder) \<Rightarrow> 'a list \<Rightarrow> 'a option" where
  "first_max f [] = None"
| "first_max f (x # xs) = (case first_max f xs of None \<Rightarrow> Some x | Some y \<Rightarrow> Some (if f y \<le> f x then x else y))"

definition sort_desc :: "('a \<Rightarrow> 'k::linorder) \<Rightarrow> 'a list \<Rightarrow> 'a list" where
  "sort_desc f xs = rev (sort_key f (rev xs))"

definition age_key :: "job \<Rightarrow> string \<times> string" where
  "age_key j = (case finished_at j of Some t \<Rightarrow> str_or t (created_at j) | None \<Rightarrow> created_at j, job_id j)"

definition factory_scope :: "(string \<times> json) list" where
  "factory_scope = [(''scope'', JStr ''factory'')]"

definition owned :: "registry \<Rightarrow> string \<Rightarrow> string \<Rightarrow> job_error + job" where
  "owned reg k token =
     (case dget (jobs reg) k of
        None \<Rightarrow> Inl Key_error
      | Some j \<Rightarrow> if lease_token j \<noteq> Some token \<or> status j \<noteq> RUNNING then Inl Lease_changed else Inr j)"

subsection \<open>Admission\<close>

text \<open>The room the new row needs: while the registry is full, the oldest terminal row goes.\<close>

definition drop_row :: "registry \<Rightarrow> job \<Rightarrow> registry" where
  "drop_row reg j =
     reg\<lparr>jobs := dpop (jobs reg) (job_id j),
         keys := (if dget (keys reg) (idempotency_key_hash j) = Some (job_id j)
                  then dpop (keys reg) (idempotency_key_hash j) else keys reg)\<rparr>"

definition meta_of :: "job \<Rightarrow> job_artifact list" where
  "meta_of j = (case artifact j of Some a \<Rightarrow> [a] | None \<Rightarrow> [])"

fun make_room :: "nat \<Rightarrow> registry \<Rightarrow> job_artifact list \<Rightarrow> job_error + registry \<times> job_artifact list" where
  "make_room n reg pruned =
     (if length (jobs reg) < MAX_JOBS then Inr (reg, pruned)
      else case first_min age_key (filter (\<lambda>j. terminal (status j)) (dvals (jobs reg))) of
             None \<Rightarrow> Inl Registry_full
           | Some victim \<Rightarrow>
               (case n of
                  0 \<Rightarrow> Inl No_progress
                | Suc m \<Rightarrow> make_room m (drop_row reg victim) (pruned @ meta_of victim)))"

declare make_room.simps [simp del]

definition expire_row :: "job \<Rightarrow> job" where
  "expire_row j = j\<lparr>artifact := None, job_result := map_option (\<lambda>r. r\<lparr>r_artifact_id := None\<rparr>) (job_result j)\<rparr>"

definition expire_rows :: "registry \<Rightarrow> job list \<Rightarrow> registry" where
  "expire_rows reg rows = foldl (\<lambda>r j. put_job r (job_id j) (expire_row j)) reg rows"

definition fence_recovery :: "int \<Rightarrow> job \<Rightarrow> registry \<Rightarrow> bool" where
  "fence_recovery now_ms j reg =
     (case dget (jobs reg) (fence reg) of
        None \<Rightarrow> False
      | Some fenced \<Rightarrow>
          job_kind fenced = TIERED_RESET \<and> params fenced = factory_scope \<and>
          (status fenced = FAILED \<or>
             actor fenced = [] \<and> request_fingerprint fenced = [] \<and> idempotency_key_hash fenced = [] \<and>
             terminal (status fenced)) \<and>
          job_kind j = TIERED_RESET \<and> jget (params j) ''scope'' = JStr ''factory'' \<and>
          (\<exists>g \<in> set (required_permissions j). g_resource g = ''users'' \<and> g_action g = ''manage'') \<and>
          (actor j = [] \<or> actor_generation j = [] \<or> now_ms < fresh_authorized_until_millis j))"

definition active_param_bytes :: "(json \<Rightarrow> int) \<Rightarrow> registry \<Rightarrow> int" where
  "active_param_bytes jsize reg =
     sum_list (map (\<lambda>j. jsize (JDict (params j))) (filter (\<lambda>j. \<not> terminal (status j)) (dvals (jobs reg))))"

definition admit :: "(json \<Rightarrow> int) \<Rightarrow> job \<Rightarrow> bool \<Rightarrow> registry \<Rightarrow> (job \<times> bool \<times> job_artifact list) outcome" where
  "admit jsize j recovery reg =
     bind_res (make_room (length (jobs reg)) reg []) (\<lambda>(reg1, pruned).
       let rows = filter (\<lambda>r. terminal (status r) \<and> artifact r \<noteq> None) (dvals (jobs reg1));
           expired = drop (MAX_RETAINED_ARTIFACTS - 1) (sort_desc age_key rows);
           reg2 = expire_rows reg1 expired
       in if MAX_REGISTRY_PARAM_BYTES < active_param_bytes jsize reg2 + jsize (JDict (params j)) then Inl Params_too_large
          else Inr ((j, True, pruned @ concat (map meta_of expired)),
                    (put_job reg2 (job_id j) j)\<lparr>keys := dset (keys reg2) (idempotency_key_hash j) (job_id j),
                                             fence := (if recovery then job_id j else fence reg2)\<rparr>))"

definition create ::
  "(json \<Rightarrow> int) \<Rightarrow> int \<Rightarrow> job \<Rightarrow> registry \<Rightarrow> (job \<times> bool \<times> job_artifact list) outcome" where
  "create jsize now_ms j reg0 =
     (let reg = load reg0;
          bound = (case dget (keys reg) (idempotency_key_hash j) of Some b \<Rightarrow> b | None \<Rightarrow> [])
      in if bound \<noteq> [] then
           (case dget (jobs reg) bound of
              None \<Rightarrow> Inl Inconsistent_registry
            | Some existing \<Rightarrow>
                if request_fingerprint existing \<noteq> request_fingerprint j then Inl Job_conflict
                else Inr ((existing, False, []), reg))
         else if fence reg = [] then admit jsize j False reg
         else if fence_recovery now_ms j reg then admit jsize j True reg
         else Inl Fenced)"

subsection \<open>Claims and worker operations\<close>

definition claimable :: "string \<Rightarrow> int \<Rightarrow> job \<Rightarrow> bool" where
  "claimable f now_ms j =
     ((f = [] \<or> job_id j = f) \<and> (status j = QUEUED \<or> status j = RUNNING \<and> lease_expires_at_millis j \<le> now_ms))"

definition interrupted :: string where
  "interrupted = ''worker interrupted after execution began; item was not retried to avoid duplicate effects''"

definition recover_item :: "job \<Rightarrow> string \<Rightarrow> job" where
  "recover_item j ref =
     (if retry_safe (job_kind j) then j\<lparr>item_states := dset (item_states j) ref Pending\<rparr>
      else append_failure (j\<lparr>item_states := dset (item_states j) ref Item_failed\<rparr>) ref interrupted)"

definition recover_items :: "job \<Rightarrow> job" where
  "recover_items j = foldl recover_item j (map fst (filter (\<lambda>(r, s). s = Processing) (item_states j)))"

definition forget_reservation :: "job \<Rightarrow> job" where
  "forget_reservation j =
     (if pending_artifact_id j \<in> {None, Some []} then j else j\<lparr>pending_artifact_id := None, pending_artifact_suffix := None\<rparr>)"

definition claim_row :: "string \<Rightarrow> string \<Rightarrow> int \<Rightarrow> int \<Rightarrow> string \<Rightarrow> job \<Rightarrow> job" where
  "claim_row owner token now_ms lease_millis now j =
     (let recovering = (status j = RUNNING);
          j1 = j\<lparr>status := RUNNING, inbox_synced := False, lease_owner := Some owner, lease_token := Some token,
                 lease_expires_at_millis := now_ms + max 30000 lease_millis\<rparr>
      in if started_at j = None then
           transition (j1\<lparr>started_at := Some now\<rparr>) ''started'' (Plain_note ''server worker claimed queued job'')
         else if recovering then
           transition (recount (recover_items (forget_reservation j1))) ''resumed'' (Plain_note ''expired worker lease recovered'')
         else j1)"

definition claim_next ::
  "registry \<Rightarrow> registry \<Rightarrow> string \<Rightarrow> string \<Rightarrow> int \<Rightarrow> int \<Rightarrow> string \<Rightarrow> registry \<Rightarrow> (job \<times> string) option outcome" where
  "claim_next snapshot raw owner token now_ms lease_millis now reg0 =
     (if \<not> (\<exists>j \<in> set (dvals (jobs snapshot)). claimable (fence raw) now_ms j) then Inr (None, reg0)
      else let reg = load reg0
           in case first_min (\<lambda>j. (created_at j, job_id j)) (filter (claimable (fence reg) now_ms) (dvals (jobs reg))) of
                None \<Rightarrow> Inr (None, reg)
              | Some j \<Rightarrow>
                  let j' = claim_row owner token now_ms lease_millis now j
                  in Inr (Some (j', token), put_job reg (job_id j') j'))"

text \<open>Every worker operation looks its row up by the lease it holds, changes that row and stores it.\<close>

definition with_lease :: "(job \<Rightarrow> job_error + 'a \<times> job) \<Rightarrow> string \<Rightarrow> string \<Rightarrow> registry \<Rightarrow> 'a outcome" where
  "with_lease f k token reg0 =
     (let reg = load reg0
      in bind_res (owned reg k token) (\<lambda>j. bind_res (f j) (\<lambda>(v, j'). Inr (v, put_job reg k j'))))"

definition same :: "job \<Rightarrow> job_error + job \<times> job" where
  "same j = Inr (j, j)"

definition release_row :: "job \<Rightarrow> job" where
  "release_row j = clear_lease (j\<lparr>status := QUEUED\<rparr>)"

definition release_claim :: "string \<Rightarrow> string \<Rightarrow> registry \<Rightarrow> job outcome" where
  "release_claim = with_lease (\<lambda>j. same (release_row j))"

definition renew_row :: "int \<Rightarrow> int \<Rightarrow> job \<Rightarrow> job" where
  "renew_row now_ms lease_millis j = j\<lparr>lease_expires_at_millis := now_ms + max 30000 lease_millis\<rparr>"

definition renew :: "int \<Rightarrow> int \<Rightarrow> string \<Rightarrow> string \<Rightarrow> registry \<Rightarrow> job outcome" where
  "renew now_ms lease_millis = with_lease (\<lambda>j. same (renew_row now_ms lease_millis j))"

definition begin_row :: "string \<Rightarrow> job \<Rightarrow> job" where
  "begin_row ref j =
     (if dget (item_states j) ref = Some Pending then j\<lparr>item_states := dset (item_states j) ref Processing\<rparr> else j)"

definition begin_item :: "string \<Rightarrow> string \<Rightarrow> string \<Rightarrow> registry \<Rightarrow> job outcome" where
  "begin_item ref = with_lease (\<lambda>j. same (begin_row ref j))"

definition ensure_item :: "(string, item_state) dict \<Rightarrow> string \<Rightarrow> (string, item_state) dict" where
  "ensure_item d item_ref =
     (let ref = take 200 item_ref in if ref \<noteq> [] \<and> dget d ref = None then dset d ref Pending else d)"

definition set_unit :: "string \<Rightarrow> job \<Rightarrow> job" where
  "set_unit unit j = j\<lparr>progress := (progress j)\<lparr>p_unit := take 40 (str_or unit ''items'')\<rparr>\<rparr>"

definition ensure_row :: "string list \<Rightarrow> string \<Rightarrow> job \<Rightarrow> job" where
  "ensure_row refs unit j = set_unit unit (recount (j\<lparr>item_states := foldl ensure_item (item_states j) refs\<rparr>))"

definition ensure_items :: "string list \<Rightarrow> string \<Rightarrow> string \<Rightarrow> string \<Rightarrow> registry \<Rightarrow> job outcome" where
  "ensure_items refs unit = with_lease (\<lambda>j. same (ensure_row refs unit j))"

definition progress_row :: "int \<Rightarrow> int \<Rightarrow> string \<Rightarrow> job \<Rightarrow> job" where
  "progress_row n amount unit j =
     (let bounded = max 0 amount
      in set_unit unit (j\<lparr>progress := (progress j)\<lparr>p_done := min (max 0 n) bounded, p_total := bounded\<rparr>\<rparr>))"

definition set_progress :: "int \<Rightarrow> int \<Rightarrow> string \<Rightarrow> string \<Rightarrow> string \<Rightarrow> registry \<Rightarrow> job outcome" where
  "set_progress n amount unit = with_lease (\<lambda>j. same (progress_row n amount unit j))"

definition complete_row :: "string \<Rightarrow> string \<Rightarrow> job \<Rightarrow> job" where
  "complete_row ref err j =
     (if dget (item_states j) ref \<in> {Some Item_succeeded, Some Item_failed} then j
      else let j1 = j\<lparr>item_states := dset (item_states j) ref (if err \<noteq> [] then Item_failed else Item_succeeded)\<rparr>
           in recount (if err \<noteq> [] then append_failure j1 ref err else j1))"

definition complete_item :: "string \<Rightarrow> string \<Rightarrow> string \<Rightarrow> string \<Rightarrow> registry \<Rightarrow> job outcome" where
  "complete_item ref err = with_lease (\<lambda>j. same (complete_row ref err j))"

definition or_bad_params :: "job option \<Rightarrow> job_error + job" where
  "or_bad_params r = (case r of None \<Rightarrow> Inl Bad_params | Some j \<Rightarrow> Inr j)"

type_synonym compactor = "job \<Rightarrow> (string \<times> json) list option"

definition finish_row ::
  "compactor \<Rightarrow> job_status \<Rightarrow> job_result option \<Rightarrow> string \<Rightarrow> string \<Rightarrow> job \<Rightarrow> job_error + job \<times> job" where
  "finish_row cp st res err now j =
     (let j1 = recount (if err \<noteq> [] then append_failure j ''job'' err else j);
          j2 = j1\<lparr>status := st, finished_at := Some now, inbox_synced := False\<rparr>;
          note = terminal_summary j2
      in bind_res (or_bad_params (compact_terminal cp j2 res)) (\<lambda>j3.
           same (transition (clear_lease j3) (status_value st) note)))"

definition finish ::
  "compactor \<Rightarrow> job_status \<Rightarrow> job_result option \<Rightarrow> string \<Rightarrow> string \<Rightarrow> string \<Rightarrow> string \<Rightarrow> registry \<Rightarrow> job outcome" where
  "finish cp st res err now k token reg =
     (if \<not> terminal st then Inl Bad_status else with_lease (finish_row cp st res err now) k token reg)"

subsection \<open>Artifacts\<close>

definition reserve_row :: "string \<Rightarrow> string \<Rightarrow> job \<Rightarrow> job" where
  "reserve_row fresh suffix j =
     (if pending_artifact_id j \<in> {None, Some []}
      then j\<lparr>pending_artifact_id := Some fresh, pending_artifact_suffix := Some suffix\<rparr> else j)"

definition reserve_artifact :: "string \<Rightarrow> string \<Rightarrow> string \<Rightarrow> string \<Rightarrow> registry \<Rightarrow> (job \<times> string option) outcome" where
  "reserve_artifact fresh suffix k token reg =
     (if suffix \<noteq> ''.zip'' then Inl Bad_suffix
      else with_lease (\<lambda>j. let j' = reserve_row fresh suffix j in Inr ((j', pending_artifact_id j'), j')) k token reg)"

definition clear_pending_row :: "string \<Rightarrow> job \<Rightarrow> job" where
  "clear_pending_row aid j =
     (if pending_artifact_id j = Some aid then j\<lparr>pending_artifact_id := None, pending_artifact_suffix := None\<rparr> else j)"

definition clear_pending_artifact :: "string \<Rightarrow> string \<Rightarrow> string \<Rightarrow> registry \<Rightarrow> job outcome" where
  "clear_pending_artifact aid = with_lease (\<lambda>j. same (clear_pending_row aid j))"

definition attach_row :: "job_artifact \<Rightarrow> job \<Rightarrow> job_error + job \<times> job" where
  "attach_row a j =
     (if pending_artifact_id j \<noteq> Some (a_id a) then Inl Not_reserved
      else Inr (j, j\<lparr>artifact := Some a, pending_artifact_id := None, pending_artifact_suffix := None\<rparr>))"

definition attach_artifact ::
  "job_artifact \<Rightarrow> string \<Rightarrow> string \<Rightarrow> registry \<Rightarrow> (job option \<times> job_artifact list) outcome" where
  "attach_artifact a k token reg0 =
     bind_res (with_lease (attach_row a) k token reg0) (\<lambda>(before, reg).
       let rows = filter (\<lambda>r. artifact r \<noteq> None \<and> job_id r \<noteq> k) (dvals (jobs reg));
           expired = drop (MAX_RETAINED_ARTIFACTS - 1) (sort_desc age_key rows);
           previous = filter (\<lambda>p. a_id p \<noteq> a_id a) (meta_of before)
       in Inr ((dget (jobs reg) k, previous @ concat (map meta_of expired)), expire_rows reg expired))"

definition on_row :: "(job \<Rightarrow> job) \<Rightarrow> string \<Rightarrow> registry \<Rightarrow> job option outcome" where
  "on_row f k reg0 =
     (let reg = load reg0
      in case dget (jobs reg) k of
           None \<Rightarrow> Inr (None, reg)
         | Some j \<Rightarrow> Inr (Some (f j), put_job reg k (f j)))"

definition expire_if :: "string \<Rightarrow> job \<Rightarrow> job" where
  "expire_if aid j = (if map_option a_id (artifact j) = Some aid then expire_row j else j)"

definition expire_artifact :: "string \<Rightarrow> string \<Rightarrow> registry \<Rightarrow> job option outcome" where
  "expire_artifact aid = on_row (expire_if aid)"

definition set_inbox_synced :: "bool \<Rightarrow> string \<Rightarrow> registry \<Rightarrow> job option outcome" where
  "set_inbox_synced b = on_row (\<lambda>j. j\<lparr>inbox_synced := b\<rparr>)"

fun audit_first :: "int \<Rightarrow> job_transition list \<Rightarrow> job_transition list" where
  "audit_first n [] = []"
| "audit_first n (t # ts) = (if t_seq t = n then t\<lparr>t_audited := True\<rparr> # ts else t # audit_first n ts)"

definition mark_transition_audited :: "int \<Rightarrow> string \<Rightarrow> registry \<Rightarrow> job option outcome" where
  "mark_transition_audited n = on_row (\<lambda>j. j\<lparr>transitions := audit_first n (transitions j)\<rparr>)"

definition unaudit_row :: "job \<Rightarrow> job" where
  "unaudit_row j = j\<lparr>transitions := map (\<lambda>t. t\<lparr>t_audited := False\<rparr>) (transitions j)\<rparr>"

definition mark_all_transitions_unaudited :: "string option \<Rightarrow> registry \<Rightarrow> job option outcome" where
  "mark_all_transitions_unaudited which reg0 =
     (let reg = load reg0;
          reg' = reg\<lparr>jobs := dmap (\<lambda>k j. if which = None \<or> which = Some k then unaudit_row j else j) (jobs reg)\<rparr>
      in Inr (case which of None \<Rightarrow> None | Some k \<Rightarrow> if k = [] then None else dget (jobs reg') k, reg'))"

subsection \<open>Cancellation and retirement\<close>

definition cancel_row :: "compactor \<Rightarrow> string \<Rightarrow> job \<Rightarrow> job_error + job" where
  "cancel_row cp now j =
     (let j1 = (if cancel_requested j then j
                else transition (j\<lparr>cancel_requested := True, inbox_synced := False\<rparr>)
                       ''cancel_requested'' (Plain_note ''cooperative cancellation requested''))
      in if status j = QUEUED then
           bind_res (or_bad_params (compact_terminal cp (j1\<lparr>status := CANCELLED, finished_at := Some now\<rparr>) None)) (\<lambda>j2.
             Inr (transition j2 ''cancelled'' (Plain_note ''cancelled before execution'')))
         else Inr j1)"

definition request_cancel ::
  "compactor \<Rightarrow> string \<Rightarrow> string \<Rightarrow> string \<Rightarrow> string option \<Rightarrow> registry \<Rightarrow> job option outcome" where
  "request_cancel cp now k who generation reg0 =
     (let reg = load reg0; needle = py_lower (py_strip who)
      in case dget (jobs reg) k of
           None \<Rightarrow> Inr (None, reg)
         | Some j \<Rightarrow>
             if py_lower (py_strip (actor j)) \<noteq> needle \<or> (generation \<noteq> None \<and> generation \<noteq> Some (actor_generation j))
             then Inr (None, reg)
             else if terminal (status j) then Inr (Some j, reg)
             else bind_res (cancel_row cp now j) (\<lambda>j'. Inr (Some j', put_job reg k j')))"

definition retire_row :: "string \<Rightarrow> string \<Rightarrow> registry \<times> job_artifact list \<times> nat \<Rightarrow> string \<times> job \<Rightarrow>
    registry \<times> job_artifact list \<times> nat" where
  "retire_row needle generation acc kj =
     (case (acc, kj) of
        ((reg, arts, n), (k, j)) \<Rightarrow>
          if py_lower (actor j) \<noteq> needle \<or> actor_generation j \<noteq> generation then (reg, arts, n)
          else if status j = RUNNING then
            (put_job reg k (j\<lparr>cancel_requested := True, retired := True, inbox_synced := True\<rparr>), arts, n)
          else (drop_row reg (j\<lparr>job_id := k\<rparr>), arts @ meta_of j, Suc n))"

definition retire_actor :: "string \<Rightarrow> string \<Rightarrow> registry \<Rightarrow> (job_artifact list \<times> nat) outcome" where
  "retire_actor who generation reg0 =
     (let reg = load reg0;
          (reg', arts, n) = foldl (retire_row (py_lower (py_strip who)) generation) (reg, [], 0) (jobs reg)
      in Inr ((arts, n), reg'))"

definition purge_retired_terminal :: "string \<Rightarrow> registry \<Rightarrow> job_artifact list outcome" where
  "purge_retired_terminal k reg0 =
     (let reg = load reg0
      in case dget (jobs reg) k of
           None \<Rightarrow> Inr ([], reg)
         | Some j \<Rightarrow>
             if \<not> retired j \<or> \<not> terminal (status j) \<or> (\<exists>t \<in> set (transitions j). \<not> t_audited t) then Inr ([], reg)
             else Inr (meta_of j, drop_row reg (j\<lparr>job_id := k\<rparr>)))"

subsection \<open>The factory fence\<close>

definition fence_row :: "compactor \<Rightarrow> string \<Rightarrow> job \<Rightarrow> job_error + job" where
  "fence_row cp now j =
     (let j1 = j\<lparr>cancel_requested := True, inbox_synced := False\<rparr>
      in if status j = QUEUED then
           bind_res (or_bad_params (compact_terminal cp (j1\<lparr>status := CANCELLED, finished_at := Some now\<rparr>) None)) (\<lambda>j2.
             Inr (transition j2 ''cancelled'' (Plain_note ''cancelled by factory reset fence'')))
         else Inr j1)"

fun fence_rows ::
  "compactor \<Rightarrow> string \<Rightarrow> string \<Rightarrow> (string, job) dict \<Rightarrow> job_error + (string, job) dict \<times> job_artifact list" where
  "fence_rows cp now k [] = Inr ([], [])"
| "fence_rows cp now k ((other_id, other) # rows) =
     (if other_id = k \<or> terminal (status other)
      then bind_res (fence_rows cp now k rows) (\<lambda>(d, arts). Inr ((other_id, other) # d, arts))
      else bind_res (fence_row cp now other) (\<lambda>other'.
             bind_res (fence_rows cp now k rows) (\<lambda>(d, arts).
               Inr ((other_id, other') # d, (if status other = QUEUED then meta_of other' else []) @ arts))))"

definition begin_factory_fence ::
  "compactor \<Rightarrow> string \<Rightarrow> string \<Rightarrow> string \<Rightarrow> registry \<Rightarrow> (job \<times> job_artifact list) outcome" where
  "begin_factory_fence cp now k token reg0 =
     (let reg = load reg0
      in bind_res (owned reg k token) (\<lambda>current.
           if fence reg \<noteq> [] \<and> fence reg \<noteq> k then Inl Fence_taken
           else bind_res (fence_rows cp now k (jobs reg)) (\<lambda>(d, arts).
                  Inr ((current, arts), reg\<lparr>jobs := d, fence := k\<rparr>))))"

definition factory_quiescent :: "string \<Rightarrow> string \<Rightarrow> registry \<Rightarrow> job_error + bool" where
  "factory_quiescent k token reg0 =
     (let reg = load reg0
      in bind_res (owned reg k token) (\<lambda>_.
           Inr (\<not> (\<exists>other \<in> set (dvals (jobs reg)). job_id other \<noteq> k \<and> status other = RUNNING))))"

definition release_factory_fence :: "string \<Rightarrow> registry \<Rightarrow> unit outcome" where
  "release_factory_fence k reg0 =
     (let reg = load reg0 in Inr ((), reg\<lparr>fence := (if fence reg = k then [] else fence reg)\<rparr>))"

definition count_or_0 :: "job_result \<Rightarrow> string \<Rightarrow> int" where
  "count_or_0 r k = (case dget (r_counts r) k of Some n \<Rightarrow> n | None \<Rightarrow> 0)"

definition receipt_row :: "job_status \<Rightarrow> job_result \<Rightarrow> string \<Rightarrow> string \<Rightarrow> string \<Rightarrow> job \<Rightarrow> job" where
  "receipt_row st res version sha now current =
     transition
       \<lparr>job_id = job_id current, job_kind = TIERED_RESET, actor = [], actor_generation = [],
        created_at = created_at current, started_at = started_at current, finished_at = Some now,
        status = st, progress = \<lparr>p_done = 1, p_total = 1, p_unit = ''reset''\<rparr>,
        failures = [], failure_count = 0, failures_truncated = 0,
        request_fingerprint = [], idempotency_key_hash = [], job_result = Some res,
        params = factory_scope, required_permissions = [], fresh_authorized_until_millis = 0,
        cancel_requested = False, item_states = [], lease_owner = None, lease_token = None,
        lease_expires_at_millis = 0, transition_seq = 0, transitions = [], artifact = None,
        pending_artifact_id = None, pending_artifact_suffix = None, inbox_synced = False,
        retired = False, app_version = Some version, build_sha = Some sha\<rparr>
       ''factory_receipt''
       (Receipt_note st (count_or_0 res ''attempted'') (count_or_0 res ''cleared'') (count_or_0 res ''failed''))"

definition factory_compact ::
  "job_status \<Rightarrow> job_result \<Rightarrow> string \<Rightarrow> string \<Rightarrow> string \<Rightarrow> string \<Rightarrow> string \<Rightarrow> registry \<Rightarrow>
     (job \<times> job_artifact list) outcome" where
  "factory_compact st res version sha now k token reg0 =
     (if \<not> terminal st then Inl Bad_status
      else let reg = load reg0
           in bind_res (owned reg k token) (\<lambda>current.
                if fence reg \<noteq> k then Inl Fence_lost
                else let receipt = receipt_row st res version sha now current
                     in Inr ((receipt, concat (map meta_of (dvals (jobs reg)))),
                             \<lparr>jobs = [(job_id receipt, receipt)], keys = [], fence = k\<rparr>)))"

subsection \<open>Reads\<close>

definition get_job :: "string \<Rightarrow> registry \<Rightarrow> job option" where
  "get_job k reg = dget (jobs reg) (py_strip k)"

definition factory_cache_epoch :: "registry \<Rightarrow> string" where
  "factory_cache_epoch reg =
     (case first_max age_key (filter (\<lambda>j. job_kind j = TIERED_RESET \<and> actor j = [] \<and> params j = factory_scope \<and>
              request_fingerprint j = [] \<and> terminal (status j)) (dvals (jobs reg))) of
        None \<Rightarrow> ''legacy''
      | Some j \<Rightarrow> job_id j)"

definition factory_fence_owner :: "registry \<Rightarrow> job_error + string" where
  "factory_fence_owner reg =
     (if fence reg \<noteq> [] \<and> dget (jobs reg) (fence reg) = None then Inl Inconsistent_registry else Inr (fence reg))"

definition factory_recovery_fence_matches :: "string \<Rightarrow> registry \<Rightarrow> bool" where
  "factory_recovery_fence_matches who reg =
     (let owner = py_strip who
      in owner \<noteq> [] \<and> fence reg = owner \<and>
         (case dget (jobs reg) owner of
            None \<Rightarrow> False
          | Some j \<Rightarrow> job_kind j = TIERED_RESET \<and> params j = factory_scope \<and>
              (status j = FAILED \<or> actor j = [] \<and> request_fingerprint j = [] \<and> terminal (status j))))"

definition list_for_actor :: "string \<Rightarrow> string option \<Rightarrow> registry \<Rightarrow> job list" where
  "list_for_actor who generation reg =
     (let needle = py_lower (py_strip who);
          rows = filter (\<lambda>j. py_lower (py_strip (actor j)) = needle \<and>
                   (generation = None \<or> generation = Some (actor_generation j))) (dvals (jobs reg))
      in sort_key (\<lambda>j. if terminal (status j) then 1 else (0 :: nat)) (sort_desc (\<lambda>j. (created_at j, job_id j)) rows))"

definition unsynced_jobs :: "registry \<Rightarrow> registry \<Rightarrow> job list" where
  "unsynced_jobs reg raw =
     filter (\<lambda>j. \<not> inbox_synced j \<and>
         \<not> (job_kind j = TIERED_RESET \<and> actor j = [] \<and> request_fingerprint j = [] \<and> idempotency_key_hash j = [] \<and>
             params j = factory_scope) \<and>
         (fence raw = [] \<or> job_id j = fence raw)) (dvals (jobs reg))"

definition unaudited_transitions :: "registry \<Rightarrow> registry \<Rightarrow> (job \<times> job_transition) list" where
  "unaudited_transitions reg raw =
     concat (map (\<lambda>j. map (Pair j) (filter (\<lambda>t. \<not> t_audited t) (transitions j)))
       (filter (\<lambda>j. fence raw = [] \<or> job_id j = fence raw) (dvals (jobs reg))))"

definition artifact_ids :: "registry \<Rightarrow> string set" where
  "artifact_ids reg = set (map a_id (concat (map meta_of (dvals (jobs reg)))))"

definition protected_artifact_ids :: "registry \<Rightarrow> string set" where
  "protected_artifact_ids reg =
     {v \<in> artifact_ids reg \<union> set (concat (map (\<lambda>j. case pending_artifact_id j of Some p \<Rightarrow> [p] | None \<Rightarrow> [])
        (dvals (jobs reg)))). v \<noteq> []}"

subsection \<open>The public projection\<close>

record job_public =
  pub_job_id :: string
  pub_kind :: job_kind
  pub_actor :: string
  pub_created_at :: string
  pub_started_at :: "string option"
  pub_finished_at :: "string option"
  pub_status :: job_status
  pub_progress :: job_progress
  pub_failures :: "job_failure list"
  pub_failure_count :: int
  pub_failures_truncated :: int
  pub_request_fingerprint :: string
  pub_result :: "job_result option"
  pub_params :: "(string \<times> json) list"
  pub_cancel_requested :: bool

definition counted_or_0 :: "(string \<Rightarrow> int option) \<Rightarrow> (string \<times> json) list \<Rightarrow> string \<Rightarrow> string \<Rightarrow> int option" where
  "counted_or_0 ip raw count_key list_key =
     (case iter_rows (or_list (jget raw list_key)) of
        None \<Rightarrow> None
      | Some xs \<Rightarrow>
          let v = get_or raw count_key (JInt (int (length xs))) in if truthy v then py_int ip v else Some 0)"

definition public_params ::
  "(json \<Rightarrow> string) \<Rightarrow> (string \<Rightarrow> int option) \<Rightarrow> job_kind \<Rightarrow> (string \<times> json) list \<Rightarrow> (string \<times> json) list option" where
  "public_params shw ip k raw =
     (let with_count = (\<lambda>extra. map_option (\<lambda>n. [(''case_count'', JInt n), (extra, jget raw extra)])
                          (counted_or_0 ip raw ''case_count'' ''case_ids''))
      in case k of
           CASE_REINVESTIGATE \<Rightarrow> with_count ''model''
         | CASE_LIFECYCLE \<Rightarrow> with_count ''action''
         | CASE_ASSIGN \<Rightarrow> with_count ''assignee''
         | CASE_TAG \<Rightarrow> with_count ''tag''
         | PRECEDENT_BOOTSTRAP \<Rightarrow>
             Some [(''limit'', jget raw ''limit''), (''dry_run'', JBool (truthy (jget raw ''dry_run'')))]
         | RUNBOOK_REINDEX \<Rightarrow> Some [(''runbook_id'', jget raw ''runbook_id'')]
         | RAG_IMPORT \<Rightarrow>
             map_option (\<lambda>n. [(''document_count'', JInt n)]) (counted ip raw ''document_count'' ''documents'')
         | RAG_REBUILD \<Rightarrow> Some []
         | TIERED_RESET \<Rightarrow> Some [(''scope'', jget raw ''scope'')]
         | STORAGE_LIFECYCLE_APPLY \<Rightarrow> Some [(''acknowledge'', JBool (truthy (jget raw ''acknowledge'')))]
         | REPLAY_EXPERIMENT \<Rightarrow>
             (case (iter_rows (or_list (jget raw ''fixture_ids'')), arm_ids shw (jget raw ''arms'')) of
                (Some fs, Some arms) \<Rightarrow>
                  Some [(''fixture_count'', JInt (int (length fs))), (''arm_ids'', JList (map JStr arms)),
                        (''repeats'', jget raw ''repeats''), (''spend_bound_usd'', jget raw ''spend_bound_usd'')]
              | _ \<Rightarrow> None)
         | _ \<Rightarrow>
             map_option (\<lambda>xs. (''scopes'', JList xs) #
                 (if truthy (jget raw ''page_size'') then [(''page_size'', jget raw ''page_size'')] else []))
               (iter_rows (or_list (jget raw ''scopes''))))"

definition public_job :: "(json \<Rightarrow> string) \<Rightarrow> (string \<Rightarrow> int option) \<Rightarrow> job \<Rightarrow> job_public option" where
  "public_job shw ip j =
     map_option (\<lambda>ps.
       \<lparr>pub_job_id = job_id j, pub_kind = job_kind j, pub_actor = actor j, pub_created_at = created_at j,
        pub_started_at = started_at j, pub_finished_at = finished_at j, pub_status = status j,
        pub_progress = progress j, pub_failures = failures j, pub_failure_count = failure_count j,
        pub_failures_truncated = failures_truncated j, pub_request_fingerprint = request_fingerprint j,
        pub_result = job_result j, pub_params = ps, pub_cancel_requested = cancel_requested j\<rparr>)
       (public_params shw ip (job_kind j) (params j))"

subsection \<open>Well-formed registries\<close>

text \<open>\<^verbatim>\<open>Job._factory_receipt_or_executable\<close>: only the sanitized receipt has an empty identity.\<close>

definition valid_receipt :: "job \<Rightarrow> bool" where
  "valid_receipt j =
     (request_fingerprint j = [] \<and> idempotency_key_hash j = [] \<and> job_kind j = TIERED_RESET \<and> actor j = [] \<and>
      actor_generation j = [] \<and> terminal (status j) \<and> params j = factory_scope \<and> required_permissions j = [] \<and>
      item_states j = [] \<and> failures j = [] \<and> failure_count j = 0 \<and> artifact j = None \<and>
      pending_artifact_id j = None \<and> \<not> retired j)"

definition receipt_or_executable :: "job \<Rightarrow> bool" where
  "receipt_or_executable j = (request_fingerprint j \<noteq> [] \<and> idempotency_key_hash j \<noteq> [] \<or> valid_receipt j)"

definition progress_ok :: "job_progress \<Rightarrow> bool" where
  "progress_ok p = (0 \<le> p_done p \<and> p_done p \<le> p_total p)"

definition failures_ok :: "job \<Rightarrow> bool" where
  "failures_ok j =
     (length (failures j) \<le> MAX_FAILURES \<and> int (length (failures j)) \<le> failure_count j \<and>
      failures_truncated j = failure_count j - int (length (failures j)))"

definition trail_ok :: "job \<Rightarrow> bool" where
  "trail_ok j = (map t_seq (transitions j) = map (\<lambda>n. int (Suc n)) [0..<length (transitions j)] \<and>
     transition_seq j = int (length (transitions j)))"

definition lease_ok :: "job \<Rightarrow> bool" where
  "lease_ok j = ((status j = RUNNING \<longleftrightarrow> lease_token j \<noteq> None) \<and> (status j = RUNNING \<longrightarrow> started_at j \<noteq> None))"

definition ended_ok :: "job \<Rightarrow> bool" where
  "ended_ok j = ((terminal (status j) \<longleftrightarrow> finished_at j \<noteq> None) \<and>
     (terminal (status j) \<longrightarrow> item_states j = [] \<and> pending_artifact_id j = None))"

definition row_ok :: "job \<Rightarrow> bool" where
  "row_ok j = (progress_ok (progress j) \<and> failures_ok j \<and> trail_ok j \<and> lease_ok j \<and> ended_ok j \<and>
     dict_ok (item_states j) \<and> receipt_or_executable j)"

definition reg_ok :: "registry \<Rightarrow> bool" where
  "reg_ok reg =
     (dict_ok (jobs reg) \<and> dict_ok (keys reg) \<and> length (jobs reg) \<le> MAX_JOBS \<and>
      (\<forall>(k, j) \<in> set (jobs reg). k \<noteq> [] \<and> job_id j = k \<and> row_ok j) \<and>
      (\<forall>(h, k) \<in> set (keys reg). \<exists>j. dget (jobs reg) k = Some j \<and> idempotency_key_hash j = h) \<and>
      (\<forall>(k, j) \<in> set (jobs reg). idempotency_key_hash j \<noteq> [] \<longrightarrow> dget (keys reg) (idempotency_key_hash j) = Some k))"

text \<open>A submission: a fresh identifier, queued, untouched by any worker, with a real identity.\<close>

definition submittable :: "job \<Rightarrow> registry \<Rightarrow> bool" where
  "submittable j reg =
     (job_id j \<noteq> [] \<and> dget (jobs reg) (job_id j) = None \<and> status j = QUEUED \<and> row_ok j \<and> idempotency_key_hash j \<noteq> [])"

end
