(* ===== verification/Job_Rows.thy ===== *)
theory Job_Rows
  imports Job_Store "HOL-Library.Sublist"
begin

section \<open>The job registry: leases, journals and the factory fence\<close>

text \<open>
  What the operations of \<^verbatim>\<open>Job_Store\<close> guarantee together. \<open>reg_ok\<close> is the shape every reachable
  registry has; \<open>row_rel\<close> says how a row that survives an operation may have changed. The locale
  \<open>lease_change\<close> states what the body of a worker operation has to promise, and derives that a
  worker touches nothing but its own row and nothing at all without its lease; \<open>row_edit\<close> does the
  same for the edits made without one.
\<close>

subsection \<open>How a row may change\<close>

fun item_rank :: "item_state \<Rightarrow> nat" where
  "item_rank Pending = 0"
| "item_rank Processing = 1"
| "item_rank Item_succeeded = 2"
| "item_rank Item_failed = 2"

definition item_le :: "item_state \<Rightarrow> item_state \<Rightarrow> bool" where
  "item_le s s' = (s = s' \<or> item_rank s < item_rank s')"

definition trail :: "job \<Rightarrow> (int \<times> string \<times> job_summary) list" where
  "trail j = map (\<lambda>t. (t_seq t, t_name t, t_summary t)) (transitions j)"

text \<open>What a finished job has fixed: everything but its artifact link, inbox flag and audit marks.\<close>

definition core_of :: "job \<Rightarrow> job_kind \<times> string \<times> string \<times> job_status \<times> string option \<times> string option \<times> job_progress \<times>
    job_failure list \<times> int \<times> (string \<times> json) list \<times> (string, item_state) dict \<times> (int \<times> string \<times> job_summary) list" where
  "core_of j = (job_kind j, actor j, idempotency_key_hash j, status j, started_at j, finished_at j, progress j,
     failures j, failure_count j, params j, item_states j, trail j)"

definition items_advance :: "job \<Rightarrow> job \<Rightarrow> bool" where
  "items_advance j j' = (\<forall>r s. dget (item_states j) r = Some s \<longrightarrow> (\<exists>s'. dget (item_states j') r = Some s' \<and> item_le s s'))"

definition row_rel :: "job \<Rightarrow> job \<Rightarrow> bool" where
  "row_rel j j' =
     ((terminal (status j) \<longrightarrow> core_of j' = core_of j) \<and>
      (\<not> retry_safe (job_kind j) \<longrightarrow> terminal (status j') \<or> job_kind j' = job_kind j \<and> items_advance j j') \<and>
      (terminal (status j') \<and> idempotency_key_hash j' = [] \<or> prefix (trail j) (trail j')))"

lemma item_le_refl [simp]: "item_le s s"
  by (simp add: item_le_def)

lemma item_le_trans: "item_le a b \<Longrightarrow> item_le b c \<Longrightarrow> item_le a c"
  by (auto simp: item_le_def)

lemma items_advance_refl [simp]: "items_advance j j"
  by (simp add: items_advance_def)

lemma items_advance_trans: "items_advance a b \<Longrightarrow> items_advance b c \<Longrightarrow> items_advance a c"
  unfolding items_advance_def by (meson item_le_trans)

lemma items_advance_same: "item_states j' = item_states j \<Longrightarrow> items_advance j j'"
  by (simp add: items_advance_def)

lemma items_advance_set:
  "item_states j' = dset (item_states j) r s' \<Longrightarrow> (\<And>s. dget (item_states j) r = Some s \<Longrightarrow> item_le s s') \<Longrightarrow> items_advance j j'"
  by (auto simp: items_advance_def)

lemma row_rel_core: "core_of j' = core_of j \<Longrightarrow> row_rel j j'"
  by (auto simp: row_rel_def core_of_def items_advance_def)

lemma row_rel_refl [simp]: "row_rel j j"
  by (simp add: row_rel_core)

lemma row_rel_trans:
  assumes "row_rel a b" "row_rel b c"
  shows "row_rel a c"
proof -
  have core: "terminal (status a) \<longrightarrow> core_of c = core_of a"
    using assms by (auto simp: row_rel_def core_of_def)
  have items: "\<not> retry_safe (job_kind a) \<longrightarrow> terminal (status c) \<or> job_kind c = job_kind a \<and> items_advance a c"
    using assms by (auto simp: row_rel_def core_of_def intro: items_advance_trans)
  have tr: "terminal (status c) \<and> idempotency_key_hash c = [] \<or> prefix (trail a) (trail c)"
    using assms by (auto simp: row_rel_def core_of_def)
  from core items tr show ?thesis by (simp add: row_rel_def)
qed

text \<open>Only a claim puts a row to work or changes whose work it is; \<open>calm\<close> is what all other changes are.\<close>

definition calm :: "job \<Rightarrow> job \<Rightarrow> bool" where
  "calm j j' = (row_rel j j' \<and> (status j' = RUNNING \<longrightarrow> status j = RUNNING \<and> lease_token j' = lease_token j))"

lemma calm_refl [simp]: "calm j j"
  by (simp add: calm_def)

lemma calm_trans: "calm a b \<Longrightarrow> calm b c \<Longrightarrow> calm a c"
  unfolding calm_def using row_rel_trans by auto

lemma calm_core: "core_of j' = core_of j \<Longrightarrow> lease_token j' = lease_token j \<Longrightarrow> calm j j'"
  by (auto simp: calm_def row_rel_core) (simp add: core_of_def)

subsection \<open>Steps on one row\<close>

lemma recount_sel [simp]:
  "job_id (recount j) = job_id j" "job_kind (recount j) = job_kind j" "actor (recount j) = actor j"
  "actor_generation (recount j) = actor_generation j"
  "idempotency_key_hash (recount j) = idempotency_key_hash j" "request_fingerprint (recount j) = request_fingerprint j"
  "status (recount j) = status j" "started_at (recount j) = started_at j" "finished_at (recount j) = finished_at j"
  "item_states (recount j) = item_states j" "failures (recount j) = failures j" "failure_count (recount j) = failure_count j"
  "failures_truncated (recount j) = failures_truncated j" "transitions (recount j) = transitions j"
  "transition_seq (recount j) = transition_seq j" "lease_token (recount j) = lease_token j" "params (recount j) = params j"
  "pending_artifact_id (recount j) = pending_artifact_id j" "artifact (recount j) = artifact j"
  "required_permissions (recount j) = required_permissions j" "retired (recount j) = retired j"
  "job_result (recount j) = job_result j" "lease_expires_at_millis (recount j) = lease_expires_at_millis j"
  by (simp_all add: recount_def)

lemma append_failure_sel [simp]:
  "job_id (append_failure j r e) = job_id j" "job_kind (append_failure j r e) = job_kind j"
  "actor (append_failure j r e) = actor j" "actor_generation (append_failure j r e) = actor_generation j"
  "idempotency_key_hash (append_failure j r e) = idempotency_key_hash j"
  "request_fingerprint (append_failure j r e) = request_fingerprint j"
  "status (append_failure j r e) = status j" "started_at (append_failure j r e) = started_at j"
  "finished_at (append_failure j r e) = finished_at j" "item_states (append_failure j r e) = item_states j"
  "transitions (append_failure j r e) = transitions j" "transition_seq (append_failure j r e) = transition_seq j"
  "lease_token (append_failure j r e) = lease_token j" "params (append_failure j r e) = params j"
  "pending_artifact_id (append_failure j r e) = pending_artifact_id j" "artifact (append_failure j r e) = artifact j"
  "required_permissions (append_failure j r e) = required_permissions j" "retired (append_failure j r e) = retired j"
  "progress (append_failure j r e) = progress j" "job_result (append_failure j r e) = job_result j"
  "lease_expires_at_millis (append_failure j r e) = lease_expires_at_millis j"
  by (simp_all add: append_failure_def Let_def)

lemma transition_sel [simp]:
  "job_id (transition j n s) = job_id j" "job_kind (transition j n s) = job_kind j" "actor (transition j n s) = actor j"
  "actor_generation (transition j n s) = actor_generation j"
  "idempotency_key_hash (transition j n s) = idempotency_key_hash j"
  "request_fingerprint (transition j n s) = request_fingerprint j"
  "status (transition j n s) = status j" "started_at (transition j n s) = started_at j"
  "finished_at (transition j n s) = finished_at j" "item_states (transition j n s) = item_states j"
  "failures (transition j n s) = failures j" "failure_count (transition j n s) = failure_count j"
  "failures_truncated (transition j n s) = failures_truncated j" "lease_token (transition j n s) = lease_token j"
  "params (transition j n s) = params j" "pending_artifact_id (transition j n s) = pending_artifact_id j"
  "artifact (transition j n s) = artifact j" "required_permissions (transition j n s) = required_permissions j"
  "retired (transition j n s) = retired j" "progress (transition j n s) = progress j"
  "job_result (transition j n s) = job_result j" "cancel_requested (transition j n s) = cancel_requested j"
  "lease_expires_at_millis (transition j n s) = lease_expires_at_millis j"
  by (simp_all add: transition_def)

lemma count_state_nonneg: "0 \<le> count_state s j"
  by (simp add: count_state_def)

lemma count_two_states:
  "length (filter (\<lambda>v. v = Item_succeeded) vs) + length (filter (\<lambda>v. v = Item_failed) vs) \<le> length vs"
  by (induction vs) auto

lemma progress_recount [simp]: "progress_ok (progress (recount j))"
  using count_two_states [of "dvals (item_states j)"]
  by (simp add: recount_def progress_ok_def count_state_def dvals_def)

lemma failures_append [simp]: "failures_ok j \<Longrightarrow> failures_ok (append_failure j r e)"
  by (auto simp: failures_ok_def append_failure_def Let_def)

lemma trail_transition [simp]: "trail_ok j \<Longrightarrow> trail_ok (transition j n s)"
  by (simp add: trail_ok_def transition_def)

lemma prefix_trail_transition [simp]: "prefix (trail j) (trail (transition j n s))"
  by (simp add: trail_def transition_def)

lemma core_trail [simp]: "trail (transition j n s) = trail j @ [(transition_seq j + 1, n, s)]"
  by (simp add: trail_def transition_def)

lemma executable_not_receipt:
  "receipt_or_executable j \<Longrightarrow> \<not> terminal (status j) \<Longrightarrow> request_fingerprint j \<noteq> [] \<and> idempotency_key_hash j \<noteq> []"
  by (auto simp: receipt_or_executable_def valid_receipt_def)

lemma executable_hash:
  "request_fingerprint j \<noteq> [] \<Longrightarrow> idempotency_key_hash j \<noteq> [] \<Longrightarrow> receipt_or_executable j"
  by (simp add: receipt_or_executable_def)

lemma terminal_simps [simp]:
  "terminal SUCCEEDED" "terminal PARTIAL" "terminal FAILED" "terminal CANCELLED" "\<not> terminal QUEUED" "\<not> terminal RUNNING"
  by (simp_all add: terminal_def)

subsection \<open>Registries\<close>

lemma dvals_dget: "dict_ok d \<Longrightarrow> v \<in> set (dvals d) \<longleftrightarrow> (\<exists>k. dget d k = Some v)"
  by (force simp: dvals_def dget_eq_Some image_iff)

lemma reg_okD:
  assumes "reg_ok reg"
  shows "dict_ok (jobs reg)" "dict_ok (keys reg)" "length (jobs reg) \<le> MAX_JOBS"
    "dget (jobs reg) k = Some j \<Longrightarrow> k \<noteq> [] \<and> job_id j = k \<and> row_ok j"
    "dget (keys reg) h = Some k \<Longrightarrow> \<exists>j. dget (jobs reg) k = Some j \<and> idempotency_key_hash j = h"
    "dget (jobs reg) k = Some j \<Longrightarrow> idempotency_key_hash j \<noteq> [] \<Longrightarrow> dget (keys reg) (idempotency_key_hash j) = Some k"
  using assms by (auto simp: reg_ok_def dest!: dget_Some_in)

lemma reg_okI:
  assumes "dict_ok (jobs reg)" "dict_ok (keys reg)" "length (jobs reg) \<le> MAX_JOBS"
    "\<And>k j. dget (jobs reg) k = Some j \<Longrightarrow> k \<noteq> [] \<and> job_id j = k \<and> row_ok j"
    "\<And>h k. dget (keys reg) h = Some k \<Longrightarrow> \<exists>j. dget (jobs reg) k = Some j \<and> idempotency_key_hash j = h"
    "\<And>k j. dget (jobs reg) k = Some j \<Longrightarrow> idempotency_key_hash j \<noteq> [] \<Longrightarrow> dget (keys reg) (idempotency_key_hash j) = Some k"
  shows "reg_ok reg"
  using assms by (auto simp: reg_ok_def dget_eq_Some)

lemma reg_ok_vals: "reg_ok reg \<Longrightarrow> j \<in> set (dvals (jobs reg)) \<longleftrightarrow> dget (jobs reg) (job_id j) = Some j"
  using reg_okD(1,4) by (metis dvals_dget)

lemma load_id: "reg_ok reg \<Longrightarrow> load reg = reg"
proof -
  assume ok: "reg_ok reg"
  have "filter (\<lambda>(h, i). dget (jobs reg) i \<noteq> None) (keys reg) = keys reg"
    using reg_okD(2,5) [OF ok] by (auto simp: filter_id_conv dget_eq_Some [OF reg_okD(2) [OF ok]] split: prod.splits)
  then show ?thesis by (simp add: load_def)
qed

lemma put_job_simps [simp]:
  "jobs (put_job reg k j) = dset (jobs reg) k j" "keys (put_job reg k j) = keys reg" "fence (put_job reg k j) = fence reg"
  by (simp_all add: put_job_def)

lemma reg_ok_put:
  assumes ok: "reg_ok reg" and j: "dget (jobs reg) k = Some j"
    and new: "row_ok j'" "job_id j' = job_id j" "idempotency_key_hash j' = idempotency_key_hash j"
  shows "reg_ok (put_job reg k j')"
proof (rule reg_okI)
  show "dict_ok (jobs (put_job reg k j'))" "dict_ok (keys (put_job reg k j'))"
    using reg_okD(1,2) [OF ok] by simp_all
  show "length (jobs (put_job reg k j')) \<le> MAX_JOBS"
    using reg_okD(3) [OF ok] j by (simp add: length_dset)
  fix k2 j2 assume a: "dget (jobs (put_job reg k j')) k2 = Some j2"
  show "k2 \<noteq> [] \<and> job_id j2 = k2 \<and> row_ok j2"
    using a reg_okD(4) [OF ok j] reg_okD(4) [OF ok, of k2 j2] new by (auto split: if_splits)
  show "dget (keys (put_job reg k j')) (idempotency_key_hash j2) = Some k2" if "idempotency_key_hash j2 \<noteq> []"
    using a that reg_okD(6) [OF ok j] reg_okD(6) [OF ok, of k2 j2] new by (auto split: if_splits)
next
  fix h i assume "dget (keys (put_job reg k j')) h = Some i"
  then show "\<exists>x. dget (jobs (put_job reg k j')) i = Some x \<and> idempotency_key_hash x = h"
    using reg_okD(5) [OF ok, of h i] j new by auto
qed

lemma drop_row_get:
  "dget (jobs (drop_row reg j)) k = (if k = job_id j then None else dget (jobs reg) k)"
  "fence (drop_row reg j) = fence reg"
  by (simp_all add: drop_row_def)

lemma reg_ok_drop:
  assumes ok: "reg_ok reg" and j: "dget (jobs reg) (job_id j) = Some j"
  shows "reg_ok (drop_row reg j)"
proof (rule reg_okI)
  note key = reg_okD(6) [OF ok]
  show "dict_ok (jobs (drop_row reg j))" "dict_ok (keys (drop_row reg j))"
    using reg_okD(1,2) [OF ok] by (simp_all add: drop_row_def)
  show "length (jobs (drop_row reg j)) \<le> MAX_JOBS"
    using reg_okD(3) [OF ok] length_dpop_le [of "jobs reg" "job_id j"] by (simp add: drop_row_def)
  fix k2 j2 assume "dget (jobs (drop_row reg j)) k2 = Some j2"
  then have a: "k2 \<noteq> job_id j" "dget (jobs reg) k2 = Some j2" by (auto simp: drop_row_get split: if_splits)
  show "k2 \<noteq> [] \<and> job_id j2 = k2 \<and> row_ok j2" using reg_okD(4) [OF ok a(2)] .
  show "dget (keys (drop_row reg j)) (idempotency_key_hash j2) = Some k2" if "idempotency_key_hash j2 \<noteq> []"
    using key [OF a(2) that] a(1) by (auto simp: drop_row_def)
next
  fix h i assume "dget (keys (drop_row reg j)) h = Some i"
  then have a: "dget (keys reg) h = Some i" "h \<noteq> idempotency_key_hash j \<or> i \<noteq> job_id j"
    by (auto simp: drop_row_def split: if_splits)
  obtain x where x: "dget (jobs reg) i = Some x" "idempotency_key_hash x = h" using reg_okD(5) [OF ok a(1)] by blast
  with a(2) j have "i \<noteq> job_id j" by auto
  with x show "\<exists>x. dget (jobs (drop_row reg j)) i = Some x \<and> idempotency_key_hash x = h" by (simp add: drop_row_get)
qed

text \<open>Rows may go and change, but none appears.\<close>

definition shrinks :: "registry \<Rightarrow> registry \<Rightarrow> bool" where
  "shrinks reg reg' = (\<forall>k j'. dget (jobs reg') k = Some j' \<longrightarrow> (\<exists>j. dget (jobs reg) k = Some j \<and> calm j j'))"

lemma shrinks_refl [simp]: "shrinks reg reg"
  by (simp add: shrinks_def)

lemma shrinks_trans: "shrinks a b \<Longrightarrow> shrinks b c \<Longrightarrow> shrinks a c"
  unfolding shrinks_def by (meson calm_trans)

lemma shrinks_put: "dget (jobs reg) k = Some j \<Longrightarrow> calm j j' \<Longrightarrow> shrinks reg (put_job reg k j')"
  by (auto simp: shrinks_def intro: calm_refl)

lemma shrinks_drop: "shrinks reg (drop_row reg j)"
  by (auto simp: shrinks_def drop_row_get split: if_splits)

lemma owned_iff:
  "owned reg k token = Inr j \<longleftrightarrow> dget (jobs reg) k = Some j \<and> lease_token j = Some token \<and> status j = RUNNING"
  by (auto simp: owned_def split: option.splits)

subsection \<open>Worker operations\<close>

locale lease_change =
  fixes f :: "job \<Rightarrow> job_error + 'a \<times> job"
  assumes identity: "f j = Inr (v, j') \<Longrightarrow> job_id j' = job_id j \<and> idempotency_key_hash j' = idempotency_key_hash j"
    and keeps: "row_ok j \<Longrightarrow> status j = RUNNING \<Longrightarrow> f j = Inr (v, j') \<Longrightarrow> row_ok j' \<and> calm j j'"
begin

lemma runs:
  assumes "reg_ok reg" "with_lease f k token reg = Inr (v, reg')"
  shows "\<exists>j j'. dget (jobs reg) k = Some j \<and> lease_token j = Some token \<and> status j = RUNNING \<and>
           f j = Inr (v, j') \<and> reg' = put_job reg k j'"
  using assms by (auto simp: with_lease_def load_id Let_def bind_res_Inr_iff owned_iff)

lemma keeps_registry:
  assumes "reg_ok reg" "with_lease f k token reg = Inr (v, reg')"
  shows "reg_ok reg' \<and> shrinks reg reg'"
proof -
  obtain j j' where r: "dget (jobs reg) k = Some j" "status j = RUNNING" "f j = Inr (v, j')" "reg' = put_job reg k j'"
    using runs [OF assms] by blast
  with keeps reg_okD(4) [OF assms(1) r(1)] have ok: "row_ok j'" "calm j j'" by blast+
  have "reg_ok reg'" using reg_ok_put [OF assms(1) r(1) ok(1)] identity [OF r(3)] r(4) by simp
  then show ?thesis using shrinks_put [OF r(1) ok(2)] r(4) by simp
qed

lemma local_effect:
  assumes "reg_ok reg" "with_lease f k token reg = Inr (v, reg')"
  shows "fence reg' = fence reg \<and> keys reg' = keys reg \<and> (\<forall>k'. k' \<noteq> k \<longrightarrow> dget (jobs reg') k' = dget (jobs reg) k')"
  using runs [OF assms] by auto

lemma stale:
  assumes "reg_ok reg" "dget (jobs reg) k = Some j" "lease_token j \<noteq> Some token"
  shows "with_lease f k token reg = Inl Lease_changed"
  using assms by (simp add: with_lease_def load_id owned_def)

end

locale row_edit =
  fixes g :: "job \<Rightarrow> job"
  assumes identity: "job_id (g j) = job_id j \<and> idempotency_key_hash (g j) = idempotency_key_hash j"
    and keeps: "row_ok j \<Longrightarrow> row_ok (g j) \<and> calm j (g j)"
begin

lemma keeps_registry:
  assumes "reg_ok reg" "on_row g k reg = Inr (v, reg')"
  shows "reg_ok reg' \<and> shrinks reg reg'"
proof (cases "dget (jobs reg) k")
  case None
  with assms show ?thesis by (simp add: on_row_def load_id)
next
  case (Some j)
  with assms have r: "reg' = put_job reg k (g j)" by (simp add: on_row_def load_id)
  from keeps reg_okD(4) [OF assms(1) Some] have ok: "row_ok (g j)" "calm j (g j)" by blast+
  show ?thesis using reg_ok_put [OF assms(1) Some ok(1)] shrinks_put [OF Some ok(2)] identity [of j] r by simp
qed

lemma local_effect:
  assumes "reg_ok reg" "on_row g k reg = Inr (v, reg')"
  shows "fence reg' = fence reg \<and> keys reg' = keys reg \<and> (\<forall>k'. k' \<noteq> k \<longrightarrow> dget (jobs reg') k' = dget (jobs reg) k')"
  using assms by (auto simp: on_row_def load_id split: option.splits)

end

text \<open>A worker operation that only returns the row it stores.\<close>

lemma lease_change_same:
  assumes "\<And>j. job_id (g j) = job_id j \<and> idempotency_key_hash (g j) = idempotency_key_hash j"
    and "\<And>j. row_ok j \<Longrightarrow> status j = RUNNING \<Longrightarrow> row_ok (g j) \<and> calm j (g j)"
  shows "lease_change (\<lambda>j. same (g j))"
  using assms by unfold_locales (auto simp: same_def)

lemma running_calm:
  assumes "status j = RUNNING" "job_kind j' = job_kind j" "items_advance j j'" "prefix (trail j) (trail j')"
    "status j' = RUNNING \<longrightarrow> lease_token j' = lease_token j"
  shows "calm j j'"
  using assms by (simp add: calm_def row_rel_def)

lemmas row_ok_defs = row_ok_def failures_ok_def trail_ok_def lease_ok_def ended_ok_def receipt_or_executable_def valid_receipt_def

text \<open>What of a row an edit may change and still keep it well formed: anything outside these fields.\<close>

lemma row_ok_cong:
  assumes "row_ok j" "status j' = status j" "progress_ok (progress j')" "failures_ok j'" "trail_ok j'"
    "lease_token j' = lease_token j" "started_at j' = started_at j" "finished_at j' = finished_at j"
    "terminal (status j) \<longrightarrow> item_states j' = item_states j \<and> pending_artifact_id j' = pending_artifact_id j"
    "dict_ok (item_states j')" "receipt_or_executable j'"
  shows "row_ok j'"
  using assms by (auto simp: row_ok_def lease_ok_def ended_ok_def)

lemma executable_cong:
  assumes "receipt_or_executable j" "\<not> terminal (status j)"
    "request_fingerprint j' = request_fingerprint j" "idempotency_key_hash j' = idempotency_key_hash j"
  shows "receipt_or_executable j'"
  using assms executable_not_receipt [OF assms(1,2)] by (simp add: executable_hash)

lemma dict_ok_ensure: "dict_ok d \<Longrightarrow> dict_ok (foldl ensure_item d refs)"
  by (induction refs arbitrary: d) (auto simp: ensure_item_def Let_def)

lemma ensure_item_keeps: "dget d r = Some s \<Longrightarrow> dget (ensure_item d a) r = Some s"
  by (auto simp: ensure_item_def Let_def)

lemma ensure_keeps: "dget d r = Some s \<Longrightarrow> dget (foldl ensure_item d refs) r = Some s"
  by (induction refs arbitrary: d) (simp_all add: ensure_item_keeps)

lemma item_le_ended:
  "s \<noteq> Item_succeeded \<and> s \<noteq> Item_failed \<Longrightarrow> item_le s Item_failed \<and> item_le s Item_succeeded"
  by (cases s) (simp_all add: item_le_def)

interpretation releasing: lease_change "\<lambda>j. same (release_row j)"
proof (rule lease_change_same)
  fix j assume ok: "row_ok j" and run: "status j = RUNNING"
  then show "row_ok (release_row j) \<and> calm j (release_row j)"
    by (auto simp: row_ok_defs release_row_def clear_lease_def trail_def intro!: running_calm items_advance_same)
qed (simp add: release_row_def clear_lease_def)

interpretation renewing: lease_change "\<lambda>j. same (renew_row t l j)" for t l
proof (rule lease_change_same)
  fix j assume ok: "row_ok j" and run: "status j = RUNNING"
  then show "row_ok (renew_row t l j) \<and> calm j (renew_row t l j)"
    by (auto simp: row_ok_defs renew_row_def trail_def intro!: running_calm items_advance_same)
qed (simp add: renew_row_def)

interpretation beginning: lease_change "\<lambda>j. same (begin_row r j)" for r
proof (rule lease_change_same)
  fix j assume ok: "row_ok j" and run: "status j = RUNNING"
  have "row_ok (begin_row r j)"
    using ok run by (auto simp: row_ok_defs begin_row_def)
  moreover have "calm j (begin_row r j)"
    using run by (auto simp: begin_row_def trail_def item_le_def intro!: running_calm items_advance_set)
  ultimately show "row_ok (begin_row r j) \<and> calm j (begin_row r j)" ..
qed (simp add: begin_row_def)

interpretation ensuring: lease_change "\<lambda>j. same (ensure_row refs u j)" for refs u
proof (rule lease_change_same)
  fix j assume ok: "row_ok j" and run: "status j = RUNNING"
  have "progress_ok (progress (ensure_row refs u j))"
    using progress_recount [of "j\<lparr>item_states := foldl ensure_item (item_states j) refs\<rparr>"]
    by (simp add: ensure_row_def set_unit_def progress_ok_def)
  then have "row_ok (ensure_row refs u j)"
    using ok run by (auto simp: row_ok_defs ensure_row_def set_unit_def dict_ok_ensure)
  moreover have "calm j (ensure_row refs u j)"
    using run by (intro running_calm) (auto simp: ensure_row_def set_unit_def trail_def items_advance_def ensure_keeps)
  ultimately show "row_ok (ensure_row refs u j) \<and> calm j (ensure_row refs u j)" ..
qed (simp add: ensure_row_def set_unit_def)

interpretation progressing: lease_change "\<lambda>j. same (progress_row n m u j)" for n m u
proof (rule lease_change_same)
  fix j assume ok: "row_ok j" and run: "status j = RUNNING"
  then show "row_ok (progress_row n m u j) \<and> calm j (progress_row n m u j)"
    by (auto simp: row_ok_defs progress_row_def set_unit_def progress_ok_def Let_def trail_def
        intro!: running_calm items_advance_same)
qed (simp add: progress_row_def set_unit_def Let_def)

interpretation completing: lease_change "\<lambda>j. same (complete_row r e j)" for r e
proof (rule lease_change_same)
  fix j assume ok: "row_ok j" and run: "status j = RUNNING"
  define j1 where "j1 = j\<lparr>item_states := dset (item_states j) r (if e \<noteq> [] then Item_failed else Item_succeeded)\<rparr>"
  have f1: "failures_ok j1" using ok by (simp add: row_ok_def j1_def failures_ok_def)
  show "row_ok (complete_row r e j) \<and> calm j (complete_row r e j)"
  proof (cases "dget (item_states j) r \<in> {Some Item_succeeded, Some Item_failed}")
    case True
    then have "complete_row r e j = j" by (simp add: complete_row_def)
    with ok show ?thesis by simp
  next
    case False
    define j2 where "j2 = (if e \<noteq> [] then append_failure j1 r e else j1)"
    from False have c: "complete_row r e j = recount j2" by (auto simp: complete_row_def Let_def j1_def j2_def)
    have f: "failures_ok j2" using f1 by (simp add: j2_def)
    have e: "receipt_or_executable (recount j2)"
      by (rule executable_cong [of j]) (use ok run in \<open>simp_all add: row_ok_def j2_def j1_def\<close>)
    have t: "trail_ok (recount j2)" using ok by (simp add: row_ok_def trail_ok_def j2_def j1_def)
    have f': "failures_ok (recount j2)" using f by (simp add: failures_ok_def)
    have "dict_ok (item_states (recount j2))" using ok by (simp add: row_ok_def j2_def j1_def)
    then have "row_ok (recount j2)"
      by (intro row_ok_cong [OF ok]) (use run e t f' in \<open>simp_all add: j2_def j1_def\<close>)
    moreover have "calm j (recount j2)"
    proof (rule running_calm [OF run])
      show "job_kind (recount j2) = job_kind j" by (simp add: j2_def j1_def)
      show "items_advance j (recount j2)"
        by (rule items_advance_set [of _ _ r "if e \<noteq> [] then Item_failed else Item_succeeded"])
          (use False in \<open>simp_all add: j2_def j1_def item_le_ended\<close>)
      show "prefix (trail j) (trail (recount j2))" by (simp add: trail_def j2_def j1_def)
      show "status (recount j2) = RUNNING \<longrightarrow> lease_token (recount j2) = lease_token j" by (simp add: j2_def j1_def)
    qed
    ultimately show ?thesis by (simp add: c)
  qed
qed (simp add: complete_row_def Let_def)

interpretation clearing: lease_change "\<lambda>j. same (clear_pending_row a j)" for a
proof (rule lease_change_same)
  fix j assume ok: "row_ok j" and run: "status j = RUNNING"
  then show "row_ok (clear_pending_row a j) \<and> calm j (clear_pending_row a j)"
    by (auto simp: row_ok_defs clear_pending_row_def trail_def intro!: running_calm items_advance_same)
qed (simp add: clear_pending_row_def)

interpretation reserving: lease_change "\<lambda>j. let j' = reserve_row fr s j in Inr ((j', pending_artifact_id j'), j')" for fr s
proof unfold_locales
  fix j v j' assume ok: "row_ok j" and run: "status j = RUNNING"
    and f: "(let j' = reserve_row fr s j in Inr ((j', pending_artifact_id j'), j')) = Inr (v, j')"
  from f have j': "j' = reserve_row fr s j" by (simp add: Let_def)
  have "row_ok (reserve_row fr s j)"
    using ok run by (cases "pending_artifact_id j \<in> {None, Some []}") (auto simp: row_ok_defs reserve_row_def)
  moreover have "calm j (reserve_row fr s j)"
    using run by (auto simp: reserve_row_def trail_def intro!: running_calm items_advance_same)
  ultimately show "row_ok j' \<and> calm j j'" by (simp add: j')
qed (auto simp: reserve_row_def Let_def)

interpretation attaching: lease_change "attach_row a" for a
proof unfold_locales
  fix j v j' assume ok: "row_ok j" and run: "status j = RUNNING" and f: "attach_row a j = Inr (v, j')"
  then show "row_ok j' \<and> calm j j'"
    by (auto simp: row_ok_defs attach_row_def trail_def split: if_splits intro!: running_calm items_advance_same)
qed (auto simp: attach_row_def split: if_splits)

subsection \<open>Ending a job\<close>

lemma compact_terminal_SomeD:
  assumes "compact_terminal cp j res = Some j'"
  shows "job_id j' = job_id j \<and> job_kind j' = job_kind j \<and> idempotency_key_hash j' = idempotency_key_hash j \<and>
     request_fingerprint j' = request_fingerprint j \<and> status j' = status j \<and> started_at j' = started_at j \<and>
     finished_at j' = finished_at j \<and> item_states j' = [] \<and> pending_artifact_id j' = None \<and> progress j' = progress (recount j) \<and>
     failures j' = failures j \<and> failure_count j' = failure_count j \<and> failures_truncated j' = failures_truncated j \<and>
     transitions j' = transitions j \<and> transition_seq j' = transition_seq j \<and> lease_token j' = lease_token j \<and>
     artifact j' = artifact j"
  using assms by (auto simp: compact_terminal_def Let_def)

text \<open>The one way a live row becomes terminal: compacted, without a lease, with one more transition.\<close>

lemma ended_row_ok:
  assumes ok: "row_ok j" and live: "\<not> terminal (status j)"
    and mid: "failures_ok m" "trail_ok m" "terminal (status m)" "finished_at m \<noteq> None"
      "request_fingerprint m = request_fingerprint j" "idempotency_key_hash m = idempotency_key_hash j"
      "prefix (trail j) (trail m)"
    and c: "compact_terminal cp m res = Some c" and lease: "lease_token (cl c) = None"
    and cl: "cl = clear_lease \<or> cl = (\<lambda>x. x)"
  shows "row_ok (transition (cl c) n s) \<and> calm j (transition (cl c) n s)"
proof -
  note D = compact_terminal_SomeD [OF c]
  have sel: "item_states (cl c) = []" "pending_artifact_id (cl c) = None" "progress (cl c) = progress (recount m)"
    "failures (cl c) = failures m" "failure_count (cl c) = failure_count m" "failures_truncated (cl c) = failures_truncated m"
    "transitions (cl c) = transitions m" "transition_seq (cl c) = transition_seq m" "status (cl c) = status m"
    "finished_at (cl c) = finished_at m" "request_fingerprint (cl c) = request_fingerprint m"
    "idempotency_key_hash (cl c) = idempotency_key_hash m"
    using D cl by (auto simp: clear_lease_def)
  have ne: "request_fingerprint j \<noteq> []" "idempotency_key_hash j \<noteq> []"
    using executable_not_receipt [OF _ live] ok by (auto simp: row_ok_def)
  have tr: "trail_ok (cl c)" using mid(2) sel by (simp add: trail_ok_def)
  have fo: "failures_ok (transition (cl c) n s)" using mid(1) sel by (simp add: failures_ok_def)
  have le: "lease_ok (transition (cl c) n s)" using lease mid(3) sel by (auto simp: lease_ok_def)
  have en: "ended_ok (transition (cl c) n s)" using mid(3,4) sel by (simp add: ended_ok_def)
  have re: "receipt_or_executable (transition (cl c) n s)" using ne mid(5,6) sel by (simp add: executable_hash)
  have okc: "row_ok (transition (cl c) n s)"
    using tr fo le en re sel by (simp add: row_ok_def)
  have "trail (cl c) = trail m" using sel by (simp add: trail_def)
  then have "prefix (trail j) (trail (transition (cl c) n s))"
    using mid(7) by (auto simp: prefix_def)
  moreover have "status m \<noteq> RUNNING" using mid(3) by auto
  ultimately have "calm j (transition (cl c) n s)"
    using live mid(3) sel by (simp add: calm_def row_rel_def)
  with okc show ?thesis ..
qed

lemma or_bad_params_Inr [simp]: "or_bad_params r = Inr j \<longleftrightarrow> r = Some j"
  by (auto simp: or_bad_params_def split: option.splits)

lemma or_bad_params_Inl [simp]: "or_bad_params r = Inl e \<longleftrightarrow> r = None \<and> e = Bad_params"
  by (auto simp: or_bad_params_def split: option.splits)

lemma clear_lease_sel [simp]:
  "job_id (clear_lease j) = job_id j" "idempotency_key_hash (clear_lease j) = idempotency_key_hash j"
  "lease_token (clear_lease j) = None" "status (clear_lease j) = status j"
  by (simp_all add: clear_lease_def)

lemma finish_row_InrD:
  assumes "finish_row cp st res err now j = Inr (v, j')"
  obtains m c where "compact_terminal cp m res = Some c" "j' = transition (clear_lease c) (status_value st) (terminal_summary m)"
    "m = (recount (if err \<noteq> [] then append_failure j ''job'' err else j))\<lparr>status := st, finished_at := Some now, inbox_synced := False\<rparr>"
  using assms by (auto simp: finish_row_def Let_def same_def bind_res_Inr_iff)

lemma lease_change_finish:
  assumes st: "terminal st"
  shows "lease_change (finish_row cp st res err now)"
proof
  fix j v j' assume f: "finish_row cp st res err now j = Inr (v, j')"
  obtain m c where mc: "compact_terminal cp m res = Some c"
    "j' = transition (clear_lease c) (status_value st) (terminal_summary m)"
    "m = (recount (if err \<noteq> [] then append_failure j ''job'' err else j))\<lparr>status := st, finished_at := Some now, inbox_synced := False\<rparr>"
    by (rule finish_row_InrD [OF f])
  define b where "b = (if err \<noteq> [] then append_failure j ''job'' err else j)"
  have msel: "failures m = failures b" "failure_count m = failure_count b" "failures_truncated m = failures_truncated b"
    "transitions m = transitions j" "transition_seq m = transition_seq j" "request_fingerprint m = request_fingerprint j"
    "idempotency_key_hash m = idempotency_key_hash j" "job_id m = job_id j" "status m = st" "finished_at m = Some now"
    by (simp_all add: mc(3) b_def)
  show "job_id j' = job_id j \<and> idempotency_key_hash j' = idempotency_key_hash j"
    using compact_terminal_SomeD [OF mc(1)] mc(2) msel by simp
  assume ok: "row_ok j" and run: "status j = RUNNING"
  have "failures_ok b" using ok by (simp add: b_def row_ok_def)
  then have "failures_ok m" using msel by (simp add: failures_ok_def)
  moreover have "trail_ok m" using ok msel by (simp add: row_ok_def trail_ok_def)
  moreover have "prefix (trail j) (trail m)" using msel by (simp add: trail_def)
  ultimately show "row_ok j' \<and> calm j j'"
    unfolding mc(2) using ok run msel st mc(1) by (intro ended_row_ok [where m = m and cp = cp and res = res]) simp_all
qed

lemma cancel_row_ok:
  assumes ok: "row_ok j" and live: "\<not> terminal (status j)" and c: "cancel_row cp now j = Inr j'"
  shows "row_ok j' \<and> calm j j' \<and> job_id j' = job_id j \<and> idempotency_key_hash j' = idempotency_key_hash j"
proof -
  define j1 where "j1 = (if cancel_requested j then j
      else transition (j\<lparr>cancel_requested := True, inbox_synced := False\<rparr>)
             ''cancel_requested'' (Plain_note ''cooperative cancellation requested''))"
  have sel: "job_id j1 = job_id j" "idempotency_key_hash j1 = idempotency_key_hash j" "request_fingerprint j1 = request_fingerprint j"
    "status j1 = status j" "item_states j1 = item_states j" "progress j1 = progress j" "lease_token j1 = lease_token j"
    "started_at j1 = started_at j" "finished_at j1 = finished_at j" "failures j1 = failures j" "failure_count j1 = failure_count j"
    "failures_truncated j1 = failures_truncated j" "job_kind j1 = job_kind j" "pending_artifact_id j1 = pending_artifact_id j"
    by (simp_all add: j1_def)
  have t0: "trail_ok (j\<lparr>cancel_requested := True, inbox_synced := False\<rparr>)" using ok by (simp add: row_ok_def trail_ok_def)
  have t1: "trail_ok j1" using ok t0 by (auto simp: j1_def row_ok_def)
  have p1: "prefix (trail j) (trail j1)" by (auto simp: j1_def) (auto simp: trail_def)
  have f1: "failures_ok j1" using ok sel by (simp add: row_ok_def failures_ok_def)
  show ?thesis
  proof (cases "status j = QUEUED")
    case True
    then obtain x where x: "compact_terminal cp (j1\<lparr>status := CANCELLED, finished_at := Some now\<rparr>) None = Some x"
      "j' = transition x ''cancelled'' (Plain_note ''cancelled before execution'')"
      using c by (auto simp: cancel_row_def j1_def [symmetric] Let_def bind_res_Inr_iff)
    have lt: "lease_token j = None" using ok True by (auto simp: row_ok_def lease_ok_def)
    have "row_ok (transition ((\<lambda>x. x) x) ''cancelled'' (Plain_note ''cancelled before execution'')) \<and>
          calm j (transition ((\<lambda>x. x) x) ''cancelled'' (Plain_note ''cancelled before execution''))"
      by (rule ended_row_ok [OF ok live _ _ _ _ _ _ _ x(1)])
        (use compact_terminal_SomeD [OF x(1)] lt sel t1 p1 f1 in \<open>simp_all add: failures_ok_def trail_ok_def trail_def\<close>)
    then show ?thesis using x compact_terminal_SomeD [OF x(1)] sel by simp
  next
    case False
    then have j': "j' = j1" using c by (auto simp: cancel_row_def j1_def [symmetric] Let_def)
    have e: "receipt_or_executable j1" by (rule executable_cong [of j]) (use ok live sel in \<open>simp_all add: row_ok_def\<close>)
    have "row_ok j1" by (rule row_ok_cong [OF ok]) (use ok sel t1 f1 e in \<open>simp_all add: row_ok_def\<close>)
    moreover have "calm j j1" using live sel p1 by (simp add: calm_def row_rel_def items_advance_same)
    ultimately show ?thesis using j' sel by simp
  qed
qed

lemma fence_row_ok:
  assumes ok: "row_ok j" and live: "\<not> terminal (status j)" and c: "fence_row cp now j = Inr j'"
  shows "row_ok j' \<and> calm j j' \<and> job_id j' = job_id j \<and> idempotency_key_hash j' = idempotency_key_hash j"
proof -
  define j1 where "j1 = j\<lparr>cancel_requested := True, inbox_synced := False\<rparr>"
  have core: "core_of j1 = core_of j" by (simp add: j1_def core_of_def trail_def)
  have sel: "job_id j1 = job_id j" "idempotency_key_hash j1 = idempotency_key_hash j" "request_fingerprint j1 = request_fingerprint j"
    "lease_token j1 = lease_token j" "status j1 = status j" "failures_ok j1 = failures_ok j" "trail_ok j1 = trail_ok j"
    "trail j1 = trail j"
    by (simp_all add: j1_def failures_ok_def trail_ok_def trail_def)
  show ?thesis
  proof (cases "status j = QUEUED")
    case True
    then obtain x where x: "compact_terminal cp (j1\<lparr>status := CANCELLED, finished_at := Some now\<rparr>) None = Some x"
      "j' = transition x ''cancelled'' (Plain_note ''cancelled by factory reset fence'')"
      using c by (auto simp: fence_row_def j1_def [symmetric] Let_def bind_res_Inr_iff)
    have lt: "lease_token j = None" using ok True by (auto simp: row_ok_def lease_ok_def)
    have "row_ok (transition ((\<lambda>x. x) x) ''cancelled'' (Plain_note ''cancelled by factory reset fence'')) \<and>
          calm j (transition ((\<lambda>x. x) x) ''cancelled'' (Plain_note ''cancelled by factory reset fence''))"
      by (rule ended_row_ok [OF ok live _ _ _ _ _ _ _ x(1)])
        (use ok compact_terminal_SomeD [OF x(1)] lt sel in \<open>simp_all add: row_ok_def failures_ok_def trail_ok_def trail_def\<close>)
    then show ?thesis using x compact_terminal_SomeD [OF x(1)] sel by simp
  next
    case False
    then have j': "j' = j1" using c by (auto simp: fence_row_def j1_def [symmetric] Let_def)
    have "row_ok j1" using ok live by (auto simp: row_ok_defs j1_def)
    then show ?thesis using j' calm_core [OF core sel(4)] sel by simp
  qed
qed

subsection \<open>Edits without a lease\<close>

lemma core_edit_ok:
  assumes "row_ok j" "core_of j' = core_of j" "request_fingerprint j' = request_fingerprint j"
    "failures_truncated j' = failures_truncated j" "transition_seq j' = transition_seq j" "lease_token j' = lease_token j"
    "terminal (status j) \<longrightarrow> pending_artifact_id j' = None"
    "receipt_or_executable j'"
  shows "row_ok j' \<and> calm j j'"
proof -
  have sq: "map t_seq (transitions j') = map t_seq (transitions j)"
  proof -
    have "map fst (trail j') = map fst (trail j)" using assms(2) by (simp add: core_of_def)
    then show ?thesis by (simp add: trail_def comp_def)
  qed
  then have len: "length (transitions j') = length (transitions j)" by (metis length_map)
  have "trail_ok j'" using assms(1,5) sq len by (simp add: row_ok_def trail_ok_def)
  then have "row_ok j'" using assms by (auto simp: row_ok_def core_of_def failures_ok_def lease_ok_def ended_ok_def)
  then show ?thesis using calm_core [OF assms(2,6)] by simp
qed

interpretation expiring: row_edit "expire_if a" for a
proof
  fix j assume ok: "row_ok j"
  have rx: "receipt_or_executable (expire_row j)"
    using ok by (auto simp: row_ok_def receipt_or_executable_def valid_receipt_def expire_row_def)
  have "row_ok (expire_row j) \<and> calm j (expire_row j)"
    by (rule core_edit_ok [OF ok _ _ _ _ _ _ rx])
      (use ok in \<open>simp_all add: expire_row_def core_of_def trail_def row_ok_def ended_ok_def\<close>)
  then show "row_ok (expire_if a j) \<and> calm j (expire_if a j)" using ok by (simp add: expire_if_def)
qed (simp add: expire_if_def expire_row_def)

interpretation syncing: row_edit "\<lambda>j. j\<lparr>inbox_synced := b\<rparr>" for b
proof
  fix j assume ok: "row_ok j"
  then have "receipt_or_executable (j\<lparr>inbox_synced := b\<rparr>)"
    by (auto simp: row_ok_def receipt_or_executable_def valid_receipt_def)
  then show "row_ok (j\<lparr>inbox_synced := b\<rparr>) \<and> calm j (j\<lparr>inbox_synced := b\<rparr>)"
    by (intro core_edit_ok [OF ok]) (use ok in \<open>simp_all add: core_of_def trail_def row_ok_def ended_ok_def\<close>)
qed simp

lemma trail_audit_first: "map (\<lambda>t. (t_seq t, t_name t, t_summary t)) (audit_first n ts) = map (\<lambda>t. (t_seq t, t_name t, t_summary t)) ts"
  by (induction ts) auto

interpretation auditing: row_edit "\<lambda>j. j\<lparr>transitions := audit_first n (transitions j)\<rparr>" for n
proof
  fix j assume ok: "row_ok j"
  then have "receipt_or_executable (j\<lparr>transitions := audit_first n (transitions j)\<rparr>)"
    by (auto simp: row_ok_def receipt_or_executable_def valid_receipt_def)
  then show "row_ok (j\<lparr>transitions := audit_first n (transitions j)\<rparr>) \<and> calm j (j\<lparr>transitions := audit_first n (transitions j)\<rparr>)"
    by (intro core_edit_ok [OF ok]) (use ok in \<open>simp_all add: core_of_def trail_def trail_audit_first row_ok_def ended_ok_def\<close>)
qed simp

interpretation unauditing: row_edit unaudit_row
proof
  fix j assume ok: "row_ok j"
  then have "receipt_or_executable (unaudit_row j)"
    by (auto simp: row_ok_def receipt_or_executable_def valid_receipt_def unaudit_row_def)
  then show "row_ok (unaudit_row j) \<and> calm j (unaudit_row j)"
    by (intro core_edit_ok [OF ok]) (use ok in \<open>simp_all add: unaudit_row_def core_of_def trail_def comp_def row_ok_def ended_ok_def\<close>)
qed (simp add: unaudit_row_def)

subsection \<open>Claims\<close>

lemma recover_item_sel [simp]:
  "job_id (recover_item j r) = job_id j" "job_kind (recover_item j r) = job_kind j"
  "idempotency_key_hash (recover_item j r) = idempotency_key_hash j"
  "request_fingerprint (recover_item j r) = request_fingerprint j" "status (recover_item j r) = status j"
  "started_at (recover_item j r) = started_at j" "finished_at (recover_item j r) = finished_at j"
  "transitions (recover_item j r) = transitions j" "transition_seq (recover_item j r) = transition_seq j"
  "lease_token (recover_item j r) = lease_token j" "lease_expires_at_millis (recover_item j r) = lease_expires_at_millis j"
  by (simp_all add: recover_item_def)

lemma recover_fold_sel [simp]:
  "job_id (foldl recover_item j rs) = job_id j" "job_kind (foldl recover_item j rs) = job_kind j"
  "idempotency_key_hash (foldl recover_item j rs) = idempotency_key_hash j"
  "request_fingerprint (foldl recover_item j rs) = request_fingerprint j" "status (foldl recover_item j rs) = status j"
  "started_at (foldl recover_item j rs) = started_at j" "finished_at (foldl recover_item j rs) = finished_at j"
  "transitions (foldl recover_item j rs) = transitions j" "transition_seq (foldl recover_item j rs) = transition_seq j"
  "lease_token (foldl recover_item j rs) = lease_token j"
  "lease_expires_at_millis (foldl recover_item j rs) = lease_expires_at_millis j"
  by (induction rs arbitrary: j) simp_all

lemma recover_item_ok: "failures_ok j \<and> dict_ok (item_states j) \<Longrightarrow> failures_ok (recover_item j r) \<and> dict_ok (item_states (recover_item j r))"
proof -
  assume a: "failures_ok j \<and> dict_ok (item_states j)"
  then have "failures_ok (j\<lparr>item_states := d\<rparr>)" for d by (simp add: failures_ok_def)
  with a show ?thesis by (simp add: recover_item_def)
qed

lemma recover_fold_ok:
  "failures_ok j \<and> dict_ok (item_states j) \<Longrightarrow> failures_ok (foldl recover_item j rs) \<and> dict_ok (item_states (foldl recover_item j rs))"
  by (induction rs arbitrary: j) (simp_all add: recover_item_ok)

lemma recover_fold_advance:
  assumes "\<not> retry_safe (job_kind j)" "\<forall>r \<in> set rs. dget (item_states j) r \<in> {Some Processing, Some Item_failed}"
  shows "items_advance j (foldl recover_item j rs)"
  using assms
proof (induction rs arbitrary: j)
  case Nil
  then show ?case by simp
next
  case (Cons r rs)
  have one: "items_advance j (recover_item j r)"
    by (rule items_advance_set [of _ _ r Item_failed])
      (use Cons.prems in \<open>auto simp: recover_item_def item_le_def\<close>)
  have "\<forall>x \<in> set rs. dget (item_states (recover_item j r)) x \<in> {Some Processing, Some Item_failed}"
    using Cons.prems by (auto simp: recover_item_def)
  then have "items_advance (recover_item j r) (foldl recover_item (recover_item j r) rs)"
    using Cons.prems by (intro Cons.IH) simp_all
  with one show ?case by (auto intro: items_advance_trans)
qed

lemma recover_items_advance:
  assumes "dict_ok (item_states j)" "\<not> retry_safe (job_kind j)"
  shows "items_advance j (recover_items j)"
  unfolding recover_items_def
  by (rule recover_fold_advance [OF assms(2)]) (auto simp: dget_eq_Some [OF assms(1)])

lemma claim_row_ok:
  assumes ok: "row_ok j" and live: "\<not> terminal (status j)"
    and j'_def: "j' = claim_row owner token t l now j"
  shows "row_ok j' \<and> row_rel j j' \<and> job_id j' = job_id j \<and> idempotency_key_hash j' = idempotency_key_hash j \<and>
    status j' = RUNNING \<and> lease_token j' = Some token"
proof -
  define j1 where "j1 = j\<lparr>status := RUNNING, inbox_synced := False, lease_owner := Some owner, lease_token := Some token,
                 lease_expires_at_millis := t + max 30000 l\<rparr>"
  have ne: "request_fingerprint j \<noteq> []" "idempotency_key_hash j \<noteq> []"
    using executable_not_receipt [OF _ live] ok by (auto simp: row_ok_def)
  have fin: "finished_at j = None" using ok live by (auto simp: row_ok_def ended_ok_def)
  have base: "trail_ok j1" "failures_ok j1" "dict_ok (item_states j1)" "progress_ok (progress j1)" "trail j1 = trail j"
    using ok by (simp_all add: j1_def row_ok_def trail_ok_def failures_ok_def trail_def)
  consider (start) "started_at j = None" | (resume) "started_at j \<noteq> None" "status j = RUNNING"
    | (again) "started_at j \<noteq> None" "status j \<noteq> RUNNING" by blast
  then show ?thesis
  proof cases
    case start
    then have j': "j' = transition (j1\<lparr>started_at := Some now\<rparr>) ''started'' (Plain_note ''server worker claimed queued job'')"
      by (simp add: j'_def claim_row_def j1_def Let_def)
    have tr: "trail_ok (j1\<lparr>started_at := Some now\<rparr>)" using base by (simp add: trail_ok_def)
    have "row_ok j'" unfolding j'
      using trail_transition [OF tr] base ne fin by (simp add: row_ok_def lease_ok_def ended_ok_def failures_ok_def executable_hash) (simp add: j1_def lease_ok_def ended_ok_def executable_hash)
    moreover have "row_rel j j'" unfolding j' using live base(5)
      by (simp add: row_rel_def items_advance_same) (simp add: j1_def trail_def items_advance_same)
    ultimately show ?thesis unfolding j' by (simp add: j1_def)
  next
    case resume
    define r where "r = recover_items (forget_reservation j1)"
    have j': "j' = transition (recount r) ''resumed'' (Plain_note ''expired worker lease recovered'')"
      using resume by (auto simp: j'_def claim_row_def j1_def r_def Let_def)
    have fsel: "job_id (forget_reservation j1) = job_id j" "job_kind (forget_reservation j1) = job_kind j"
      "idempotency_key_hash (forget_reservation j1) = idempotency_key_hash j"
      "request_fingerprint (forget_reservation j1) = request_fingerprint j" "status (forget_reservation j1) = RUNNING"
      "started_at (forget_reservation j1) = started_at j" "finished_at (forget_reservation j1) = finished_at j"
      "transitions (forget_reservation j1) = transitions j" "transition_seq (forget_reservation j1) = transition_seq j"
      "lease_token (forget_reservation j1) = Some token" "item_states (forget_reservation j1) = item_states j"
      "failures_ok (forget_reservation j1) = failures_ok j"
      by (simp_all add: forget_reservation_def j1_def failures_ok_def)
    have sel: "job_id r = job_id j" "job_kind r = job_kind j" "idempotency_key_hash r = idempotency_key_hash j"
      "request_fingerprint r = request_fingerprint j" "status r = RUNNING" "started_at r = started_at j"
      "finished_at r = None" "transitions r = transitions j" "transition_seq r = transition_seq j" "lease_token r = Some token"
      by (simp_all add: r_def recover_items_def fsel fin)
    have f: "failures_ok r \<and> dict_ok (item_states r)"
      unfolding r_def recover_items_def by (rule recover_fold_ok) (use ok fsel in \<open>simp add: row_ok_def\<close>)
    have tr: "trail_ok (recount r)" using ok sel by (simp add: row_ok_def trail_ok_def)
    have fr: "failures_ok (transition (recount r) n s)" for n s using f by (simp add: failures_ok_def)
    have "row_ok j'" unfolding j'
      using trail_transition [OF tr] fr f ne resume sel by (simp add: row_ok_def lease_ok_def ended_ok_def executable_hash)
    moreover have "items_advance j r" if "\<not> retry_safe (job_kind j)"
      using recover_items_advance [of "forget_reservation j1"] that base(3) fsel
      by (simp add: r_def items_advance_def j1_def)
    then have "row_rel j j'" unfolding j' using live sel
      by (simp add: row_rel_def items_advance_def) (simp add: trail_def)
    ultimately show ?thesis unfolding j' using sel by simp
  next
    case again
    then have j': "j' = j1" by (auto simp: j'_def claim_row_def j1_def Let_def)
    have "row_ok j1" using base ne fin again by (simp add: row_ok_def j1_def lease_ok_def ended_ok_def executable_hash)
    moreover have "row_rel j j1" using live base(5) by (simp add: row_rel_def) (simp add: j1_def items_advance_same)
    ultimately show ?thesis unfolding j' by (simp add: j1_def)
  qed
qed

lemma claim_row_expiry: "lease_expires_at_millis (claim_row owner token t l now j) = t + max 30000 l"
  by (simp add: claim_row_def Let_def recover_items_def forget_reservation_def)

lemma first_min_Some: "first_min f xs = Some x \<Longrightarrow> x \<in> set xs \<and> (\<forall>y \<in> set xs. f x \<le> f y)"
proof (induction xs arbitrary: x)
  case (Cons a xs)
  show ?case
  proof (cases "first_min f xs")
    case None
    then have "xs = []" by (cases xs) (auto split: option.splits)
    with Cons.prems show ?thesis by simp
  next
    case (Some y)
    from Cons.IH [OF Some] have y: "y \<in> set xs" "\<And>z. z \<in> set xs \<Longrightarrow> f y \<le> f z" by auto
    from Cons.prems Some have x: "x = (if f a \<le> f y then a else y)" by simp
    show ?thesis
    proof (cases "f a \<le> f y")
      case True
      with x y show ?thesis by (auto intro: order_trans)
    next
      case False
      with x y show ?thesis by auto
    qed
  qed
qed simp

lemma first_min_None: "first_min f xs = None \<longleftrightarrow> xs = []"
  by (cases xs) (auto split: option.splits)

lemma claim_next_cases:
  assumes ok: "reg_ok reg" and c: "claim_next snap raw owner token t l now reg = Inr (v, reg')"
  shows "v = None \<and> reg' = reg \<or>
    (\<exists>j. dget (jobs reg) (job_id j) = Some j \<and> claimable (fence reg) t j \<and>
       (\<forall>i \<in> set (dvals (jobs reg)). claimable (fence reg) t i \<longrightarrow> (created_at j, job_id j) \<le> (created_at i, job_id i)) \<and>
       v = Some (claim_row owner token t l now j, token) \<and> reg' = put_job reg (job_id j) (claim_row owner token t l now j))"
proof (cases "\<exists>j \<in> set (dvals (jobs snap)). claimable (fence raw) t j")
  case False
  with c show ?thesis by (simp add: claim_next_def)
next
  case True
  note c' = c [unfolded claim_next_def load_id [OF ok] Let_def]
  show ?thesis
  proof (cases "first_min (\<lambda>j. (created_at j, job_id j)) (filter (claimable (fence reg) t) (dvals (jobs reg)))")
    case None
    with c' True show ?thesis by simp
  next
    case (Some j)
    from first_min_Some [OF Some] have j: "j \<in> set (dvals (jobs reg))" "claimable (fence reg) t j"
      "\<forall>i \<in> set (dvals (jobs reg)). claimable (fence reg) t i \<longrightarrow> (created_at j, job_id j) \<le> (created_at i, job_id i)"
      by auto
    have d: "dget (jobs reg) (job_id j) = Some j" using j(1) reg_ok_vals [OF ok] by simp
    have live: "\<not> terminal (status j)" using j(2) by (auto simp: claimable_def)
    have "job_id (claim_row owner token t l now j) = job_id j"
      using claim_row_ok [OF _ live refl] reg_okD(4) [OF ok d] by blast
    then have "v = Some (claim_row owner token t l now j, token)" "reg' = put_job reg (job_id j) (claim_row owner token t l now j)"
      using c' True Some by simp_all
    with d j show ?thesis by blast
  qed
qed

end
