(* ===== verification/Job_Safety.thy ===== *)
theory Job_Safety
  imports Job_Rows "HOL-Library.Multiset"
begin

section \<open>The job registry: what its operations guarantee\<close>

text \<open>
  Every operation of \<^verbatim>\<open>stores/jobs.py\<close> as a step on the registry, the invariant all reachable
  registries share, and the promises that rest on it: a lost lease is powerless, a finished job
  stays as it finished, an item with side effects is never run twice, one key names one job, and
  the factory fence stops everything but its owner.
\<close>

subsection \<open>Registry-wide changes\<close>

lemma dvals_ids: "reg_ok reg \<Longrightarrow> map job_id (dvals (jobs reg)) = dkeys (jobs reg)"
  by (auto simp: reg_ok_def dvals_def dkeys_def)

lemma distinct_ids: "reg_ok reg \<Longrightarrow> distinct (map job_id (filter P (dvals (jobs reg))))"
  by (metis dvals_ids distinct_dkeys reg_okD(1) distinct_map_filter)

lemma sort_desc_set [simp]: "set (sort_desc f xs) = set xs"
  by (simp add: sort_desc_def)

lemma sort_desc_distinct: "distinct (map g (sort_desc f xs)) = distinct (map g xs)"
proof -
  have "mset (map g (sort_desc f xs)) = mset (map g xs)"
    unfolding sort_desc_def by (simp only: mset_map mset_rev mset_sort)
  then show ?thesis by (metis mset_eq_imp_distinct_iff)
qed

lemma expired_rows:
  assumes "reg_ok reg" "rows = drop n (sort_desc age_key (filter P (dvals (jobs reg))))"
  shows "distinct (map job_id rows) \<and> (\<forall>j \<in> set rows. dget (jobs reg) (job_id j) = Some j \<and> P j)"
proof -
  have "distinct (map job_id (sort_desc age_key (filter P (dvals (jobs reg)))))"
    using distinct_ids [OF assms(1)] by (simp add: sort_desc_distinct)
  then have "distinct (map job_id rows)" using assms(2) by (simp add: drop_map [symmetric])
  moreover have "\<forall>j \<in> set rows. j \<in> set (dvals (jobs reg)) \<and> P j"
    using assms(2) by (auto dest: in_set_dropD)
  ultimately show ?thesis using reg_ok_vals [OF assms(1)] by blast
qed

lemma expire_row_ok:
  assumes "row_ok j" shows "row_ok (expire_row j) \<and> calm j (expire_row j)"
proof -
  have rx: "receipt_or_executable (expire_row j)"
    using assms by (auto simp: row_ok_def receipt_or_executable_def valid_receipt_def expire_row_def)
  show ?thesis
    by (rule core_edit_ok [OF assms _ _ _ _ _ _ rx])
      (use assms in \<open>simp_all add: expire_row_def core_of_def trail_def row_ok_def ended_ok_def\<close>)
qed

lemma expire_row_sel [simp]:
  "job_id (expire_row j) = job_id j" "idempotency_key_hash (expire_row j) = idempotency_key_hash j"
  by (simp_all add: expire_row_def)

lemma expire_rows_ok:
  assumes "reg_ok reg" "distinct (map job_id rows)" "\<forall>j \<in> set rows. dget (jobs reg) (job_id j) = Some j"
  shows "reg_ok (expire_rows reg rows) \<and> shrinks reg (expire_rows reg rows) \<and>
    keys (expire_rows reg rows) = keys reg \<and> fence (expire_rows reg rows) = fence reg \<and>
    length (jobs (expire_rows reg rows)) = length (jobs reg)"
  using assms
proof (induction rows arbitrary: reg)
  case Nil
  then show ?case by (simp add: expire_rows_def)
next
  case (Cons j rows)
  define r1 where "r1 = put_job reg (job_id j) (expire_row j)"
  have d: "dget (jobs reg) (job_id j) = Some j" using Cons.prems by simp
  have e: "row_ok (expire_row j)" "calm j (expire_row j)"
    using expire_row_ok reg_okD(4) [OF Cons.prems(1) d] by blast+
  have ok1: "reg_ok r1" unfolding r1_def by (rule reg_ok_put [OF Cons.prems(1) d e(1)]) simp_all
  have s1: "shrinks reg r1" unfolding r1_def by (rule shrinks_put [OF d e(2)])
  have "job_id x \<noteq> job_id j" if "x \<in> set rows" for x using Cons.prems(2) that by (auto simp: image_iff)
  then have "\<forall>x \<in> set rows. dget (jobs r1) (job_id x) = Some x" using Cons.prems(3) by (simp add: r1_def)
  from Cons.IH [OF ok1 _ this] Cons.prems(2)
  have "reg_ok (expire_rows r1 rows) \<and> shrinks r1 (expire_rows r1 rows) \<and> keys (expire_rows r1 rows) = keys r1 \<and>
    fence (expire_rows r1 rows) = fence r1 \<and> length (jobs (expire_rows r1 rows)) = length (jobs r1)" by simp
  moreover have "expire_rows reg (j # rows) = expire_rows r1 rows" by (simp add: expire_rows_def r1_def)
  moreover have "length (jobs r1) = length (jobs reg)" using d by (simp add: r1_def length_dset)
  ultimately show ?case using shrinks_trans [OF s1] by (simp add: r1_def)
qed

lemma make_room_ok:
  assumes "reg_ok reg" "make_room n reg pr = Inr (reg', pr')"
  shows "reg_ok reg' \<and> shrinks reg reg' \<and> length (jobs reg') < MAX_JOBS \<and> fence reg' = fence reg \<and>
    (\<forall>h k. dget (keys reg') h = Some k \<longrightarrow> dget (keys reg) h = Some k)"
  using assms
proof (induction n reg pr rule: make_room.induct)
  case (1 n reg pr)
  show ?case
  proof (cases "length (jobs reg) < MAX_JOBS")
    case True
    with 1(2,3) show ?thesis by (simp add: make_room.simps [of n])
  next
    case False
    with 1(3) obtain victim m where v: "first_min age_key (filter (\<lambda>j. terminal (status j)) (dvals (jobs reg))) = Some victim"
      "n = Suc m" "make_room m (drop_row reg victim) (pr @ meta_of victim) = Inr (reg', pr')"
      by (auto simp: make_room.simps [of n] split: option.splits nat.splits)
    from first_min_Some [OF v(1)] reg_ok_vals [OF 1(2)] have d: "dget (jobs reg) (job_id victim) = Some victim" by auto
    note IH = 1(1) [OF False v(1) v(2) reg_ok_drop [OF 1(2) d] v(3)]
    have "\<forall>h k. dget (keys (drop_row reg victim)) h = Some k \<longrightarrow> dget (keys reg) h = Some k"
      by (simp add: drop_row_def)
    with IH show ?thesis using shrinks_trans [OF shrinks_drop [of reg victim]] by (simp add: drop_row_get)
  qed
qed

lemma make_room_progress:
  assumes "reg_ok reg" "length (jobs reg) \<le> n"
  shows "make_room n reg pr \<noteq> Inl No_progress"
  using assms
proof (induction n reg pr rule: make_room.induct)
  case (1 n reg pr)
  show ?case
  proof (cases "length (jobs reg) < MAX_JOBS")
    case True
    then show ?thesis by (simp add: make_room.simps [of n])
  next
    case False
    have pos: "0 < length (jobs reg)" using False by (cases "jobs reg") (simp_all add: MAX_JOBS_def)
    with 1(3) obtain m where m: "n = Suc m" by (cases n) auto
    show ?thesis
    proof (cases "first_min age_key (filter (\<lambda>j. terminal (status j)) (dvals (jobs reg)))")
      case None
      with False show ?thesis by (simp add: make_room.simps [of n])
    next
      case (Some victim)
      from first_min_Some [OF Some] reg_ok_vals [OF 1(2)] have d: "dget (jobs reg) (job_id victim) = Some victim" by auto
      have "length (jobs (drop_row reg victim)) \<le> m"
        using length_dpop [OF reg_okD(1) [OF 1(2)], of "job_id victim"] d pos 1(3) m by (simp add: drop_row_def)
      with 1(1) [OF False Some m reg_ok_drop [OF 1(2) d]] False Some m show ?thesis by (simp add: make_room.simps [of "Suc m"])
    qed
  qed
qed

lemma reg_ok_add:
  assumes ok: "reg_ok reg" and sub: "submittable j reg" and room: "length (jobs reg) < MAX_JOBS"
    and free: "dget (keys reg) (idempotency_key_hash j) = None"
  shows "reg_ok ((put_job reg (job_id j) j)\<lparr>keys := dset (keys reg) (idempotency_key_hash j) (job_id j), fence := F\<rparr>)"
    (is "reg_ok ?r")
proof (rule reg_okI)
  have s: "job_id j \<noteq> []" "dget (jobs reg) (job_id j) = None" "row_ok j" using sub by (simp_all add: submittable_def)
  show "dict_ok (jobs ?r)" "dict_ok (keys ?r)" using reg_okD(1,2) [OF ok] by simp_all
  show "length (jobs ?r) \<le> MAX_JOBS" using room s by (simp add: length_dset)
  fix k i assume a: "dget (jobs ?r) k = Some i"
  show "k \<noteq> [] \<and> job_id i = k \<and> row_ok i" using a s reg_okD(4) [OF ok, of k i] by (auto split: if_splits)
  show "dget (keys ?r) (idempotency_key_hash i) = Some k" if "idempotency_key_hash i \<noteq> []"
    using a s that free reg_okD(6) [OF ok, of k i] by (auto split: if_splits)
next
  fix h k assume a: "dget (keys ?r) h = Some k"
  show "\<exists>i. dget (jobs ?r) k = Some i \<and> idempotency_key_hash i = h"
  proof (cases "h = idempotency_key_hash j")
    case True
    with a show ?thesis by simp
  next
    case False
    with a reg_okD(5) [OF ok, of h k] obtain i where "dget (jobs reg) k = Some i" "idempotency_key_hash i = h" by auto
    with False sub show ?thesis by (auto simp: submittable_def)
  qed
qed

lemma admit_ok:
  assumes ok: "reg_ok reg" and sub: "submittable j reg" and free: "dget (keys reg) (idempotency_key_hash j) = None"
    and a: "admit jsize j rec reg = Inr (v, reg')"
  shows "reg_ok reg' \<and> dget (jobs reg') (job_id j) = Some j \<and> dget (keys reg') (idempotency_key_hash j) = Some (job_id j) \<and>
    fence reg' = (if rec then job_id j else fence reg) \<and> (\<exists>arts. v = (j, True, arts)) \<and>
    (\<forall>k i. k \<noteq> job_id j \<longrightarrow> dget (jobs reg') k = Some i \<longrightarrow> (\<exists>i0. dget (jobs reg) k = Some i0 \<and> calm i0 i))"
proof -
  obtain reg1 pr where m: "make_room (length (jobs reg)) reg [] = Inr (reg1, pr)"
    using a by (auto simp: admit_def bind_res_Inr_iff)
  note M = make_room_ok [OF ok m]
  define rows where "rows = drop (MAX_RETAINED_ARTIFACTS - 1)
    (sort_desc age_key (filter (\<lambda>r. terminal (status r) \<and> artifact r \<noteq> None) (dvals (jobs reg1))))"
  define reg2 where "reg2 = expire_rows reg1 rows"
  have X: "reg_ok reg2 \<and> shrinks reg1 reg2 \<and> keys reg2 = keys reg1 \<and> fence reg2 = fence reg1 \<and> length (jobs reg2) = length (jobs reg1)"
    unfolding reg2_def using expired_rows [OF _ rows_def] M by (intro expire_rows_ok) blast+
  have r': "reg' = (put_job reg2 (job_id j) j)\<lparr>keys := dset (keys reg2) (idempotency_key_hash j) (job_id j),
      fence := (if rec then job_id j else fence reg2)\<rparr>" and v: "\<exists>arts. v = (j, True, arts)"
    using a [unfolded admit_def m bind_res_simps prod.case Let_def, folded rows_def, folded reg2_def]
    by (auto split: if_splits)
  have sh: "shrinks reg reg2" using M X shrinks_trans by blast
  have "dget (jobs reg2) (job_id j) = None"
    using sh sub unfolding shrinks_def submittable_def by (metis not_Some_eq)
  then have sub2: "submittable j reg2" using sub by (simp add: submittable_def)
  have free2: "dget (keys reg2) (idempotency_key_hash j) = None"
    using M X free by (metis not_None_eq)
  have "reg_ok reg'" unfolding r' by (rule reg_ok_add) (use X M sub2 free2 in simp_all)
  then show ?thesis using v M X sh by (auto simp: r' shrinks_def)
qed

text \<open>A change of all rows at once, each kept well formed under its own name.\<close>

lemma reg_ok_pointwise:
  assumes ok: "reg_ok reg" and ks: "dkeys d = dkeys (jobs reg)"
    and each: "\<And>k x y. dget (jobs reg) k = Some x \<Longrightarrow> dget d k = Some y \<Longrightarrow>
        row_ok y \<and> calm x y \<and> job_id y = job_id x \<and> idempotency_key_hash y = idempotency_key_hash x"
  shows "reg_ok (reg\<lparr>jobs := d, fence := F\<rparr>) \<and> shrinks reg (reg\<lparr>jobs := d, fence := F\<rparr>)"
proof -
  have dom: "(dget d k = None) = (dget (jobs reg) k = None)" for k using ks by (simp add: dget_None_iff)
  have len: "length d = length (jobs reg)" using ks by (metis dkeys_def length_map)
  have old: "\<exists>x. dget (jobs reg) k = Some x \<and> row_ok y \<and> calm x y \<and> job_id y = job_id x \<and> idempotency_key_hash y = idempotency_key_hash x"
    if "dget d k = Some y" for k y using that dom [of k] each [of k _ y] by auto
  have "reg_ok (reg\<lparr>jobs := d, fence := F\<rparr>)"
  proof (rule reg_okI)
    show "dict_ok (jobs (reg\<lparr>jobs := d, fence := F\<rparr>))" "dict_ok (keys (reg\<lparr>jobs := d, fence := F\<rparr>))"
      "length (jobs (reg\<lparr>jobs := d, fence := F\<rparr>)) \<le> MAX_JOBS"
      using reg_okD(1-3) [OF ok] ks len by (simp_all add: distinct_dkeys)
    fix k y assume "dget (jobs (reg\<lparr>jobs := d, fence := F\<rparr>)) k = Some y"
    then obtain x where x: "dget (jobs reg) k = Some x" "row_ok y" "job_id y = job_id x" "idempotency_key_hash y = idempotency_key_hash x"
      using old by auto
    show "k \<noteq> [] \<and> job_id y = k \<and> row_ok y" using reg_okD(4) [OF ok x(1)] x by simp
    show "dget (keys (reg\<lparr>jobs := d, fence := F\<rparr>)) (idempotency_key_hash y) = Some k" if "idempotency_key_hash y \<noteq> []"
      using reg_okD(6) [OF ok x(1)] x that by simp
  next
    fix h k assume "dget (keys (reg\<lparr>jobs := d, fence := F\<rparr>)) h = Some k"
    then obtain x where x: "dget (jobs reg) k = Some x" "idempotency_key_hash x = h" using reg_okD(5) [OF ok, of h k] by auto
    with dom [of k] obtain y where "dget d k = Some y" by auto
    with old [OF this] x show "\<exists>y. dget (jobs (reg\<lparr>jobs := d, fence := F\<rparr>)) k = Some y \<and> idempotency_key_hash y = h" by auto
  qed
  moreover have "shrinks reg (reg\<lparr>jobs := d, fence := F\<rparr>)" unfolding shrinks_def using old by fastforce
  ultimately show ?thesis ..
qed

lemma fence_rows_get:
  assumes "fence_rows cp now k rows = Inr (d, arts)"
  shows "dkeys d = dkeys rows \<and> (\<forall>i x. dget rows i = Some x \<longrightarrow>
     (if i = k \<or> terminal (status x) then dget d i = Some x else \<exists>y. fence_row cp now x = Inr y \<and> dget d i = Some y))"
  using assms
proof (induction rows arbitrary: d arts)
  case Nil
  then show ?case by simp
next
  case (Cons r rows)
  obtain i x where r: "r = (i, x)" by (cases r) auto
  show ?case
  proof (cases "i = k \<or> terminal (status x)")
    case True
    with Cons.prems r obtain d' where d': "fence_rows cp now k rows = Inr (d', arts)" "d = (i, x) # d'"
      by (auto simp: bind_res_Inr_iff)
    from Cons.IH [OF d'(1)] True d'(2) r show ?thesis by (simp add: dkeys_def dget_Cons)
  next
    case False
    with Cons.prems r obtain y d' arts' where d': "fence_rows cp now k rows = Inr (d', arts')" "d = (i, y) # d'"
      "fence_row cp now x = Inr y"
      by (auto simp: bind_res_Inr_iff)
    from Cons.IH [OF d'(1)] False d' r show ?thesis by (simp add: dkeys_def dget_Cons)
  qed
qed

lemma begin_fence_ok:
  assumes ok: "reg_ok reg" and b: "begin_factory_fence cp now k token reg = Inr (v, reg')"
  shows "reg_ok reg' \<and> shrinks reg reg' \<and> fence reg' = k \<and> (fence reg = [] \<or> fence reg = k) \<and>
    (\<exists>j. dget (jobs reg) k = Some j \<and> lease_token j = Some token \<and> status j = RUNNING)"
proof -
  obtain j d arts where j: "dget (jobs reg) k = Some j" "lease_token j = Some token" "status j = RUNNING"
    and f: "fence reg = [] \<or> fence reg = k" and d: "fence_rows cp now k (jobs reg) = Inr (d, arts)"
    and r': "reg' = reg\<lparr>jobs := d, fence := k\<rparr>"
    using b unfolding begin_factory_fence_def load_id [OF ok] Let_def bind_res_Inr_iff owned_iff
    by (auto simp: bind_res_Inr_iff split: if_splits)
  note G = fence_rows_get [OF d]
  have each: "row_ok y \<and> calm x y \<and> job_id y = job_id x \<and> idempotency_key_hash y = idempotency_key_hash x"
    if "dget (jobs reg) i = Some x" "dget d i = Some y" for i x y
  proof (cases "i = k \<or> terminal (status x)")
    case True
    with G that(1) have "dget d i = Some x" by presburger
    with that(2) have "y = x" by simp
    with reg_okD(4) [OF ok that(1)] show ?thesis by simp
  next
    case False
    with G that(1) have "\<exists>z. fence_row cp now x = Inr z \<and> dget d i = Some z" by presburger
    then have "fence_row cp now x = Inr y" using that(2) by auto
    with fence_row_ok [of x cp now y] False reg_okD(4) [OF ok that(1)] show ?thesis by simp
  qed
  have ks: "dkeys d = dkeys (jobs reg)" using G by blast
  have "reg_ok reg' \<and> shrinks reg reg'" unfolding r' by (rule reg_ok_pointwise [OF ok ks]) (rule each)
  with j f show ?thesis by (simp add: r')
qed

lemma mark_all_ok:
  assumes ok: "reg_ok reg" and m: "mark_all_transitions_unaudited which reg = Inr (v, reg')"
  shows "reg_ok reg' \<and> shrinks reg reg' \<and> fence reg' = fence reg"
proof -
  define d where "d = dmap (\<lambda>k j. if which = None \<or> which = Some k then unaudit_row j else j) (jobs reg)"
  have r': "reg' = reg\<lparr>jobs := d\<rparr>" using m by (simp add: mark_all_transitions_unaudited_def load_id [OF ok] d_def Let_def)
  have each: "row_ok y \<and> calm x y \<and> job_id y = job_id x \<and> idempotency_key_hash y = idempotency_key_hash x"
    if "dget (jobs reg) i = Some x" "dget d i = Some y" for i x y
  proof -
    have "y = (if which = None \<or> which = Some i then unaudit_row x else x)" using that by (simp add: d_def)
    then consider "y = x" | "y = unaudit_row x" by (auto split: if_splits)
    then show ?thesis using unauditing.keeps [of x] unauditing.identity [of x] reg_okD(4) [OF ok that(1)] by cases simp_all
  qed
  have ks: "dkeys d = dkeys (jobs reg)" by (simp add: d_def)
  have "reg_ok (reg\<lparr>jobs := d, fence := fence reg\<rparr>) \<and> shrinks reg (reg\<lparr>jobs := d, fence := fence reg\<rparr>)"
    by (rule reg_ok_pointwise [OF ok ks]) (rule each)
  moreover have "reg\<lparr>jobs := d, fence := fence reg\<rparr> = reg'" by (simp add: r')
  ultimately show ?thesis by (simp add: r')
qed

lemma cancel_ok:
  assumes ok: "reg_ok reg" and c: "request_cancel cp now k who gen reg = Inr (v, reg')"
  shows "reg_ok reg' \<and> shrinks reg reg' \<and> fence reg' = fence reg"
proof -
  consider "reg' = reg" | j j' where "dget (jobs reg) k = Some j" "\<not> terminal (status j)" "cancel_row cp now j = Inr j'"
    "reg' = put_job reg k j'"
    using c by (auto simp: request_cancel_def load_id [OF ok] Let_def bind_res_Inr_iff split: option.splits if_splits)
  then show ?thesis
  proof cases
    case 1
    with ok show ?thesis by simp
  next
    case (2 j j')
    note R = cancel_row_ok [OF _ 2(2,3)]
    have "row_ok j" using reg_okD(4) [OF ok 2(1)] by simp
    with R reg_ok_put [OF ok 2(1)] shrinks_put [OF 2(1)] 2(4) show ?thesis by simp
  qed
qed

lemma retire_row_ok:
  assumes ok: "reg_ok reg" and d: "dget (jobs reg) k = Some j" and r: "retire_row needle gen (reg, arts, n) (k, j) = (reg', arts', n')"
  shows "reg_ok reg' \<and> shrinks reg reg' \<and> fence reg' = fence reg \<and> (\<forall>i. i \<noteq> k \<longrightarrow> dget (jobs reg') i = dget (jobs reg) i) \<and>
    (py_lower (actor j) = needle \<and> actor_generation j = gen \<and> status j \<noteq> RUNNING \<longrightarrow> dget (jobs reg') k = None)"
proof -
  have J: "job_id j = k" "row_ok j" using reg_okD(4) [OF ok d] by auto
  consider (skip) "py_lower (actor j) \<noteq> needle \<or> actor_generation j \<noteq> gen" "reg' = reg"
    | (mark) "status j = RUNNING" "reg' = put_job reg k (j\<lparr>cancel_requested := True, retired := True, inbox_synced := True\<rparr>)"
    | (drop) "status j \<noteq> RUNNING" "reg' = drop_row reg (j\<lparr>job_id := k\<rparr>)"
    using r by (auto simp: retire_row_def split: if_splits)
  then show ?thesis
  proof cases
    case skip
    with ok show ?thesis by auto
  next
    case mark
    define j' where "j' = j\<lparr>cancel_requested := True, retired := True, inbox_synced := True\<rparr>"
    have e: "receipt_or_executable j'"
      by (rule executable_cong [of j]) (use J mark in \<open>simp_all add: row_ok_def j'_def\<close>)
    have "row_ok j' \<and> calm j j'"
      by (rule core_edit_ok [OF J(2) _ _ _ _ _ _ e]) (use mark in \<open>simp_all add: j'_def core_of_def trail_def\<close>)
    then show ?thesis
      using reg_ok_put [OF ok d, of j'] shrinks_put [OF d, of j'] mark by (simp add: j'_def [symmetric]) (simp add: j'_def)
  next
    case drop
    have "j\<lparr>job_id := k\<rparr> = j" using J by (cases j) simp
    with drop reg_ok_drop [OF ok, of j] d J show ?thesis by (simp add: drop_row_get shrinks_drop)
  qed
qed

lemma retire_fold_ok:
  assumes "reg_ok reg" "distinct (map fst rows)" "\<forall>(k, j) \<in> set rows. dget (jobs reg) k = Some j"
    "foldl (retire_row needle gen) (reg, arts, n) rows = (reg', arts', n')"
  shows "reg_ok reg' \<and> shrinks reg reg' \<and> fence reg' = fence reg \<and>
    (\<forall>k j. (k, j) \<in> set rows \<longrightarrow> py_lower (actor j) = needle \<longrightarrow> actor_generation j = gen \<longrightarrow> status j \<noteq> RUNNING \<longrightarrow>
       dget (jobs reg') k = None)"
  using assms
proof (induction rows arbitrary: reg arts n)
  case Nil
  then show ?case by simp
next
  case (Cons r rows)
  obtain k j where r: "r = (k, j)" by (cases r) auto
  obtain reg1 arts1 n1 where s: "retire_row needle gen (reg, arts, n) (k, j) = (reg1, arts1, n1)"
    by (metis prod_cases3)
  have d: "dget (jobs reg) k = Some j" using Cons.prems(3) r by simp
  note R = retire_row_ok [OF Cons.prems(1) d s]
  have k: "k' \<noteq> k" if "(k', j') \<in> set rows" for k' j' using Cons.prems(2) r that by force
  have "\<forall>(k', j') \<in> set rows. dget (jobs reg1) k' = Some j'" using Cons.prems(3) R k by fastforce
  with Cons.IH [of reg1 arts1 n1] Cons.prems(2,4) r s R
  have I: "reg_ok reg'" "shrinks reg1 reg'" "fence reg' = fence reg1"
    "\<And>k j. (k, j) \<in> set rows \<Longrightarrow> py_lower (actor j) = needle \<Longrightarrow> actor_generation j = gen \<Longrightarrow> status j \<noteq> RUNNING \<Longrightarrow>
       dget (jobs reg') k = None"
    by auto
  have gone: "dget (jobs reg') k = None" if "dget (jobs reg1) k = None"
    using I(2) that unfolding shrinks_def by (metis not_Some_eq)
  show ?case using I R gone shrinks_trans [of reg reg1 reg'] r by auto
qed

lemma retire_ok:
  assumes ok: "reg_ok reg" and r: "retire_actor who gen reg = Inr (v, reg')"
  shows "reg_ok reg' \<and> shrinks reg reg' \<and> fence reg' = fence reg \<and>
    (\<forall>k j. dget (jobs reg) k = Some j \<longrightarrow> py_lower (actor j) = py_lower (py_strip who) \<longrightarrow> actor_generation j = gen \<longrightarrow>
       status j \<noteq> RUNNING \<longrightarrow> dget (jobs reg') k = None)"
proof -
  obtain arts n where f: "foldl (retire_row (py_lower (py_strip who)) gen) (reg, [], 0) (jobs reg) = (reg', arts, n)"
    using r by (cases v) (auto simp: retire_actor_def load_id [OF ok] Let_def split: prod.splits)
  have "distinct (map fst (jobs reg))" using reg_okD(1) [OF ok] by (simp add: dict_ok_def)
  moreover have "\<forall>(k, j) \<in> set (jobs reg). dget (jobs reg) k = Some j" using dget_eq_Some [OF reg_okD(1) [OF ok]] by auto
  ultimately show ?thesis using retire_fold_ok [OF ok _ _ f] dget_eq_Some [OF reg_okD(1) [OF ok]] by blast
qed

lemma purge_ok:
  assumes ok: "reg_ok reg" and p: "purge_retired_terminal k reg = Inr (v, reg')"
  shows "reg_ok reg' \<and> shrinks reg reg' \<and> fence reg' = fence reg"
proof -
  consider "reg' = reg" | j where "dget (jobs reg) k = Some j" "reg' = drop_row reg (j\<lparr>job_id := k\<rparr>)"
    using p by (auto simp: purge_retired_terminal_def load_id [OF ok] Let_def split: option.splits if_splits)
  then show ?thesis
  proof cases
    case 1
    with ok show ?thesis by simp
  next
    case (2 j)
    have J: "job_id j = k" using reg_okD(4) [OF ok 2(1)] by simp
    then have "j\<lparr>job_id := k\<rparr> = j" by (cases j) simp
    with 2 J reg_ok_drop [OF ok, of j] show ?thesis by (simp add: drop_row_get shrinks_drop)
  qed
qed

lemma attach_ok:
  assumes ok: "reg_ok reg" and a: "attach_artifact a k token reg = Inr (v, reg')"
  shows "reg_ok reg' \<and> shrinks reg reg' \<and> fence reg' = fence reg"
proof -
  obtain b reg1 where w: "with_lease (attach_row a) k token reg = Inr (b, reg1)"
    and r': "reg' = expire_rows reg1 (drop (MAX_RETAINED_ARTIFACTS - 1)
        (sort_desc age_key (filter (\<lambda>r. artifact r \<noteq> None \<and> job_id r \<noteq> k) (dvals (jobs reg1)))))"
    using a unfolding attach_artifact_def by (fastforce simp: bind_res_Inr_iff Let_def)
  have K: "reg_ok reg1" "shrinks reg reg1" "fence reg1 = fence reg"
    using attaching.keeps_registry [OF ok w] attaching.local_effect [OF ok w] by auto
  from expired_rows [OF K(1) refl, of "MAX_RETAINED_ARTIFACTS - 1" "\<lambda>r. artifact r \<noteq> None \<and> job_id r \<noteq> k"]
  have "reg_ok reg' \<and> shrinks reg1 reg' \<and> fence reg' = fence reg1"
    unfolding r' using expire_rows_ok [OF K(1)] by blast
  with K shrinks_trans show ?thesis by auto
qed

lemma compact_ok:
  assumes ok: "reg_ok reg" and c: "factory_compact st res ver sha now k token reg = Inr (v, reg')"
  shows "reg_ok reg' \<and> shrinks reg reg' \<and> fence reg' = k \<and> fence reg = k \<and>
    (\<exists>j. dget (jobs reg) k = Some j \<and> jobs reg' = [(k, receipt_row st res ver sha now j)] \<and> keys reg' = [])"
proof -
  obtain j where j: "dget (jobs reg) k = Some j" "status j = RUNNING" and f: "fence reg = k" and st: "terminal st"
    and r': "reg' = \<lparr>jobs = [(job_id (receipt_row st res ver sha now j), receipt_row st res ver sha now j)], keys = [], fence = k\<rparr>"
    using c by (auto simp: factory_compact_def load_id [OF ok] Let_def bind_res_Inr_iff owned_iff split: if_splits)
  define rc where "rc = receipt_row st res ver sha now j"
  have id: "job_id j = k" "k \<noteq> []" using reg_okD(4) [OF ok j(1)] by auto
  have "job_id rc = k" "idempotency_key_hash rc = []" "status rc = st" using id by (simp_all add: rc_def receipt_row_def)
  moreover have "row_ok rc"
    using st by (auto simp: rc_def receipt_row_def row_ok_defs progress_ok_def transition_def)
  moreover have "calm j rc" using j st by (auto simp: calm_def row_rel_def rc_def receipt_row_def)
  ultimately have "reg_ok \<lparr>jobs = [(k, rc)], keys = [], fence = k\<rparr>" "shrinks reg \<lparr>jobs = [(k, rc)], keys = [], fence = k\<rparr>"
    using id j(1) by (auto intro!: reg_okI simp: dget_Cons MAX_JOBS_def dict_ok_def shrinks_def split: if_splits)
  then show ?thesis using r' f id j(1) \<open>job_id rc = k\<close> by (simp add: rc_def)
qed

lemma create_cases:
  assumes ok: "reg_ok reg" and c: "create jsize t j reg = Inr (v, reg')"
  shows "(\<exists>k i. dget (keys reg) (idempotency_key_hash j) = Some k \<and> dget (jobs reg) k = Some i \<and>
            request_fingerprint i = request_fingerprint j \<and> v = (i, False, []) \<and> reg' = reg) \<or>
    (dget (keys reg) (idempotency_key_hash j) = None \<and>
     (fence reg = [] \<and> admit jsize j False reg = Inr (v, reg') \<or>
      fence reg \<noteq> [] \<and> fence_recovery t j reg \<and> admit jsize j True reg = Inr (v, reg')))"
proof (cases "dget (keys reg) (idempotency_key_hash j)")
  case None
  with c show ?thesis by (simp add: create_def load_id [OF ok] Let_def split: if_splits)
next
  case (Some k)
  from reg_okD(5) [OF ok Some] obtain i where i: "dget (jobs reg) k = Some i" by blast
  then have "k \<noteq> []" using reg_okD(4) [OF ok] by blast
  with c Some i show ?thesis by (simp add: create_def load_id [OF ok] Let_def split: if_splits)
qed

subsection \<open>Every operation as a step\<close>

definition empty_registry :: registry where
  "empty_registry = \<lparr>jobs = [], keys = [], fence = []\<rparr>"

inductive job_step :: "compactor \<Rightarrow> (json \<Rightarrow> int) \<Rightarrow> registry \<Rightarrow> registry \<Rightarrow> bool"
  for cp :: compactor and jsize :: "json \<Rightarrow> int" where
  st_create: "submittable j reg \<Longrightarrow> create jsize t j reg = Inr (v, reg') \<Longrightarrow> job_step cp jsize reg reg'"
| st_claim: "claim_next snap raw owner token t l now reg = Inr (w, reg') \<Longrightarrow> job_step cp jsize reg reg'"
| st_release: "release_claim k token reg = Inr (x, reg') \<Longrightarrow> job_step cp jsize reg reg'"
| st_renew: "renew t l k token reg = Inr (x, reg') \<Longrightarrow> job_step cp jsize reg reg'"
| st_begin: "begin_item r k token reg = Inr (x, reg') \<Longrightarrow> job_step cp jsize reg reg'"
| st_ensure: "ensure_items rs u k token reg = Inr (x, reg') \<Longrightarrow> job_step cp jsize reg reg'"
| st_progress: "set_progress n m u k token reg = Inr (x, reg') \<Longrightarrow> job_step cp jsize reg reg'"
| st_complete: "complete_item r e k token reg = Inr (x, reg') \<Longrightarrow> job_step cp jsize reg reg'"
| st_finish: "finish cp st res e now k token reg = Inr (x, reg') \<Longrightarrow> job_step cp jsize reg reg'"
| st_reserve: "reserve_artifact fr sfx k token reg = Inr (ji, reg') \<Longrightarrow> job_step cp jsize reg reg'"
| st_clear: "clear_pending_artifact aid k token reg = Inr (x, reg') \<Longrightarrow> job_step cp jsize reg reg'"
| st_attach: "attach_artifact a k token reg = Inr (ja, reg') \<Longrightarrow> job_step cp jsize reg reg'"
| st_expire: "expire_artifact aid k reg = Inr (xo, reg') \<Longrightarrow> job_step cp jsize reg reg'"
| st_sync: "set_inbox_synced b k reg = Inr (xo, reg') \<Longrightarrow> job_step cp jsize reg reg'"
| st_audit: "mark_transition_audited i k reg = Inr (xo, reg') \<Longrightarrow> job_step cp jsize reg reg'"
| st_unaudit: "mark_all_transitions_unaudited which reg = Inr (xo, reg') \<Longrightarrow> job_step cp jsize reg reg'"
| st_cancel: "request_cancel cp now k who gen reg = Inr (xo, reg') \<Longrightarrow> job_step cp jsize reg reg'"
| st_retire: "retire_actor who gen' reg = Inr (an, reg') \<Longrightarrow> job_step cp jsize reg reg'"
| st_purge: "purge_retired_terminal k reg = Inr (arts, reg') \<Longrightarrow> job_step cp jsize reg reg'"
| st_fence: "begin_factory_fence cp now k token reg = Inr (ja', reg') \<Longrightarrow> job_step cp jsize reg reg'"
| st_unfence: "release_factory_fence k reg = Inr (un, reg') \<Longrightarrow> job_step cp jsize reg reg'"
| st_compact: "factory_compact st r2 ver sha now k token reg = Inr (ja', reg') \<Longrightarrow> job_step cp jsize reg reg'"

text \<open>Five shapes cover all of them.\<close>

definition step_shape :: "registry \<Rightarrow> registry \<Rightarrow> bool" where
  "step_shape reg reg' =
     (shrinks reg reg' \<and> fence reg' = fence reg \<or>
      shrinks reg reg' \<and> (fence reg = [] \<or> fence reg' = fence reg) \<and> dget (jobs reg) (fence reg') \<noteq> None \<or>
      shrinks reg reg' \<and> jobs reg' = jobs reg \<and> fence reg' = [] \<or>
      (\<exists>j owner token t l now. dget (jobs reg) (job_id j) = Some j \<and> claimable (fence reg) t j \<and>
         reg' = put_job reg (job_id j) (claim_row owner token t l now j)) \<or>
      (\<exists>j t. submittable j reg \<and> dget (jobs reg') (job_id j) = Some j \<and>
         (fence reg = [] \<and> fence reg' = [] \<or> fence reg \<noteq> [] \<and> fence_recovery t j reg \<and> fence reg' = job_id j) \<and>
         (\<forall>k i. k \<noteq> job_id j \<longrightarrow> dget (jobs reg') k = Some i \<longrightarrow> (\<exists>i0. dget (jobs reg) k = Some i0 \<and> calm i0 i))))"

lemma step_shape_same: "shrinks reg reg' \<Longrightarrow> fence reg' = fence reg \<Longrightarrow> step_shape reg reg'"
  by (simp add: step_shape_def)

lemma worker_step:
  assumes "lease_change f" "reg_ok reg" "with_lease f k token reg = Inr (v, reg')"
  shows "reg_ok reg' \<and> step_shape reg reg'"
  using lease_change.keeps_registry [OF assms] lease_change.local_effect [OF assms] by (auto intro: step_shape_same)

lemma edit_step:
  assumes "row_edit g" "reg_ok reg" "on_row g k reg = Inr (v, reg')"
  shows "reg_ok reg' \<and> step_shape reg reg'"
  using row_edit.keeps_registry [OF assms] row_edit.local_effect [OF assms] by (auto intro: step_shape_same)

lemma create_step:
  assumes ok: "reg_ok reg" and sub: "submittable j reg" and c: "create jsize t j reg = Inr (v, reg')"
  shows "reg_ok reg' \<and> step_shape reg reg'"
proof -
  consider "reg' = reg" | rec where "dget (keys reg) (idempotency_key_hash j) = None" "admit jsize j rec reg = Inr (v, reg')"
    "if rec then fence reg \<noteq> [] \<and> fence_recovery t j reg else fence reg = []"
    using create_cases [OF ok c] by fastforce
  then show ?thesis
  proof cases
    case 1
    with ok show ?thesis by (simp add: step_shape_same)
  next
    case (2 rec)
    note A = admit_ok [OF ok sub 2(1,2)]
    have "step_shape reg reg'" unfolding step_shape_def using A 2(3) sub by (cases rec) auto
    with A show ?thesis by simp
  qed
qed

lemma claim_step:
  assumes ok: "reg_ok reg" and c: "claim_next snap raw owner token t l now reg = Inr (v, reg')"
  shows "reg_ok reg' \<and> step_shape reg reg'"
proof -
  from claim_next_cases [OF ok c] consider "reg' = reg"
    | j where "dget (jobs reg) (job_id j) = Some j" "claimable (fence reg) t j"
        "reg' = put_job reg (job_id j) (claim_row owner token t l now j)" by blast
  then show ?thesis
  proof cases
    case 1
    with ok show ?thesis by (simp add: step_shape_same)
  next
    case (2 j)
    have live: "\<not> terminal (status j)" using 2(2) by (auto simp: claimable_def)
    have "reg_ok reg'"
      using claim_row_ok [OF _ live refl] reg_okD(4) [OF ok 2(1)] reg_ok_put [OF ok 2(1)] 2(3) by auto
    with 2 show ?thesis unfolding step_shape_def by blast
  qed
qed

lemma job_step_ok: "job_step cp jsize reg reg' \<Longrightarrow> reg_ok reg \<Longrightarrow> reg_ok reg' \<and> step_shape reg reg'"
proof (induction rule: job_step.induct)
  case (st_create j reg t v reg')
  from create_step [OF st_create(3,1,2)] show ?case .
next
  case (st_claim snap raw owner token t l now reg w reg')
  then show ?case by (rule claim_step [rotated])
next
  case (st_finish st res e now k token reg x reg')
  then have "terminal st" "with_lease (finish_row cp st res e now) k token reg = Inr (x, reg')"
    by (auto simp: finish_def split: if_splits)
  with worker_step [OF lease_change_finish] st_finish show ?case by blast
next
  case (st_reserve fr sfx k token reg ji reg')
  then show ?case
    by (intro worker_step [OF reserving.lease_change_axioms]) (simp_all add: reserve_artifact_def split: if_splits)
next
  case (st_unfence k reg un reg')
  then have "jobs reg' = jobs reg" "keys reg' = keys reg" "fence reg' = [] \<or> fence reg' = fence reg"
    by (auto simp: release_factory_fence_def load_id Let_def)
  with st_unfence show ?case by (auto simp: step_shape_def shrinks_def reg_ok_def)
next
  case (st_fence now k token reg ja' reg')
  from begin_fence_ok [OF st_fence(2,1)] show ?case by (auto simp: step_shape_def)
next
  case (st_compact st r2 ver sha now k token reg ja' reg')
  from compact_ok [OF st_compact(2,1)] show ?case by (auto intro: step_shape_same)
qed (auto intro: step_shape_same mark_all_ok cancel_ok
   simp: release_claim_def renew_def begin_item_def ensure_items_def set_progress_def complete_item_def clear_pending_artifact_def
     expire_artifact_def set_inbox_synced_def mark_transition_audited_def
   dest!: worker_step [OF releasing.lease_change_axioms, rotated] worker_step [OF renewing.lease_change_axioms, rotated]
     worker_step [OF beginning.lease_change_axioms, rotated] worker_step [OF ensuring.lease_change_axioms, rotated]
     worker_step [OF progressing.lease_change_axioms, rotated] worker_step [OF completing.lease_change_axioms, rotated]
     worker_step [OF clearing.lease_change_axioms, rotated] edit_step [OF expiring.row_edit_axioms, rotated]
     edit_step [OF syncing.row_edit_axioms, rotated] edit_step [OF auditing.row_edit_axioms, rotated]
     mark_all_ok [rotated] cancel_ok [rotated] retire_ok [rotated] purge_ok [rotated] attach_ok [rotated])

interpretation registry: safe_system "\<lambda>r. r = empty_registry" "job_step cp jsize" reg_ok for cp jsize
proof
  show "reg_ok s" if "s = empty_registry" for s using that by (simp add: reg_ok_def empty_registry_def)
  show "reg_ok t" if "reg_ok s" "job_step cp jsize s t" for s t using job_step_ok that by blast
qed

lemma claim_row_rel:
  assumes "reg_ok reg" "dget (jobs reg) (job_id j) = Some j" "claimable f t j"
  shows "row_rel j (claim_row owner token t l now j)"
  using assms claim_row_ok [OF _ _ refl] reg_okD(4) [OF assms(1,2)] by (auto simp: claimable_def)

lemma job_step_rows:
  assumes ok: "reg_ok reg" and st: "job_step cp jsize reg reg'"
    and rows: "dget (jobs reg) k = Some j" "dget (jobs reg') k = Some j'"
  shows "row_rel j j'"
proof -
  from job_step_ok [OF st ok] have "step_shape reg reg'" ..
  then consider (sh) "shrinks reg reg'"
    | (cl) c owner token t l now where "dget (jobs reg) (job_id c) = Some c" "claimable (fence reg) t c"
        "reg' = put_job reg (job_id c) (claim_row owner token t l now c)"
    | (cr) n where "submittable n reg" "dget (jobs reg') (job_id n) = Some n"
        "\<forall>k i. k \<noteq> job_id n \<longrightarrow> dget (jobs reg') k = Some i \<longrightarrow> (\<exists>i0. dget (jobs reg) k = Some i0 \<and> calm i0 i)"
    unfolding step_shape_def by blast
  then show ?thesis
  proof cases
    case sh
    with rows show ?thesis unfolding shrinks_def calm_def by fastforce
  next
    case cl
    show ?thesis
    proof (cases "k = job_id c")
      case True
      then have "j = c" "j' = claim_row owner token t l now c" using rows cl by simp_all
      then show ?thesis using claim_row_rel [OF ok cl(1,2)] by simp
    next
      case False
      then have "j' = j" using rows cl by simp
      then show ?thesis by simp
    qed
  next
    case cr
    then have "k \<noteq> job_id n" using rows by (auto simp: submittable_def)
    then show ?thesis using cr(3) rows unfolding calm_def by fastforce
  qed
qed

lemma fence_step:
  assumes ok: "reg_ok reg" and st: "job_step cp jsize reg reg'" and f: "fence reg \<noteq> []"
    and run: "dget (jobs reg') k = Some j'" "status j' = RUNNING" "k \<noteq> fence reg"
  shows "\<exists>j. dget (jobs reg) k = Some j \<and> status j = RUNNING \<and> lease_token j = lease_token j'"
proof -
  from job_step_ok [OF st ok] have "step_shape reg reg'" ..
  then consider (sh) "shrinks reg reg'"
    | (cl) c owner token t l now where "dget (jobs reg) (job_id c) = Some c" "claimable (fence reg) t c"
        "reg' = put_job reg (job_id c) (claim_row owner token t l now c)"
    | (cr) n where "submittable n reg" "dget (jobs reg') (job_id n) = Some n"
        "\<forall>k i. k \<noteq> job_id n \<longrightarrow> dget (jobs reg') k = Some i \<longrightarrow> (\<exists>i0. dget (jobs reg) k = Some i0 \<and> calm i0 i)"
    unfolding step_shape_def by blast
  then show ?thesis
  proof cases
    case sh
    with run show ?thesis unfolding shrinks_def calm_def by fastforce
  next
    case cl
    have "job_id c = fence reg" using cl(2) f by (simp add: claimable_def)
    then show ?thesis using run cl by simp
  next
    case cr
    have "k \<noteq> job_id n" using run cr by (auto simp: submittable_def)
    then show ?thesis using cr(3) run unfolding calm_def by fastforce
  qed
qed

lemma fence_moves:
  assumes ok: "reg_ok reg" and st: "job_step cp jsize reg reg'" and f: "fence reg \<noteq> []"
  shows "fence reg' = fence reg \<or> fence reg' = [] \<and> jobs reg' = jobs reg \<or>
    (\<exists>n t. submittable n reg \<and> fence_recovery t n reg \<and> fence reg' = job_id n \<and> dget (jobs reg') (job_id n) = Some n)"
  using job_step_ok [OF st ok] f unfolding step_shape_def by auto

lemma fence_admission:
  assumes ok: "reg_ok reg" and st: "job_step cp jsize reg reg'" and f: "fence reg \<noteq> []"
    and new: "dget (jobs reg) k = None" "dget (jobs reg') k = Some n"
  shows "\<exists>t. submittable n reg \<and> fence_recovery t n reg \<and> fence reg' = k"
proof -
  from job_step_ok [OF st ok] have "step_shape reg reg'" ..
  then consider (sh) "shrinks reg reg'"
    | (cl) c owner token t l now where "dget (jobs reg) (job_id c) = Some c"
        "reg' = put_job reg (job_id c) (claim_row owner token t l now c)"
    | (cr) m t where "submittable m reg" "dget (jobs reg') (job_id m) = Some m" "fence_recovery t m reg" "fence reg' = job_id m"
        "\<forall>k i. k \<noteq> job_id m \<longrightarrow> dget (jobs reg') k = Some i \<longrightarrow> (\<exists>i0. dget (jobs reg) k = Some i0 \<and> calm i0 i)"
    unfolding step_shape_def using f by blast
  then show ?thesis
  proof cases
    case sh
    with new show ?thesis unfolding shrinks_def by fastforce
  next
    case cl
    with new show ?thesis by (auto split: if_splits)
  next
    case cr
    then have "k = job_id m" using new by fastforce
    then show ?thesis using cr new by auto
  qed
qed

subsection \<open>Sample runs\<close>

text \<open>Concrete registries for the witnesses: what an operation that succeeds returns and leaves.\<close>

definition outcome_reg :: "'a outcome \<Rightarrow> registry" where
  "outcome_reg x = (case x of Inr (v, reg) \<Rightarrow> reg | Inl e \<Rightarrow> empty_registry)"

definition outcome_value :: "'a outcome \<Rightarrow> 'a" where
  "outcome_value x = (case x of Inr (v, reg) \<Rightarrow> v | Inl e \<Rightarrow> undefined)"

fun succeeds :: "'a outcome \<Rightarrow> bool" where
  "succeeds (Inr p) = True"
| "succeeds (Inl e) = False"

lemma outcome_eta: "succeeds x \<Longrightarrow> x = Inr (outcome_value x, outcome_reg x)"
  by (cases x) (auto simp: outcome_reg_def outcome_value_def)

definition sample_job :: "job_kind \<Rightarrow> string \<Rightarrow> (string \<times> json) list \<Rightarrow> job" where
  "sample_job k i ps =
     \<lparr>job_id = i, job_kind = k, actor = ''ann'', actor_generation = ''g1'', created_at = ''2026-01-01'',
      started_at = None, finished_at = None, status = QUEUED, progress = \<lparr>p_done = 0, p_total = 1, p_unit = ''items''\<rparr>,
      failures = [], failure_count = 0, failures_truncated = 0, request_fingerprint = ''f1'', idempotency_key_hash = i,
      job_result = None, params = ps, required_permissions = [], fresh_authorized_until_millis = 0,
      cancel_requested = False, item_states = [(''c1'', Pending)], lease_owner = None, lease_token = None,
      lease_expires_at_millis = 0, transition_seq = 0, transitions = [], artifact = None, pending_artifact_id = None,
      pending_artifact_suffix = None, inbox_synced = False, retired = False, app_version = None, build_sha = None\<rparr>"

definition plain_params :: compactor where
  "plain_params = compact_params (\<lambda>v. []) (\<lambda>t. None) (\<lambda>t. None)"

definition no_bytes :: "json \<Rightarrow> int" where
  "no_bytes v = 0"

abbreviation run_reach :: "registry \<Rightarrow> bool" where
  "run_reach \<equiv> reach (\<lambda>r. r = empty_registry) (job_step plain_params no_bytes)"

definition queued_reg :: registry where
  "queued_reg = outcome_reg (create no_bytes 0 (sample_job CASE_TAG ''j1'' []) empty_registry)"

definition claimed_reg :: registry where
  "claimed_reg = outcome_reg (claim_next queued_reg queued_reg ''w1'' ''t1'' 0 0 ''now'' queued_reg)"

definition processing_reg :: registry where
  "processing_reg = outcome_reg (begin_item ''c1'' ''j1'' ''t1'' claimed_reg)"

definition recovered_reg :: registry where
  "recovered_reg = outcome_reg (claim_next processing_reg processing_reg ''w2'' ''t2'' 40000 0 ''now'' processing_reg)"

definition finished_reg :: registry where
  "finished_reg = outcome_reg (finish plain_params SUCCEEDED None [] ''later'' ''j1'' ''t2'' recovered_reg)"

lemma reach_queued: "run_reach queued_reg"
proof (rule reach_next [OF reach_start])
  have a: "succeeds (create no_bytes 0 (sample_job CASE_TAG ''j1'' []) empty_registry)" by code_simp
  have b: "submittable (sample_job CASE_TAG ''j1'' []) empty_registry" by code_simp
  show "job_step plain_params no_bytes empty_registry queued_reg"
    unfolding queued_reg_def by (rule st_create [OF b outcome_eta [OF a]])
qed simp

lemma reach_claimed: "run_reach claimed_reg"
proof (rule reach_next [OF reach_queued])
  have "succeeds (claim_next queued_reg queued_reg ''w1'' ''t1'' 0 0 ''now'' queued_reg)" by code_simp
  then show "job_step plain_params no_bytes queued_reg claimed_reg"
    unfolding claimed_reg_def by (intro st_claim) (rule outcome_eta)
qed

lemma processing_step: "job_step plain_params no_bytes claimed_reg processing_reg"
proof -
  have "succeeds (begin_item ''c1'' ''j1'' ''t1'' claimed_reg)" by code_simp
  then show ?thesis unfolding processing_reg_def by (intro st_begin) (rule outcome_eta)
qed

lemma reach_processing: "run_reach processing_reg"
  by (rule reach_next [OF reach_claimed processing_step])

lemma recovered_step: "job_step plain_params no_bytes processing_reg recovered_reg"
proof -
  have "succeeds (claim_next processing_reg processing_reg ''w2'' ''t2'' 40000 0 ''now'' processing_reg)" by code_simp
  then show ?thesis unfolding recovered_reg_def by (intro st_claim) (rule outcome_eta)
qed

lemma reach_recovered: "run_reach recovered_reg"
  by (rule reach_next [OF reach_processing recovered_step])

lemma reach_finished: "run_reach finished_reg"
proof (rule reach_next [OF reach_recovered])
  have "succeeds (finish plain_params SUCCEEDED None [] ''later'' ''j1'' ''t2'' recovered_reg)" by code_simp
  then show "job_step plain_params no_bytes recovered_reg finished_reg"
    unfolding finished_reg_def by (intro st_finish) (rule outcome_eta)
qed

subsection \<open>What the store promises\<close>

text \<open>
  C19. In every registry the store's operations can produce there are at most 1000 rows, each filed
  under its own identifier; a row is running exactly when it carries a lease token; a terminal row
  has a finish time, an empty item journal and no pending artifact; at most 20 failures are kept
  and \<open>failures_truncated\<close> counts exactly the ones that were not; the transition journal is numbered
  from 1 without gaps; and no two rows share an idempotency key.
\<close>

theorem registry_invariant:
  assumes "reach (\<lambda>r. r = empty_registry) (job_step cp jsize) reg"
  shows "length (jobs reg) \<le> 1000 \<and>
    (\<forall>k j. dget (jobs reg) k = Some j \<longrightarrow>
       job_id j = k \<and> (status j = RUNNING \<longleftrightarrow> lease_token j \<noteq> None) \<and>
       (terminal (status j) \<longrightarrow> finished_at j \<noteq> None \<and> item_states j = [] \<and> pending_artifact_id j = None) \<and>
       length (failures j) \<le> 20 \<and> failures_truncated j = failure_count j - int (length (failures j)) \<and>
       map t_seq (transitions j) = map (\<lambda>n. int (Suc n)) [0..<length (transitions j)]) \<and>
    (\<forall>k j k' j'. dget (jobs reg) k = Some j \<longrightarrow> dget (jobs reg) k' = Some j' \<longrightarrow>
       idempotency_key_hash j \<noteq> [] \<longrightarrow> idempotency_key_hash j' = idempotency_key_hash j \<longrightarrow> k' = k)"
proof (intro conjI allI impI)
  have ok: "reg_ok reg" by (rule registry.reach_inv [OF assms])
  show "length (jobs reg) \<le> 1000" using reg_okD(3) [OF ok] by (simp add: MAX_JOBS_def)
  fix k j assume j: "dget (jobs reg) k = Some j"
  note R = reg_okD(4) [OF ok j]
  show "finished_at j \<noteq> None" "item_states j = []" "pending_artifact_id j = None" if "terminal (status j)"
    using R that by (auto simp: row_ok_def lease_ok_def ended_ok_def)
  show "job_id j = k" "(status j = RUNNING) = (lease_token j \<noteq> None)"
    "length (failures j) \<le> 20" "failures_truncated j = failure_count j - int (length (failures j))"
    "map t_seq (transitions j) = map (\<lambda>n. int (Suc n)) [0..<length (transitions j)]"
    using R by (auto simp: row_ok_def lease_ok_def failures_ok_def trail_ok_def MAX_FAILURES_def)
  fix k' j' assume "dget (jobs reg) k' = Some j'" "idempotency_key_hash j \<noteq> []" "idempotency_key_hash j' = idempotency_key_hash j"
  then show "k' = k" using reg_okD(6) [OF ok j] reg_okD(6) [OF ok, of k' j'] by simp
qed

lemma registry_invariant_witness:
  "dget (jobs finished_reg) ''j1'' \<noteq> None \<and> length (jobs finished_reg) \<le> 1000"
proof
  show "dget (jobs finished_reg) ''j1'' \<noteq> None" by code_simp
  show "length (jobs finished_reg) \<le> 1000" using registry_invariant [OF reach_finished] by blast
qed

text \<open>
  C20. A worker whose lease was recovered has lost every power over the job: once \<^verbatim>\<open>claim_next\<close> has
  given the row to another token, each of the twelve worker operations under the old token is
  refused and leaves the registry as it is.
\<close>

theorem lost_lease_powerless:
  assumes "reach (\<lambda>r. r = empty_registry) (job_step cp jsize) reg"
    and "claim_next snap raw owner token t l now reg = Inr (Some (j, tok), reg')" and "old \<noteq> token"
  shows "release_claim (job_id j) old reg' = Inl Lease_changed \<and>
    renew t2 l2 (job_id j) old reg' = Inl Lease_changed \<and>
    begin_item r (job_id j) old reg' = Inl Lease_changed \<and>
    ensure_items rs u (job_id j) old reg' = Inl Lease_changed \<and>
    set_progress n m u (job_id j) old reg' = Inl Lease_changed \<and>
    complete_item r e (job_id j) old reg' = Inl Lease_changed \<and>
    (terminal st \<longrightarrow> finish cp st res e now2 (job_id j) old reg' = Inl Lease_changed) \<and>
    reserve_artifact fr ''.zip'' (job_id j) old reg' = Inl Lease_changed \<and>
    clear_pending_artifact aid (job_id j) old reg' = Inl Lease_changed \<and>
    attach_artifact a (job_id j) old reg' = Inl Lease_changed \<and>
    begin_factory_fence cp now2 (job_id j) old reg' = Inl Lease_changed \<and>
    (terminal st \<longrightarrow> factory_compact st r2 ver sha now2 (job_id j) old reg' = Inl Lease_changed)"
proof -
  have ok: "reg_ok reg" by (rule registry.reach_inv [OF assms(1)])
  have ok': "reg_ok reg'" using claim_step [OF ok assms(2)] ..
  from claim_next_cases [OF ok assms(2)] obtain c where c: "dget (jobs reg) (job_id c) = Some c" "claimable (fence reg) t c"
    "j = claim_row owner token t l now c" "reg' = put_job reg (job_id c) j" by auto
  have "\<not> terminal (status c)" using c(2) by (auto simp: claimable_def)
  from claim_row_ok [OF _ this c(3)] reg_okD(4) [OF ok c(1)] have j: "job_id j = job_id c" "lease_token j = Some token" by auto
  have d: "dget (jobs reg') (job_id j) = Some j" "lease_token j \<noteq> Some old" using j c(4) assms(3) by simp_all
  have own: "owned reg' (job_id j) old = Inl Lease_changed" using d by (simp add: owned_def)
  have w: "with_lease f (job_id j) old reg' = Inl Lease_changed" for f :: "job \<Rightarrow> job_error + 'b \<times> job"
    by (simp add: with_lease_def load_id [OF ok'] own)
  have w2: "with_lease (\<lambda>j. let j' = reserve_row fr ''.zip'' j in Inr ((j', pending_artifact_id j'), j')) (job_id j) old reg' =
      Inl Lease_changed"
    by (rule reserving.stale [OF ok' d])
  have w3: "with_lease (attach_row a) (job_id j) old reg' = Inl Lease_changed" by (rule attaching.stale [OF ok' d])
  have w1: "with_lease g (job_id j) old reg' = Inl Lease_changed" for g :: "job \<Rightarrow> job_error + job \<times> job"
    by (simp add: with_lease_def load_id [OF ok'] own)
  show ?thesis
    by (simp add: release_claim_def renew_def begin_item_def ensure_items_def set_progress_def complete_item_def finish_def
      reserve_artifact_def clear_pending_artifact_def attach_artifact_def begin_factory_fence_def factory_compact_def
      w1 w2 w3 load_id [OF ok'] own)
qed

lemma lost_lease_powerless_witness:
  "begin_item ''c1'' ''j1'' ''t1'' recovered_reg = Inl Lease_changed"
proof -
  have s: "succeeds (claim_next processing_reg processing_reg ''w2'' ''t2'' 40000 0 ''now'' processing_reg)" by code_simp
  define j where "j = claim_row ''w2'' ''t2'' 40000 0 ''now'' (the (dget (jobs processing_reg) ''j1''))"
  have v: "outcome_value (claim_next processing_reg processing_reg ''w2'' ''t2'' 40000 0 ''now'' processing_reg) = Some (j, ''t2'')"
    unfolding j_def by code_simp
  have i: "job_id j = ''j1''" unfolding j_def by code_simp
  have c: "claim_next processing_reg processing_reg ''w2'' ''t2'' 40000 0 ''now'' processing_reg = Inr (Some (j, ''t2''), recovered_reg)"
    using outcome_eta [OF s] unfolding v recovered_reg_def .
  have ne: "''t1'' \<noteq> ''t2''" by simp
  show ?thesis
    using lost_lease_powerless [OF reach_processing c ne, where r = "''c1''"] unfolding i by blast
qed

text \<open>
  A finished job stays as it finished: whatever operation runs next, as long as the row exists
  its kind, owner, status, start and finish times, progress, failures, parameters and transition
  journal do not change. Only its artifact link, its inbox flag, its retirement mark and the audit
  marks may.
\<close>

theorem finished_job_final:
  assumes "reach (\<lambda>r. r = empty_registry) (job_step cp jsize) reg" and "job_step cp jsize reg reg'"
    and "dget (jobs reg) k = Some j" and "dget (jobs reg') k = Some j'" and "terminal (status j)"
  shows "status j' = status j \<and> job_kind j' = job_kind j \<and> actor j' = actor j \<and> started_at j' = started_at j \<and>
    finished_at j' = finished_at j \<and> progress j' = progress j \<and> failures j' = failures j \<and>
    failure_count j' = failure_count j \<and> params j' = params j \<and> item_states j' = [] \<and> trail j' = trail j"
proof -
  have ok: "reg_ok reg" by (rule registry.reach_inv [OF assms(1)])
  have "core_of j' = core_of j" using job_step_rows [OF ok assms(2-4)] assms(5) by (simp add: row_rel_def)
  moreover have "item_states j = []" using reg_okD(4) [OF ok assms(3)] assms(5) by (auto simp: row_ok_def ended_ok_def)
  ultimately show ?thesis by (simp add: core_of_def)
qed

lemma synced_step: "job_step plain_params no_bytes finished_reg (outcome_reg (set_inbox_synced True ''j1'' finished_reg))"
proof -
  have "succeeds (set_inbox_synced True ''j1'' finished_reg)" by code_simp
  then show ?thesis by (intro st_sync) (rule outcome_eta)
qed

lemma finished_job_final_witness:
  "status (the (dget (jobs (outcome_reg (set_inbox_synced True ''j1'' finished_reg))) ''j1'')) = SUCCEEDED"
proof -
  define j where "j = the (dget (jobs finished_reg) ''j1'')"
  define j' where "j' = the (dget (jobs (outcome_reg (set_inbox_synced True ''j1'' finished_reg))) ''j1'')"
  have a: "dget (jobs finished_reg) ''j1'' = Some j" unfolding j_def by code_simp
  have b: "dget (jobs (outcome_reg (set_inbox_synced True ''j1'' finished_reg))) ''j1'' = Some j'" unfolding j'_def by code_simp
  have c: "terminal (status j)" "status j = SUCCEEDED" unfolding j_def by code_simp+
  show ?thesis using finished_job_final [OF reach_finished synced_step a b c(1)] c(2) by (simp add: j'_def)
qed



text \<open>
  \<^verbatim>\<open>claim_next\<close> hands out only work nobody holds: the row it returns was queued, or running under
  a lease that had expired; under a factory fence it is the fence's own job; no claimable row is
  older; the new lease is for at least thirty seconds; and no other row, key or fence changes.
\<close>

theorem claim_takes_free_work:
  assumes "reach (\<lambda>r. r = empty_registry) (job_step cp jsize) reg"
    and "claim_next snap raw owner token t l now reg = Inr (Some (j, tok), reg')"
  shows "tok = token \<and> lease_token j = Some token \<and> status j = RUNNING \<and> t + 30000 \<le> lease_expires_at_millis j \<and>
    (\<exists>j0. dget (jobs reg) (job_id j) = Some j0 \<and>
       (status j0 = QUEUED \<or> status j0 = RUNNING \<and> lease_expires_at_millis j0 \<le> t) \<and>
       (fence reg = [] \<or> job_id j = fence reg) \<and>
       (\<forall>i \<in> set (dvals (jobs reg)). claimable (fence reg) t i \<longrightarrow> (created_at j0, job_id j0) \<le> (created_at i, job_id i))) \<and>
    dget (jobs reg') (job_id j) = Some j \<and> (\<forall>k. k \<noteq> job_id j \<longrightarrow> dget (jobs reg') k = dget (jobs reg) k) \<and>
    keys reg' = keys reg \<and> fence reg' = fence reg"
proof -
  have ok: "reg_ok reg" by (rule registry.reach_inv [OF assms(1)])
  from claim_next_cases [OF ok assms(2)] obtain c where c: "dget (jobs reg) (job_id c) = Some c" "claimable (fence reg) t c"
    "\<forall>i \<in> set (dvals (jobs reg)). claimable (fence reg) t i \<longrightarrow> (created_at c, job_id c) \<le> (created_at i, job_id i)"
    "j = claim_row owner token t l now c" "tok = token" "reg' = put_job reg (job_id c) j" by auto
  have "\<not> terminal (status c)" using c(2) by (auto simp: claimable_def)
  from claim_row_ok [OF _ this c(4)] reg_okD(4) [OF ok c(1)]
  have j: "job_id j = job_id c" "lease_token j = Some token" "status j = RUNNING" by auto
  have "lease_expires_at_millis j = t + max 30000 l" by (simp add: c(4) claim_row_expiry)
  then have e: "t + 30000 \<le> lease_expires_at_millis j" by simp
  have f: "(status c = QUEUED \<or> status c = RUNNING \<and> lease_expires_at_millis c \<le> t) \<and> (fence reg = [] \<or> job_id c = fence reg)"
    using c(2) by (simp add: claimable_def)
  show ?thesis using c(1,3,5,6) j e f by (intro conjI exI [of _ c]) auto
qed

lemma claim_takes_free_work_witness:
  "lease_expires_at_millis (the (dget (jobs recovered_reg) ''j1'')) \<ge> 70000"
proof -
  have s: "succeeds (claim_next processing_reg processing_reg ''w2'' ''t2'' 40000 0 ''now'' processing_reg)" by code_simp
  define j where "j = claim_row ''w2'' ''t2'' 40000 0 ''now'' (the (dget (jobs processing_reg) ''j1''))"
  have v: "outcome_value (claim_next processing_reg processing_reg ''w2'' ''t2'' 40000 0 ''now'' processing_reg) = Some (j, ''t2'')"
    unfolding j_def by code_simp
  have i: "job_id j = ''j1''" unfolding j_def by code_simp
  have c: "claim_next processing_reg processing_reg ''w2'' ''t2'' 40000 0 ''now'' processing_reg = Inr (Some (j, ''t2''), recovered_reg)"
    using outcome_eta [OF s] unfolding v recovered_reg_def .
  show ?thesis using claim_takes_free_work [OF reach_processing c] i by simp
qed

end
