(* ===== verification/Job_Fence.thy ===== *)
theory Job_Fence
  imports Job_Safety
begin

section \<open>The job registry: admission, the factory fence and the public view\<close>

text \<open>
  The promises that concern the whole registry: what \<^verbatim>\<open>JobStore.create\<close> answers to a repeated
  submission, what a factory reset's fence stops and who may move it, how an account's retirement
  can strand it, and what is left of a job's parameters once it is terminal.
\<close>

definition reset_job :: job where
  "reset_job = (sample_job TIERED_RESET ''r'' [])\<lparr>item_states := []\<rparr>"

definition reset_reg :: registry where
  "reset_reg = outcome_reg (create no_bytes 0 reset_job empty_registry)"

definition reset_claimed :: registry where
  "reset_claimed = outcome_reg (claim_next reset_reg reset_reg ''w'' ''t'' 0 0 ''n'' reset_reg)"

definition fenced_reg :: registry where
  "fenced_reg = outcome_reg (begin_factory_fence plain_params ''n'' ''r'' ''t'' reset_claimed)"

definition fence_failed :: registry where
  "fence_failed = outcome_reg (finish plain_params FAILED None [] ''l'' ''r'' ''t'' fenced_reg)"

lemma reach_reset: "run_reach reset_reg"
proof (rule reach_next [OF reach_start])
  have a: "succeeds (create no_bytes 0 reset_job empty_registry)" by code_simp
  have b: "submittable reset_job empty_registry" by code_simp
  show "job_step plain_params no_bytes empty_registry reset_reg"
    unfolding reset_reg_def by (rule st_create [OF b outcome_eta [OF a]])
qed simp

lemma reach_reset_claimed: "run_reach reset_claimed"
proof (rule reach_next [OF reach_reset])
  have a: "succeeds (claim_next reset_reg reset_reg ''w'' ''t'' 0 0 ''n'' reset_reg)" by code_simp
  show "job_step plain_params no_bytes reset_reg reset_claimed"
    unfolding reset_claimed_def by (rule st_claim [OF outcome_eta [OF a]])
qed

lemma reach_fenced: "run_reach fenced_reg"
proof (rule reach_next [OF reach_reset_claimed])
  have a: "succeeds (begin_factory_fence plain_params ''n'' ''r'' ''t'' reset_claimed)" by code_simp
  show "job_step plain_params no_bytes reset_claimed fenced_reg"
    unfolding fenced_reg_def by (rule st_fence [OF outcome_eta [OF a]])
qed

lemma fence_failed_step: "job_step plain_params no_bytes fenced_reg fence_failed"
proof -
  have a: "succeeds (finish plain_params FAILED None [] ''l'' ''r'' ''t'' fenced_reg)" by code_simp
  show ?thesis unfolding fence_failed_def by (rule st_finish [OF outcome_eta [OF a]])
qed

lemma reach_fence_failed: "run_reach fence_failed"
  by (rule reach_next [OF reach_fenced fence_failed_step])

subsection \<open>Admission\<close>

lemma admit_no_stall: "reg_ok reg \<Longrightarrow> admit jsize j rec reg \<noteq> Inl No_progress"
  using make_room_progress [of reg "length (jobs reg)" "[]"]
  by (auto simp: admit_def Let_def bind_res_Inl_iff split: if_splits)

text \<open>
  A submission is idempotent. While a row of the same key exists, \<^verbatim>\<open>create\<close> changes nothing: it
  returns that row when the request is the same and raises a conflict when it is not. A submission
  that is admitted binds its key and stores its row, and submitting the same job again then
  returns it without a second row. \<^verbatim>\<open>create\<close> never loops over a registry it cannot shrink and never
  meets a key without a row.
\<close>

theorem create_idempotent:
  assumes "reach (\<lambda>r. r = empty_registry) (job_step cp jsize) reg"
  shows "(\<forall>k i. dget (jobs reg) k = Some i \<longrightarrow> idempotency_key_hash i \<noteq> [] \<longrightarrow> idempotency_key_hash j = idempotency_key_hash i \<longrightarrow>
      create jsize t j reg = (if request_fingerprint i \<noteq> request_fingerprint j then Inl Job_conflict else Inr ((i, False, []), reg))) \<and>
    (\<forall>x arts reg'. submittable j reg \<longrightarrow> create jsize t j reg = Inr ((x, True, arts), reg') \<longrightarrow>
      x = j \<and> dget (jobs reg') (job_id j) = Some j \<and> (\<forall>t'. create jsize t' j reg' = Inr ((j, False, []), reg'))) \<and>
    create jsize t j reg \<noteq> Inl No_progress \<and> create jsize t j reg \<noteq> Inl Inconsistent_registry"
proof (intro conjI allI impI)
  have ok: "reg_ok reg" by (rule registry.reach_inv [OF assms])
  have bound: "create jsize t j r = (if request_fingerprint i \<noteq> request_fingerprint j then Inl Job_conflict else Inr ((i, False, []), r))"
    if "reg_ok r" "dget (jobs r) k = Some i" "idempotency_key_hash i \<noteq> []" "idempotency_key_hash j = idempotency_key_hash i" for k i r t
    using reg_okD(4,6) [OF that(1,2)] that load_id [OF that(1)] by (simp add: create_def Let_def)
  show "create jsize t j reg = (if request_fingerprint i \<noteq> request_fingerprint j then Inl Job_conflict else Inr ((i, False, []), reg))"
    if "dget (jobs reg) k = Some i" "idempotency_key_hash i \<noteq> []" "idempotency_key_hash j = idempotency_key_hash i" for k i
    by (rule bound [OF ok that])
  fix x arts reg' assume sub: "submittable j reg" and c: "create jsize t j reg = Inr ((x, True, arts), reg')"
  from create_cases [OF ok c] obtain rec where free: "dget (keys reg) (idempotency_key_hash j) = None"
    and a: "admit jsize j rec reg = Inr ((x, True, arts), reg')" by auto
  note A = admit_ok [OF ok sub free a]
  show "x = j" "dget (jobs reg') (job_id j) = Some j" using A by auto
  show "create jsize t' j reg' = Inr ((j, False, []), reg')" for t'
    using bound [of reg' "job_id j" j t'] A sub by (simp add: submittable_def)
next
  have ok: "reg_ok reg" by (rule registry.reach_inv [OF assms])
  have lk: "dget (jobs reg) k \<noteq> None" if "dget (keys reg) h = Some k" for h k using reg_okD(5) [OF ok that] by auto
  have ad: "admit jsize j rec reg \<noteq> Inl Inconsistent_registry" for rec
  proof -
    have "make_room n r pr \<noteq> Inl Inconsistent_registry" for n r pr
      by (induction n r pr rule: make_room.induct) (subst make_room.simps, auto split: option.splits nat.splits)
    then show ?thesis by (auto simp: admit_def Let_def bind_res_Inl_iff split: if_splits)
  qed
  show "create jsize t j reg \<noteq> Inl No_progress"
    using admit_no_stall [OF ok] by (auto simp: create_def Let_def load_id [OF ok] split: option.splits if_splits)
  show "create jsize t j reg \<noteq> Inl Inconsistent_registry"
    using ad lk by (fastforce simp: create_def Let_def load_id [OF ok] split: option.splits if_splits)
qed

lemma create_idempotent_witness:
  "create no_bytes 5 (sample_job CASE_TAG ''j1'' []) finished_reg =
     Inr ((the (dget (jobs finished_reg) ''j1''), False, []), finished_reg)"
proof -
  have d: "dget (jobs finished_reg) ''j1'' = Some (the (dget (jobs finished_reg) ''j1''))" by code_simp
  have h: "idempotency_key_hash (the (dget (jobs finished_reg) ''j1'')) = ''j1''"
    "request_fingerprint (the (dget (jobs finished_reg) ''j1'')) = ''f1''" by code_simp+
  have j: "idempotency_key_hash (sample_job CASE_TAG ''j1'' []) = ''j1''" "request_fingerprint (sample_job CASE_TAG ''j1'' []) = ''f1''"
    by (simp_all add: sample_job_def)
  note C = create_idempotent [OF reach_finished, where j = "sample_job CASE_TAG ''j1'' []" and t = 5]
  show ?thesis using conjunct1 [OF C, rule_format, OF d] h j by simp
qed

subsection \<open>The factory fence\<close>

text \<open>
  C22. While a factory reset holds the fence, no operation starts or takes over any other job: a row
  that runs afterwards ran before under the same lease. No row is admitted but a fresh reset that
  recovers a failed one and inherits the fence, and the fence itself only stays, is released with
  no row changed, or passes to such a recovery.
\<close>

theorem fence_exclusive:
  assumes "reach (\<lambda>r. r = empty_registry) (job_step cp jsize) reg" and "job_step cp jsize reg reg'" and "fence reg \<noteq> []"
  shows "(\<forall>k j'. dget (jobs reg') k = Some j' \<longrightarrow> status j' = RUNNING \<longrightarrow> k \<noteq> fence reg \<longrightarrow>
       (\<exists>j. dget (jobs reg) k = Some j \<and> status j = RUNNING \<and> lease_token j = lease_token j')) \<and>
    (\<forall>k n. dget (jobs reg) k = None \<longrightarrow> dget (jobs reg') k = Some n \<longrightarrow>
       job_kind n = TIERED_RESET \<and> fence reg' = k \<and>
       (\<exists>f. dget (jobs reg) (fence reg) = Some f \<and> job_kind f = TIERED_RESET \<and> terminal (status f))) \<and>
    (fence reg' = fence reg \<or> fence reg' = [] \<and> jobs reg' = jobs reg \<or>
      (\<exists>n. dget (jobs reg) (fence reg') = None \<and> dget (jobs reg') (fence reg') = Some n \<and> job_kind n = TIERED_RESET))"
proof (intro conjI allI impI)
  have ok: "reg_ok reg" by (rule registry.reach_inv [OF assms(1)])
  have rec: "job_kind n = TIERED_RESET \<and> (\<exists>f. dget (jobs reg) (fence reg) = Some f \<and> job_kind f = TIERED_RESET \<and> terminal (status f))"
    if "fence_recovery t n reg" for t n
    using that by (auto simp: fence_recovery_def split: option.splits)
  show "\<exists>j. dget (jobs reg) k = Some j \<and> status j = RUNNING \<and> lease_token j = lease_token j'"
    if "dget (jobs reg') k = Some j'" "status j' = RUNNING" "k \<noteq> fence reg" for k j'
    by (rule fence_step [OF ok assms(2,3) that])
  fix k n assume "dget (jobs reg) k = None" "dget (jobs reg') k = Some n"
  from fence_admission [OF ok assms(2,3) this] rec
  show "job_kind n = TIERED_RESET" "fence reg' = k"
    "\<exists>f. dget (jobs reg) (fence reg) = Some f \<and> job_kind f = TIERED_RESET \<and> terminal (status f)" by blast+
next
  have ok: "reg_ok reg" by (rule registry.reach_inv [OF assms(1)])
  from fence_moves [OF ok assms(2,3)]
  show "fence reg' = fence reg \<or> fence reg' = [] \<and> jobs reg' = jobs reg \<or>
      (\<exists>n. dget (jobs reg) (fence reg') = None \<and> dget (jobs reg') (fence reg') = Some n \<and> job_kind n = TIERED_RESET)"
    by (auto simp: submittable_def fence_recovery_def split: option.splits)
qed

lemma fence_exclusive_witness:
  "fence fence_failed = ''r'' \<or> fence fence_failed = [] \<or> dget (jobs fenced_reg) (fence fence_failed) = None"
proof -
  have f: "fence fenced_reg = ''r''" by code_simp
  then have "fence fenced_reg \<noteq> []" by simp
  note E = conjunct2 [OF conjunct2 [OF fence_exclusive [OF reach_fenced fence_failed_step this]]]
  show ?thesis using E unfolding f by (elim disjE exE conjE) simp_all
qed

text \<open>
  Retiring an account can strand the fence. \<^verbatim>\<open>retire_actor\<close> deletes the account's rows that are not
  running, the row that owns the fence among them, and leaves the fence: afterwards the owner read
  raises, every claim returns nothing, every submission with a new key is refused, and no job can
  take the fence, until someone releases it under the deleted job's identifier.
\<close>

theorem retired_owner_strands_fence:
  assumes "reach (\<lambda>r. r = empty_registry) (job_step cp jsize) reg"
    and "dget (jobs reg) (fence reg) = Some f" and "status f \<noteq> RUNNING"
    and "py_lower (actor f) = py_lower (py_strip who)" and "actor_generation f = gen"
    and "retire_actor who gen reg = Inr (v, reg')"
  shows "factory_fence_owner reg' = Inl Inconsistent_registry \<and>
    (\<forall>snap raw owner token t l now. claim_next snap raw owner token t l now reg' = Inr (None, reg')) \<and>
    (\<forall>t j. dget (keys reg') (idempotency_key_hash j) = None \<longrightarrow> create jsize t j reg' = Inl Fenced) \<and>
    (\<forall>k token now x. begin_factory_fence cp now k token reg' \<noteq> Inr x)"
proof -
  have ok: "reg_ok reg" by (rule registry.reach_inv [OF assms(1)])
  from retire_ok [OF ok assms(6)] assms(2-5)
  have ok': "reg_ok reg'" and f: "fence reg' = fence reg" and gone: "dget (jobs reg') (fence reg') = None" by auto
  have ne: "fence reg' \<noteq> []" using reg_okD(4) [OF ok assms(2)] f by simp
  have "\<not> claimable (fence reg') t i" if "i \<in> set (dvals (jobs reg'))" for t i
    using that gone ne reg_ok_vals [OF ok', of i] by (auto simp: claimable_def)
  then have cl: "filter (claimable (fence reg') t) (dvals (jobs reg')) = []" for t by (simp add: filter_empty_conv)
  have "claim_next snap raw owner token t l now reg' = Inr (None, reg')" for snap raw owner token t l now
    by (simp add: claim_next_def Let_def load_id [OF ok'] cl)
  moreover have "create jsize t j reg' = Inl Fenced" if "dget (keys reg') (idempotency_key_hash j) = None" for t j
    using that ne gone by (simp add: create_def Let_def load_id [OF ok'] fence_recovery_def)
  moreover have "begin_factory_fence cp now k token reg' \<noteq> Inr x" for k token now x
  proof
    assume "begin_factory_fence cp now k token reg' = Inr x"
    then obtain y r where "begin_factory_fence cp now k token reg' = Inr (y, r)" by (cases x) auto
    from begin_fence_ok [OF ok' this] gone ne show False by auto
  qed
  ultimately show ?thesis using ne gone by (simp add: factory_fence_owner_def)
qed

lemma retired_owner_strands_fence_witness:
  "factory_fence_owner (outcome_reg (retire_actor ''ann'' ''g1'' fence_failed)) = Inl Inconsistent_registry"
proof -
  have s: "succeeds (retire_actor ''ann'' ''g1'' fence_failed)" by code_simp
  define f where "f = the (dget (jobs fence_failed) (fence fence_failed))"
  have a: "dget (jobs fence_failed) (fence fence_failed) = Some f" unfolding f_def by code_simp
  have b: "status f \<noteq> RUNNING" "py_lower (actor f) = py_lower (py_strip ''ann'')" "actor_generation f = ''g1''"
    unfolding f_def by code_simp+
  show ?thesis using retired_owner_strands_fence [OF reach_fence_failed a b outcome_eta [OF s]] by blast
qed

subsection \<open>The public view of a finished job\<close>

text \<open>
  C23. What compaction keeps is what the public view shows: after it, a case job still shows the number
  of its cases and an import the number of its documents. A finished replay experiment is the
  exception: its counts are stored under names the projection does not read, so it shows no
  fixtures and no arms, however many there were.
\<close>

theorem compacted_view:
  assumes "compact_params shw ip fl j = Some ps"
  shows "(job_kind j \<in> {CASE_REINVESTIGATE, CASE_LIFECYCLE, CASE_ASSIGN, CASE_TAG} \<longrightarrow>
      (\<exists>n xs. counted ip (params j) ''case_count'' ''case_ids'' = Some n \<and>
          public_params shw ip (job_kind j) ps = Some ((''case_count'', JInt n) # xs))) \<and>
    (job_kind j = RAG_IMPORT \<longrightarrow>
      (\<exists>n. counted ip (params j) ''document_count'' ''documents'' = Some n \<and>
          public_params shw ip (job_kind j) ps = Some [(''document_count'', JInt n)])) \<and>
    (job_kind j = REPLAY_EXPERIMENT \<longrightarrow>
      (\<exists>a b. public_params shw ip (job_kind j) ps =
          Some [(''fixture_count'', JInt 0), (''arm_ids'', JList []), a, b]))"
proof (intro conjI impI)
  assume "job_kind j \<in> {CASE_REINVESTIGATE, CASE_LIFECYCLE, CASE_ASSIGN, CASE_TAG}"
  with assms obtain n x where n: "counted ip (params j) ''case_count'' ''case_ids'' = Some n" "ps = [(''case_count'', JInt n), x]"
    "fst x \<noteq> ''case_ids''"
    by (auto simp: compact_params_def Let_def)
  obtain k v where x: "x = (k, v)" "k \<noteq> ''case_ids''" using n(3) by (cases x) auto
  have c: "counted_or_0 ip ps ''case_count'' ''case_ids'' = Some n"
    using x by (simp add: n(2) counted_or_0_def jget_def get_or_def dget_Cons or_list_def)
  show "\<exists>n xs. counted ip (params j) ''case_count'' ''case_ids'' = Some n \<and>
          public_params shw ip (job_kind j) ps = Some ((''case_count'', JInt n) # xs)"
    using \<open>job_kind j \<in> _\<close> by (auto simp: n(1) c public_params_def Let_def)
next
  assume k: "job_kind j = RAG_IMPORT"
  with assms obtain n where n: "counted ip (params j) ''document_count'' ''documents'' = Some n" "ps = [(''document_count'', JInt n)]"
    by (auto simp: compact_params_def Let_def)
  then show "\<exists>n. counted ip (params j) ''document_count'' ''documents'' = Some n \<and>
          public_params shw ip (job_kind j) ps = Some [(''document_count'', JInt n)]"
    by (simp add: k public_params_def counted_def jget_def get_or_def dget_Cons or_list_def)
next
  assume k: "job_kind j = REPLAY_EXPERIMENT"
  with assms obtain a b c d where "ps = [(''fixture_count'', a), (''arm_ids'', b), (''repeats'', c), (''spend_bound_usd'', d)]"
    by (auto simp: compact_params_def Let_def split: option.splits)
  then show "\<exists>a b. public_params shw ip (job_kind j) ps = Some [(''fixture_count'', JInt 0), (''arm_ids'', JList []), a, b]"
    by (simp add: k public_params_def arm_ids_def jget_def dget_Cons or_list_def)
qed

lemma compacted_view_witness:
  "public_params (\<lambda>v. []) (\<lambda>t. None) CASE_TAG [(''case_count'', JInt 2), (''tag'', JStr ''x'')] =
     Some [(''case_count'', JInt 2), (''tag'', JStr ''x'')]"
proof -
  have c: "compact_params (\<lambda>v. []) (\<lambda>t. None) (\<lambda>t. None)
      (sample_job CASE_TAG ''j'' [(''case_ids'', JList [JStr ''a'', JStr ''b'']), (''tag'', JStr ''x'')]) =
      Some [(''case_count'', JInt 2), (''tag'', JStr ''x'')]" by code_simp
  show ?thesis using compacted_view [OF c]
    by (auto simp: sample_job_def public_params_def Let_def jget_def dget_Cons counted_def get_or_def or_list_def)
qed

end
