(* ===== verification/Kv_Cas.thy ===== *)
theory Kv_Cas
  imports Prelude
begin

section \<open>Compare-and-set mutation of a shared document\<close>

text \<open>
  \<^verbatim>\<open>kv_mutate_strict\<close> (\<^verbatim>\<open>stores/base.py\<close>) over the SQL backend's \<^verbatim>\<open>put_if\<close>
  (\<^verbatim>\<open>stores/sql/repositories.py\<close>): any number of writers, in any number of processes, change one
  stored document. A document is its body and the revision stamped into it; a writer reads, computes
  its new body from that snapshot, and stores it by a conditional UPDATE, or by an INSERT where it
  saw no row. The UPDATE and the INSERT are separate transactions, so other writers run between
  them. The in-process lock only removes interleavings and is left out, and so is a document whose
  revision is malformed (\<^verbatim>\<open>_rev_of\<close> reads it as 0).
\<close>

record 'b doc =
  body :: 'b
  revision :: int

definition rev_of :: "'b doc option \<Rightarrow> int" where
  "rev_of d = (case d of None \<Rightarrow> 0 | Some d \<Rightarrow> revision d)"

definition KV_MUTATE_RETRIES :: nat where "KV_MUTATE_RETRIES = 8"

text \<open>Where a writer stands: the attempt, what it read, and what it wants to store.\<close>

datatype ('b, 'e) phase =
    Reading nat
  | Updating nat "'b doc option" 'b
  | Inserting nat "'b doc option" 'b
  | Committed "'b doc"
  | Raised 'e
  | Exhausted

definition stamped :: "'b doc option \<Rightarrow> 'b \<Rightarrow> 'b doc" where
  "stamped snap b = \<lparr>body = b, revision = rev_of snap + 1\<rparr>"

definition try_again :: "nat \<Rightarrow> ('b, 'e) phase" where
  "try_again a = (if Suc a < KV_MUTATE_RETRIES then Reading (Suc a) else Exhausted)"

type_synonym ('b, 'e) mutators = "nat \<Rightarrow> 'b option \<Rightarrow> 'e + 'b"

text \<open>The conditional UPDATE: it hits when there is a row and its revision is the expected one.\<close>

definition update_hits :: "'b doc option \<Rightarrow> int \<Rightarrow> bool" where
  "update_hits r expected = (case r of None \<Rightarrow> False | Some d \<Rightarrow> revision d = expected)"

text \<open>One move of a writer: its next phase, and the document it stores if it stores one.\<close>

fun writer_move ::
  "('b option \<Rightarrow> 'e + 'b) \<Rightarrow> 'b doc option \<Rightarrow> ('b, 'e) phase \<Rightarrow> (('b, 'e) phase \<times> 'b doc option) option" where
  "writer_move f r (Reading a) =
     (case f (map_option body r) of Inl e \<Rightarrow> Some (Raised e, None) | Inr b \<Rightarrow> Some (Updating a r b, None))"
| "writer_move f r (Updating a snap b) =
     (if update_hits r (rev_of snap) then Some (Committed (stamped snap b), Some (stamped snap b))
      else if rev_of snap \<noteq> 0 then Some (try_again a, None)
      else Some (Inserting a snap b, None))"
| "writer_move f r (Inserting a snap b) =
     (if r = None then Some (Committed (stamped snap b), Some (stamped snap b)) else Some (try_again a, None))"
| "writer_move f r ph = None"

text \<open>The shared row, every writer's phase, and the history of stores, oldest first.\<close>

record ('b, 'e) kv_system =
  row :: "'b doc option"
  phase_of :: "nat \<Rightarrow> ('b, 'e) phase"
  stores :: "(nat \<times> 'b doc) list"

definition kv_start :: "'b doc option \<Rightarrow> ('b, 'e) kv_system \<Rightarrow> bool" where
  "kv_start r0 s = (row s = r0 \<and> (\<forall>w. phase_of s w = Reading 0) \<and> stores s = [])"

definition kv_next :: "('b, 'e) mutators \<Rightarrow> nat \<Rightarrow> ('b, 'e) kv_system \<Rightarrow> ('b, 'e) kv_system option" where
  "kv_next mut w s =
     (case writer_move (mut w) (row s) (phase_of s w) of
        None \<Rightarrow> None
      | Some (ph, None) \<Rightarrow> Some (s\<lparr>phase_of := (phase_of s)(w := ph)\<rparr>)
      | Some (ph, Some d) \<Rightarrow>
          Some (s\<lparr>row := Some d, phase_of := (phase_of s)(w := ph), stores := stores s @ [(w, d)]\<rparr>))"

inductive kv_step :: "('b, 'e) mutators \<Rightarrow> ('b, 'e) kv_system \<Rightarrow> ('b, 'e) kv_system \<Rightarrow> bool"
  for mut :: "('b, 'e) mutators" where
  kv_move: "kv_next mut w s = Some t \<Longrightarrow> kv_step mut s t"

inductive_cases kv_step_cases: "kv_step mut s t"

text \<open>The specification: the writers run one after the other, each on what the one before it left.\<close>

fun serial :: "('b, 'e) mutators \<Rightarrow> nat list \<Rightarrow> 'b option \<Rightarrow> 'e + 'b option" where
  "serial mut [] r = Inr r"
| "serial mut (w # ws) r = bind_res (mut w r) (\<lambda>b. serial mut ws (Some b))"

lemma serial_snoc: "serial mut (ws @ [w]) r = bind_res (serial mut ws r) (\<lambda>x. bind_res (mut w x) (\<lambda>b. Inr (Some b)))"
  by (induction ws arbitrary: r) (auto simp: bind_res_def split: sum.splits)

subsection \<open>The invariant\<close>

text \<open>
  A snapshot whose revision is the row's is the row: every store raises the revision, so a row
  cannot come back to a revision it had.
\<close>

definition snapshot_ok :: "('b option \<Rightarrow> 'e + 'b) \<Rightarrow> 'b doc option \<Rightarrow> ('b, 'e) phase \<Rightarrow> bool" where
  "snapshot_ok f r ph =
     (case ph of
        Reading a \<Rightarrow> a < KV_MUTATE_RETRIES
      | Updating a snap b \<Rightarrow> a < KV_MUTATE_RETRIES \<and> f (map_option body snap) = Inr b \<and> rev_of snap \<le> rev_of r \<and>
          (snap \<noteq> None \<longrightarrow> r \<noteq> None) \<and> (rev_of snap = rev_of r \<longrightarrow> snap = r)
      | Inserting a snap b \<Rightarrow> a < KV_MUTATE_RETRIES \<and> f (map_option body snap) = Inr b \<and> rev_of snap = 0 \<and>
          (snap \<noteq> None \<longrightarrow> r \<noteq> None)
      | _ \<Rightarrow> True)"

definition kv_inv :: "('b, 'e) mutators \<Rightarrow> 'b doc option \<Rightarrow> ('b, 'e) kv_system \<Rightarrow> bool" where
  "kv_inv mut r0 s =
     ((\<forall>w. snapshot_ok (mut w) (row s) (phase_of s w)) \<and>
      serial mut (map fst (stores s)) (map_option body r0) = Inr (map_option body (row s)) \<and>
      distinct (map fst (stores s)) \<and>
      (\<forall>w d. (w, d) \<in> set (stores s) \<longleftrightarrow> phase_of s w = Committed d) \<and>
      rev_of (row s) = rev_of r0 + int (length (stores s)))"

lemma snapshot_stays:
  "snapshot_ok f r ph \<Longrightarrow> revision d = rev_of r + 1 \<Longrightarrow> snapshot_ok f (Some d) ph"
  by (cases ph) (auto simp: snapshot_ok_def rev_of_def)

text \<open>The moves that store nothing, and the one that does.\<close>

lemma quiet_move:
  assumes "writer_move f r ph = Some (ph', None)" "snapshot_ok f r ph"
  shows "snapshot_ok f r ph' \<and> (\<forall>d. ph \<noteq> Committed d \<and> ph' \<noteq> Committed d)"
  using assms
  by (cases ph) (auto simp: snapshot_ok_def try_again_def update_hits_def rev_of_def KV_MUTATE_RETRIES_def
      split: sum.splits if_splits option.splits)

lemma store_move:
  assumes "writer_move f r ph = Some (ph', Some d)" "snapshot_ok f r ph"
  shows "ph' = Committed d \<and> f (map_option body r) = Inr (body d) \<and> revision d = rev_of r + 1 \<and> (\<forall>x. ph \<noteq> Committed x)"
proof (cases ph)
  case (Updating a snap b)
  with assms(1) have hit: "update_hits r (rev_of snap)" "ph' = Committed (stamped snap b)" "d = stamped snap b"
    by (auto split: if_splits)
  from hit(1) have "rev_of snap = rev_of r" by (auto simp: update_hits_def rev_of_def split: option.splits)
  with assms(2) Updating have "snap = r" "f (map_option body snap) = Inr b" by (auto simp: snapshot_ok_def)
  with hit Updating show ?thesis by (simp add: stamped_def)
next
  case (Inserting a snap b)
  with assms(1) have ins: "r = None" "ph' = Committed (stamped snap b)" "d = stamped snap b" by (auto split: if_splits)
  with assms(2) Inserting have "snap = r" "f (map_option body snap) = Inr b" by (auto simp: snapshot_ok_def)
  with ins Inserting show ?thesis by (simp add: stamped_def)
qed (use assms in \<open>auto split: sum.splits\<close>)

lemma kv_inv_next:
  assumes inv: "kv_inv mut r0 s" and n: "kv_next mut w s = Some t"
  shows "kv_inv mut r0 t"
proof -
  have snap: "snapshot_ok (mut x) (row s) (phase_of s x)" for x using inv by (simp add: kv_inv_def)
  have mem: "(x, d) \<in> set (stores s) \<longleftrightarrow> phase_of s x = Committed d" for x d using inv by (simp add: kv_inv_def)
  obtain ph o' where m: "writer_move (mut w) (row s) (phase_of s w) = Some (ph, o')"
    using n by (auto simp: kv_next_def split: option.splits)
  show ?thesis
  proof (cases o')
    case None
    then have t: "t = s\<lparr>phase_of := (phase_of s)(w := ph)\<rparr>" using n m by (simp add: kv_next_def)
    have q: "snapshot_ok (mut w) (row s) ph" "\<And>d. phase_of s w \<noteq> Committed d" "\<And>d. ph \<noteq> Committed d"
      using quiet_move [OF m [unfolded None] snap] by auto
    show ?thesis using inv q snap by (auto simp: kv_inv_def t mem)
  next
    case (Some d)
    then have t: "t = s\<lparr>row := Some d, phase_of := (phase_of s)(w := ph), stores := stores s @ [(w, d)]\<rparr>"
      using n m by (simp add: kv_next_def)
    have q: "ph = Committed d" "mut w (map_option body (row s)) = Inr (body d)" "revision d = rev_of (row s) + 1"
      "\<And>x. phase_of s w \<noteq> Committed x"
      using store_move [OF m [unfolded Some] snap] by auto
    have ser: "serial mut (map fst (stores t)) (map_option body r0) = Inr (map_option body (row t))"
      using inv q(2) by (simp add: kv_inv_def t serial_snoc)
    have fresh: "w \<notin> set (map fst (stores s))" using mem q(4) by force
    have "snapshot_ok (mut x) (row t) (phase_of t x)" for x
      using snapshot_stays [OF snap q(3)] q(1) by (simp add: t snapshot_ok_def)
    moreover have "(x, e) \<in> set (stores t) \<longleftrightarrow> phase_of t x = Committed e" for x e
    proof (cases "x = w")
      case True
      have "(w, e) \<notin> set (stores s)" using fresh by force
      with True q(1) show ?thesis by (auto simp: t)
    next
      case False
      then show ?thesis using mem [of x e] by (simp add: t)
    qed
    moreover have "distinct (map fst (stores t))" using inv fresh by (simp add: kv_inv_def t)
    moreover have "rev_of (row t) = rev_of r0 + int (length (stores t))" using inv q(3) by (simp add: kv_inv_def t rev_of_def)
    ultimately show ?thesis using ser by (simp add: kv_inv_def)
  qed
qed

interpretation kv: safe_system "kv_start r0" "kv_step mut" "kv_inv mut r0" for r0 mut
proof
  show "kv_inv mut r0 s" if "kv_start r0 s" for s
    using that by (auto simp: kv_start_def kv_inv_def snapshot_ok_def KV_MUTATE_RETRIES_def)
  show "kv_inv mut r0 t" if "kv_inv mut r0 s" "kv_step mut s t" for s t
    using that by (auto elim: kv_step_cases intro: kv_inv_next)
qed

subsection \<open>No lost update, and a bounded number of attempts\<close>

text \<open>
  C24. Strict mutations are serializable whatever the interleaving of their reads, updates and
  inserts: the document is what running the writers that returned, one after the other in the order
  of their stores, would leave; a writer that returned stored exactly once; one that raised or gave
  up stored nothing; and the revision counts the stores.
\<close>

theorem strict_mutations_serialize:
  assumes "reach (kv_start r0) (kv_step mut) s"
  shows "serial mut (map fst (stores s)) (map_option body r0) = Inr (map_option body (row s)) \<and>
    distinct (map fst (stores s)) \<and>
    (\<forall>w. w \<in> set (map fst (stores s)) \<longleftrightarrow> (\<exists>d. phase_of s w = Committed d)) \<and>
    rev_of (row s) = rev_of r0 + int (length (stores s))"
  using kv.reach_inv [OF assms] unfolding kv_inv_def by force

definition count_up :: "(int, unit) mutators" where
  "count_up w r = Inr ((case r of None \<Rightarrow> 0 | Some n \<Rightarrow> n) + 1)"

definition idle_system :: "(int, unit) kv_system" where
  "idle_system = \<lparr>row = None, phase_of = (\<lambda>w. Reading 0), stores = []\<rparr>"

fun play :: "('b, 'e) mutators \<Rightarrow> nat list \<Rightarrow> ('b, 'e) kv_system \<Rightarrow> ('b, 'e) kv_system" where
  "play mut [] s = s"
| "play mut (w # ws) s = (case kv_next mut w s of None \<Rightarrow> play mut ws s | Some t \<Rightarrow> play mut ws t)"

lemma play_reach: "reach (kv_start r0) (kv_step mut) s \<Longrightarrow> reach (kv_start r0) (kv_step mut) (play mut ws s)"
proof (induction ws arbitrary: s)
  case (Cons w ws)
  then show ?case by (cases "kv_next mut w s") (auto intro: Cons.IH reach_next kv_move)
qed simp

text \<open>Two writers that both saw no row: the slower INSERT loses, and its writer reads again.\<close>

lemma strict_mutations_serialize_witness:
  "map_option body (row (play count_up [0, 1, 0, 1, 0, 1, 1, 1] idle_system)) = Some 2"
proof -
  define s where "s = play count_up [0, 1, 0, 1, 0, 1, 1, 1] idle_system"
  have r: "reach (kv_start None) (kv_step count_up) s"
    unfolding s_def by (intro play_reach reach_start) (simp add: kv_start_def idle_system_def)
  have st: "map fst (stores s) = [0, 1]" unfolding s_def by code_simp
  have "Inr (Some 2) = Inr (map_option body (row s))"
    using conjunct1 [OF strict_mutations_serialize [OF r]] by (simp add: st count_up_def)
  then show ?thesis unfolding s_def by simp
qed

definition moves_left :: "('b, 'e) phase \<Rightarrow> nat" where
  "moves_left ph =
     (case ph of
        Reading a \<Rightarrow> 3 * (KV_MUTATE_RETRIES - a)
      | Updating a snap b \<Rightarrow> 3 * (KV_MUTATE_RETRIES - a) - 1
      | Inserting a snap b \<Rightarrow> 3 * (KV_MUTATE_RETRIES - a) - 2
      | _ \<Rightarrow> 0)"

lemma move_left:
  assumes "writer_move f r ph = Some (ph', o')" "snapshot_ok f r ph"
  shows "moves_left ph' < moves_left ph"
  using assms
  by (cases ph) (auto simp: snapshot_ok_def moves_left_def try_again_def KV_MUTATE_RETRIES_def
      split: sum.splits if_splits option.splits)

text \<open>
  C25. Every writer ends: each of its moves uses up one of at most twenty-four, no move of another
  writer gives one back, and it can move until it has returned, raised or given up after its eighth
  conflict.
\<close>

theorem strict_mutation_terminates:
  assumes "reach (kv_start r0) (kv_step mut) s"
  shows "moves_left (phase_of s w) \<le> 24 \<and>
    (\<forall>t. kv_next mut w s = Some t \<longrightarrow> moves_left (phase_of t w) < moves_left (phase_of s w) \<and>
        (\<forall>x. x \<noteq> w \<longrightarrow> phase_of t x = phase_of s x)) \<and>
    (kv_next mut w s = None \<longleftrightarrow>
       (\<exists>d. phase_of s w = Committed d) \<or> (\<exists>e. phase_of s w = Raised e) \<or> phase_of s w = Exhausted)"
proof (intro conjI allI impI)
  have snap: "snapshot_ok (mut w) (row s) (phase_of s w)" using kv.reach_inv [OF assms] by (simp add: kv_inv_def)
  show "moves_left (phase_of s w) \<le> 24"
    by (auto simp: moves_left_def KV_MUTATE_RETRIES_def split: phase.splits)
  show "moves_left (phase_of t w) < moves_left (phase_of s w)" if n: "kv_next mut w s = Some t" for t
  proof -
    obtain ph o' where m: "writer_move (mut w) (row s) (phase_of s w) = Some (ph, o')"
      using n by (auto simp: kv_next_def split: option.splits)
    then have "phase_of t w = ph" using n by (cases o') (auto simp: kv_next_def)
    with move_left [OF m snap] show ?thesis by simp
  qed
  show "phase_of t x = phase_of s x" if "kv_next mut w s = Some t" "x \<noteq> w" for t x
    using that by (auto simp: kv_next_def split: option.splits)
  show "kv_next mut w s = None \<longleftrightarrow>
       (\<exists>d. phase_of s w = Committed d) \<or> (\<exists>e. phase_of s w = Raised e) \<or> phase_of s w = Exhausted"
    by (cases "phase_of s w") (auto simp: kv_next_def split: sum.splits option.splits if_splits)
qed

lemma strict_mutation_terminates_witness:
  "moves_left (phase_of (play count_up [0] idle_system) 0) \<le> 24"
proof -
  have r: "reach (kv_start None) (kv_step count_up) (play count_up [0] idle_system)"
    by (intro play_reach reach_start) (simp add: kv_start_def idle_system_def)
  show ?thesis using strict_mutation_terminates [OF r, of 0] by blast
qed

end
