(* ===== verification/Job_Durable.thy ===== *)
theory Job_Durable
  imports Job_Fence Kv_Cas
begin

section \<open>The job registry on the shared document\<close>

text \<open>
  \<^verbatim>\<open>JobStore._mutate\<close> and \<^verbatim>\<open>_mutate_meta\<close> run every operation of the registry as one strict
  compare-and-set mutation: the snapshot is decoded (an absent document is the empty registry), the
  operation changes it, and what it raises reaches the caller with nothing stored. So what
  \<^verbatim>\<open>Job_Safety\<close> and \<^verbatim>\<open>Job_Fence\<close> prove of sequences of operations holds for concurrent
  servers.
\<close>

definition registry_of :: "registry option \<Rightarrow> registry" where
  "registry_of d = (case d of None \<Rightarrow> empty_registry | Some reg \<Rightarrow> reg)"

definition mutate_registry :: "(registry \<Rightarrow> 'a outcome) \<Rightarrow> registry option \<Rightarrow> job_error + registry" where
  "mutate_registry change d = bind_res (change (registry_of d)) (\<lambda>(v, reg). Inr reg)"

lemma serial_reach:
  assumes "\<And>w reg v reg'. reach init step reg \<Longrightarrow> op w reg = Inr (v, reg') \<Longrightarrow> step reg reg'"
  shows "serial (\<lambda>w. mutate_registry (op w)) ws d = Inr d' \<Longrightarrow> reach init step (registry_of d) \<Longrightarrow> reach init step (registry_of d')"
proof (induction ws arbitrary: d)
  case (Cons w ws)
  from Cons.prems(1) obtain reg where m: "mutate_registry (op w) d = Inr reg"
    and s: "serial (\<lambda>w. mutate_registry (op w)) ws (Some reg) = Inr d'"
    by (auto simp: bind_res_Inr_iff)
  from m obtain v where o: "op w (registry_of d) = Inr (v, reg)"
    by (auto simp: mutate_registry_def bind_res_Inr_iff)
  have "reach init step (registry_of (Some reg))"
    using reach_next [OF Cons.prems(2) assms [OF Cons.prems(2) o]] by (simp add: registry_of_def)
  then show ?case by (rule Cons.IH [OF s])
qed simp

text \<open>
  C18. Any number of servers may run job operations against the one stored registry at once. Whatever
  the interleaving of their reads, conditional updates and inserts, the stored registry is one that
  some sequence of whole operations produces, so it has every property that the reachable
  registries have, its invariant among them.
\<close>

theorem durable_registry_reachable:
  assumes "\<And>w reg v reg'. reach (\<lambda>r. r = empty_registry) (job_step cp jsize) reg \<Longrightarrow> op w reg = Inr (v, reg') \<Longrightarrow>
      job_step cp jsize reg reg'"
    and "reach (kv_start None) (kv_step (\<lambda>w. mutate_registry (op w))) s"
  shows "reach (\<lambda>r. r = empty_registry) (job_step cp jsize) (registry_of (map_option body (row s))) \<and>
    reg_ok (registry_of (map_option body (row s)))"
proof -
  have inv: "kv_inv (\<lambda>w. mutate_registry (op w)) None s" by (rule kv.reach_inv [OF assms(2)])
  then have ser: "serial (\<lambda>w. mutate_registry (op w)) (map fst (stores s)) None = Inr (map_option body (row s))"
    by (simp add: kv_inv_def)
  have start: "reach (\<lambda>r. r = empty_registry) (job_step cp jsize) (registry_of None)"
    by (rule reach_start) (simp add: registry_of_def)
  have r: "reach (\<lambda>r. r = empty_registry) (job_step cp jsize) (registry_of (map_option body (row s)))"
    by (rule serial_reach [OF assms(1) ser start])
  with registry.reach_inv [OF r] show ?thesis by simp
qed

text \<open>One server submits a job whose identifier is new, the others claim.\<close>

definition drop_value :: "'a outcome \<Rightarrow> unit outcome" where
  "drop_value x = bind_res x (\<lambda>(v, reg). Inr ((), reg))"

definition sample_op :: "nat \<Rightarrow> registry \<Rightarrow> unit outcome" where
  "sample_op w reg =
     (if w = 0 then
        (if submittable (sample_job CASE_TAG ''j'' []) reg then drop_value (create no_bytes 0 (sample_job CASE_TAG ''j'' []) reg)
         else Inl Job_conflict)
      else drop_value (claim_next reg reg ''w'' ''t'' 0 0 ''n'' reg))"

lemma sample_op_step: "sample_op w reg = Inr (v, reg') \<Longrightarrow> job_step cp no_bytes reg reg'"
  by (auto simp: sample_op_def drop_value_def bind_res_Inr_iff split: if_splits intro: st_create st_claim)

definition idle_servers :: "(registry, job_error) kv_system" where
  "idle_servers = \<lparr>row = None, phase_of = (\<lambda>w. Reading 0), stores = []\<rparr>"

lemma durable_registry_reachable_witness:
  "reg_ok (registry_of (map_option body (row (play (\<lambda>w. mutate_registry (sample_op w)) [0, 1, 0, 0, 1, 1, 1, 1] idle_servers))))"
proof -
  have s: "reach (kv_start None) (kv_step (\<lambda>w. mutate_registry (sample_op w)))
      (play (\<lambda>w. mutate_registry (sample_op w)) [0, 1, 0, 0, 1, 1, 1, 1] idle_servers)"
    by (intro play_reach reach_start) (simp add: kv_start_def idle_servers_def)
  have o: "job_step plain_params no_bytes reg reg'" if "sample_op w reg = Inr (v, reg')" for w reg v reg'
    by (rule sample_op_step [OF that])
  show ?thesis by (rule conjunct2 [OF durable_registry_reachable [OF o s]])
qed

end
