(* ===== verification/Sessions.thy ===== *)
theory Sessions
  imports Prelude
begin

section \<open>Session limits and the session registry\<close>

text \<open>
  \<^verbatim>\<open>auth/session_limits.py\<close> (which limits judge a session), \<^verbatim>\<open>stores/sessions.py\<close> (the
  registry of sessions, one bounded list in one document) and the session check of \<^verbatim>\<open>api/deps.py\<close>
  with the rotation of \<^verbatim>\<open>/auth/refresh\<close>. A timestamp is the instant it denotes in seconds, \<open>None\<close> where
  the text is blank or unreadable; canonical timestamps sort as their instants. The registry is
  changed by \<^verbatim>\<open>kv_mutate\<close>, so an operation is a function of the entries. \<open>now\<close> is the
  clock, \<open>vf\<close> the salted check of a refresh token against a stored hash. Policies are typed: a missing
  block is \<open>None\<close>, a missing number 0.
\<close>

subsection \<open>Limits\<close>

definition REMEMBER_MAX_SECONDS :: int where "REMEMBER_MAX_SECONDS = 86400"
definition MAX_SESSION_TOKEN_SECONDS :: int where "MAX_SESSION_TOKEN_SECONDS = 6 * 86400"
definition PRUNE_GRACE_SECONDS :: int where "PRUNE_GRACE_SECONDS = 7 * 24 * 3600"
definition MAX_ROWS :: nat where "MAX_ROWS = 2000"

definition norm_text :: "string \<Rightarrow> string" where
  "norm_text s = py_lower (py_strip s)"

definition norm_roles :: "string list \<Rightarrow> string set" where
  "norm_roles rs = set (map norm_text rs) - {[]}"

record remember_policy =
  rm_enabled :: bool
  rm_duration :: int
  rm_idle :: int
  rm_excluded :: "string list"

record session_policy =
  sp_idle :: int
  sp_absolute :: int
  sp_remember :: "remember_policy option"

record session_limits =
  idle :: int
  absolute :: int
  remember_idle :: int
  remember_absolute :: int
  excluded_roles :: "string set"
  fallback_idle :: int
  fallback_absolute :: int

definition strictest :: "int list \<Rightarrow> int" where
  "strictest ls = (let ps = filter (\<lambda>v. 0 < v) ls in if ps = [] then 0 else Min (set ps))"

definition remember_enabled :: "session_limits \<Rightarrow> bool" where
  "remember_enabled l = (0 < remember_absolute l)"

definition policy_limits :: "session_policy option \<Rightarrow> int \<Rightarrow> session_limits" where
  "policy_limits p token_seconds =
     (let i = (case p of None \<Rightarrow> 0 | Some q \<Rightarrow> max 0 (sp_idle q));
          a = (case p of None \<Rightarrow> 0 | Some q \<Rightarrow> max 0 (sp_absolute q));
          rm = (case p of None \<Rightarrow> None | Some q \<Rightarrow> sp_remember q);
          excluded = (case rm of None \<Rightarrow> {} | Some r \<Rightarrow> norm_roles (rm_excluded r));
          explicit = (case rm of None \<Rightarrow> 0 | Some r \<Rightarrow> max 0 (rm_idle r));
          base = \<lparr>idle = i, absolute = a, remember_idle = 0, remember_absolute = 0, excluded_roles = excluded,
                  fallback_idle = explicit, fallback_absolute = max 0 token_seconds\<rparr>
      in case rm of
           None \<Rightarrow> base
         | Some r \<Rightarrow>
             if \<not> rm_enabled r then base
             else let duration = min REMEMBER_MAX_SECONDS (max 0 (rm_duration r))
                  in if duration \<le> 0 then base
                     else let ra = (if 0 < a then min duration a else duration);
                              ri = (if 0 < explicit then min explicit ra else if 0 < i then min i ra else ra)
                          in base\<lparr>remember_idle := ri, remember_absolute := ra\<rparr>)"

definition without_remember :: "session_limits \<Rightarrow> session_limits" where
  "without_remember l = (if remember_enabled l then l\<lparr>remember_idle := 0, remember_absolute := 0\<rparr> else l)"

definition role_excluded :: "session_limits \<Rightarrow> string list \<Rightarrow> bool" where
  "role_excluded l roles = (excluded_roles l \<inter> norm_roles roles \<noteq> {})"

definition for_roles :: "session_limits \<Rightarrow> string list \<Rightarrow> session_limits" where
  "for_roles l roles = (if remember_enabled l \<and> role_excluded l roles then without_remember l else l)"

definition session_limits_of :: "session_policy option \<Rightarrow> string list option \<Rightarrow> int \<Rightarrow> session_limits" where
  "session_limits_of p roles token_seconds =
     (let l = policy_limits p token_seconds in case roles of None \<Rightarrow> l | Some rs \<Rightarrow> for_roles l rs)"

definition remember_window_seconds :: "session_policy option \<Rightarrow> int" where
  "remember_window_seconds p = remember_absolute (policy_limits p 0)"

definition remember_idle_window_seconds :: "session_policy option \<Rightarrow> int" where
  "remember_idle_window_seconds p =
     (let l = policy_limits p 0
      in if remember_absolute l \<le> 0 then 0
         else if 0 < remember_idle l \<and> remember_idle l < remember_absolute l then remember_idle l else 0)"

text \<open>The preferences that decide which roles a principal holds.\<close>

record session_prefs =
  pf_policy :: "session_policy option"
  pf_rbac_enabled :: bool
  pf_default_role :: string

definition effective_roles :: "session_prefs \<Rightarrow> string \<Rightarrow> string list" where
  "effective_roles prefs role =
     filter (\<lambda>r. r \<noteq> [])
       (norm_text role # (if \<not> pf_rbac_enabled prefs then [''super_admin'']
                          else if norm_text role = [] then [norm_text (pf_default_role prefs)] else []))"

definition limits_for_principal :: "session_prefs \<Rightarrow> string \<Rightarrow> int \<Rightarrow> session_limits" where
  "limits_for_principal prefs role token_seconds =
     session_limits_of (pf_policy prefs) (Some (effective_roles prefs role)) token_seconds"

text \<open>\<open>role_of\<close> is the live principal's role, \<open>None\<close> for an unknown or inactive account.\<close>

definition limits_for_username :: "session_prefs \<Rightarrow> (string \<Rightarrow> string option) \<Rightarrow> int \<Rightarrow> string \<Rightarrow> session_limits" where
  "limits_for_username prefs role_of token_seconds user =
     (case (if user = [] then None else role_of user) of
        None \<Rightarrow> without_remember (session_limits_of (pf_policy prefs) (Some []) token_seconds)
      | Some role \<Rightarrow> limits_for_principal prefs role token_seconds)"

text \<open>\<^verbatim>\<open>AUTH_TOKEN_HOURS\<close>, \<open>None\<close> where it is no number.\<close>

definition bounded_token_seconds :: "int option \<Rightarrow> int" where
  "bounded_token_seconds hours =
     (let s = (case hours of Some h \<Rightarrow> max 1 (h * 3600) | None \<Rightarrow> 12 * 3600) in min s MAX_SESSION_TOKEN_SECONDS)"

subsection \<open>Rows\<close>

record session_row =
  sid :: string
  username :: string
  refresh_hash :: string
  refresh_prev_hash :: string
  token_version :: int
  created_at :: "real option"
  last_active_at :: "real option"
  last_authn_at :: "real option"
  absolute_expiry_at :: "real option"
  idle_expiry_at :: "real option"
  revoked :: bool
  revoked_at :: "real option"
  revoked_by :: string
  revoke_reason :: string
  device :: "(string \<times> string) list"
  remember :: bool
  remember_seconds :: int
  token_expires_at :: "real option"

definition tv_key :: "string \<Rightarrow> string" where
  "tv_key user = ''__tv__:'' @ norm_text user"

definition sentinel :: "session_row \<Rightarrow> bool" where
  "sentinel r = (take 7 (sid r) = ''__tv__:'')"

definition blank_row :: "real \<Rightarrow> string \<Rightarrow> string \<Rightarrow> session_row" where
  "blank_row now s user =
     \<lparr>sid = s, username = user, refresh_hash = [], refresh_prev_hash = [], token_version = 0, created_at = Some now,
      last_active_at = Some now, last_authn_at = Some now, absolute_expiry_at = None, idle_expiry_at = None,
      revoked = False, revoked_at = None, revoked_by = [], revoke_reason = [], device = [], remember = False,
      remember_seconds = 0, token_expires_at = None\<rparr>"

definition tv_row :: "string \<Rightarrow> session_row" where
  "tv_row user =
     \<lparr>sid = tv_key user, username = user, refresh_hash = [], refresh_prev_hash = [], token_version = 1, created_at = None,
      last_active_at = None, last_authn_at = None, absolute_expiry_at = None, idle_expiry_at = None,
      revoked = False, revoked_at = None, revoked_by = [], revoke_reason = [], device = [], remember = False,
      remember_seconds = 0, token_expires_at = None\<rparr>"

definition for_row :: "session_limits \<Rightarrow> session_row option \<Rightarrow> int \<times> int" where
  "for_row l row =
     (case row of
        None \<Rightarrow> (idle l, absolute l)
      | Some r \<Rightarrow>
          if remember r then
            if 0 < remember_absolute l
            then (if remember_idle l \<noteq> 0 then remember_idle l else remember_absolute l, remember_absolute l)
            else (strictest [idle l, fallback_idle l], strictest [absolute l, fallback_absolute l])
          else (idle l, absolute l))"

definition limits_for_row :: "session_limits \<Rightarrow> session_row \<Rightarrow> int \<times> int" where
  "limits_for_row l r =
     (if remember r then
        if 0 < remember_absolute l
        then (if 0 < remember_idle l \<and> remember_idle l \<le> remember_absolute l then remember_idle l else remember_absolute l,
              remember_absolute l)
        else (strictest [idle l, fallback_idle l], strictest [absolute l, fallback_absolute l])
      else (idle l, absolute l))"

datatype session_reason = Revoked | Tv_mismatch | Absolute_expired | Idle_expired | Unknown

definition past :: "real \<Rightarrow> int \<Rightarrow> real option \<Rightarrow> real option \<Rightarrow> bool" where
  "past now limit anchor stamped =
     (case anchor of
        Some t \<Rightarrow> if 0 < limit then t + of_int limit < now else (case stamped of Some e \<Rightarrow> e < now | None \<Rightarrow> False)
      | None \<Rightarrow> (case stamped of Some e \<Rightarrow> e < now | None \<Rightarrow> False))"

definition is_active :: "session_limits \<Rightarrow> real \<Rightarrow> session_row \<Rightarrow> session_reason option" where
  "is_active l now r =
     (if revoked r then Some Revoked
      else let (i, a) = limits_for_row l r
           in if past now a (created_at r) (absolute_expiry_at r) then Some Absolute_expired
              else if past now i (last_active_at r) (idle_expiry_at r) then Some Idle_expired
              else None)"

definition deadline :: "int \<Rightarrow> real option \<Rightarrow> real option \<Rightarrow> real option" where
  "deadline limit anchor stamped =
     (case anchor of Some t \<Rightarrow> if 0 < limit then Some (t + of_int limit) else stamped | None \<Rightarrow> stamped)"

definition expiry_epochs :: "session_limits \<Rightarrow> session_row \<Rightarrow> real option \<times> real option" where
  "expiry_epochs l r =
     (let (i, a) = limits_for_row l r;
          hard = deadline a (created_at r) (absolute_expiry_at r);
          hard' = (case token_expires_at r of
                     None \<Rightarrow> hard
                   | Some e \<Rightarrow> (case hard of None \<Rightarrow> Some e | Some h \<Rightarrow> Some (min h e)))
      in (hard', deadline i (last_active_at r) (idle_expiry_at r)))"

definition last_authn :: "session_row \<Rightarrow> real option" where
  "last_authn r = (case last_authn_at r of Some t \<Rightarrow> if t \<noteq> 0 then Some t else created_at r | None \<Rightarrow> created_at r)"

definition reauth_age_seconds :: "real \<Rightarrow> session_row option \<Rightarrow> real option" where
  "reauth_age_seconds now row =
     (case row of None \<Rightarrow> None | Some r \<Rightarrow> map_option (\<lambda>t. max 0 (now - t)) (last_authn r))"

subsection \<open>Bounding\<close>

definition dead_at :: "real \<Rightarrow> session_row \<Rightarrow> real option" where
  "dead_at now r =
     (if revoked r then Some (case revoked_at r of Some t \<Rightarrow> if t \<noteq> 0 then t else now | None \<Rightarrow> now)
      else case absolute_expiry_at r of Some e \<Rightarrow> if e < now then Some e else None | None \<Rightarrow> None)"

definition kept :: "real \<Rightarrow> session_row \<Rightarrow> bool" where
  "kept now r =
     (sentinel r \<or> (case dead_at now r of Some d \<Rightarrow> now - d \<le> of_int PRUNE_GRACE_SECONDS | None \<Rightarrow> True))"

definition prune_rows :: "real \<Rightarrow> session_row list \<Rightarrow> session_row list" where
  "prune_rows now rows = filter (kept now) rows"

definition created_key :: "session_row \<Rightarrow> nat \<times> real" where
  "created_key r = (case created_at r of None \<Rightarrow> (0, 0) | Some t \<Rightarrow> (1, t))"

definition bound_rows :: "real \<Rightarrow> session_row list \<Rightarrow> session_row list" where
  "bound_rows now rows =
     (let pruned = prune_rows now rows
      in if MAX_ROWS < length pruned then drop (length pruned - MAX_ROWS) (sort_key created_key pruned) else pruned)"

definition mutate_rows :: "real \<Rightarrow> (session_row list \<Rightarrow> 'a \<times> session_row list) \<Rightarrow> session_row list \<Rightarrow> 'a \<times> session_row list" where
  "mutate_rows now f rows = (let (v, rs) = f (filter (\<lambda>r. sid r \<noteq> []) rows) in (v, bound_rows now rs))"

subsection \<open>Operations\<close>

fun update_first :: "(session_row \<Rightarrow> bool) \<Rightarrow> (session_row \<Rightarrow> session_row) \<Rightarrow> session_row list \<Rightarrow> session_row option \<times> session_row list" where
  "update_first P g [] = (None, [])"
| "update_first P g (r # rs) =
     (if P r then (Some (g r), g r # rs) else let (v, rs') = update_first P g rs in (v, r # rs'))"

definition tv_from :: "session_row list \<Rightarrow> string \<Rightarrow> int" where
  "tv_from rows user = (case find (\<lambda>r. sid r = tv_key user) rows of Some r \<Rightarrow> token_version r | None \<Rightarrow> 0)"

definition slide :: "real \<Rightarrow> int \<Rightarrow> session_row \<Rightarrow> session_row" where
  "slide now idle_timeout r =
     (if 0 < idle_timeout then r\<lparr>last_active_at := Some now, idle_expiry_at := Some (now + of_int idle_timeout)\<rparr>
      else r\<lparr>last_active_at := Some now\<rparr>)"

record session_request =
  q_sid :: string
  q_user :: string
  q_tv :: int
  q_refresh_hash :: string
  q_idle :: int
  q_absolute :: int
  q_device :: "(string \<times> string) list"
  q_remember :: bool
  q_remember_seconds :: int
  q_token_expires :: "real option"

definition new_session :: "real \<Rightarrow> session_request \<Rightarrow> session_row" where
  "new_session now q =
     (blank_row now (q_sid q) (q_user q))
       \<lparr>absolute_expiry_at := (if 0 < q_absolute q then Some (now + of_int (q_absolute q)) else None),
        idle_expiry_at := (if 0 < q_idle q then Some (now + of_int (q_idle q)) else None),
        token_version := q_tv q, refresh_hash := q_refresh_hash q, device := q_device q, remember := q_remember q,
        remember_seconds := (if q_remember q then max 0 (q_remember_seconds q) else 0),
        token_expires_at := q_token_expires q\<rparr>"

definition create_session :: "real \<Rightarrow> session_request \<Rightarrow> session_row list \<Rightarrow> session_row \<times> session_row list" where
  "create_session now q =
     mutate_rows now (\<lambda>rows.
       let row = new_session now q
       in case update_first (\<lambda>r. sid r = q_sid q) (\<lambda>r. row) rows of
            (Some r, rows') \<Rightarrow> (row, rows')
          | (None, rows') \<Rightarrow> (row, rows @ [row]))"

definition get_session :: "string \<Rightarrow> session_row list \<Rightarrow> session_row option" where
  "get_session s rows = (if s = [] \<or> take 7 s = ''__tv__:'' then None else find (\<lambda>r. sid r = s) rows)"

definition newest_first :: "session_row list \<Rightarrow> session_row list" where
  "newest_first rows = rev (sort_key created_key (rev rows))"

definition list_for :: "string \<Rightarrow> session_row list \<Rightarrow> session_row list" where
  "list_for user rows =
     newest_first (filter (\<lambda>r. sid r \<noteq> [] \<and> \<not> sentinel r \<and> norm_text (username r) = norm_text user) rows)"

definition list_all_sessions :: "session_row list \<Rightarrow> session_row list" where
  "list_all_sessions rows = newest_first (filter (\<lambda>r. sid r \<noteq> [] \<and> \<not> sentinel r) rows)"

definition fresh_row :: "real \<Rightarrow> session_row \<Rightarrow> bool" where
  "fresh_row now r = (case last_active_at r of Some t \<Rightarrow> now - t < 60 | None \<Rightarrow> False)"

definition touch :: "real \<Rightarrow> string \<Rightarrow> int \<Rightarrow> session_row list \<Rightarrow> bool \<times> session_row list" where
  "touch now s idle_timeout rows =
     (if (case get_session s rows of Some r \<Rightarrow> fresh_row now r | None \<Rightarrow> False) then (False, rows)
      else mutate_rows now (\<lambda>rs.
             case find (\<lambda>r. sid r = s) rs of
               None \<Rightarrow> (False, rs)
             | Some r \<Rightarrow>
                 if fresh_row now r then (False, rs)
                 else (True, snd (update_first (\<lambda>r. sid r = s) (slide now idle_timeout) rs))) rows)"

definition found :: "'a option \<times> 'b \<Rightarrow> bool \<times> 'b" where
  "found p = (fst p \<noteq> None, snd p)"

definition stamp_authn :: "real \<Rightarrow> string \<Rightarrow> session_row list \<Rightarrow> bool \<times> session_row list" where
  "stamp_authn now s =
     mutate_rows now (\<lambda>rows. found (update_first (\<lambda>r. sid r = s) (\<lambda>r. r\<lparr>last_authn_at := Some now, last_active_at := Some now\<rparr>) rows))"

definition rotate_row :: "string \<Rightarrow> session_row \<Rightarrow> session_row" where
  "rotate_row new_hash r = r\<lparr>refresh_prev_hash := refresh_hash r, refresh_hash := new_hash\<rparr>"

definition rotate_refresh :: "real \<Rightarrow> string \<Rightarrow> string \<Rightarrow> session_row list \<Rightarrow> session_row option \<times> session_row list" where
  "rotate_refresh now s new_hash = mutate_rows now (update_first (\<lambda>r. sid r = s) (rotate_row new_hash))"

definition rekey_row :: "real \<Rightarrow> string \<Rightarrow> string \<Rightarrow> int \<Rightarrow> real option \<Rightarrow> session_row \<Rightarrow> session_row" where
  "rekey_row now new_sid new_hash idle_timeout expires r =
     (let r1 = slide now idle_timeout ((rotate_row new_hash r)\<lparr>sid := new_sid\<rparr>)
      in if expires \<noteq> None then r1\<lparr>token_expires_at := expires\<rparr> else r1)"

definition rekey_and_rotate ::
  "real \<Rightarrow> string \<Rightarrow> string \<Rightarrow> string \<Rightarrow> int \<Rightarrow> real option \<Rightarrow> session_row list \<Rightarrow> session_row option \<times> session_row list" where
  "rekey_and_rotate now old_sid new_sid new_hash idle_timeout expires =
     mutate_rows now (update_first (\<lambda>r. sid r = old_sid) (rekey_row now new_sid new_hash idle_timeout expires))"

datatype refresh_match = No_match | Current session_row | Previous session_row

definition find_by_refresh :: "(string \<Rightarrow> string \<Rightarrow> bool) \<Rightarrow> string \<Rightarrow> session_row list \<Rightarrow> refresh_match" where
  "find_by_refresh vf token rows =
     (if token = [] then No_match
      else case find (\<lambda>r. sid r \<noteq> [] \<and> \<not> sentinel r \<and> refresh_hash r \<noteq> [] \<and> vf token (refresh_hash r)) rows of
             Some r \<Rightarrow> Current r
           | None \<Rightarrow>
               (case find (\<lambda>r. sid r \<noteq> [] \<and> \<not> sentinel r \<and> refresh_prev_hash r \<noteq> [] \<and> vf token (refresh_prev_hash r)) rows of
                  Some r \<Rightarrow> Previous r
                | None \<Rightarrow> No_match))"

definition revoke_row :: "real \<Rightarrow> string \<Rightarrow> string \<Rightarrow> session_row \<Rightarrow> session_row" where
  "revoke_row now who why r = r\<lparr>revoked := True, revoked_at := Some now, revoked_by := who, revoke_reason := why\<rparr>"

definition revoke :: "real \<Rightarrow> string \<Rightarrow> string \<Rightarrow> string \<Rightarrow> session_row list \<Rightarrow> bool \<times> session_row list" where
  "revoke now s who why =
     mutate_rows now (\<lambda>rows. found (update_first (\<lambda>r. sid r = s \<and> \<not> revoked r) (revoke_row now who why) rows))"

definition revocable :: "string \<Rightarrow> string \<Rightarrow> session_row \<Rightarrow> bool" where
  "revocable user keep r =
     (\<not> sentinel r \<and> norm_text (username r) = norm_text user \<and> \<not> revoked r \<and> \<not> (keep \<noteq> [] \<and> sid r = keep))"

definition revoke_matching :: "real \<Rightarrow> string \<Rightarrow> string \<Rightarrow> (session_row \<Rightarrow> bool) \<Rightarrow> session_row list \<Rightarrow> nat \<times> session_row list" where
  "revoke_matching now who why P rows =
     (length (filter P rows), map (\<lambda>r. if P r then revoke_row now who why r else r) rows)"

definition bump_tv :: "string \<Rightarrow> session_row list \<Rightarrow> session_row list" where
  "bump_tv user rows =
     (case update_first (\<lambda>r. sid r = tv_key user) (\<lambda>r. r\<lparr>token_version := token_version r + 1\<rparr>) rows of
        (Some r, rows') \<Rightarrow> rows'
      | (None, rows') \<Rightarrow> rows @ [tv_row user])"

definition revoke_all :: "real \<Rightarrow> string \<Rightarrow> string \<Rightarrow> string \<Rightarrow> string \<Rightarrow> session_row list \<Rightarrow> nat \<times> session_row list" where
  "revoke_all now user who why except_sid =
     mutate_rows now (\<lambda>rows.
       let (n, rs) = revoke_matching now who (str_or why ''revoke_all'') (revocable user except_sid) rows
       in (n, bump_tv user rs))"

definition revoke_others :: "real \<Rightarrow> string \<Rightarrow> string \<Rightarrow> string \<Rightarrow> string \<Rightarrow> session_row list \<Rightarrow> nat \<times> session_row list" where
  "revoke_others now user keep_sid who why =
     mutate_rows now (revoke_matching now who why
       (\<lambda>r. \<not> sentinel r \<and> norm_text (username r) = norm_text user \<and> \<not> revoked r \<and> sid r \<noteq> keep_sid))"

definition prune :: "real \<Rightarrow> session_row list \<Rightarrow> nat \<times> session_row list" where
  "prune now = mutate_rows now (\<lambda>rows. (length rows - length (prune_rows now rows), rows))"

subsection \<open>Strict authority\<close>

definition clamp_limits :: "session_limits \<Rightarrow> session_limits" where
  "clamp_limits l =
     l\<lparr>idle := max 0 (idle l), absolute := max 0 (absolute l), remember_idle := max 0 (remember_idle l),
       remember_absolute := max 0 (remember_absolute l), fallback_idle := max 0 (fallback_idle l),
       fallback_absolute := max 0 (fallback_absolute l)\<rparr>"

definition owned_row :: "string \<Rightarrow> string \<Rightarrow> session_row list \<Rightarrow> session_row option" where
  "owned_row s user rows =
     (case find (\<lambda>r. sid r = s) rows of
        None \<Rightarrow> None
      | Some r \<Rightarrow> if norm_text (username r) = norm_text user then Some r else None)"

text \<open>The outer \<open>None\<close> is the error an unreadable registry raises.\<close>

definition strict_deferred_authority_expires_at ::
  "session_limits \<Rightarrow> real \<Rightarrow> int \<Rightarrow> string \<Rightarrow> string \<Rightarrow> int \<Rightarrow> session_row list option \<Rightarrow> int option option" where
  "strict_deferred_authority_expires_at l now sudo_window s user tv doc =
     (case doc of
        None \<Rightarrow> None
      | Some rows \<Rightarrow>
          Some (case owned_row s user rows of
             None \<Rightarrow> None
           | Some r \<Rightarrow>
               if token_version r \<noteq> tv \<or> tv_from rows user \<noteq> tv then None
               else if is_active (clamp_limits l) now r \<noteq> None then None
               else case last_authn r of
                      None \<Rightarrow> None
                    | Some t \<Rightarrow>
                        let e = t + of_int (max 1 sudo_window)
                        in if e < now then None else Some \<lfloor>e * 1000\<rfloor>))"

definition strict_deferred_authority ::
  "session_limits \<Rightarrow> real \<Rightarrow> int \<Rightarrow> string \<Rightarrow> string \<Rightarrow> int \<Rightarrow> session_row list option \<Rightarrow> bool option" where
  "strict_deferred_authority l now sudo_window s user tv doc =
     map_option (\<lambda>e. e \<noteq> None) (strict_deferred_authority_expires_at l now sudo_window s user tv doc)"

definition strict_request_authority ::
  "session_limits \<Rightarrow> real \<Rightarrow> string \<Rightarrow> string \<Rightarrow> int \<Rightarrow> session_row list option \<Rightarrow> session_reason option" where
  "strict_request_authority l now s user tv doc =
     (case doc of
        None \<Rightarrow> Some Unknown
      | Some rows \<Rightarrow>
          (case owned_row s user rows of
             None \<Rightarrow> Some Unknown
           | Some r \<Rightarrow>
               if token_version r \<noteq> tv \<or> tv_from rows user \<noteq> tv then Some Tv_mismatch
               else is_active (clamp_limits l) now r))"

subsection \<open>The check every request makes\<close>

record claims =
  c_sid :: string
  c_user :: string
  c_tv :: int
  c_iat :: int
  c_exp :: int
  c_rm :: bool

record session_verdict =
  v_reason :: "session_reason option"
  v_row :: "session_row option"

definition issued_before_prune_grace :: "real \<Rightarrow> claims \<Rightarrow> bool" where
  "issued_before_prune_grace now c = (0 < c_iat c \<and> of_int PRUNE_GRACE_SECONDS < now - of_int (c_iat c))"

definition remember_seconds_from_claims :: "claims \<Rightarrow> int" where
  "remember_seconds_from_claims c = (if c_rm c then max 0 (c_exp c - c_iat c) else 0)"

definition lazy_request :: "session_limits \<Rightarrow> (string \<times> string) list \<Rightarrow> claims \<Rightarrow> session_request" where
  "lazy_request l meta c =
     (let rs = remember_seconds_from_claims c; remembered = 0 < rs;
          (i, a) = (if remembered \<and> remember_enabled l then (remember_idle l, remember_absolute l) else (idle l, absolute l))
      in \<lparr>q_sid = c_sid c, q_user = c_user c, q_tv = c_tv c, q_refresh_hash = [], q_idle = i, q_absolute = a,
          q_device = meta, q_remember = remembered, q_remember_seconds = rs,
          q_token_expires = (if 0 < c_exp c then Some (of_int (c_exp c)) else None)\<rparr>)"

definition evaluate_session ::
  "bool \<Rightarrow> session_limits \<Rightarrow> real \<Rightarrow> (string \<times> string) list \<Rightarrow> claims \<Rightarrow> session_row list \<Rightarrow> session_verdict \<times> session_row list" where
  "evaluate_session gate_closed l now meta c rows =
     (if c_sid c = [] then (\<lparr>v_reason = None, v_row = None\<rparr>, rows)
      else if gate_closed then
        (\<lparr>v_reason = strict_request_authority l now (c_sid c) (c_user c) (c_tv c) (Some rows), v_row = None\<rparr>, rows)
      else
        let row = get_session (c_sid c) rows
        in if c_tv c < tv_from rows (c_user c) then (\<lparr>v_reason = Some Tv_mismatch, v_row = row\<rparr>, rows)
           else case row of
                  None \<Rightarrow>
                    if issued_before_prune_grace now c then (\<lparr>v_reason = Some Unknown, v_row = None\<rparr>, rows)
                    else let (r, rows') = create_session now (lazy_request l meta c) rows
                         in (\<lparr>v_reason = None, v_row = Some r\<rparr>, rows')
                | Some r \<Rightarrow>
                    (case is_active l now r of
                       Some why \<Rightarrow> (\<lparr>v_reason = Some why, v_row = Some r\<rparr>, rows)
                     | None \<Rightarrow>
                         (\<lparr>v_reason = None, v_row = Some r\<rparr>, snd (touch now (c_sid c) (fst (for_row l (Some r))) rows))))"

text \<open>
  Minting: \<open>active\<close> and \<open>tv_of\<close> are the synced view of the users and of their token versions,
  \<open>std\<close> the standard lifetime, \<open>s\<close> the fresh session id. A signed token is its claims.
\<close>

definition session_lifetime :: "int \<Rightarrow> int \<Rightarrow> int \<times> bool" where
  "session_lifetime std wanted = (if 0 < wanted then (max 60 (min wanted REMEMBER_MAX_SECONDS), True) else (std, False))"

definition mint_session ::
  "(string \<Rightarrow> bool) \<Rightarrow> (string \<Rightarrow> int) \<Rightarrow> int \<Rightarrow> string \<Rightarrow> real \<Rightarrow> string \<Rightarrow> int \<Rightarrow> claims option" where
  "mint_session active tv_of std s now user wanted =
     (if \<not> active (norm_text user) then None
      else let (life, remembered) = session_lifetime std wanted
           in Some \<lparr>c_sid = s, c_user = user, c_tv = tv_of (norm_text user), c_iat = \<lfloor>now\<rfloor>, c_exp = \<lfloor>now\<rfloor> + life, c_rm = remembered\<rparr>)"

definition register_session ::
  "session_limits \<Rightarrow> real \<Rightarrow> (string \<times> string) list \<Rightarrow> string \<Rightarrow> int \<Rightarrow> claims \<Rightarrow> session_row list \<Rightarrow> string \<times> session_row list" where
  "register_session l now meta refresh remember_for c rows =
     (if c_sid c = [] then ([], rows)
      else let remembered = 0 < remember_for;
               (i, a) = (if remembered
                         then (if 0 < remember_idle l \<and> remember_idle l \<le> remember_for then remember_idle l else remember_for, remember_for)
                         else (idle l, absolute l))
           in (c_sid c, snd (create_session now
                \<lparr>q_sid = c_sid c, q_user = c_user c, q_tv = c_tv c, q_refresh_hash = refresh, q_idle = i, q_absolute = a,
                 q_device = meta, q_remember = remembered, q_remember_seconds = (if remembered then remember_for else 0),
                 q_token_expires = (if 0 < c_exp c then Some (of_int (c_exp c)) else None)\<rparr> rows)))"

datatype refresh_outcome =
    Refresh_missing
  | Refresh_reuse
  | Refresh_unknown
  | Refresh_expired session_reason
  | Refresh_inactive_user
  | Refreshed claims

text \<open>\<open>mint\<close> signs a new session token for a user and a remembered lifetime; \<open>new_hash\<close> is the hash of the new refresh token.\<close>

definition auth_refresh ::
  "(string \<Rightarrow> string \<Rightarrow> bool) \<Rightarrow> (string \<Rightarrow> int \<Rightarrow> claims option) \<Rightarrow> (string \<Rightarrow> session_limits) \<Rightarrow> real \<Rightarrow> string \<Rightarrow> string
     \<Rightarrow> session_row list \<Rightarrow> refresh_outcome \<times> session_row list" where
  "auth_refresh vf mint limits now token new_hash rows =
     (let presented = py_strip token
      in if presented = [] then (Refresh_missing, rows)
         else case find_by_refresh vf presented rows of
           Previous r \<Rightarrow> (Refresh_reuse, snd (revoke_all now (username r) ''system'' ''refresh_reuse_detected'' [] rows))
         | No_match \<Rightarrow> (Refresh_unknown, rows)
         | Current r \<Rightarrow>
             let l = limits (username r)
             in (case is_active l now r of
                   Some why \<Rightarrow> (Refresh_expired why, rows)
                 | None \<Rightarrow>
                     let secs = (if remember r \<and> remember_enabled l then
                                   let remaining = (case created_at r of
                                          Some t \<Rightarrow> (let d = t + of_int (remember_absolute l) - now in if 0 \<le> d then \<lfloor>d\<rfloor> else \<lceil>d\<rceil>)
                                        | None \<Rightarrow> remember_absolute l)
                                   in max 60 (min remaining (remember_absolute l))
                                 else 0)
                     in (case mint (username r) secs of
                           None \<Rightarrow> (Refresh_inactive_user, rows)
                         | Some c \<Rightarrow>
                             (Refreshed c,
                              snd (rekey_and_rotate now (sid r) (c_sid c) new_hash (fst (for_row l (Some r)))
                                    (if 0 < c_exp c then Some (of_int (c_exp c)) else None) rows)))))"

subsection \<open>The projection shown to users\<close>

record session_view =
  w_active :: bool
  w_reason :: "session_reason option"
  w_expires :: "real option"
  w_idle_expires :: "real option"
  w_absolute_expires :: "real option"
  w_remember :: bool
  w_remember_seconds :: int

definition public_session :: "session_limits \<Rightarrow> real \<Rightarrow> session_row \<Rightarrow> session_view" where
  "public_session l now r =
     (let (hard, soft) = expiry_epochs l r;
          reason = (case is_active l now r of
                      Some why \<Rightarrow> Some why
                    | None \<Rightarrow> (case hard of Some h \<Rightarrow> if h < now then Some Absolute_expired else None | None \<Rightarrow> None));
          rem = (remember r \<and> reason = None \<and> 0 < remember_absolute l)
      in \<lparr>w_active = (reason = None), w_reason = reason,
          w_expires = (case (hard, soft) of (Some h, Some s) \<Rightarrow> Some (min h s) | (Some h, None) \<Rightarrow> Some h | (None, s) \<Rightarrow> s),
          w_idle_expires = soft, w_absolute_expires = hard,
          w_remember = rem, w_remember_seconds = (if rem then remember_seconds r else 0)\<rparr>)"

end
