(* ===== verification/Session_Limits.thy ===== *)
theory Session_Limits
  imports Sessions
begin

section \<open>What the session registry guarantees\<close>

text \<open>
  Lemmas and properties of \<^verbatim>\<open>Sessions\<close>: how the limits of a remembered session compare with
  those of an ordinary one, what no operation of the registry undoes (a revocation, the age of a
  session, a user's token version), and where the bounded document or the rotation of a session
  falls short of it.
\<close>

subsection \<open>Limits\<close>

lemma strictest_le:
  assumes v: "v \<in> set ls" "0 < v"
  shows "0 < strictest ls \<and> strictest ls \<le> v"
proof -
  let ?ps = "filter (\<lambda>v. 0 < v) ls"
  have mem: "v \<in> set ?ps" using v by simp
  then have ne: "?ps \<noteq> []" by (metis list.set(1) empty_iff)
  have "Min (set ?ps) \<in> set ?ps" using v by (intro Min_in) auto
  then have "0 < Min (set ?ps)" by (simp only: set_filter mem_Collect_eq simp_thms)
  moreover have "Min (set ?ps) \<le> v" using mem by (intro Min_le) simp_all
  moreover have "strictest ls = Min (set ?ps)" using ne by (simp only: strictest_def Let_def if_False)
  ultimately show ?thesis by (simp only: simp_thms)
qed

lemma strictest_two: "strictest [a, b] = (if 0 < a then if 0 < b then min a b else a else if 0 < b then b else 0)"
  by (auto simp: strictest_def)

text \<open>The two forms the limits of a policy take: Remember me off, and on with lifetime \<open>ra\<close>.\<close>

definition off_limits :: "int \<Rightarrow> int \<Rightarrow> int \<Rightarrow> string set \<Rightarrow> int \<Rightarrow> session_limits" where
  "off_limits i a e ex t =
     \<lparr>idle = i, absolute = a, remember_idle = 0, remember_absolute = 0, excluded_roles = ex, fallback_idle = e, fallback_absolute = max 0 t\<rparr>"

definition remembered_idle :: "int \<Rightarrow> int \<Rightarrow> int \<Rightarrow> int" where
  "remembered_idle i e ra = (if 0 < e then min e ra else if 0 < i then min i ra else ra)"

lemma policy_limits_form:
  "\<exists>i a e ex. 0 \<le> i \<and> 0 \<le> a \<and> 0 \<le> e \<and>
     (policy_limits p t = off_limits i a e ex t \<or>
      (\<exists>ra. 0 < ra \<and> ra \<le> 86400 \<and> (0 < a \<longrightarrow> ra \<le> a) \<and>
         policy_limits p t = (off_limits i a e ex t)\<lparr>remember_idle := remembered_idle i e ra, remember_absolute := ra\<rparr>))"
proof (cases p)
  case None
  then have "policy_limits p t = off_limits 0 0 0 {} t" by (simp add: policy_limits_def off_limits_def Let_def)
  then show ?thesis by blast
next
  case p: (Some q)
  let ?i = "max 0 (sp_idle q)" and ?a = "max 0 (sp_absolute q)"
  show ?thesis
  proof (cases "sp_remember q")
    case None
    then have "policy_limits p t = off_limits ?i ?a 0 {} t" by (simp add: p policy_limits_def off_limits_def Let_def)
    moreover have "0 \<le> ?i" "0 \<le> ?a" "(0::int) \<le> 0" by simp_all
    ultimately show ?thesis by blast
  next
    case r: (Some r)
    let ?e = "max 0 (rm_idle r)" and ?ex = "norm_roles (rm_excluded r)"
    define d where "d = min REMEMBER_MAX_SECONDS (max 0 (rm_duration r))"
    let ?ra = "if 0 < ?a then min d ?a else d"
    have unf: "policy_limits p t =
        (if \<not> rm_enabled r \<or> d \<le> 0 then off_limits ?i ?a ?e ?ex t
         else (off_limits ?i ?a ?e ?ex t)\<lparr>remember_idle := remembered_idle ?i ?e ?ra, remember_absolute := ?ra\<rparr>)"
    proof (cases "rm_enabled r \<and> 0 < d")
      case True
      then show ?thesis
        by (simp only: policy_limits_def p r option.case Let_def d_def [symmetric] off_limits_def remembered_idle_def
            not_le [symmetric] simp_thms if_True if_False)
    next
      case False
      then show ?thesis
        by (simp only: policy_limits_def p r option.case Let_def d_def [symmetric] off_limits_def
            not_le [symmetric] simp_thms de_Morgan_conj if_True if_False) simp
    qed
    have nn: "0 \<le> ?i" "0 \<le> ?a" "0 \<le> ?e" by simp_all
    show ?thesis
    proof (cases "rm_enabled r \<and> 0 < d")
      case False
      then have "policy_limits p t = off_limits ?i ?a ?e ?ex t" unfolding unf by (intro if_P) linarith
      with nn show ?thesis by blast
    next
      case True
      then have "policy_limits p t = (off_limits ?i ?a ?e ?ex t)\<lparr>remember_idle := remembered_idle ?i ?e ?ra, remember_absolute := ?ra\<rparr>"
        unfolding unf by (intro if_not_P) linarith
      moreover have "d \<le> 86400" by (simp add: d_def REMEMBER_MAX_SECONDS_def)
      then have "0 < ?ra" "?ra \<le> 86400" "0 < ?a \<longrightarrow> ?ra \<le> ?a" using True by (auto simp: min_def max_def)
      ultimately show ?thesis using nn by blast
    qed
  qed
qed

lemma remembered_idle_bounds: "0 < ra \<Longrightarrow> 0 < remembered_idle i e ra \<and> remembered_idle i e ra \<le> ra"
  by (simp add: remembered_idle_def)

lemma remembered_idle_standard: "0 < i \<Longrightarrow> remembered_idle i 0 ra \<le> i"
  by (simp add: remembered_idle_def)

lemma policy_limits_shape:
  "0 \<le> idle (policy_limits p t) \<and> 0 \<le> absolute (policy_limits p t) \<and> 0 \<le> remember_absolute (policy_limits p t) \<and>
   remember_absolute (policy_limits p t) \<le> 86400 \<and> 0 \<le> fallback_idle (policy_limits p t) \<and>
   fallback_absolute (policy_limits p t) = max 0 t \<and>
   (0 < remember_absolute (policy_limits p t) \<longrightarrow>
      remember_idle (policy_limits p t) =
        remembered_idle (idle (policy_limits p t)) (fallback_idle (policy_limits p t)) (remember_absolute (policy_limits p t)) \<and>
      (0 < absolute (policy_limits p t) \<longrightarrow> remember_absolute (policy_limits p t) \<le> absolute (policy_limits p t))) \<and>
   (remember_absolute (policy_limits p t) = 0 \<longrightarrow> remember_idle (policy_limits p t) = 0)"
proof -
  obtain i a e ex where nn: "0 \<le> i" "0 \<le> a" "0 \<le> e" and
    form: "policy_limits p t = off_limits i a e ex t \<or>
      (\<exists>ra. 0 < ra \<and> ra \<le> 86400 \<and> (0 < a \<longrightarrow> ra \<le> a) \<and>
         policy_limits p t = (off_limits i a e ex t)\<lparr>remember_idle := remembered_idle i e ra, remember_absolute := ra\<rparr>)"
    using policy_limits_form [of p t] by blast
  from form show ?thesis
  proof (elim disjE exE conjE)
    assume "policy_limits p t = off_limits i a e ex t"
    then show ?thesis using nn by (simp add: off_limits_def)
  next
    fix ra assume "0 < ra" "ra \<le> 86400" "0 < a \<longrightarrow> ra \<le> a"
      "policy_limits p t = (off_limits i a e ex t)\<lparr>remember_idle := remembered_idle i e ra, remember_absolute := ra\<rparr>"
    then show ?thesis using nn by (simp add: off_limits_def)
  qed
qed

lemma for_roles_shape:
  "for_roles l roles = l \<or> remember_enabled l \<and> for_roles l roles = l\<lparr>remember_idle := 0, remember_absolute := 0\<rparr>"
  by (simp add: for_roles_def without_remember_def)

lemma limits_agree:
  assumes "0 < remember_absolute l \<longrightarrow> 0 < remember_idle l \<and> remember_idle l \<le> remember_absolute l"
  shows "limits_for_row l r = for_row l (Some r)"
  using assms by (auto simp: limits_for_row_def for_row_def)

lemma session_limits_rule:
  "0 < remember_absolute (session_limits_of p roles t) \<longrightarrow>
     0 < remember_idle (session_limits_of p roles t) \<and> remember_idle (session_limits_of p roles t) \<le> remember_absolute (session_limits_of p roles t)"
proof (cases roles)
  case None
  then show ?thesis using policy_limits_shape [of p t] remembered_idle_bounds by (simp add: session_limits_of_def)
next
  case (Some rs)
  from for_roles_shape [of "policy_limits p t" rs] show ?thesis
    using policy_limits_shape [of p t] Some
      remembered_idle_bounds [of "remember_absolute (policy_limits p t)" "idle (policy_limits p t)" "fallback_idle (policy_limits p t)"]
    by (auto simp: session_limits_of_def)
qed

text \<open>
  Remembering never loosens a session. The registry and the policy module apply the same pair of
  limits to a row. A remembered row that the policy remembers ends at most a day after it was
  created and no later than an ordinary one, and without its own inactivity limit it keeps the
  ordinary one; for a role the policy excludes it gets limits that are no looser than those of an
  ordinary sign-in, the lifetime of its token among them.
\<close>

theorem remembered_limits_never_looser:
  assumes "remember r" and "limits_for_row (session_limits_of p (Some roles) t) r = (i, a)"
    and "session_limits_of p (Some roles) t = l"
  shows "for_row l (Some r) = (i, a) \<and>
    (0 < a \<longrightarrow> 0 < absolute l \<longrightarrow> a \<le> absolute l) \<and>
    (remember_enabled l \<longrightarrow> 0 < i \<and> i \<le> a \<and> a \<le> 86400 \<and> (fallback_idle l = 0 \<and> 0 < idle l \<longrightarrow> i \<le> idle l)) \<and>
    (role_excluded (policy_limits p t) roles \<longrightarrow> \<not> remember_enabled l) \<and>
    (\<not> remember_enabled l \<longrightarrow> (0 < idle l \<longrightarrow> 0 < i \<and> i \<le> idle l) \<and> (0 < t \<longrightarrow> 0 < a \<and> a \<le> t))"
proof -
  have l: "l = for_roles (policy_limits p t) roles" using assms(3) by (simp add: session_limits_of_def)
  have agree: "for_row l (Some r) = (i, a)"
    using limits_agree [of l r] session_limits_rule [of p "Some roles" t] assms(2,3) by simp
  note P = policy_limits_shape [of p t]
    remembered_idle_bounds [of "remember_absolute (policy_limits p t)" "idle (policy_limits p t)" "fallback_idle (policy_limits p t)"]
  from for_roles_shape [of "policy_limits p t" roles] l
  have sh: "l = policy_limits p t \<or> l = (policy_limits p t)\<lparr>remember_idle := 0, remember_absolute := 0\<rparr>" by auto
  have ex: "role_excluded (policy_limits p t) roles \<longrightarrow> \<not> remember_enabled l"
    using P by (auto simp: l for_roles_def without_remember_def remember_enabled_def)
  show ?thesis
  proof (cases "remember_enabled l")
    case True
    then have "i = remember_idle l" "a = remember_absolute l"
      using agree assms(1) session_limits_rule [of p "Some roles" t] assms(3) by (auto simp: for_row_def remember_enabled_def)
    then show ?thesis using True P sh agree ex remembered_idle_standard by (auto simp: remember_enabled_def)
  next
    case False
    then have "i = strictest [idle l, fallback_idle l]" "a = strictest [absolute l, fallback_absolute l]"
      using agree assms(1) by (auto simp: for_row_def remember_enabled_def)
    then show ?thesis using False P sh agree ex by (auto simp: strictest_two)
  qed
qed

definition sample_policy :: "int \<Rightarrow> session_policy" where
  "sample_policy duration =
     \<lparr>sp_idle = 43200, sp_absolute = 0, sp_remember =
        Some \<lparr>rm_enabled = True, rm_duration = duration, rm_idle = 0, rm_excluded = [''auditor'']\<rparr>\<rparr>"

definition sample_session :: session_row where
  "sample_session = (blank_row 0 ''s1'' ''ann'')\<lparr>remember := True\<rparr>"

lemma remembered_limits_never_looser_witness:
  "limits_for_row (session_limits_of (Some (sample_policy 3600)) (Some [''analyst'']) 43200) sample_session = (3600, 3600) \<and> (3600::int) \<le> 86400"
proof -
  have r: "remember sample_session" by (simp add: sample_session_def)
  have l: "limits_for_row (session_limits_of (Some (sample_policy 3600)) (Some [''analyst'']) 43200) sample_session = (3600, 3600)"
    by code_simp
  have e: "remember_enabled (session_limits_of (Some (sample_policy 3600)) (Some [''analyst'']) 43200)" by code_simp
  show ?thesis using remembered_limits_never_looser [OF r l refl] e l by blast
qed

subsection \<open>Turning Remember me off\<close>

lemma past_mono:
  assumes "past now a (Some c) s" "0 < a" "0 < b" "b \<le> a"
  shows "past now b (Some c) s'"
  using assms by (simp add: past_def)

text \<open>
  Turning Remember me off, or excluding the role, ends a remembered session no later than before
  exactly as far as the token lifetime reaches: if an ordinary token lives no longer than the
  remembered lifetime, whatever was rejected stays rejected. If it lives longer this fails: with a
  one-hour remembered lifetime and twelve-hour tokens a session that has expired is accepted again
  once the administrator turns Remember me off.
\<close>

theorem remember_off_shortens:
  assumes "l = policy_limits p t" and "remember r" and "remember_enabled l" and "0 < t" and "t \<le> remember_absolute l"
    and "created_at r = Some c" and "last_active_at r = Some u" and "c \<le> u" and "is_active l now r \<noteq> None"
  shows "is_active (without_remember l) now r \<noteq> None \<and>
    is_active (policy_limits (Some (sample_policy 3600)) 43200) 7200 sample_session = Some Absolute_expired \<and>
    is_active (without_remember (policy_limits (Some (sample_policy 3600)) 43200)) 7200 sample_session = None"
proof (intro conjI)
  show "is_active (policy_limits (Some (sample_policy 3600)) 43200) 7200 sample_session = Some Absolute_expired"
    by (simp add: is_active_def limits_for_row_def sample_session_def blank_row_def policy_limits_def sample_policy_def
      REMEMBER_MAX_SECONDS_def past_def Let_def)
  show "is_active (without_remember (policy_limits (Some (sample_policy 3600)) 43200)) 7200 sample_session = None"
    by (simp add: is_active_def limits_for_row_def sample_session_def blank_row_def policy_limits_def sample_policy_def
      REMEMBER_MAX_SECONDS_def past_def Let_def without_remember_def remember_enabled_def strictest_two norm_roles_def)
  show "is_active (without_remember l) now r \<noteq> None"
  proof (cases "revoked r")
    case True
    then show ?thesis by (simp add: is_active_def)
  next
    case False
    define off where "off = without_remember l"
    note P = policy_limits_shape [of p t, folded assms(1)]
    have on: "limits_for_row l r = (remember_idle l, remember_absolute l)"
      using P assms(2,3) remembered_idle_bounds [of "remember_absolute l" "idle l" "fallback_idle l"]
      by (simp add: limits_for_row_def remember_enabled_def)
    have offl: "limits_for_row off r = (strictest [idle l, fallback_idle l], strictest [absolute l, fallback_absolute l])"
      using assms(2,3) by (simp add: off_def without_remember_def limits_for_row_def)
    let ?a = "strictest [absolute l, fallback_absolute l]"
    have fa: "fallback_absolute l = t" using P assms(4) by simp
    have a: "0 < ?a" "?a \<le> t" using assms(4) by (auto simp: strictest_two fa)
    from assms(9) False on have "past now (remember_absolute l) (Some c) (absolute_expiry_at r) \<or>
        past now (remember_idle l) (Some u) (idle_expiry_at r)"
      by (auto simp: is_active_def assms(6,7) split: if_splits)
    then show ?thesis
    proof
      assume "past now (remember_absolute l) (Some c) (absolute_expiry_at r)"
      then have "past now ?a (Some c) (absolute_expiry_at r)"
        by (rule past_mono) (use assms(3,5) a in \<open>auto simp: remember_enabled_def\<close>)
      then show ?thesis using offl False by (simp add: is_active_def off_def assms(6))
    next
      assume idle: "past now (remember_idle l) (Some u) (idle_expiry_at r)"
      have ri: "0 < remember_idle l" using P assms(3) remembered_idle_bounds by (simp add: remember_enabled_def)
      with idle have now: "u + of_int (remember_idle l) < now" by (simp add: past_def)
      show ?thesis
      proof (cases "remember_idle l = remember_absolute l")
        case True
        have "c + of_int ?a \<le> u + of_int (remember_idle l)"
          using a(2) assms(5,8) True by (intro add_mono) simp_all
        with now have "past now ?a (Some c) (absolute_expiry_at r)" using a(1) by (simp add: past_def)
        then show ?thesis using offl False by (simp add: is_active_def off_def assms(6))
      next
        case ne: False
        have le: "0 < strictest [idle l, fallback_idle l] \<and> strictest [idle l, fallback_idle l] \<le> remember_idle l"
        proof -
          have "remember_idle l < remember_absolute l"
            using P ne assms(3) remembered_idle_bounds [of "remember_absolute l" "idle l" "fallback_idle l"]
            by (simp add: remember_enabled_def)
          then show ?thesis using P assms(3) by (auto simp: strictest_two remembered_idle_def remember_enabled_def split: if_splits)
        qed
        then have "past now (strictest [idle l, fallback_idle l]) (Some u) (idle_expiry_at r)"
          using past_mono [OF idle ri] by blast
        then show ?thesis using offl False by (auto simp: is_active_def off_def assms(7))
      qed
    qed
  qed
qed

lemma remember_off_shortens_witness:
  "is_active (without_remember (policy_limits (Some (sample_policy 86400)) 43200)) 90000 sample_session \<noteq> None"
proof -
  have a: "remember sample_session" by (simp add: sample_session_def)
  have b: "remember_enabled (policy_limits (Some (sample_policy 86400)) 43200)" by code_simp
  have c: "(43200::int) \<le> remember_absolute (policy_limits (Some (sample_policy 86400)) 43200)" by code_simp
  have d: "created_at sample_session = Some 0" "last_active_at sample_session = Some 0"
    by (simp_all add: sample_session_def blank_row_def)
  have e: "is_active (policy_limits (Some (sample_policy 86400)) 43200) 90000 sample_session \<noteq> None"
    by (simp add: is_active_def limits_for_row_def sample_session_def blank_row_def policy_limits_def sample_policy_def
      REMEMBER_MAX_SECONDS_def past_def Let_def)
  show ?thesis by (rule conjunct1 [OF remember_off_shortens [OF refl a b _ c d order_refl e]]) simp
qed

end
