(* ===== verification/Session_Registry.thy ===== *)
theory Session_Registry
  imports Sessions
begin

section \<open>What no operation on the session registry undoes\<close>

text \<open>
  One shape for every operation of \<^verbatim>\<open>Sessions\<close>: below the cap an operation rewrites each row
  (\<open>row_change\<close>), adds rows for new session ids, and drops what is long dead. Over the steps of the
  registry (\<open>session_step\<close>: sign-ins, requests, refreshes and the administrative edits, each at its
  own clock reading) this gives what a revocation and a global sign-out promise.
\<close>

subsection \<open>Well-formed registries\<close>

definition registry_ok :: "session_row list \<Rightarrow> bool" where
  "registry_ok rows = (distinct (map sid rows) \<and> (\<forall>r\<in>set rows. sid r \<noteq> []))"

definition sentinel_sid :: "string \<Rightarrow> bool" where
  "sentinel_sid s = (take 7 s = ''__tv__:'')"

lemma sentinel_iff: "sentinel r \<longleftrightarrow> sentinel_sid (sid r)"
  by (simp add: sentinel_def sentinel_sid_def)

lemma sentinel_tv_key [simp]: "sentinel_sid (tv_key u)"
  by (simp add: sentinel_sid_def tv_key_def)

lemma tv_key_not_Nil [simp]: "tv_key u \<noteq> []"
  by (simp add: tv_key_def)

lemma filter_ok: "registry_ok rows \<Longrightarrow> filter (\<lambda>r. sid r \<noteq> []) rows = rows"
  by (auto simp: registry_ok_def filter_id_conv)

lemma registry_ok_unique: "registry_ok rows \<Longrightarrow> a \<in> set rows \<Longrightarrow> b \<in> set rows \<Longrightarrow> sid a = sid b \<Longrightarrow> a = b"
  by (auto simp: registry_ok_def distinct_map inj_on_def)

lemma find_in_set: "find P xs = Some x \<Longrightarrow> x \<in> set xs \<and> P x"
  by (auto simp: find_Some_iff)

lemma find_sid:
  assumes "registry_ok rows"
  shows "find (\<lambda>r. sid r = s) rows = Some r \<longleftrightarrow> r \<in> set rows \<and> sid r = s"
proof
  assume "find (\<lambda>r. sid r = s) rows = Some r"
  then show "r \<in> set rows \<and> sid r = s" by (auto simp: find_Some_iff)
next
  assume r: "r \<in> set rows \<and> sid r = s"
  then obtain r' where r': "find (\<lambda>r. sid r = s) rows = Some r'"
    by (cases "find (\<lambda>r. sid r = s) rows") (auto simp: find_None_iff)
  then have "r' \<in> set rows" "sid r' = s" by (auto simp: find_Some_iff)
  with r assms have "r' = r" by (auto intro: registry_ok_unique)
  with r' show "find (\<lambda>r. sid r = s) rows = Some r" by simp
qed

lemma update_first_map:
  "distinct (map sid rows) \<Longrightarrow> (\<And>r. P r \<Longrightarrow> sid r = s) \<Longrightarrow>
     snd (update_first P g rows) = map (\<lambda>r. if P r then g r else r) rows"
proof (induction rows)
  case (Cons r rows)
  have "map (\<lambda>r. if P r then g r else r) rows = rows" if "P r"
    using Cons.prems that by (intro map_idI) (metis distinct.simps(2) image_eqI list.set_map list.simps(9))
  then show ?case using Cons by (auto simp: split_beta)
qed simp

lemma update_first_fst: "fst (update_first P g rows) = map_option g (find P rows)"
  by (induction rows) (auto simp: split_beta)

subsection \<open>Bounding\<close>

lemma set_bound_rows: "set (bound_rows now rows) \<subseteq> set rows"
  by (auto simp: bound_rows_def prune_rows_def Let_def dest!: in_set_dropD)

lemma bound_rows_below: "length rows \<le> MAX_ROWS \<Longrightarrow> bound_rows now rows = filter (kept now) rows"
  using le_trans [OF length_filter_le, of rows MAX_ROWS "kept now"] by (simp add: bound_rows_def prune_rows_def Let_def)

lemma registry_ok_filter: "registry_ok rows \<Longrightarrow> registry_ok (filter P rows)"
  by (auto simp: registry_ok_def distinct_map inj_on_def)

lemma registry_ok_bound: 
  assumes "registry_ok rows"
  shows "registry_ok (bound_rows now rows)"
proof -
  let ?p = "prune_rows now rows"
  have p: "registry_ok ?p" using assms by (simp add: prune_rows_def registry_ok_filter)
  have "distinct (map sid (sort_key created_key ?p))" using p by (simp add: registry_ok_def distinct_map)
  then have "distinct (map sid (drop n (sort_key created_key ?p)))" for n by (simp add: drop_map [symmetric] distinct_drop)
  moreover have "\<forall>r\<in>set (drop n (sort_key created_key ?p)). sid r \<noteq> []" for n
    using p set_drop_subset [of n "sort_key created_key ?p"] by (auto simp: registry_ok_def)
  ultimately show ?thesis using p by (auto simp: registry_ok_def bound_rows_def Let_def)
qed

subsection \<open>Edits\<close>

definition row_change :: "string set \<Rightarrow> session_row \<Rightarrow> session_row \<Rightarrow> bool" where
  "row_change new r r' =
     ((sid r' = sid r \<or> \<not> sentinel r \<and> \<not> revoked r \<and> sid r' \<in> new) \<and> created_at r' = created_at r \<and> username r' = username r \<and>
      remember r' = remember r \<and> (revoked r \<longrightarrow> revoked r' \<and> revoked_at r' = revoked_at r) \<and>
      token_version r \<le> token_version r' \<and> (sentinel r \<or> token_version r' = token_version r))"

definition session_edit :: "real \<Rightarrow> string set \<Rightarrow> session_row list \<Rightarrow> session_row list \<Rightarrow> bool" where
  "session_edit now new rows rows' =
     (rows' = rows \<or>
      (\<exists>f extra. rows' = bound_rows now (map f rows @ extra) \<and> (\<forall>r\<in>set rows. row_change new r (f r)) \<and>
         (\<forall>r\<in>set extra. sid r \<in> new \<and> created_at r = Some now \<and> \<not> revoked r \<or> sentinel r \<and> token_version r = 1) \<and>
         registry_ok (map f rows @ extra) \<and> length extra \<le> 1))"

lemma row_change_refl [simp, intro]: "row_change new r r"
  by (simp add: row_change_def)

lemma row_change_trans_same:
  "row_change {} r s \<Longrightarrow> row_change {} s t \<Longrightarrow> row_change {} r t"
  by (auto simp: row_change_def sentinel_iff)

lemma row_change_mono: "row_change {} r s \<Longrightarrow> row_change new r s"
  by (simp add: row_change_def)

lemma registry_ok_map_same: "registry_ok rows \<Longrightarrow> (\<And>r. r \<in> set rows \<Longrightarrow> sid (f r) = sid r) \<Longrightarrow> registry_ok (map f rows)"
  by (simp add: registry_ok_def comp_def cong: map_cong)

lemma session_edit_same [simp, intro]: "session_edit now new rows rows"
  by (simp add: session_edit_def)

lemma session_edit_map:
  assumes "registry_ok rows" "\<And>r. row_change {} r (f r)"
  shows "session_edit now new rows (bound_rows now (map f rows))"
proof -
  have "registry_ok (map f rows @ [])"
    using registry_ok_map_same [OF assms(1), of f] assms(2) by (simp add: row_change_def)
  then show ?thesis using assms(2) unfolding session_edit_def
    by (intro disjI2 exI [of _ f] exI [of _ "[]"]) (auto intro: row_change_mono)
qed

lemma edit_first:
  assumes "registry_ok rows" "\<And>r. P r \<Longrightarrow> sid r = s" "\<And>r. P r \<Longrightarrow> row_change {} r (g r)"
  shows "session_edit now new rows (bound_rows now (snd (update_first P g rows)))"
proof -
  have "snd (update_first P g rows) = map (\<lambda>r. if P r then g r else r) rows"
    using assms(1,2) by (intro update_first_map) (auto simp: registry_ok_def)
  then show ?thesis using session_edit_map [OF assms(1), of "\<lambda>r. if P r then g r else r"] assms(3) by simp
qed

lemma snd_mutate: "registry_ok rows \<Longrightarrow> snd (mutate_rows now f rows) = bound_rows now (snd (f rows))"
  by (simp add: mutate_rows_def filter_ok split_beta)

subsection \<open>Every operation is an edit\<close>

lemma create_edit:
  assumes ok: "registry_ok rows" and new: "q_sid q \<notin> sid ` set rows" "q_sid q \<noteq> []"
  shows "session_edit now {q_sid q} rows (snd (create_session now q rows))"
proof -
  have sid: "sid (new_session now q) = q_sid q" by (simp add: new_session_def blank_row_def)
  have "find (\<lambda>r. sid r = q_sid q) rows = None" using new by (auto simp: find_None_iff image_iff)
  then have none: "update_first (\<lambda>r. sid r = q_sid q) (\<lambda>r. new_session now q) rows = (None, rows)"
  proof (induction rows)
    case (Cons r rows)
    then show ?case by (auto split: if_splits)
  qed simp
  have "snd (create_session now q rows) = bound_rows now (map id rows @ [new_session now q])"
    by (simp add: create_session_def snd_mutate [OF ok] Let_def none)
  moreover have "registry_ok (map id rows @ [new_session now q])" using ok new by (auto simp: registry_ok_def sid)
  ultimately show ?thesis unfolding session_edit_def
    by (intro disjI2 exI [of _ id] exI [of _ "[new_session now q]"]) (auto simp: sid new_session_def blank_row_def)
qed

lemma slide_change: "row_change {} r (slide now i r)"
  by (simp add: slide_def row_change_def)

lemma touch_edit:
  assumes ok: "registry_ok rows"
  shows "session_edit now new rows (snd (touch now s i rows))"
proof -
  let ?f = "\<lambda>rs. case find (\<lambda>r. sid r = s) rs of None \<Rightarrow> (False, rs)
     | Some r \<Rightarrow> if fresh_row now r then (False, rs) else (True, snd (update_first (\<lambda>r. sid r = s) (slide now i) rs))"
  have same: "session_edit now new rows (bound_rows now rows)"
    using session_edit_map [OF ok, of id] by simp
  have "session_edit now new rows (bound_rows now (snd (?f rows)))"
    using same edit_first [OF ok, of "\<lambda>r. sid r = s" s "slide now i"] slide_change by (simp split: option.splits)
  then show ?thesis by (simp add: touch_def snd_mutate [OF ok])
qed

lemma stamp_edit: "registry_ok rows \<Longrightarrow> session_edit now new rows (snd (stamp_authn now s rows))"
  by (simp add: stamp_authn_def snd_mutate found_def) (rule edit_first, auto simp: row_change_def)

lemma rotate_edit: "registry_ok rows \<Longrightarrow> session_edit now new rows (snd (rotate_refresh now s h rows))"
  by (simp add: rotate_refresh_def snd_mutate) (rule edit_first, auto simp: row_change_def rotate_row_def)

lemma revoke_edit: "registry_ok rows \<Longrightarrow> session_edit now new rows (snd (revoke now s who why rows))"
  by (simp add: revoke_def snd_mutate found_def) (rule edit_first, auto simp: row_change_def revoke_row_def)

lemma revoke_others_edit: "registry_ok rows \<Longrightarrow> session_edit now new rows (snd (revoke_others now user keep who why rows))"
  by (simp add: revoke_others_def snd_mutate revoke_matching_def)
    (rule session_edit_map, auto simp: row_change_def revoke_row_def)

lemma prune_edit: "registry_ok rows \<Longrightarrow> session_edit now new rows (snd (prune now rows))"
  using session_edit_map [of rows id] by (simp add: prune_def snd_mutate)

definition bump_row :: "string \<Rightarrow> session_row \<Rightarrow> session_row" where
  "bump_row user r = (if sid r = tv_key user then r\<lparr>token_version := token_version r + 1\<rparr> else r)"

definition missing_tv :: "string \<Rightarrow> session_row list \<Rightarrow> session_row list" where
  "missing_tv user rows = (if tv_key user \<in> set (map sid rows) then [] else [tv_row user])"

lemma bump_tv_map: 
  assumes "registry_ok rows"
  shows "bump_tv user rows = map (bump_row user) rows @ missing_tv user rows"
proof -
  let ?P = "\<lambda>r. sid r = tv_key user" and ?g = "\<lambda>r::session_row. r\<lparr>token_version := token_version r + 1\<rparr>"
  have m: "snd (update_first ?P ?g rows) = map (bump_row user) rows"
    using assms update_first_map [of rows ?P "tv_key user" ?g] by (simp add: registry_ok_def bump_row_def [abs_def])
  show ?thesis
  proof (cases "find ?P rows")
    case None
    then have "\<not> (\<exists>r\<in>set rows. ?P r)" by (auto simp: find_None_iff)
    moreover from this have "map (bump_row user) rows = rows" by (intro map_idI) (auto simp: bump_row_def)
    ultimately show ?thesis using update_first_fst [of ?P ?g rows] None
      by (cases "update_first ?P ?g rows") (auto simp: bump_tv_def missing_tv_def)
  next
    case (Some r)
    then have "tv_key user \<in> set (map sid rows)" by (auto simp: find_Some_iff) (metis image_eqI nth_mem)
    then show ?thesis using update_first_fst [of ?P ?g rows] Some m
      by (cases "update_first ?P ?g rows") (simp add: bump_tv_def missing_tv_def)
  qed
qed

lemma revoke_matching_map: "snd (revoke_matching now who why P rows) = map (\<lambda>r. if P r then revoke_row now who why r else r) rows"
  by (simp add: revoke_matching_def)

lemma revoke_all_rows:
  assumes ok: "registry_ok rows"
  shows "snd (revoke_all now user who why keep rows) = bound_rows now
    (map (\<lambda>r. bump_row user (if revocable user keep r then revoke_row now who (str_or why ''revoke_all'') r else r)) rows @ missing_tv user rows)"
proof -
  let ?f = "\<lambda>r. if revocable user keep r then revoke_row now who (str_or why ''revoke_all'') r else r"
  have same: "sid (?f r) = sid r" for r by (simp add: revoke_row_def)
  have "registry_ok (map ?f rows)" by (rule registry_ok_map_same [OF ok]) (rule same)
  moreover have "map sid (map ?f rows) = map sid rows" by (simp only: map_map comp_def same)
  then have "missing_tv user (map ?f rows) = missing_tv user rows" by (simp only: missing_tv_def)
  ultimately show ?thesis
    by (simp add: revoke_all_def snd_mutate [OF ok] split_beta revoke_matching_map bump_tv_map comp_def)
qed

lemma revoke_all_edit:
  assumes ok: "registry_ok rows"
  shows "session_edit now new rows (snd (revoke_all now user who why keep rows))"
proof -
  let ?f = "\<lambda>r. bump_row user (if revocable user keep r then revoke_row now who (str_or why ''revoke_all'') r else r)"
  have change: "row_change new r (?f r)" for r
    by (auto simp: row_change_def bump_row_def revoke_row_def revocable_def sentinel_iff)
  have same: "sid (?f r) = sid r" for r by (simp add: bump_row_def revoke_row_def)
  have "registry_ok (map ?f rows)" by (rule registry_ok_map_same [OF ok]) (rule same)
  then have "registry_ok (map ?f rows @ missing_tv user rows)"
    using same by (auto simp: registry_ok_def missing_tv_def tv_row_def)
  then show ?thesis using change unfolding revoke_all_rows [OF ok] session_edit_def
    by (intro disjI2 exI [of _ ?f] exI [of _ "missing_tv user rows"]) (auto simp: missing_tv_def tv_row_def sentinel_iff)
qed

lemma rekey_edit:
  assumes ok: "registry_ok rows" and new: "new_sid \<notin> sid ` set rows" "new_sid \<noteq> []"
    and r: "r \<in> set rows" "\<not> sentinel r" "\<not> revoked r"
  shows "session_edit now {new_sid} rows (snd (rekey_and_rotate now (sid r) new_sid h i e rows))"
proof -
  let ?g = "rekey_row now new_sid h i e" and ?f = "\<lambda>x. if sid x = sid r then rekey_row now new_sid h i e x else x"
  have rows: "snd (rekey_and_rotate now (sid r) new_sid h i e rows) = bound_rows now (map ?f rows)"
    using ok by (simp add: rekey_and_rotate_def snd_mutate [OF ok] update_first_map [where s = "sid r"] registry_ok_def)
  have change: "row_change {new_sid} x (?f x)" if "x \<in> set rows" for x
  proof (cases "sid x = sid r")
    case True
    then have "x = r" using ok that r(1) by (auto intro: registry_ok_unique)
    then show ?thesis using r by (auto simp: row_change_def rekey_row_def slide_def rotate_row_def Let_def sentinel_iff)
  qed simp
  have sid: "sid (?f x) = (if sid x = sid r then new_sid else sid x)" for x
    by (auto simp: rekey_row_def slide_def rotate_row_def Let_def)
  have "inj_on (\<lambda>x. sid (?f x)) (set rows)"
    using new(1) registry_ok_unique [OF ok] by (auto simp: inj_on_def sid split: if_splits)
  then have "distinct (map sid (map ?f rows))" using ok by (simp only: registry_ok_def distinct_map map_map comp_def)
  moreover have "sid y \<noteq> []" if "y \<in> set (map ?f rows)" for y
  proof -
    from that obtain x where "x \<in> set rows" "y = ?f x" by (auto simp only: set_map image_iff)
    then show ?thesis using ok new(2) sid [of x] by (simp add: registry_ok_def split: if_splits)
  qed
  ultimately have "registry_ok (map ?f rows)" by (simp only: registry_ok_def) blast
  then show ?thesis using change rows unfolding session_edit_def
    by (intro disjI2 exI [of _ ?f] exI [of _ "[]"]) simp
qed

lemma register_edit:
  assumes "registry_ok rows" "c_sid c \<notin> sid ` set rows"
  shows "session_edit now {c_sid c} rows (snd (register_session l now meta h n c rows))"
proof -
  have "session_edit now {c_sid c} rows (snd (create_session now q rows))" if "q_sid q = c_sid c" "c_sid c \<noteq> []" for q
    using create_edit [OF assms(1), of q now] assms(2) that by simp
  then show ?thesis by (simp add: register_session_def Let_def split_beta)
qed

lemma get_session_Some: "get_session s rows = Some r \<Longrightarrow> r \<in> set rows \<and> sid r = s \<and> s \<noteq> [] \<and> \<not> sentinel r"
  by (auto simp: get_session_def sentinel_def find_Some_iff split: if_splits)

lemma get_session_None: "get_session s rows = None \<Longrightarrow> s \<noteq> [] \<Longrightarrow> \<not> sentinel_sid s \<Longrightarrow> s \<notin> sid ` set rows"
  by (auto simp: get_session_def sentinel_sid_def find_None_iff image_iff split: if_splits)

lemma evaluate_edit:
  assumes ok: "registry_ok rows" and c: "\<not> sentinel_sid (c_sid c)"
  shows "session_edit now {c_sid c} rows (snd (evaluate_session gate l now meta c rows))"
proof -
  have create: "session_edit now {c_sid c} rows (snd (create_session now (lazy_request l meta c) rows))"
    if "get_session (c_sid c) rows = None" "c_sid c \<noteq> []"
    using create_edit [OF ok, of "lazy_request l meta c" now] get_session_None [OF that c] that(2)
    by (simp add: lazy_request_def Let_def split_beta)
  show ?thesis using create touch_edit [OF ok]
    by (simp add: evaluate_session_def Let_def split_beta split: option.splits)
qed

lemma find_by_refresh_row:
  "find_by_refresh vf t rows = Current r \<Longrightarrow> r \<in> set rows \<and> \<not> sentinel r \<and> refresh_hash r \<noteq> [] \<and> vf t (refresh_hash r)"
  by (auto simp: find_by_refresh_def find_Some_iff split: if_splits option.splits)

lemma refresh_edit:
  assumes ok: "registry_ok rows" and fresh: "\<And>u n c. mint u n = Some c \<Longrightarrow> c_sid c = s" and s: "s \<notin> sid ` set rows" "s \<noteq> []"
  shows "session_edit now {s} rows (snd (auth_refresh vf mint limits now token h rows))"
proof (cases "find_by_refresh vf (py_strip token) rows")
  case (Current r)
  have "session_edit now {s} rows (snd (rekey_and_rotate now (sid r) (c_sid c) h i e rows))"
    if "is_active (limits (username r)) now r = None" "mint u n = Some c" for c i e u n
    using that find_by_refresh_row [OF Current] fresh [OF that(2)] rekey_edit [OF ok s, of r]
    by (auto simp: is_active_def split: if_splits)
  then show ?thesis by (simp add: auth_refresh_def Let_def Current split: option.splits)
qed (use revoke_all_edit [OF ok] in \<open>simp_all add: auth_refresh_def Let_def\<close>)

end
