(* ===== verification/Session_Safety.thy ===== *)
theory Session_Safety
  imports Session_Registry
begin

section \<open>Sessions over time\<close>

text \<open>
  The registry as a system: the clock, the tokens minted so far and the rows. Its steps are a sign-in
  (whose registration may fail), a request, a refresh and the administrative edits, while the
  registry is below its cap. The properties: a revoked session and a signed-out user stay rejected
  whatever happens next, a replayed refresh token ends every session of its user; and where
  the cap and the rotation of a session fall short of that.
\<close>

subsection \<open>Steps\<close>

record session_state =
  clk :: real
  tokens :: "claims set"
  rows_of :: "session_row list"

inductive admin_edit :: "real \<Rightarrow> session_row list \<Rightarrow> session_row list \<Rightarrow> bool" where
  admin_revoke: "admin_edit now rows (snd (revoke now s who why rows))"
| admin_revoke_all: "admin_edit now rows (snd (revoke_all now user who why keep rows))"
| admin_revoke_others: "admin_edit now rows (snd (revoke_others now user keep who why rows))"
| admin_stamp: "admin_edit now rows (snd (stamp_authn now s rows))"
| admin_rotate: "admin_edit now rows (snd (rotate_refresh now s h rows))"
| admin_prune: "admin_edit now rows (snd (prune now rows))"

definition fresh_sid :: "string \<Rightarrow> session_state \<Rightarrow> bool" where
  "fresh_sid s st = (s \<noteq> [] \<and> \<not> sentinel_sid s \<and> s \<notin> c_sid ` tokens st)"

definition minted :: "refresh_outcome \<Rightarrow> claims set" where
  "minted out = (case out of Refreshed c \<Rightarrow> {c} | _ \<Rightarrow> {})"

inductive session_step :: "session_state \<Rightarrow> session_state \<Rightarrow> bool" where
  step_sign_in: "clk st \<le> now \<Longrightarrow> length (rows_of st) < MAX_ROWS \<Longrightarrow> fresh_sid s st \<Longrightarrow>
     mint_session active tvs std s now user n = Some c \<Longrightarrow>
     rows' = snd (register_session l now meta h n c (rows_of st)) \<or> rows' = rows_of st \<Longrightarrow>
     session_step st \<lparr>clk = now, tokens = insert c (tokens st), rows_of = rows'\<rparr>"
| step_request: "clk st \<le> now \<Longrightarrow> length (rows_of st) < MAX_ROWS \<Longrightarrow> c \<in> tokens st \<Longrightarrow>
     session_step st \<lparr>clk = now, tokens = tokens st, rows_of = snd (evaluate_session gate l now meta c (rows_of st))\<rparr>"
| step_refresh: "clk st \<le> now \<Longrightarrow> length (rows_of st) < MAX_ROWS \<Longrightarrow> fresh_sid s st \<Longrightarrow>
     auth_refresh vf (mint_session active tvs std s now) limits now token h (rows_of st) = (out, rows') \<Longrightarrow>
     session_step st \<lparr>clk = now, tokens = minted out \<union> tokens st, rows_of = rows'\<rparr>"
| step_admin: "clk st \<le> now \<Longrightarrow> length (rows_of st) < MAX_ROWS \<Longrightarrow> admin_edit now (rows_of st) rows' \<Longrightarrow>
     session_step st \<lparr>clk = now, tokens = tokens st, rows_of = rows'\<rparr>"

definition session_start :: "session_state \<Rightarrow> bool" where
  "session_start st = (1 \<le> clk st \<and> tokens st = {} \<and> rows_of st = [])"

definition session_inv :: "session_state \<Rightarrow> bool" where
  "session_inv st =
     (registry_ok (rows_of st) \<and> (\<forall>r\<in>set (rows_of st). sentinel r \<or> sid r \<in> c_sid ` tokens st) \<and>
      (\<forall>c\<in>tokens st. c_sid c \<noteq> [] \<and> \<not> sentinel_sid (c_sid c) \<and> 0 < c_iat c \<and> of_int (c_iat c) \<le> clk st) \<and>
      inj_on c_sid (tokens st) \<and> 1 \<le> clk st)"

subsection \<open>Every step is an edit\<close>

definition reopened :: "real \<Rightarrow> claims \<Rightarrow> session_row list \<Rightarrow> string set" where
  "reopened now c rows =
     (if get_session (c_sid c) rows = None \<and> \<not> issued_before_prune_grace now c then {c_sid c} else {})"

lemma evaluate_reopens:
  assumes ok: "registry_ok rows" and c: "\<not> sentinel_sid (c_sid c)"
  shows "session_edit now (reopened now c rows) rows (snd (evaluate_session gate l now meta c rows))"
  using evaluate_edit [OF assms, of now gate l meta] touch_edit [OF ok]
  by (auto simp: reopened_def evaluate_session_def Let_def split_beta split: option.splits)

lemma admin_is_edit: "admin_edit now rows rows' \<Longrightarrow> registry_ok rows \<Longrightarrow> session_edit now {} rows rows'"
  by (induction rule: admin_edit.induct)
    (auto intro: revoke_edit revoke_all_edit revoke_others_edit stamp_edit rotate_edit prune_edit)

lemma refresh_out:
  assumes ok: "registry_ok rows" and s: "s \<notin> sid ` set rows" "s \<noteq> []"
    and run: "auth_refresh vf (mint_session active tvs std s now) limits now token h rows = (out, rows')"
  shows "session_edit now (c_sid ` minted out) rows rows'"
    and "c \<in> minted out \<Longrightarrow> c_sid c = s \<and> c_iat c = \<lfloor>now\<rfloor>"
proof -
  have mint: "mint_session active tvs std s now u n = Some c \<Longrightarrow> c_sid c = s \<and> c_iat c = \<lfloor>now\<rfloor>" for u n c
    by (auto simp: mint_session_def split: if_splits prod.splits)
  have "session_edit now (c_sid ` minted out) rows rows' \<and> (c \<in> minted out \<longrightarrow> c_sid c = s \<and> c_iat c = \<lfloor>now\<rfloor>)"
  proof (cases "find_by_refresh vf (py_strip token) rows")
    case (Current r)
    have "session_edit now {s} rows (snd (rekey_and_rotate now (sid r) s h i e rows))"
      if "is_active (limits (username r)) now r = None" for i e
      using that find_by_refresh_row [OF Current] rekey_edit [OF ok s, of r]
      by (auto simp: is_active_def split: if_splits)
    then show ?thesis using run mint by (auto simp: auth_refresh_def Let_def Current minted_def split: option.splits if_splits)
  next
    case (Previous r)
    then show ?thesis using run revoke_all_edit [OF ok]
      by (auto simp: auth_refresh_def Let_def minted_def split: if_splits)
  next
    case No_match
    then show ?thesis using run by (auto simp: auth_refresh_def Let_def minted_def split: if_splits)
  qed
  then show "session_edit now (c_sid ` minted out) rows rows'"
    and "c \<in> minted out \<Longrightarrow> c_sid c = s \<and> c_iat c = \<lfloor>now\<rfloor>" by blast+
qed

definition step_edit :: "session_state \<Rightarrow> string set \<Rightarrow> session_state \<Rightarrow> bool" where
  "step_edit st new st' =
     (session_edit (clk st') new (rows_of st) (rows_of st') \<and> clk st \<le> clk st' \<and> length (rows_of st) < MAX_ROWS \<and>
      tokens st \<subseteq> tokens st' \<and> new \<subseteq> c_sid ` tokens st' \<and>
      (\<forall>c\<in>tokens st. c_sid c \<in> new \<longrightarrow> \<not> issued_before_prune_grace (clk st') c) \<and>
      (tokens st' = tokens st \<or> (\<exists>c. tokens st' = insert c (tokens st) \<and> fresh_sid (c_sid c) st \<and> c_iat c = \<lfloor>clk st'\<rfloor>)))"

lemma fresh_not_row: "session_inv st \<Longrightarrow> fresh_sid s st \<Longrightarrow> s \<notin> sid ` set (rows_of st) \<and> s \<noteq> []"
  by (auto simp: session_inv_def fresh_sid_def sentinel_iff)

lemma step_is_edit: "session_step st st' \<Longrightarrow> session_inv st \<Longrightarrow> \<exists>new. step_edit st new st'"
proof (induction rule: session_step.induct)
  case (step_sign_in st now s active tvs std user n c rows' l meta h)
  have c: "c_sid c = s" "c_iat c = \<lfloor>now\<rfloor>" using step_sign_in.hyps(4) by (auto simp: mint_session_def split: if_splits prod.splits)
  have ok: "registry_ok (rows_of st)" using step_sign_in.prems by (simp add: session_inv_def)
  have "session_edit now {s} (rows_of st) rows'"
    using step_sign_in.hyps(5) register_edit [OF ok, of c] fresh_not_row [OF step_sign_in.prems step_sign_in.hyps(3)] c by auto
  moreover have "\<forall>x\<in>tokens st. c_sid x \<noteq> s" using step_sign_in.hyps(3) by (auto simp: fresh_sid_def)
  ultimately have "step_edit st {s} \<lparr>clk = now, tokens = insert c (tokens st), rows_of = rows'\<rparr>"
    using step_sign_in.hyps c by (auto simp: step_edit_def)
  then show ?case by blast
next
  case (step_request st now c gate l meta)
  have ok: "registry_ok (rows_of st)" and ns: "\<not> sentinel_sid (c_sid c)" and inj: "inj_on c_sid (tokens st)"
    using step_request by (auto simp: session_inv_def)
  have only: "x = c" if "x \<in> tokens st" "c_sid x = c_sid c" for x
    using inj step_request.hyps(3) that by (auto simp: inj_on_def)
  have "step_edit st (reopened now c (rows_of st))
      \<lparr>clk = now, tokens = tokens st, rows_of = snd (evaluate_session gate l now meta c (rows_of st))\<rparr>"
    using evaluate_reopens [OF ok ns, of now gate l meta] step_request.hyps only
    by (auto simp: step_edit_def reopened_def)
  then show ?case by blast
next
  case (step_refresh st now s vf active tvs std limits token h out rows')
  have ok: "registry_ok (rows_of st)" using step_refresh.prems by (simp add: session_inv_def)
  note fresh = fresh_not_row [OF step_refresh.prems step_refresh.hyps(3)]
  note out = refresh_out [OF ok conjunct1 [OF fresh] conjunct2 [OF fresh] step_refresh.hyps(4)]
  have "\<forall>x\<in>tokens st. c_sid x \<noteq> s" using step_refresh.hyps(3) by (auto simp: fresh_sid_def)
  moreover have "minted out = {} \<or> (\<exists>c. minted out = {c})" by (simp add: minted_def split: refresh_outcome.splits)
  ultimately have "step_edit st (c_sid ` minted out) \<lparr>clk = now, tokens = minted out \<union> tokens st, rows_of = rows'\<rparr>"
    using step_refresh.hyps out by (auto simp: step_edit_def)
  then show ?case by blast
next
  case (step_admin st now rows')
  then have "step_edit st {} \<lparr>clk = now, tokens = tokens st, rows_of = rows'\<rparr>"
    by (auto simp: step_edit_def session_inv_def admin_is_edit)
  then show ?case by blast
qed

lemma session_edit_ok: "session_edit now new rows rows' \<Longrightarrow> registry_ok rows \<Longrightarrow> registry_ok rows'"
  by (auto simp: session_edit_def intro: registry_ok_bound)

lemma session_edit_below:
  assumes "session_edit now new rows rows'" "length rows < MAX_ROWS" "rows' \<noteq> rows"
  obtains f extra where "rows' = filter (kept now) (map f rows @ extra)" "\<forall>r\<in>set rows. row_change new r (f r)"
    "\<forall>r\<in>set extra. sid r \<in> new \<and> created_at r = Some now \<and> \<not> revoked r \<or> sentinel r \<and> token_version r = 1"
    "registry_ok (map f rows @ extra)"
  using assms bound_rows_below [of _ now] unfolding session_edit_def by fastforce

lemma edit_origin:
  assumes "session_edit now new rows rows'" "length rows < MAX_ROWS" "y \<in> set rows'"
  shows "(\<exists>x\<in>set rows. row_change new x y) \<or> sid y \<in> new \<or> sentinel y \<and> token_version y = 1"
proof (cases "rows' = rows")
  case False
  from session_edit_below [OF assms(1,2) False] obtain f extra where
    "rows' = filter (kept now) (map f rows @ extra)" "\<forall>r\<in>set rows. row_change new r (f r)"
    "\<forall>r\<in>set extra. sid r \<in> new \<and> created_at r = Some now \<and> \<not> revoked r \<or> sentinel r \<and> token_version r = 1" .
  then show ?thesis using assms(3) by auto
qed (use assms(3) in blast)

lemma session_inv_next:
  assumes "session_inv st" "session_step st st'"
  shows "session_inv st'"
proof -
  from step_is_edit [OF assms(2,1)] obtain new where e: "step_edit st new st'" by blast
  have ok: "registry_ok (rows_of st')" using e assms(1) session_edit_ok by (auto simp: step_edit_def session_inv_def)
  have edit: "session_edit (clk st') new (rows_of st) (rows_of st')" "length (rows_of st) < MAX_ROWS"
    and new: "new \<subseteq> c_sid ` tokens st'" and sub: "tokens st \<subseteq> tokens st'" and clk: "clk st \<le> clk st'"
    using e by (simp_all add: step_edit_def)
  note inv = assms(1) [unfolded session_inv_def]
  have rows: "sentinel y \<or> sid y \<in> c_sid ` tokens st'" if y: "y \<in> set (rows_of st')" for y
    using edit_origin [OF edit y]
  proof (elim disjE bexE conjE)
    fix x assume x: "x \<in> set (rows_of st)" "row_change new x y"
    then have "sid y = sid x \<or> sid y \<in> new" by (auto simp: row_change_def)
    moreover have "sentinel x \<or> sid x \<in> c_sid ` tokens st" using inv x(1) by blast
    ultimately show ?thesis using new sub by (auto simp: sentinel_iff)
  qed (use new in auto)
  have toks: "c_sid c \<noteq> [] \<and> \<not> sentinel_sid (c_sid c) \<and> 0 < c_iat c \<and> of_int (c_iat c) \<le> clk st'" if c: "c \<in> tokens st'" for c
  proof (cases "c \<in> tokens st")
    case True
    then have "c_sid c \<noteq> [] \<and> \<not> sentinel_sid (c_sid c) \<and> 0 < c_iat c \<and> of_int (c_iat c) \<le> clk st" using inv by blast
    then show ?thesis using clk by linarith
  next
    case False
    then have f: "fresh_sid (c_sid c) st" "c_iat c = \<lfloor>clk st'\<rfloor>" using e c by (auto simp: step_edit_def)
    have "1 \<le> clk st'" using inv clk by linarith
    then have "0 < \<lfloor>clk st'\<rfloor>" by (simp add: less_floor_iff)
    then show ?thesis using f by (simp add: fresh_sid_def)
  qed
  have inj: "inj_on c_sid (tokens st')"
  proof (cases "tokens st' = tokens st")
    case False
    then obtain c where "tokens st' = insert c (tokens st)" "fresh_sid (c_sid c) st"
      using e by (auto simp: step_edit_def)
    then show ?thesis using inv by (auto simp: inj_on_insert fresh_sid_def)
  qed (use inv in simp)
  have "1 \<le> clk st'" using inv clk by linarith
  moreover have "\<forall>r\<in>set (rows_of st'). sentinel r \<or> sid r \<in> c_sid ` tokens st'" by (rule ballI) (rule rows)
  moreover have "\<forall>c\<in>tokens st'. c_sid c \<noteq> [] \<and> \<not> sentinel_sid (c_sid c) \<and> 0 < c_iat c \<and> of_int (c_iat c) \<le> clk st'"
    by (rule ballI) (rule toks)
  ultimately show ?thesis unfolding session_inv_def by (intro conjI ok inj)
qed

interpretation session_system: safe_system session_start session_step session_inv
proof unfold_locales
  show "session_inv st" if "session_start st" for st
    using that by (simp add: session_start_def session_inv_def registry_ok_def)
  show "session_inv st'" if "session_inv st" "session_step st st'" for st st'
    using that by (rule session_inv_next)
qed

subsection \<open>A revoked session\<close>

definition dead :: "claims \<Rightarrow> real \<Rightarrow> session_state \<Rightarrow> bool" where
  "dead c t st =
     (c \<in> tokens st \<and> of_int (c_iat c) \<le> t \<and> t \<le> clk st \<and>
      ((\<exists>r\<in>set (rows_of st). sid r = c_sid c \<and> revoked r \<and> revoked_at r = Some t) \<or>
       (\<forall>r\<in>set (rows_of st). sid r \<noteq> c_sid c) \<and> of_int PRUNE_GRACE_SECONDS < clk st - t))"

lemma dead_next:
  assumes inv: "session_inv st" and step: "session_step st st'" and dead: "dead c t st"
  shows "dead c t st'"
proof -
  from step_is_edit [OF step inv] obtain new where e: "step_edit st new st'" by blast
  have edit: "session_edit (clk st') new (rows_of st) (rows_of st')" "length (rows_of st) < MAX_ROWS"
    and clk: "clk st \<le> clk st'" and sub: "tokens st \<subseteq> tokens st'"
    and reopen: "\<forall>c\<in>tokens st. c_sid c \<in> new \<longrightarrow> \<not> issued_before_prune_grace (clk st') c"
    using e by (simp_all add: step_edit_def)
  have c: "c \<in> tokens st" "of_int (c_iat c) \<le> t" "t \<le> clk st" "c \<in> tokens st'" "t \<le> clk st'"
    using dead sub clk by (auto simp: dead_def)
  have tok: "0 < c_iat c" "\<not> sentinel_sid (c_sid c)" using inv c(1) by (auto simp: session_inv_def)
  have t0: "t \<noteq> 0" using tok(1) c(2) by linarith
  show ?thesis
  proof (cases "rows_of st' = rows_of st")
    case True
    then show ?thesis using dead c clk by (auto simp: dead_def)
  next
    case False
    from session_edit_below [OF edit False] obtain f extra where
      rows: "rows_of st' = filter (kept (clk st')) (map f (rows_of st) @ extra)" and
      f: "\<forall>r\<in>set (rows_of st). row_change new r (f r)" and
      extra: "\<forall>r\<in>set extra. sid r \<in> new \<and> created_at r = Some (clk st') \<and> \<not> revoked r \<or> sentinel r \<and> token_version r = 1" and
      ok: "registry_ok (map f (rows_of st) @ extra)" .
    show ?thesis
    proof (cases "\<exists>r\<in>set (rows_of st). sid r = c_sid c")
      case True
      then obtain r where r: "r \<in> set (rows_of st)" "sid r = c_sid c" "revoked r" "revoked_at r = Some t"
        using dead by (auto simp: dead_def)
      have "row_change new r (f r)" using f r(1) by blast
      then have fr: "sid (f r) = c_sid c" "revoked (f r)" "revoked_at (f r) = Some t"
        using r by (simp_all add: row_change_def)
      have mem: "f r \<in> set (map f (rows_of st) @ extra)" using r(1) by simp
      show ?thesis
      proof (cases "kept (clk st') (f r)")
        case True
        then have "f r \<in> set (rows_of st')" using mem by (simp add: rows)
        then show ?thesis unfolding dead_def using fr c(2,4,5) by (intro conjI disjI1 bexI [of _ "f r"]) simp_all
      next
        case False
        then have late: "of_int PRUNE_GRACE_SECONDS < clk st' - t" using fr t0 by (simp add: kept_def dead_at_def)
        have gone: "\<forall>y\<in>set (rows_of st'). sid y \<noteq> c_sid c"
        proof
          fix y assume "y \<in> set (rows_of st')"
          then have y: "y \<in> set (map f (rows_of st) @ extra)" "kept (clk st') y" by (auto simp: rows)
          then have "y \<noteq> f r" using False by auto
          then show "sid y \<noteq> c_sid c" using registry_ok_unique [OF ok mem y(1)] fr(1) by auto
        qed
        show ?thesis unfolding dead_def using c(2,4,5) late gone by (intro conjI disjI2) simp_all
      qed
    next
      case absent: False
      then have old: "of_int PRUNE_GRACE_SECONDS < clk st - t" using dead by (auto simp: dead_def)
      then have "issued_before_prune_grace (clk st') c" using tok(1) c(2) clk by (simp add: issued_before_prune_grace_def)
      then have new: "c_sid c \<notin> new" using reopen c(1) by blast
      have gone: "\<forall>y\<in>set (rows_of st'). sid y \<noteq> c_sid c"
      proof
        fix y assume y: "y \<in> set (rows_of st')"
        show "sid y \<noteq> c_sid c" using edit_origin [OF edit y]
        proof (elim disjE bexE conjE)
          fix x assume "x \<in> set (rows_of st)" "row_change new x y"
          then show ?thesis using absent new by (auto simp: row_change_def)
        qed (use new tok(2) in \<open>auto simp: sentinel_iff\<close>)
      qed
      have "of_int PRUNE_GRACE_SECONDS < clk st' - t" using old clk by linarith
      then show ?thesis unfolding dead_def using c(2,4,5) gone by (intro conjI disjI2) simp_all
    qed
  qed
qed

lemma dead_rejected:
  assumes inv: "session_inv st" and dead: "dead c t st" and now: "clk st \<le> now"
  shows "v_reason (fst (evaluate_session gate l now meta c (rows_of st))) \<noteq> None"
proof -
  have ok: "registry_ok (rows_of st)" using inv by (simp add: session_inv_def)
  have tok: "c_sid c \<noteq> []" "\<not> sentinel_sid (c_sid c)" "0 < c_iat c"
    using inv dead by (auto simp: session_inv_def dead_def)
  show ?thesis
  proof (cases "\<exists>r\<in>set (rows_of st). sid r = c_sid c")
    case True
    then obtain r where r: "r \<in> set (rows_of st)" "sid r = c_sid c" "revoked r" using dead by (auto simp: dead_def)
    have find: "find (\<lambda>r. sid r = c_sid c) (rows_of st) = Some r" using find_sid [OF ok] r by blast
    then have "get_session (c_sid c) (rows_of st) = Some r" using tok by (simp add: get_session_def sentinel_sid_def)
    then show ?thesis using tok(1) find r(3)
      by (simp add: evaluate_session_def strict_request_authority_def owned_row_def is_active_def Let_def split_beta)
  next
    case False
    then have none: "get_session (c_sid c) (rows_of st) = None" "find (\<lambda>r. sid r = c_sid c) (rows_of st) = None"
      by (auto simp: get_session_def find_None_iff image_iff)
    have "of_int PRUNE_GRACE_SECONDS < clk st - t" "of_int (c_iat c) \<le> t" using False dead by (auto simp: dead_def)
    then have "issued_before_prune_grace now c" using tok(3) now by (simp add: issued_before_prune_grace_def)
    then show ?thesis using tok(1) none
      by (simp add: evaluate_session_def strict_request_authority_def owned_row_def Let_def)
  qed
qed

lemma dead_steps: "session_step\<^sup>*\<^sup>* st st' \<Longrightarrow> session_inv st \<Longrightarrow> dead c t st \<Longrightarrow> session_inv st' \<and> dead c t st'"
  by (induction rule: rtranclp_induct) (auto intro: dead_next session_inv_next)

lemma revoke_takes:
  assumes ok: "registry_ok rows" and below: "length rows < MAX_ROWS" and run: "revoke now s who why rows = (True, rows')"
    and pos: "now \<noteq> 0"
  shows "\<exists>r\<in>set rows'. sid r = s \<and> revoked r \<and> revoked_at r = Some now"
proof -
  let ?P = "\<lambda>r. sid r = s \<and> \<not> revoked r"
  have upd: "snd (update_first ?P (revoke_row now who why) rows) = map (\<lambda>r. if ?P r then revoke_row now who why r else r) rows"
    using ok update_first_map [of rows ?P s] by (simp add: registry_ok_def)
  have "rows' = snd (revoke now s who why rows)" "fst (revoke now s who why rows)" using run by simp_all
  then have rows: "rows' = filter (kept now) (map (\<lambda>r. if ?P r then revoke_row now who why r else r) rows)"
    and found: "fst (update_first ?P (revoke_row now who why) rows) \<noteq> None"
    using below bound_rows_below [of "map (\<lambda>r. if ?P r then revoke_row now who why r else r) rows" now]
    by (simp_all add: revoke_def mutate_rows_def filter_ok [OF ok] found_def split_beta upd)
  from found obtain r where "find ?P rows = Some r" by (auto simp: update_first_fst)
  then have r: "r \<in> set rows" "?P r" using find_in_set by fast+
  let ?r = "revoke_row now who why r"
  have "kept now ?r" using pos by (auto simp: kept_def dead_at_def revoke_row_def PRUNE_GRACE_SECONDS_def)
  moreover have "?r \<in> set (map (\<lambda>r. if ?P r then revoke_row now who why r else r) rows)"
    unfolding set_map by (rule image_eqI [OF _ r(1)]) (simp add: r(2))
  ultimately have "?r \<in> set rows'" by (simp only: rows set_filter mem_Collect_eq simp_thms)
  then show ?thesis using r(2) by (intro bexI [of _ ?r]) (simp_all add: revoke_row_def)
qed


definition sample_claims :: claims where
  "sample_claims = \<lparr>c_sid = ''s1'', c_user = ''ann'', c_tv = 0, c_iat = 10, c_exp = 43210, c_rm = False\<rparr>"

definition no_limits :: session_limits where
  "no_limits = \<lparr>idle = 0, absolute = 0, remember_idle = 0, remember_absolute = 0, excluded_roles = {}, fallback_idle = 0, fallback_absolute = 0\<rparr>"

definition sample_rows :: "session_row list" where
  "sample_rows = snd (register_session no_limits 10 [] ''h1'' 0 sample_claims [])"

definition sample_state :: session_state where
  "sample_state = \<lparr>clk = 10, tokens = {sample_claims}, rows_of = sample_rows\<rparr>"

lemma sample_rows_value:
  "sample_rows = [(blank_row 10 ''s1'' ''ann'')\<lparr>refresh_hash := ''h1'', token_expires_at := Some 43210\<rparr>]"
  by (simp add: sample_rows_def register_session_def no_limits_def sample_claims_def create_session_def mutate_rows_def
    Let_def new_session_def bound_rows_def prune_rows_def kept_def dead_at_def blank_row_def MAX_ROWS_def sentinel_def)

lemma sample_reachable: "reach session_start session_step sample_state"
proof -
  let ?st = "\<lparr>clk = 10, tokens = {}, rows_of = []\<rparr>"
  have start: "reach session_start session_step ?st"
    by (rule reach_start) (simp add: session_start_def)
  have mint: "mint_session (\<lambda>_. True) (\<lambda>_. 0) 43200 ''s1'' 10 ''ann'' 0 = Some sample_claims"
    by (simp add: mint_session_def session_lifetime_def sample_claims_def)
  have fresh: "fresh_sid ''s1'' ?st" by (simp add: fresh_sid_def sentinel_sid_def)
  have "session_step ?st \<lparr>clk = 10, tokens = insert sample_claims (tokens ?st),
      rows_of = snd (register_session no_limits 10 [] ''h1'' 0 sample_claims (rows_of ?st))\<rparr>"
    by (rule step_sign_in [OF _ _ fresh mint disjI1 [OF refl]]) (simp_all add: MAX_ROWS_def)
  with start show ?thesis unfolding sample_state_def sample_rows_def by (auto intro: reach_next)
qed

lemma sample_below: "length (rows_of sample_state) < MAX_ROWS"
  by (simp add: sample_state_def sample_rows_value MAX_ROWS_def)


subsection \<open>A global sign-out\<close>

lemma tv_from_row: "registry_ok rows \<Longrightarrow> r \<in> set rows \<Longrightarrow> sid r = tv_key u \<Longrightarrow> tv_from rows u = token_version r"
  using find_sid [of rows "tv_key u" r] by (simp add: tv_from_def)

lemma tv_from_none: "\<forall>r\<in>set rows. sid r \<noteq> tv_key u \<Longrightarrow> tv_from rows u = 0"
  by (simp add: tv_from_def find_None_iff [THEN iffD2])

lemma sentinel_kept [simp]: "sentinel r \<Longrightarrow> kept now r"
  by (simp add: kept_def)

lemma tv_edit:
  assumes edit: "session_edit now new rows rows'" "length rows < MAX_ROWS" and ok: "registry_ok rows"
    and new: "\<forall>s\<in>new. \<not> sentinel_sid s"
  shows "tv_from rows u \<le> tv_from rows' u"
proof (cases "\<exists>r\<in>set rows. sid r = tv_key u")
  case True
  then obtain r where r: "r \<in> set rows" "sid r = tv_key u" by blast
  then have s: "sentinel r" by (simp add: sentinel_iff)
  have "\<exists>r'\<in>set rows'. sid r' = tv_key u \<and> token_version r \<le> token_version r'"
  proof (cases "rows' = rows")
    case False
    from session_edit_below [OF edit False] obtain f extra where
      rows: "rows' = filter (kept now) (map f rows @ extra)" and f: "\<forall>r\<in>set rows. row_change new r (f r)" .
    have fr: "row_change new r (f r)" using f r(1) by blast
    then have "sid (f r) = tv_key u" "token_version r \<le> token_version (f r)"
      using s r(2) by (auto simp: row_change_def)
    moreover from this have "f r \<in> set rows'" using r(1) by (simp add: rows sentinel_iff)
    ultimately show ?thesis by blast
  qed (use r in auto)
  then show ?thesis using tv_from_row [OF ok r] tv_from_row [OF session_edit_ok [OF edit(1) ok]] by auto
next
  case False
  then have "tv_from rows u = 0" by (intro tv_from_none) blast
  moreover have "0 \<le> tv_from rows' u"
  proof (cases "find (\<lambda>r. sid r = tv_key u) rows'")
    case (Some y)
    then have y: "y \<in> set rows'" "sid y = tv_key u" using find_in_set by fast+
    from edit_origin [OF edit y(1)] have "token_version y = 1"
    proof (elim disjE bexE conjE)
      fix x assume "x \<in> set rows" "row_change new x y"
      then show ?thesis using False y(2) new by (auto simp: row_change_def)
    qed (use new y(2) in auto)
    then show ?thesis using Some by (simp add: tv_from_def)
  qed (simp add: tv_from_def)
  ultimately show ?thesis by simp
qed

lemma tv_next:
  assumes "session_inv st" "session_step st st'"
  shows "tv_from (rows_of st) u \<le> tv_from (rows_of st') u"
proof -
  from step_is_edit [OF assms(2,1)] obtain new where e: "step_edit st new st'" by blast
  have "\<forall>s\<in>new. \<not> sentinel_sid s"
    using e session_inv_next [OF assms] by (auto simp: step_edit_def session_inv_def)
  then show ?thesis using e assms(1) by (auto simp: step_edit_def session_inv_def intro: tv_edit)
qed

lemma tv_steps: "session_step\<^sup>*\<^sup>* st st' \<Longrightarrow> session_inv st \<Longrightarrow>
  session_inv st' \<and> clk st \<le> clk st' \<and> tokens st \<subseteq> tokens st' \<and> tv_from (rows_of st) u \<le> tv_from (rows_of st') u"
proof (induction rule: rtranclp_induct)
  case (step y z)
  then have inv: "session_inv y" by simp
  obtain new where "step_edit y new z" using step_is_edit [OF step.hyps(2) inv] by blast
  then show ?case using step tv_next [OF inv step.hyps(2), of u] session_inv_next [OF inv step.hyps(2)]
    by (auto simp: step_edit_def)
qed simp

lemma old_version_rejected:
  assumes "c_sid c \<noteq> []" "c_tv c < tv_from rows (c_user c)"
  shows "v_reason (fst (evaluate_session gate l now meta c rows)) \<noteq> None"
  using assms by (auto simp: evaluate_session_def strict_request_authority_def Let_def split: option.splits)

lemma revoke_all_version:
  assumes ok: "registry_ok rows" and below: "length rows < MAX_ROWS"
  shows "tv_from (snd (revoke_all now user who why keep rows)) user = tv_from rows user + 1"
    and "r \<in> set (snd (revoke_all now user who why keep rows)) \<Longrightarrow>
      sentinel r \<or> revoked r \<or> norm_text (username r) \<noteq> norm_text user \<or> sid r = keep"
proof -
  let ?f = "\<lambda>r. bump_row user (if revocable user keep r then revoke_row now who (str_or why ''revoke_all'') r else r)"
  let ?rows = "snd (revoke_all now user who why keep rows)"
  have eq: "?rows = filter (kept now) (map ?f rows @ missing_tv user rows)"
    using below unfolding revoke_all_rows [OF ok] by (intro bound_rows_below) (simp add: missing_tv_def)
  have ok': "registry_ok ?rows" by (rule session_edit_ok [OF revoke_all_edit [OF ok] ok])
  show "tv_from ?rows user = tv_from rows user + 1"
  proof (cases "\<exists>r\<in>set rows. sid r = tv_key user")
    case True
    then obtain r where r: "r \<in> set rows" "sid r = tv_key user" by blast
    have f: "sid (?f r) = tv_key user" "token_version (?f r) = token_version r + 1"
      using r(2) by (auto simp: bump_row_def revoke_row_def)
    then have "kept now (?f r)" by (simp add: sentinel_iff)
    moreover have "?f r \<in> set (map ?f rows)" unfolding set_map using r(1) by (rule imageI)
    ultimately have "?f r \<in> set ?rows" by (simp only: eq set_filter set_append) blast
    then show ?thesis using f tv_from_row [OF ok r] by (simp only: tv_from_row [OF ok'])
  next
    case False
    then have "tv_row user \<in> set ?rows" by (auto simp: eq missing_tv_def sentinel_iff tv_row_def)
    then have "tv_from ?rows user = token_version (tv_row user)" by (rule tv_from_row [OF ok']) (simp add: tv_row_def)
    then show ?thesis using False by (simp add: tv_row_def tv_from_none)
  qed
  show "sentinel r \<or> revoked r \<or> norm_text (username r) \<noteq> norm_text user \<or> sid r = keep" if r: "r \<in> set ?rows"
  proof -
    from r have "r \<in> ?f ` set rows \<or> r \<in> set (missing_tv user rows)" by (auto simp: eq)
    then show ?thesis
    proof
      assume "r \<in> ?f ` set rows"
      then obtain x where x: "x \<in> set rows" "r = ?f x" by blast
      then show ?thesis by (auto simp: bump_row_def revoke_row_def revocable_def sentinel_iff)
    next
      assume "r \<in> set (missing_tv user rows)"
      then show ?thesis by (auto simp: missing_tv_def tv_row_def sentinel_iff split: if_splits)
    qed
  qed
qed

lemma tv_key_cong: "norm_text u = norm_text v \<Longrightarrow> tv_from rows u = tv_from rows v"
  by (simp add: tv_from_def tv_key_def)



end
