(* ===== verification/Session_Gaps.thy ===== *)
theory Session_Gaps
  imports Session_Safety "HOL-Library.Multiset"
begin

section \<open>Rotation, the cap and partial sign-outs\<close>

text \<open>
  What a refresh does to a session: the re-keyed row keeps the age of the session and betrays a
  replay of the old refresh token. And three places where a token outlives what was done to its
  session: the old access token of a rotated session, a global sign-out once the registry exceeds
  its cap, and the tokens without a row when a user signs out the other devices.
\<close>

subsection \<open>Refresh\<close>

lemma in_filter_map: "x \<in> set (filter P (map f xs)) \<Longrightarrow> \<exists>z\<in>set xs. x = f z"
  by auto

lemma length_filter_map: "length (filter P (map f xs)) \<le> length xs"
  by (rule le_trans [OF length_filter_le]) simp

lemma refreshed_rows:
  assumes ok: "registry_ok rows" and below: "length rows < MAX_ROWS"
    and cur: "find_by_refresh vf (py_strip token) rows = Current r"
    and run: "auth_refresh vf (mint_session active tvs std s now) limits now token h rows = (Refreshed c, rows')"
  shows "\<exists>i e. rows' = filter (kept now) (map (\<lambda>x. if sid x = sid r then rekey_row now s h i e x else x) rows) \<and> c_sid c = s"
proof -
  have sid: "mint_session active tvs std s now u n = Some c \<Longrightarrow> c_sid c = s" for u n c
    by (auto simp: mint_session_def split: if_splits prod.splits)
  have rekey: "snd (rekey_and_rotate now (sid r) s h i e rows) =
      filter (kept now) (map (\<lambda>x. if sid x = sid r then rekey_row now s h i e x else x) rows)" for i e
    using ok below bound_rows_below [of "map (\<lambda>x. if sid x = sid r then rekey_row now s h i e x else x) rows" now]
    by (simp add: rekey_and_rotate_def snd_mutate [OF ok] update_first_map [where s = "sid r"] registry_ok_def)
  from run obtain u n i e where "mint_session active tvs std s now u n = Some c"
      "rows' = snd (rekey_and_rotate now (sid r) (c_sid c) h i e rows)"
    by (auto simp: auth_refresh_def Let_def cur split: if_splits option.splits)
  then show ?thesis using sid rekey by blast
qed

lemma rekey_fields [simp]:
  "sid (rekey_row now s h i e r) = s" "created_at (rekey_row now s h i e r) = created_at r"
  "username (rekey_row now s h i e r) = username r" "refresh_hash (rekey_row now s h i e r) = h"
  "refresh_prev_hash (rekey_row now s h i e r) = refresh_hash r" "revoked (rekey_row now s h i e r) = revoked r"
  "absolute_expiry_at (rekey_row now s h i e r) = absolute_expiry_at r" "revoked_at (rekey_row now s h i e r) = revoked_at r"
  by (simp_all add: rekey_row_def slide_def rotate_row_def Let_def)

lemma dead_rekey: "dead_at now (rekey_row now s h i e r) = dead_at now r"
  by (simp add: dead_at_def)

lemma kept_rekey: "kept now r \<Longrightarrow> \<not> sentinel r \<Longrightarrow> \<not> sentinel_sid s \<Longrightarrow> kept now (rekey_row now s h i e r)"
  by (simp add: kept_def dead_rekey sentinel_iff)

lemma find_previous:
  assumes row: "y \<in> set rows" "sid y \<noteq> []" "\<not> sentinel y" "refresh_prev_hash y \<noteq> []" "vf t (refresh_prev_hash y)" "t \<noteq> []"
    and cur: "\<forall>x\<in>set rows. \<not> vf t (refresh_hash x)" and prev: "\<forall>x\<in>set rows. vf t (refresh_prev_hash x) \<longrightarrow> x = y"
  shows "find_by_refresh vf t rows = Previous y"
proof -
  let ?Q = "\<lambda>r. sid r \<noteq> [] \<and> \<not> sentinel r \<and> refresh_prev_hash r \<noteq> [] \<and> vf t (refresh_prev_hash r)"
  have none: "find (\<lambda>r. sid r \<noteq> [] \<and> \<not> sentinel r \<and> refresh_hash r \<noteq> [] \<and> vf t (refresh_hash r)) rows = None"
    using cur by (auto simp: find_None_iff)
  have "find ?Q rows \<noteq> None" using row by (auto simp: find_None_iff)
  then obtain x where x: "find ?Q rows = Some x" by blast
  then have "x \<in> set rows" "vf t (refresh_prev_hash x)" using find_in_set by fast+
  then have "x = y" using prev by blast
  with none x row(6) show ?thesis by (simp add: find_by_refresh_def)
qed


definition sample_vf :: "string \<Rightarrow> string \<Rightarrow> bool" where
  "sample_vf t h = (h = ''h'' @ t)"

definition sample_row :: session_row where
  "sample_row = (blank_row 10 ''s1'' ''ann'')\<lparr>refresh_hash := ''h1'', token_expires_at := Some 43210\<rparr>"

definition rotated_row :: session_row where
  "rotated_row = rekey_row 20 ''s2'' ''h2'' 0 (Some 43220) sample_row"

definition rotated_claims :: claims where
  "rotated_claims = \<lparr>c_sid = ''s2'', c_user = ''ann'', c_tv = 0, c_iat = 20, c_exp = 43220, c_rm = False\<rparr>"

lemma sample_row_fields [simp]:
  "sid sample_row = ''s1''" "refresh_hash sample_row = ''h1''" "\<not> sentinel sample_row" "\<not> revoked sample_row"
  "absolute_expiry_at sample_row = None" "username sample_row = ''ann''" "\<not> remember sample_row" "idle_expiry_at sample_row = None"
  by (simp_all add: sample_row_def blank_row_def sentinel_def)

lemma sample_rows_row: "sample_rows = [sample_row]"
  by (simp add: sample_rows_value sample_row_def)

lemma strip_1: "py_strip ''1'' = ''1''"
  by code_simp

lemma sample_current: "find_by_refresh sample_vf (py_strip ''1'') sample_rows = Current sample_row"
  by (simp add: find_by_refresh_def strip_1 sample_rows_row sample_vf_def)

lemma sample_kept: "kept 20 sample_row" "kept 20 rotated_row"
  by (simp_all add: kept_def dead_at_def rotated_row_def)

lemma sample_refresh:
  "auth_refresh sample_vf (mint_session (\<lambda>_. True) (\<lambda>_. 0) 43200 ''s2'' 20) (\<lambda>_. no_limits) 20 ''1'' ''h2'' sample_rows
     = (Refreshed rotated_claims, [rotated_row])"
proof -
  have active: "is_active no_limits 20 sample_row = None"
    by (simp add: is_active_def limits_for_row_def no_limits_def past_def split: option.splits)
  have mint: "mint_session (\<lambda>_. True) (\<lambda>_. 0) 43200 ''s2'' 20 ''ann'' 0 = Some rotated_claims"
    by (simp add: mint_session_def session_lifetime_def rotated_claims_def)
  have rekey: "snd (rekey_and_rotate 20 ''s1'' ''s2'' ''h2'' 0 (Some 43220) [sample_row]) = [rotated_row]"
    using sample_kept(2)
    by (simp add: rekey_and_rotate_def mutate_rows_def bound_rows_def prune_rows_def MAX_ROWS_def rotated_row_def)
  show ?thesis
    using sample_current active mint rekey
    by (simp add: auth_refresh_def Let_def strip_1 for_row_def no_limits_def sample_rows_row rotated_claims_def)
qed

lemma sample_ok: "registry_ok sample_rows" "registry_ok [rotated_row]" "length sample_rows < MAX_ROWS"
  by (simp_all add: registry_ok_def sample_rows_row rotated_row_def MAX_ROWS_def)


text \<open>
  Rotation does not end the old access token. A refresh gives the session a new id and the row of
  the old id is gone; so the old access token, until it expires, is taken for a session never
  seen: it is registered again, with a fresh age, and accepted, even right after the
  rotated session has been signed out.
\<close>

theorem rotation_spares_old_token:
  assumes "registry_ok rows" and "length rows < MAX_ROWS" and "find_by_refresh vf (py_strip token) rows = Current r"
    and "auth_refresh vf (mint_session active tvs std s now) limits now token h rows = (Refreshed c, rows')"
    and "registry_ok rows'" and "s \<noteq> sid r" and "\<not> sentinel_sid s"
    and "final = snd (revoke t (c_sid c) who why rows')"
    and "c_sid old = sid r" and "tv_from final (c_user old) \<le> c_tv old" and "\<not> issued_before_prune_grace later old"
  shows "v_reason (fst (evaluate_session False l later meta old final)) = None \<and>
    (\<exists>x. v_row (fst (evaluate_session False l later meta old final)) = Some x \<and>
       sid x = sid r \<and> created_at x = Some later \<and> \<not> revoked x)"
proof -
  note r = find_by_refresh_row [OF assms(3)]
  have rs: "sid r \<noteq> []" using r assms(1) by (simp add: registry_ok_def)
  from refreshed_rows [OF assms(1-4)] obtain i e where
    rows: "rows' = filter (kept now) (map (\<lambda>x. if sid x = sid r then rekey_row now s h i e x else x) rows)"
    by blast
  have gone: "sid x \<noteq> sid r" if x: "x \<in> set rows'" for x
  proof -
    from in_filter_map [OF x [unfolded rows]] obtain z where "x = (if sid z = sid r then rekey_row now s h i e z else z)" by blast
    then show ?thesis using assms(6) by simp
  qed
  have len: "length rows' < MAX_ROWS" unfolding rows by (rule le_less_trans [OF length_filter_map assms(2)])
  have edit: "session_edit t {} rows' final" unfolding assms(8) by (rule revoke_edit [OF assms(5)])
  have "sid x \<noteq> sid r" if x: "x \<in> set final" for x
    using edit_origin [OF edit len x]
  proof (elim disjE bexE conjE)
    fix z assume "z \<in> set rows'" "row_change {} z x"
    then show ?thesis using gone [of z] by (auto simp: row_change_def)
  qed (use r in \<open>auto simp: sentinel_iff\<close>)
  then have none: "get_session (sid r) final = None" by (simp add: get_session_def find_None_iff)
  have row: "fst (create_session later q rows) = new_session later q" for q rows
    by (simp add: create_session_def mutate_rows_def split_beta Let_def split: option.splits)
  show ?thesis
    using none rs assms(9-11) row [of "lazy_request l meta old" final]
    by (auto simp: evaluate_session_def Let_def split_beta new_session_def blank_row_def lazy_request_def)
qed

lemma rotation_spares_old_token_witness:
  "v_reason (fst (evaluate_session False no_limits 40 [] sample_claims (snd (revoke 30 ''s2'' ''ann'' ''logout'' [rotated_row])))) = None"
proof -
  have "tv_from (snd (revoke 30 ''s2'' ''ann'' ''logout'' [rotated_row])) ''ann'' = 0"
    by (simp add: revoke_def mutate_rows_def found_def split_beta rotated_row_def tv_from_def tv_key_def bound_rows_def prune_rows_def
      MAX_ROWS_def revoke_row_def)
  then show ?thesis
    using rotation_spares_old_token [OF sample_ok(1,3) sample_current sample_refresh sample_ok(2),
        of "snd (revoke 30 ''s2'' ''ann'' ''logout'' [rotated_row])" 30 "''ann''" "''logout''" sample_claims 40 no_limits "[]"]
    by (simp add: rotated_claims_def sample_claims_def sentinel_sid_def issued_before_prune_grace_def PRUNE_GRACE_SECONDS_def)
qed

subsection \<open>The cap\<close>

lemma sorted_prefix_sentinels:
  assumes "sorted (map created_key ys)" "j < length ys" "created_key (ys ! j) = (0, 0)" "i \<le> j"
  shows "created_key (ys ! i) = (0, 0)"
proof -
  have "created_key (ys ! i) \<le> created_key (ys ! j)"
    using sorted_nth_mono [OF assms(1,4)] assms(2,4) by simp
  then show ?thesis unfolding assms(3) by (auto simp: created_key_def less_eq_prod_def split: option.splits)
qed

lemma length_filter_take: "length (filter P (take n xs)) \<le> length (filter P xs)"
  by (induction xs arbitrary: n) (auto simp: take_Cons' le_SucI)

lemma drop_sentinels:
  assumes key: "\<forall>r\<in>set rows. sentinel r = (created_at r = None)"
    and few: "length (filter sentinel rows) \<le> d" and r: "r \<in> set (drop d (sort_key created_key rows))"
  shows "\<not> sentinel r"
proof
  assume s: "sentinel r"
  let ?ys = "sort_key created_key rows"
  have zero: "created_key x = (0, 0) \<longleftrightarrow> sentinel x" if "x \<in> set ?ys" for x
    using key that by (auto simp: created_key_def split: option.splits)
  from r obtain j where "j < length (drop d ?ys)" "drop d ?ys ! j = r" by (auto simp only: in_set_conv_nth)
  then have j: "d + j < length ?ys" "r = ?ys ! (d + j)" by simp_all
  have "sentinel (?ys ! i)" if "i \<le> d + j" for i
  proof -
    have "created_key (?ys ! (d + j)) = (0, 0)" using zero [OF nth_mem [OF j(1)]] s j(2) by simp
    from sorted_prefix_sentinels [OF sorted_sort_key j(1) this that] show ?thesis
      using zero [OF nth_mem [of i ?ys]] that j(1) by simp
  qed
  then have "filter sentinel (take (Suc (d + j)) ?ys) = take (Suc (d + j)) ?ys"
    using j(1) by (auto simp: filter_id_conv in_set_conv_nth)
  then have "Suc (d + j) \<le> length (filter sentinel ?ys)"
    using j(1) length_filter_take [of sentinel "Suc (d + j)" ?ys] by simp
  moreover have "length (filter sentinel ?ys) = length (filter sentinel rows)"
    by (metis mset_filter mset_sort size_mset)
  ultimately show False using few by simp
qed

text \<open>
  The cap undoes a global sign-out. Once more rows survive pruning than the registry holds, the
  cap keeps the rows created last; a token version has no creation time and goes first. As soon
  as the excess reaches the number of stored versions, every version reads 0 again, and a token that a
  global sign-out had refused is accepted.
\<close>

theorem cap_undoes_signout:
  assumes "\<forall>r\<in>set rows. sentinel r = (created_at r = None)" and "MAX_ROWS < length (prune_rows now rows)"
    and "length (filter sentinel rows) \<le> length (prune_rows now rows) - MAX_ROWS"
    and "get_session (c_sid c) rows = None" and "c_sid c \<noteq> []" and "0 \<le> c_tv c"
    and "\<not> issued_before_prune_grace later c"
  shows "tv_from (bound_rows now rows) user = 0 \<and>
    v_reason (fst (evaluate_session False l later meta c (bound_rows now rows))) = None"
proof -
  let ?p = "prune_rows now rows"
  have sub: "set ?p \<subseteq> set rows" by (auto simp: prune_rows_def)
  have "length (filter sentinel (filter (kept now) xs)) \<le> length (filter sentinel xs)" for xs by (induction xs) auto
  then have "length (filter sentinel ?p) \<le> length (filter sentinel rows)" by (simp only: prune_rows_def)
  then have few: "length (filter sentinel ?p) \<le> length ?p - MAX_ROWS" using assms(3) by simp
  have eq: "bound_rows now rows = drop (length ?p - MAX_ROWS) (sort_key created_key ?p)"
    using assms(2) by (simp add: bound_rows_def Let_def)
  have key: "\<forall>r\<in>set ?p. sentinel r = (created_at r = None)" using assms(1) sub by blast
  have tv: "tv_from (bound_rows now rows) u = 0" for u
  proof (rule tv_from_none, rule ballI)
    fix r assume "r \<in> set (bound_rows now rows)"
    then have "\<not> sentinel r" unfolding eq by (rule drop_sentinels [OF key few])
    then show "sid r \<noteq> tv_key u" by (auto simp: sentinel_iff)
  qed
  have "get_session (c_sid c) (bound_rows now rows) = None"
    using assms(4) set_bound_rows [of now rows] by (auto simp: get_session_def find_None_iff split: if_splits)
  then show ?thesis using tv assms(5,6,7)
    by (simp add: evaluate_session_def Let_def split_beta)
qed

definition crowd :: "session_row list" where
  "crowd = tv_row ''ann'' # map (\<lambda>n. blank_row 20 (CHR ''x'' # replicate n CHR ''a'') ''bob'') [0..<2000]"

lemma crowd_sentinel: "filter sentinel crowd = [tv_row ''ann'']"
  by (simp add: crowd_def filter_empty_conv sentinel_def tv_row_def tv_key_def blank_row_def)

lemma crowd_kept: "prune_rows 20 crowd = crowd"
  by (auto simp: crowd_def prune_rows_def filter_id_conv kept_def dead_at_def blank_row_def sentinel_def tv_row_def tv_key_def)

lemma cap_undoes_signout_witness:
  "tv_from crowd ''ann'' = 1 \<and> v_reason (fst (evaluate_session False no_limits 30 [] sample_claims crowd)) = Some Tv_mismatch \<and>
   v_reason (fst (evaluate_session False no_limits 30 [] sample_claims (bound_rows 20 crowd))) = None"
proof -
  have len: "length crowd = 2001" by (simp add: crowd_def)
  have key: "\<forall>r\<in>set crowd. sentinel r = (created_at r = None)"
    by (simp add: crowd_def sentinel_def tv_row_def tv_key_def blank_row_def)
  have tv: "tv_from crowd ''ann'' = 1" by (simp add: crowd_def tv_from_def tv_row_def tv_key_def)
  have none: "get_session (c_sid sample_claims) crowd = None"
    by (simp add: get_session_def crowd_def sample_claims_def find_None_iff tv_row_def tv_key_def blank_row_def)
  have "v_reason (fst (evaluate_session False no_limits 30 [] sample_claims (bound_rows 20 crowd))) = None"
    using cap_undoes_signout [OF key _ _ none, of 20 30] len
    by (simp add: crowd_kept crowd_sentinel MAX_ROWS_def sample_claims_def issued_before_prune_grace_def PRUNE_GRACE_SECONDS_def)
  then show ?thesis using tv none
    by (simp add: evaluate_session_def Let_def) (simp add: sample_claims_def)
qed

subsection \<open>Signing out the other devices\<close>

text \<open>
  Signing out the other devices reaches the sessions that have a row, and no others. It revokes every
  row of the user but the kept one and leaves every token version alone, so a token of the user whose session has no
  row was accepted before and is accepted afterwards.
\<close>

theorem revoke_others_known_only:
  assumes "registry_ok rows" and "length rows < MAX_ROWS" and "rows' = snd (revoke_others now user keep who why rows)"
    and "get_session (c_sid c) rows = None" and "c_sid c \<noteq> []" and "tv_from rows (c_user c) \<le> c_tv c"
    and "\<not> issued_before_prune_grace now c"
  shows "(\<forall>r\<in>set rows'. norm_text (username r) = norm_text user \<longrightarrow> sentinel r \<or> revoked r \<or> sid r = keep) \<and>
    (\<forall>u. tv_from rows' u = tv_from rows u) \<and> v_reason (fst (evaluate_session False l now meta c rows')) = None"
proof -
  let ?P = "\<lambda>r. \<not> sentinel r \<and> norm_text (username r) = norm_text user \<and> \<not> revoked r \<and> sid r \<noteq> keep"
  let ?f = "\<lambda>r. if ?P r then revoke_row now who why r else r"
  have eq: "rows' = filter (kept now) (map ?f rows)"
    unfolding assms(3) using assms(2) bound_rows_below [of "map ?f rows" now]
    by (simp add: revoke_others_def snd_mutate [OF assms(1)] revoke_matching_def)
  have ok': "registry_ok rows'"
    unfolding assms(3) by (rule session_edit_ok [OF revoke_others_edit [OF assms(1)] assms(1)])
  have sid: "sid (?f r) = sid r" for r by (simp add: revoke_row_def)
  have src: "\<exists>z\<in>set rows. x = ?f z" if "x \<in> set rows'" for x by (rule in_filter_map [OF that [unfolded eq]])
  have sids: "\<exists>z\<in>set rows. sid x = sid z" if x: "x \<in> set rows'" for x
  proof -
    from src [OF x] obtain z where z: "z \<in> set rows" "x = ?f z" by blast
    then show ?thesis using sid [of z] by (intro bexI [of _ z]) simp_all
  qed
  have rev: "sentinel r \<or> revoked r \<or> sid r = keep" if r: "r \<in> set rows'" "norm_text (username r) = norm_text user" for r
  proof -
    from src [OF r(1)] obtain z where "r = ?f z" by blast
    show ?thesis
    proof (cases "?P z")
      case True
      then have "r = revoke_row now who why z" using \<open>r = ?f z\<close> by (auto split: if_splits)
      then show ?thesis by (simp add: revoke_row_def)
    next
      case False
      then have "r = z" using \<open>r = ?f z\<close> by (auto split: if_splits)
      then show ?thesis using False r(2) by blast
    qed
  qed
  have tv: "tv_from rows' u = tv_from rows u" for u
  proof (cases "\<exists>r\<in>set rows. sid r = tv_key u")
    case True
    then obtain r where r: "r \<in> set rows" "sid r = tv_key u" by blast
    then have f: "r = ?f r" "kept now r" by (simp_all add: sentinel_iff)
    have "r \<in> set (map ?f rows)" unfolding set_map by (rule image_eqI [where x = r]) (rule f(1), rule r(1))
    then have "r \<in> set rows'" using f(2) by (simp only: eq set_filter mem_Collect_eq simp_thms)
    then show ?thesis using tv_from_row [OF assms(1) r] tv_from_row [OF ok' _ r(2)] by simp
  next
    case False
    moreover have "\<forall>r\<in>set rows'. sid r \<noteq> tv_key u" using False sids by force
    ultimately show ?thesis using tv_from_none [of rows' u] tv_from_none [of rows u] by auto
  qed
  have "get_session (c_sid c) rows' = None"
  proof (cases "take 7 (c_sid c) = ''__tv__:''")
    case False
    then have "\<forall>r\<in>set rows. sid r \<noteq> c_sid c" using assms(4,5) by (auto simp: get_session_def find_None_iff)
    then have "\<forall>r\<in>set rows'. sid r \<noteq> c_sid c" using sids by force
    then show ?thesis by (simp add: get_session_def find_None_iff)
  qed (simp add: get_session_def)
  then have "v_reason (fst (evaluate_session False l now meta c rows')) = None"
    using assms(5-7) by (simp add: evaluate_session_def Let_def split_beta tv)
  then show ?thesis using rev tv by blast
qed

lemma revoke_others_known_only_witness:
  "v_reason (fst (evaluate_session False no_limits 50 [] rotated_claims (snd (revoke_others 50 ''ann'' ''s1'' ''ann'' ''x'' sample_rows)))) = None"
proof -
  have g: "get_session (c_sid rotated_claims) sample_rows = None"
    by (simp add: get_session_def rotated_claims_def sample_rows_row)
  have n: "c_sid rotated_claims \<noteq> []" by (simp add: rotated_claims_def)
  have t: "tv_from sample_rows (c_user rotated_claims) \<le> c_tv rotated_claims"
    by (simp add: tv_from_def rotated_claims_def sample_rows_row tv_key_def)
  have i: "\<not> issued_before_prune_grace 50 rotated_claims"
    by (simp add: issued_before_prune_grace_def rotated_claims_def PRUNE_GRACE_SECONDS_def)
  show ?thesis using revoke_others_known_only [OF sample_ok(1,3) refl g n t i] by blast
qed

end
