(* ===== verification/Poll_Cursor.thy ===== *)
theory Poll_Cursor
  imports Correlation
begin

section \<open>The durable polling cursor\<close>

text \<open>
  \<^verbatim>\<open>models.Cursor\<close>, the cursor arithmetic of \<^verbatim>\<open>engine/poller.py\<close>, the two queries of
  \<^verbatim>\<open>es/querybuilder.py\<close>, the paging and scanning of \<^verbatim>\<open>connectors/elastic.py\<close> and
  one \<open>poll_once\<close> of the poller. A hit is the index, id and time of a document, \<open>None\<close> where the time field is
  missing. A query is the set of documents it matches (\<open>scope\<close> stands for the severity, rule and
  feed filters). The log store itself is a parameter: functions that return a page, or \<open>None\<close> where the call raises.
\<close>

subsection \<open>Hits and cursors\<close>

record hit =
  h_index :: string
  h_id :: string
  h_time :: "int option"

definition hit_key :: "hit \<Rightarrow> string" where
  "hit_key h = make_cursor_event_key (h_index h) (h_id h)"

definition h_ts :: "hit \<Rightarrow> int" where
  "h_ts h = (case h_time h of Some t \<Rightarrow> t | None \<Rightarrow> 0)"

record cursor =
  timestamp_millis :: int
  boundary_ids :: "string list"
  recent_event_millis :: "(string, int) dict"
  overlap_initialized :: bool
  overlap_saturated :: bool
  late_arrival_overlap_enabled :: bool
  object_marker :: string
  shard_markers :: "(string, string) dict"

definition empty_cursor :: cursor where
  "empty_cursor = \<lparr>timestamp_millis = 0, boundary_ids = [], recent_event_millis = [], overlap_initialized = False,
     overlap_saturated = False, late_arrival_overlap_enabled = True, object_marker = [], shard_markers = []\<rparr>"

definition is_set :: "cursor \<Rightarrow> bool" where
  "is_set c = (0 < timestamp_millis c)"

definition should_skip :: "cursor \<Rightarrow> hit \<Rightarrow> bool" where
  "should_skip c h =
     (if h_ts h \<le> 0 then False
      else if h_ts h < timestamp_millis c then
        (if \<not> overlap_initialized c \<or> overlap_saturated c then True else hit_key h \<in> set (dkeys (recent_event_millis c)))
      else if h_ts h = timestamp_millis c then hit_key h \<in> set (boundary_ids c) \<or> h_id h \<in> set (boundary_ids c)
      else False)"

definition PULL_LATE_ARRIVAL_OVERLAP_MILLIS :: int where "PULL_LATE_ARRIVAL_OVERLAP_MILLIS = 5 * 60 * 1000"
definition PULL_RECENT_EVENT_LIMIT :: nat where "PULL_RECENT_EVENT_LIMIT = 100000"

definition merge_recent :: "(string, int) dict \<Rightarrow> (string, int) dict \<Rightarrow> (string, int) dict" where
  "merge_recent d new = foldl (\<lambda>d (k, v). dset d k v) d (filter (\<lambda>(k, v). 0 < v) new)"

definition in_overlap :: "int \<Rightarrow> int \<Rightarrow> bool" where
  "in_overlap frontier t = (max 0 (frontier - PULL_LATE_ARRIVAL_OVERLAP_MILLIS) \<le> t \<and> t \<le> frontier)"

definition next_timestamp :: "cursor \<Rightarrow> int \<Rightarrow> int" where
  "next_timestamp c max_ts = (if timestamp_millis c < max_ts then max_ts else timestamp_millis c)"

definition next_boundary :: "cursor \<Rightarrow> int \<Rightarrow> string list \<Rightarrow> string list" where
  "next_boundary c max_ts ids =
     (if timestamp_millis c < max_ts then fromkeys ids
      else if max_ts = timestamp_millis c \<and> 0 < max_ts then fromkeys (ids @ boundary_ids c)
      else boundary_ids c)"

definition next_recent :: "cursor \<Rightarrow> int \<Rightarrow> (string, int) dict option \<Rightarrow> (string, int) dict" where
  "next_recent c max_ts observed =
     (let r = (case observed of None \<Rightarrow> recent_event_millis c | Some new \<Rightarrow> merge_recent (recent_event_millis c) new);
          t = next_timestamp c max_ts
      in if 0 < t then filter (\<lambda>(k, ts). in_overlap t ts) r else r)"

definition advance_cursor_state ::
  "cursor \<Rightarrow> int \<Rightarrow> string list \<Rightarrow> (string, int) dict option \<Rightarrow> bool option \<Rightarrow> cursor" where
  "advance_cursor_state c max_ts ids observed backfilled =
     (let recent = next_recent c max_ts observed;
          full = PULL_RECENT_EVENT_LIMIT < length recent;
          recent' = (if full then take PULL_RECENT_EVENT_LIMIT (rev (sort_key (\<lambda>(k, ts). (ts, k)) recent)) else recent);
          c' = c\<lparr>timestamp_millis := next_timestamp c max_ts, boundary_ids := next_boundary c max_ts ids,
                 recent_event_millis := recent',
                 overlap_initialized := (overlap_initialized c \<or> backfilled = Some True),
                 overlap_saturated := (overlap_saturated c \<or> full)\<rparr>
      in if c' = c then c else c'\<lparr>object_marker := [], shard_markers := []\<rparr>)"

definition max_millis :: "hit list \<Rightarrow> int" where
  "max_millis hs = Max (set (map h_ts hs))"

definition advance_cursor :: "cursor \<Rightarrow> hit list \<Rightarrow> (string, int) dict option \<Rightarrow> bool option \<Rightarrow> cursor" where
  "advance_cursor c fetched observed backfilled =
     (if fetched = [] then advance_cursor_state c 0 [] observed backfilled
      else let m = max_millis fetched;
               own = foldl (\<lambda>d h. dset d (hit_key h) (h_ts h)) [] (filter (\<lambda>h. 0 < h_ts h) fetched)
           in advance_cursor_state c m (map hit_key (filter (\<lambda>h. h_ts h = m) fetched))
                (Some (case observed of Some (x # xs) \<Rightarrow> x # xs | _ \<Rightarrow> own)) backfilled)"

definition advance_cursor_to :: "cursor \<Rightarrow> int \<Rightarrow> string list \<Rightarrow> (string, int) dict option \<Rightarrow> bool option \<Rightarrow> cursor" where
  "advance_cursor_to c max_ts ids observed backfilled =
     (if max_ts \<le> 0 \<and> observed = None \<and> backfilled = None then c else advance_cursor_state c max_ts ids observed backfilled)"

subsection \<open>Queries\<close>

definition excludes :: "string list \<Rightarrow> hit \<Rightarrow> bool" where
  "excludes keys h =
     list_ex (\<lambda>raw. case split_cursor_event_key raw of (index, eid) \<Rightarrow>
        eid \<noteq> [] \<and> h_id h = eid \<and> (case index of None \<Rightarrow> True | Some i \<Rightarrow> h_index h = i)) keys"

definition poll_query :: "(hit \<Rightarrow> bool) \<Rightarrow> cursor \<Rightarrow> int \<Rightarrow> hit \<Rightarrow> bool" where
  "poll_query scope c cold_from h =
     (scope h \<and>
      (case h_time h of
         None \<Rightarrow> False
       | Some t \<Rightarrow>
           if is_set c then timestamp_millis c < t \<or> t = timestamp_millis c \<and> \<not> excludes (boundary_ids c) h
           else cold_from \<le> t))"

definition late_arrival_query :: "(hit \<Rightarrow> bool) \<Rightarrow> cursor \<Rightarrow> (hit \<Rightarrow> bool) option" where
  "late_arrival_query scope c =
     (if \<not> is_set c \<or> overlap_saturated c \<or> \<not> late_arrival_overlap_enabled c then None
      else Some (\<lambda>h. scope h \<and>
        (case h_time h of
           None \<Rightarrow> False
         | Some t \<Rightarrow> max 0 (timestamp_millis c - PULL_LATE_ARRIVAL_OVERLAP_MILLIS) \<le> t \<and> t < timestamp_millis c \<and>
             \<not> excludes (dkeys (recent_event_millis c)) h)))"

subsection \<open>Paging\<close>

text \<open>
  \<open>pit_page q psize after\<close> is one point-in-time page with the sort token of its last hit,
  \<open>offset_page q psize from\<close> one page by offset.
\<close>

record log_store =
  has_pit :: bool
  pit_page :: "(hit \<Rightarrow> bool) \<Rightarrow> nat \<Rightarrow> nat option \<Rightarrow> (hit list \<times> nat option) option"
  offset_page :: "(hit \<Rightarrow> bool) \<Rightarrow> nat \<Rightarrow> nat \<Rightarrow> hit list option"

definition MAX_FRONTIER_PAGES :: nat where "MAX_FRONTIER_PAGES = 64"
definition MAX_LATE_PAGES :: nat where "MAX_LATE_PAGES = 32"
definition MAX_RESULT_WINDOW :: nat where "MAX_RESULT_WINDOW = 10000"

fun drain_pit :: "nat \<Rightarrow> (nat option \<Rightarrow> (hit list \<times> nat option) option) \<Rightarrow> nat \<Rightarrow> nat option \<Rightarrow> hit list \<Rightarrow> (hit list \<times> bool) option" where
  "drain_pit 0 fetch psize after acc = Some (acc, True)"
| "drain_pit (Suc n) fetch psize after acc =
     (case fetch after of
        None \<Rightarrow> None
      | Some (page, marker) \<Rightarrow>
          if length page < psize then Some (acc @ page, False)
          else if marker = None \<or> marker = after then None
          else drain_pit n fetch psize marker (acc @ page))"

fun drain_offset :: "nat \<Rightarrow> (nat \<Rightarrow> hit list option) \<Rightarrow> nat \<Rightarrow> nat \<Rightarrow> hit list \<Rightarrow> hit list \<times> bool" where
  "drain_offset 0 fetch psize frm acc = (acc, True)"
| "drain_offset (Suc n) fetch psize frm acc =
     (if MAX_RESULT_WINDOW < frm + psize then (acc, True)
      else case fetch frm of
             None \<Rightarrow> (acc, True)
           | Some page \<Rightarrow>
               if length page < psize then (acc @ page, False)
               else drain_offset n fetch psize (frm + psize) (acc @ page))"

fun first_by_key :: "hit list \<Rightarrow> string list \<Rightarrow> hit list" where
  "first_by_key [] seen = []"
| "first_by_key (h # hs) seen = (if hit_key h \<in> set seen then first_by_key hs seen else h # first_by_key hs (hit_key h # seen))"

definition hit_order :: "hit \<Rightarrow> int \<times> string \<times> string" where
  "hit_order h = (h_ts h, h_index h, h_id h)"

definition stable_hits :: "hit list \<Rightarrow> hit list" where
  "stable_hits hs = sort_key hit_order (first_by_key hs [])"

definition drain_pages :: "log_store \<Rightarrow> (hit \<Rightarrow> bool) \<Rightarrow> nat \<Rightarrow> nat \<Rightarrow> hit list \<times> bool" where
  "drain_pages es q psize max_pages =
     (let n = max 1 psize
      in case (if has_pit es then drain_pit max_pages (pit_page es q n) n None [] else None) of
           Some (hs, truncated) \<Rightarrow> (stable_hits hs, truncated)
         | None \<Rightarrow> (let (hs, truncated) = drain_offset max_pages (offset_page es q n) n 0 [] in (stable_hits hs, truncated)))"

subsection \<open>Scans\<close>

record feed_scan =
  s_events :: "hit list"
  scan_max_ts :: int
  scan_boundary_ids :: "string list"
  scan_recent_event_millis :: "(string, int) dict"
  overlap_backfill_complete :: bool

definition collect_poll_hits ::
  "log_store \<Rightarrow> (hit \<Rightarrow> bool) \<Rightarrow> nat \<Rightarrow> cursor \<Rightarrow> int \<Rightarrow> hit list \<times> hit list \<times> bool" where
  "collect_poll_hits es scope psize c cold_from =
     (let (frontier, truncated) = drain_pages es (poll_query scope c cold_from) psize MAX_FRONTIER_PAGES
      in case late_arrival_query scope c of
           None \<Rightarrow> (frontier, [], True)
         | Some q \<Rightarrow> (let (late, late_cut) = drain_pages es q psize MAX_LATE_PAGES in (frontier, late, \<not> late_cut)))"

definition scan_watermark :: "hit list \<Rightarrow> int \<times> string list" where
  "scan_watermark hs =
     (let timed = filter (\<lambda>h. 0 < h_ts h) hs
      in if timed = [] then (0, [])
         else let m = max_millis timed in (m, fromkeys (map hit_key (filter (\<lambda>h. h_ts h = m) timed))))"

definition scan_recent :: "hit list \<Rightarrow> (string, int) dict" where
  "scan_recent hs = foldl (\<lambda>d h. dset d (hit_key h) (h_ts h)) [] (filter (\<lambda>h. 0 < h_ts h) hs)"

text \<open>\<open>owned\<close> says which indices the feed keeps: those it is the most specific feed for, or, without feeds, those no muted feed owns.\<close>

definition poll_feed_scan ::
  "log_store \<Rightarrow> (hit \<Rightarrow> bool) \<Rightarrow> nat \<Rightarrow> (string \<Rightarrow> bool) \<Rightarrow> cursor \<Rightarrow> int \<Rightarrow> feed_scan" where
  "poll_feed_scan es scope psize owned c cold_from =
     (let (frontier, late, backfilled) = collect_poll_hits es scope psize c cold_from;
          hits = stable_hits (frontier @ late);
          (m, ids) = scan_watermark hits;
          emitted = frontier @ (if overlap_initialized c then late else [])
      in \<lparr>s_events = sort_key hit_order (filter (\<lambda>h. owned (h_index h)) emitted),
          scan_max_ts = m, scan_boundary_ids = ids, scan_recent_event_millis = scan_recent hits,
          overlap_backfill_complete = backfilled\<rparr>)"

text \<open>A connector without scans: the watermark comes from the events it kept.\<close>

definition events_scan :: "hit list \<Rightarrow> feed_scan" where
  "events_scan evs =
     (let m = (if evs = [] then 0 else max_millis evs)
      in \<lparr>s_events = evs, scan_max_ts = m,
          scan_boundary_ids = (if 0 < m then map hit_key (filter (\<lambda>h. h_ts h = m) evs) else []),
          scan_recent_event_millis = scan_recent evs, overlap_backfill_complete = False\<rparr>)"

definition advanced :: "cursor \<Rightarrow> feed_scan \<Rightarrow> cursor" where
  "advanced c s =
     advance_cursor_to c (scan_max_ts s) (scan_boundary_ids s) (Some (scan_recent_event_millis s)) (Some (overlap_backfill_complete s))"

definition new_events :: "cursor \<Rightarrow> feed_scan \<Rightarrow> hit list" where
  "new_events c s = filter (\<lambda>h. \<not> should_skip c h) (s_events s)"

end
