(* ===== verification/Poll_Safety.thy ===== *)
theory Poll_Safety
  imports Poll_Cursor
begin

section \<open>No event is processed twice, none is skipped\<close>

text \<open>
  What one poll does to the events the log store holds. Documents are identified by index and id;
  \<open>search_service\<close> states what a page of a search is. The properties: an event handed out once is never
  handed out again; an event that waits at or above the frontier waits until it is handed out;
  late events are picked up within the overlap; and what the overlap cannot reach is lost.
\<close>

subsection \<open>Documents and their keys\<close>

definition doc_ok :: "hit \<Rightarrow> bool" where
  "doc_ok h = (h_index h \<noteq> [] \<and> CURSOR_KEY_SEPARATOR \<notin> set (h_index h) \<and> h_id h \<noteq> [] \<and>
     CURSOR_KEY_SEPARATOR \<notin> set (h_id h) \<and> 0 < h_ts h)"

definition key_ok :: "string \<Rightarrow> bool" where
  "key_ok k = (\<exists>index eid. index \<noteq> [] \<and> CURSOR_KEY_SEPARATOR \<notin> set index \<and> eid \<noteq> [] \<and> k = make_cursor_event_key index eid)"

lemma split_key:
  "index \<noteq> [] \<Longrightarrow> CURSOR_KEY_SEPARATOR \<notin> set index \<Longrightarrow>
     split_cursor_event_key (make_cursor_event_key index eid) = (Some index, eid)"
  by (auto simp: split_cursor_event_key_def make_cursor_event_key_def takeWhile_append dropWhile_append)

lemma doc_key_ok: "doc_ok h \<Longrightarrow> key_ok (hit_key h)"
  by (auto simp: doc_ok_def key_ok_def hit_key_def)

lemma key_not_id: "key_ok k \<Longrightarrow> doc_ok h \<Longrightarrow> k \<noteq> h_id h"
  by (auto simp: key_ok_def doc_ok_def make_cursor_event_key_def dest!: arg_cong [where f = set])

lemma split_doc: "doc_ok h \<Longrightarrow> split_cursor_event_key (hit_key h) = (Some (h_index h), h_id h)"
  unfolding hit_key_def by (rule split_key) (simp_all add: doc_ok_def)

lemma excludes_iff:
  assumes "doc_ok h" "\<forall>k\<in>set keys. key_ok k"
  shows "excludes keys h \<longleftrightarrow> hit_key h \<in> set keys"
proof -
  have one: "(case split_cursor_event_key k of (index, eid) \<Rightarrow>
        eid \<noteq> [] \<and> h_id h = eid \<and> (case index of None \<Rightarrow> True | Some i \<Rightarrow> h_index h = i)) \<longleftrightarrow> k = hit_key h"
    if "k \<in> set keys" for k
  proof -
    from assms(2) that obtain index eid where k: "index \<noteq> []" "CURSOR_KEY_SEPARATOR \<notin> set index" "eid \<noteq> []"
        "k = make_cursor_event_key index eid" by (auto simp: key_ok_def)
    have s: "split_cursor_event_key k = (Some index, eid)" unfolding k(4) by (rule split_key [OF k(1,2)])
    have "k = hit_key h \<longleftrightarrow> index = h_index h \<and> eid = h_id h"
    proof
      assume "k = hit_key h"
      then have "split_cursor_event_key k = (Some (h_index h), h_id h)" using split_doc [OF assms(1)] by simp
      then show "index = h_index h \<and> eid = h_id h" using s by simp
    qed (simp add: k(4) hit_key_def)
    then show ?thesis unfolding s prod.case option.case using k(3) by blast
  qed
  show ?thesis unfolding excludes_def list_ex_iff by (subst bex_cong [OF refl one]) auto
qed

lemma key_inj: "doc_ok h \<Longrightarrow> doc_ok h' \<Longrightarrow> hit_key h = hit_key h' \<Longrightarrow> h_index h = h_index h' \<and> h_id h = h_id h'"
  using split_doc [of h] split_doc [of h'] by simp

lemma doc_time: "doc_ok h \<Longrightarrow> h_time h = Some (h_ts h)"
  by (auto simp: doc_ok_def h_ts_def split: option.splits)

subsection \<open>Dictionaries of the ledger\<close>

lemma dget_foldl_put: "dget (foldl (\<lambda>d (k, v). dset d k v) d kvs) k = (case map_of (rev kvs) k of None \<Rightarrow> dget d k | Some v \<Rightarrow> Some v)"
  by (rule py_dict.get_put_many)

lemma scan_recent_puts: "scan_recent hs = foldl (\<lambda>d (k, v). dset d k v) [] (map (\<lambda>h. (hit_key h, h_ts h)) (filter (\<lambda>h. 0 < h_ts h) hs))"
  by (simp add: scan_recent_def foldl_map)

lemma scan_recent_ok: "dict_ok (scan_recent hs)"
  unfolding scan_recent_puts by (rule py_dict.ok_put_many) simp

lemma scan_recent_get:
  assumes inj: "\<forall>h\<in>set hs. \<forall>h'\<in>set hs. hit_key h = hit_key h' \<longrightarrow> h = h'"
  shows "dget (scan_recent hs) k = Some t \<longleftrightarrow> (\<exists>h\<in>set hs. hit_key h = k \<and> h_ts h = t \<and> 0 < t)"
proof -
  let ?kvs = "map (\<lambda>h. (hit_key h, h_ts h)) (filter (\<lambda>h. 0 < h_ts h) hs)"
  have "dget (scan_recent hs) k = map_of (rev ?kvs) k"
    unfolding scan_recent_puts dget_foldl_put by (simp split: option.splits)
  moreover have "map_of (rev ?kvs) k = Some t \<longleftrightarrow> (\<exists>h\<in>set hs. hit_key h = k \<and> h_ts h = t \<and> 0 < t)"
  proof
    assume "map_of (rev ?kvs) k = Some t"
    then have "(k, t) \<in> set ?kvs" using map_of_SomeD by fastforce
    then show "\<exists>h\<in>set hs. hit_key h = k \<and> h_ts h = t \<and> 0 < t" by auto
  next
    assume "\<exists>h\<in>set hs. hit_key h = k \<and> h_ts h = t \<and> 0 < t"
    then obtain h where h: "h \<in> set hs" "hit_key h = k" "h_ts h = t" "0 < t" by blast
    then have "(k, t) \<in> set (rev ?kvs)" by auto
    then have "map_of (rev ?kvs) k \<noteq> None" unfolding map_of_eq_None_iff by (metis fst_conv imageI)
    then obtain t' where t': "map_of (rev ?kvs) k = Some t'" by blast
    then have "(k, t') \<in> set ?kvs" using map_of_SomeD by fastforce
    then obtain h' where "h' \<in> set hs" "hit_key h' = k" "h_ts h' = t'" by auto
    then show "map_of (rev ?kvs) k = Some t" using t' inj h by auto
  qed
  ultimately show ?thesis by simp
qed

lemma map_of_rev_dict:
  assumes "distinct (map fst xs)"
  shows "map_of (rev xs) k = map_of xs k"
proof (cases "map_of xs k")
  case None
  then have "k \<notin> fst ` set (rev xs)" by (simp add: map_of_eq_None_iff)
  then have "map_of (rev xs) k = None" by (rule map_of_eq_None_iff [THEN iffD2])
  with None show ?thesis by simp
next
  case (Some v)
  then have "(k, v) \<in> set (rev xs)" using map_of_SomeD by fastforce
  moreover have "distinct (map fst (rev xs))" using assms by (simp add: rev_map [symmetric])
  ultimately show ?thesis using Some by (simp add: map_of_is_SomeI)
qed

lemma merge_recent_get:
  assumes ok: "dict_ok new" and pos: "\<forall>k t. dget new k = Some t \<longrightarrow> 0 < t"
  shows "dget (merge_recent d new) k = (case dget new k of None \<Rightarrow> dget d k | Some t \<Rightarrow> Some t)"
proof -
  have all: "filter (\<lambda>(k, v). 0 < v) new = new"
    using pos dget_eq_Some [OF ok] by (auto simp: filter_id_conv)
  have "map_of (rev new) k = dget new k" using map_of_rev_dict [of new k] ok by (simp add: dict_ok_def dget_def)
  then show ?thesis unfolding merge_recent_def all dget_foldl_put by simp
qed

subsection \<open>What the cursor knows\<close>

definition covered :: "cursor \<Rightarrow> hit \<Rightarrow> bool" where
  "covered c h =
     (h_ts h \<le> timestamp_millis c \<and> (h_ts h = timestamp_millis c \<longrightarrow> hit_key h \<in> set (boundary_ids c)) \<and>
      (overlap_saturated c \<or> \<not> in_overlap (timestamp_millis c) (h_ts h) \<or>
       dget (recent_event_millis c) (hit_key h) = Some (h_ts h)))"

definition cursor_ok :: "cursor \<Rightarrow> bool" where
  "cursor_ok c =
     (0 \<le> timestamp_millis c \<and> dict_ok (recent_event_millis c) \<and>
      (\<forall>k\<in>set (boundary_ids c) \<union> set (dkeys (recent_event_millis c)). key_ok k))"

definition universe_ok :: "hit set \<Rightarrow> bool" where
  "universe_ok U = ((\<forall>h\<in>U. doc_ok h) \<and> inj_on hit_key U)"

lemma universe_same: "universe_ok U \<Longrightarrow> h \<in> U \<Longrightarrow> h' \<in> U \<Longrightarrow> hit_key h = hit_key h' \<Longrightarrow> h = h'"
  by (auto simp: universe_ok_def inj_on_def)

text \<open>The fields of an advanced cursor, and the ledger it keeps.\<close>

lemma advance_fields:
  "timestamp_millis (advance_cursor_state c m ids obs b) = next_timestamp c m"
  "boundary_ids (advance_cursor_state c m ids obs b) = next_boundary c m ids"
  "overlap_initialized (advance_cursor_state c m ids obs b) = (overlap_initialized c \<or> b = Some True)"
  "overlap_saturated (advance_cursor_state c m ids obs b) = (overlap_saturated c \<or> PULL_RECENT_EVENT_LIMIT < length (next_recent c m obs))"
  "late_arrival_overlap_enabled (advance_cursor_state c m ids obs b) = late_arrival_overlap_enabled c"
  "recent_event_millis (advance_cursor_state c m ids obs b) =
     (if PULL_RECENT_EVENT_LIMIT < length (next_recent c m obs)
      then take PULL_RECENT_EVENT_LIMIT (rev (sort_key (\<lambda>(k, ts). (ts, k)) (next_recent c m obs))) else next_recent c m obs)"
proof -
  define full where "full = (PULL_RECENT_EVENT_LIMIT < length (next_recent c m obs))"
  define r where "r = (if full then take PULL_RECENT_EVENT_LIMIT (rev (sort_key (\<lambda>(k, ts). (ts, k)) (next_recent c m obs))) else next_recent c m obs)"
  define c' where "c' = c\<lparr>timestamp_millis := next_timestamp c m, boundary_ids := next_boundary c m ids, recent_event_millis := r,
    overlap_initialized := (overlap_initialized c \<or> b = Some True), overlap_saturated := (overlap_saturated c \<or> full)\<rparr>"
  have eq: "advance_cursor_state c m ids obs b = (if c' = c then c else c'\<lparr>object_marker := [], shard_markers := []\<rparr>)"
    unfolding advance_cursor_state_def Let_def c'_def r_def full_def by (rule refl)
  have f: "timestamp_millis c' = next_timestamp c m" "boundary_ids c' = next_boundary c m ids" "recent_event_millis c' = r"
    "overlap_initialized c' = (overlap_initialized c \<or> b = Some True)" "overlap_saturated c' = (overlap_saturated c \<or> full)"
    "late_arrival_overlap_enabled c' = late_arrival_overlap_enabled c"
    by (simp_all add: c'_def)
  have g: "timestamp_millis (advance_cursor_state c m ids obs b) = timestamp_millis c'"
    "boundary_ids (advance_cursor_state c m ids obs b) = boundary_ids c'"
    "recent_event_millis (advance_cursor_state c m ids obs b) = recent_event_millis c'"
    "overlap_initialized (advance_cursor_state c m ids obs b) = overlap_initialized c'"
    "overlap_saturated (advance_cursor_state c m ids obs b) = overlap_saturated c'"
    "late_arrival_overlap_enabled (advance_cursor_state c m ids obs b) = late_arrival_overlap_enabled c'"
    by (cases "c' = c"; simp add: eq)+
  show "timestamp_millis (advance_cursor_state c m ids obs b) = next_timestamp c m"
    "boundary_ids (advance_cursor_state c m ids obs b) = next_boundary c m ids"
    "overlap_initialized (advance_cursor_state c m ids obs b) = (overlap_initialized c \<or> b = Some True)"
    "overlap_saturated (advance_cursor_state c m ids obs b) = (overlap_saturated c \<or> PULL_RECENT_EVENT_LIMIT < length (next_recent c m obs))"
    "late_arrival_overlap_enabled (advance_cursor_state c m ids obs b) = late_arrival_overlap_enabled c"
    "recent_event_millis (advance_cursor_state c m ids obs b) =
       (if PULL_RECENT_EVENT_LIMIT < length (next_recent c m obs)
        then take PULL_RECENT_EVENT_LIMIT (rev (sort_key (\<lambda>(k, ts). (ts, k)) (next_recent c m obs))) else next_recent c m obs)"
    unfolding g f r_def full_def by (rule refl)+
qed

lemma merge_recent_ok: "dict_ok d \<Longrightarrow> dict_ok (merge_recent d new)"
  unfolding merge_recent_def by (rule py_dict.ok_put_many)

lemma dict_ok_filter: "dict_ok d \<Longrightarrow> dict_ok (filter P d)"
  by (simp add: dict_ok_def distinct_map_filter)

lemma next_recent_ok: "dict_ok (recent_event_millis c) \<Longrightarrow> dict_ok (next_recent c m obs)"
  by (auto simp: next_recent_def Let_def intro: dict_ok_filter merge_recent_ok split: option.splits)

lemma dict_ok_take_sorted: "dict_ok d \<Longrightarrow> dict_ok (take n (rev (sort_key f d)))"
proof -
  assume "dict_ok d"
  then have "distinct d" "inj_on fst (set d)" by (auto simp: dict_ok_def distinct_map)
  then have "distinct (take n (rev (sort_key f d)))" "inj_on fst (set (take n (rev (sort_key f d))))"
    using set_take_subset [of n "rev (sort_key f d)"] by (auto intro: inj_on_subset)
  then show ?thesis by (simp add: dict_ok_def distinct_map)
qed

lemma advance_dict_ok: "dict_ok (recent_event_millis c) \<Longrightarrow> dict_ok (recent_event_millis (advance_cursor_state c m ids obs b))"
  by (simp add: advance_fields next_recent_ok dict_ok_take_sorted)

lemma dget_filter: "dict_ok d \<Longrightarrow> dget (filter (\<lambda>(k, t). P t) d) k = Some t \<longleftrightarrow> dget d k = Some t \<and> P t"
  using dget_eq_Some [of d k t] dget_eq_Some [OF dict_ok_filter, of d "\<lambda>(k, t). P t" k t] by auto

lemma next_recent_get:
  assumes ok: "dict_ok (recent_event_millis c)" "dict_ok new" "\<forall>k t. dget new k = Some t \<longrightarrow> 0 < t" and t: "0 < next_timestamp c m"
  shows "dget (next_recent c m (Some new)) k = Some t \<longleftrightarrow>
    in_overlap (next_timestamp c m) t \<and> (dget new k = Some t \<or> dget new k = None \<and> dget (recent_event_millis c) k = Some t)"
  using dget_filter [OF merge_recent_ok [OF ok(1)], of "in_overlap (next_timestamp c m)" new k t] t
  by (auto simp: next_recent_def Let_def merge_recent_get [OF ok(2,3)] split: option.splits)

subsection \<open>Scans\<close>

lemma advanced_state: "advanced c s =
   advance_cursor_state c (scan_max_ts s) (scan_boundary_ids s) (Some (scan_recent_event_millis s)) (Some (overlap_backfill_complete s))"
  by (simp add: advanced_def advance_cursor_to_def)

definition watermark_of :: "hit set \<Rightarrow> int \<Rightarrow> string list \<Rightarrow> bool" where
  "watermark_of H m ids =
     (0 \<le> m \<and> (\<forall>h\<in>H. 0 < h_ts h \<longrightarrow> h_ts h \<le> m) \<and> (m = 0 \<or> (\<exists>h\<in>H. h_ts h = m)) \<and>
      (\<forall>k. k \<in> set ids \<longleftrightarrow> 0 < m \<and> (\<exists>h\<in>H. h_ts h = m \<and> hit_key h = k)))"

lemma scan_watermark_of:
  assumes "scan_watermark hs = (m, ids)"
  shows "watermark_of (set hs) m ids"
proof (cases "filter (\<lambda>h. 0 < h_ts h) hs = []")
  case True
  then have "m = 0" "ids = []" using assms by (simp_all add: scan_watermark_def Let_def)
  with True show ?thesis by (auto simp: watermark_of_def filter_empty_conv)
next
  case False
  let ?ts = "set (map h_ts (filter (\<lambda>h. 0 < h_ts h) hs))"
  have m: "m = Max ?ts" and ids: "ids = fromkeys (map hit_key (filter (\<lambda>h. h_ts h = m) (filter (\<lambda>h. 0 < h_ts h) hs)))"
    using assms False by (auto simp: scan_watermark_def Let_def max_millis_def)
  have "?ts \<noteq> {}" using False by (simp only: set_map image_is_empty set_empty simp_thms)
  then have "m \<in> ?ts" unfolding m by (intro Max_in) simp_all
  moreover have "h_ts h \<le> m" if "h \<in> set hs" "0 < h_ts h" for h
    unfolding m using that by (intro Max_ge) auto
  ultimately show ?thesis unfolding watermark_of_def ids by auto
qed

lemma stable_hits_keys:
  "set (first_by_key hs seen) \<subseteq> set hs \<and> distinct (map hit_key (first_by_key hs seen)) \<and>
   (\<forall>h\<in>set (first_by_key hs seen). hit_key h \<notin> set seen)"
proof (induction hs arbitrary: seen)
  case (Cons h hs)
  show ?case
  proof (cases "hit_key h \<in> set seen")
    case False
    then show ?thesis using Cons.IH [of "hit_key h # seen"] by auto
  qed (use Cons.IH [of seen] in auto)
qed simp

lemma stable_hits_sub: "set (stable_hits hs) \<subseteq> set hs"
  using stable_hits_keys [of hs "[]"] by (simp add: stable_hits_def)

lemma stable_hits_distinct: "distinct (map hit_key (stable_hits hs))"
proof -
  have "distinct (first_by_key hs [])" "inj_on hit_key (set (first_by_key hs []))"
    using stable_hits_keys [of hs "[]"] by (simp_all add: distinct_map)
  then show ?thesis by (simp add: stable_hits_def distinct_map)
qed

lemma stable_hits_set:
  assumes "\<forall>h\<in>set hs. \<forall>h'\<in>set hs. hit_key h = hit_key h' \<longrightarrow> h = h'"
  shows "set (stable_hits hs) = set hs"
proof -
  have "h \<in> set (first_by_key hs seen)" if "h \<in> set hs" "hit_key h \<notin> set seen"
    "\<forall>h\<in>set hs. \<forall>h'\<in>set hs. hit_key h = hit_key h' \<longrightarrow> h = h'" for h seen
    using that by (induction hs arbitrary: seen) auto
  then show ?thesis using stable_hits_sub [of hs] assms by (auto simp: stable_hits_def)
qed

definition sound_store :: "hit set \<Rightarrow> log_store \<Rightarrow> bool" where
  "sound_store U es =
     ((\<forall>q n a page m. pit_page es q n a = Some (page, m) \<longrightarrow> set page \<subseteq> {h \<in> U. q h}) \<and>
      (\<forall>q n f page. offset_page es q n f = Some page \<longrightarrow> set page \<subseteq> {h \<in> U. q h}))"

lemma drain_pit_sub:
  assumes "\<And>a page m. fetch a = Some (page, m) \<Longrightarrow> set page \<subseteq> Q"
  shows "drain_pit n fetch k a acc = Some (hs, t) \<Longrightarrow> set hs \<subseteq> set acc \<union> Q"
proof (induction n arbitrary: a acc)
  case (Suc n)
  then obtain page m where p: "fetch a = Some (page, m)" by (auto split: option.splits)
  show ?case
  proof (cases "length page < k \<or> m = None \<or> m = a")
    case True
    then show ?thesis using Suc.prems p assms [OF p] by (auto split: if_splits)
  next
    case False
    then have "drain_pit n fetch k m (acc @ page) = Some (hs, t)" using Suc.prems p by (cases m) auto
    from Suc.IH [OF this] show ?thesis using assms [OF p] by auto
  qed
qed simp

lemma drain_offset_sub:
  assumes "\<And>f page. fetch f = Some page \<Longrightarrow> set page \<subseteq> Q"
  shows "set (fst (drain_offset n fetch k f acc)) \<subseteq> set acc \<union> Q"
proof (induction n arbitrary: f acc)
  case (Suc n)
  show ?case
  proof (cases "fetch f")
    case (Some page)
    then show ?thesis using Suc.IH [of "f + k" "acc @ page"] assms [OF Some] by auto
  qed simp
qed simp

lemma drain_pages_sub:
  assumes "sound_store U es"
  shows "set (fst (drain_pages es q n k)) \<subseteq> {h \<in> U. q h}"
proof -
  have pit: "set hs \<subseteq> {h \<in> U. q h}" if "drain_pit k (pit_page es q j) j None [] = Some (hs, t)" for hs t j
    using drain_pit_sub [of "pit_page es q j" "{h \<in> U. q h}", OF _ that] assms by (simp add: sound_store_def) blast
  have off: "set hs \<subseteq> {h \<in> U. q h}" if "drain_offset k (offset_page es q j) j 0 [] = (hs, t)" for hs t j
    using drain_offset_sub [of "offset_page es q j" "{h \<in> U. q h}" k j 0 "[]"] assms that by (simp add: sound_store_def) 
  show ?thesis
    unfolding drain_pages_def Let_def using pit off stable_hits_sub
    by (auto split: option.splits prod.splits if_splits) blast+
qed

subsection \<open>One poll\<close>

definition read_hits :: "log_store \<Rightarrow> (hit \<Rightarrow> bool) \<Rightarrow> nat \<Rightarrow> cursor \<Rightarrow> int \<Rightarrow> hit set" where
  "read_hits es scope n c cold_from = (case collect_poll_hits es scope n c cold_from of (f, l, b) \<Rightarrow> set f \<union> set l)"

lemma collect_sub:
  assumes "sound_store U es" "collect_poll_hits es scope n c cold_from = (f, l, b)"
  shows "set f \<subseteq> {h \<in> U. poll_query scope c cold_from h}"
    and "h \<in> set l \<Longrightarrow> \<exists>q. late_arrival_query scope c = Some q \<and> h \<in> U \<and> q h"
proof -
  note p = drain_pages_sub [OF assms(1), of "poll_query scope c cold_from" n MAX_FRONTIER_PAGES]
  have "f = fst (drain_pages es (poll_query scope c cold_from) n MAX_FRONTIER_PAGES)"
    using assms(2) by (auto simp: collect_poll_hits_def split: prod.splits option.splits)
  with p show "set f \<subseteq> {h \<in> U. poll_query scope c cold_from h}" by simp
  show "\<exists>q. late_arrival_query scope c = Some q \<and> h \<in> U \<and> q h" if "h \<in> set l"
  proof (cases "late_arrival_query scope c")
    case None
    then show ?thesis using assms(2) that by (simp add: collect_poll_hits_def split: prod.splits)
  next
    case (Some q)
    then have "l = fst (drain_pages es q n MAX_LATE_PAGES)"
      using assms(2) by (auto simp: collect_poll_hits_def split: prod.splits)
    then show ?thesis using drain_pages_sub [OF assms(1), of q n MAX_LATE_PAGES] that Some by auto
  qed
qed

lemma read_hits_sub: "sound_store U es \<Longrightarrow> read_hits es scope n c cold_from \<subseteq> U"
  using collect_sub [of U es scope n c cold_from] by (fastforce simp: read_hits_def split: prod.splits)

lemma read_ok:
  assumes "universe_ok U" "sound_store U es" "h \<in> read_hits es scope n c cold_from"
  shows "h \<in> U" "doc_ok h" "0 < h_ts h"
proof -
  show "h \<in> U" using read_hits_sub [OF assms(2)] assms(3) by blast
  then show "doc_ok h" using assms(1) by (simp add: universe_ok_def)
  then show "0 < h_ts h" by (simp add: doc_ok_def)
qed

lemma events_read: "h \<in> set (s_events (poll_feed_scan es scope n owned c cold_from)) \<Longrightarrow> h \<in> read_hits es scope n c cold_from \<and> owned (h_index h)"
  by (auto simp: poll_feed_scan_def read_hits_def Let_def split: prod.splits if_splits)

lemma scan_facts:
  assumes U: "universe_ok U" and es: "sound_store U es" and s: "s = poll_feed_scan es scope n owned c cold_from"
  shows "watermark_of (read_hits es scope n c cold_from) (scan_max_ts s) (scan_boundary_ids s)"
    and "dget (scan_recent_event_millis s) k = Some t \<longleftrightarrow> (\<exists>h\<in>read_hits es scope n c cold_from. hit_key h = k \<and> h_ts h = t)"
    and "dict_ok (scan_recent_event_millis s)"
proof -
  obtain f l b where c: "collect_poll_hits es scope n c cold_from = (f, l, b)" by (cases "collect_poll_hits es scope n c cold_from") auto
  have H: "read_hits es scope n c cold_from = set (f @ l)" by (simp add: read_hits_def c)
  have sub: "set (f @ l) \<subseteq> U" using read_hits_sub [OF es, of scope n c cold_from] H by simp
  have inj: "\<forall>h\<in>set (f @ l). \<forall>h'\<in>set (f @ l). hit_key h = hit_key h' \<longrightarrow> h = h'"
    using universe_same [OF U] sub by blast
  have st: "set (stable_hits (f @ l)) = set (f @ l)" by (rule stable_hits_set [OF inj])
  have "scan_watermark (stable_hits (f @ l)) = (scan_max_ts s, scan_boundary_ids s)"
    and r: "scan_recent_event_millis s = scan_recent (stable_hits (f @ l))"
    unfolding s poll_feed_scan_def by (simp_all add: c Let_def split: prod.splits)
  from scan_watermark_of [OF this(1)] show "watermark_of (read_hits es scope n c cold_from) (scan_max_ts s) (scan_boundary_ids s)"
    by (simp add: st H)
  have pos: "0 < h_ts h" if "h \<in> set (f @ l)" for h using sub U that by (auto simp: universe_ok_def doc_ok_def)
  have "dget (scan_recent_event_millis s) k = Some t \<longleftrightarrow> (\<exists>h\<in>set (f @ l). hit_key h = k \<and> h_ts h = t \<and> 0 < t)"
    unfolding r using scan_recent_get [of "stable_hits (f @ l)" k t] inj by (simp only: st)
  then show "dget (scan_recent_event_millis s) k = Some t \<longleftrightarrow> (\<exists>h\<in>read_hits es scope n c cold_from. hit_key h = k \<and> h_ts h = t)"
    unfolding H using pos by blast
  show "dict_ok (scan_recent_event_millis s)" unfolding r by (rule scan_recent_ok)
qed

lemma covered_not_read:
  assumes U: "universe_ok U" and es: "sound_store U es" and c: "cursor_ok c" and h: "h \<in> U" "covered c h"
  shows "h \<notin> read_hits es scope n c cold_from"
proof
  assume r: "h \<in> read_hits es scope n c cold_from"
  obtain f l b where col: "collect_poll_hits es scope n c cold_from = (f, l, b)" by (cases "collect_poll_hits es scope n c cold_from") auto
  have ok: "doc_ok h" using U h(1) by (simp add: universe_ok_def)
  note time = doc_time [OF ok]
  have pos: "0 < h_ts h" using ok by (simp add: doc_ok_def)
  have keys: "\<forall>k\<in>set (boundary_ids c). key_ok k" "\<forall>k\<in>set (dkeys (recent_event_millis c)). key_ok k"
    using c by (auto simp: cursor_ok_def)
  from r consider "h \<in> set f" | "h \<in> set l" by (auto simp: read_hits_def col)
  then show False
  proof cases
    case 1
    then have "poll_query scope c cold_from h" using collect_sub(1) [OF es col] by blast
    then show False using h(2) time pos excludes_iff [OF ok keys(1)]
      by (auto simp: poll_query_def is_set_def covered_def split: if_splits)
  next
    case 2
    then obtain q where "late_arrival_query scope c = Some q" "q h" using collect_sub(2) [OF es col] by blast
    then have "\<not> overlap_saturated c" "max 0 (timestamp_millis c - PULL_LATE_ARRIVAL_OVERLAP_MILLIS) \<le> h_ts h"
        "h_ts h < timestamp_millis c" "\<not> excludes (dkeys (recent_event_millis c)) h"
      using time by (auto simp: late_arrival_query_def split: if_splits)
    then show False using h(2) excludes_iff [OF ok keys(2)]
      by (auto simp: covered_def in_overlap_def dget_None_iff [symmetric])
  qed
qed

lemma overlap_mono: "t \<le> t' \<Longrightarrow> u \<le> t \<Longrightarrow> in_overlap t' u \<Longrightarrow> in_overlap t u"
  by (auto simp: in_overlap_def)

lemma poll_covers:
  assumes U: "universe_ok U" and es: "sound_store U es" and c: "cursor_ok c" and s: "s = poll_feed_scan es scope n owned c cold_from"
    and h: "h \<in> U" "covered c h \<or> h \<in> read_hits es scope n c cold_from"
  shows "covered (advanced c s) h"
proof -
  let ?R = "read_hits es scope n c cold_from" and ?m = "scan_max_ts s" and ?t = "next_timestamp c (scan_max_ts s)"
  note f = scan_facts [OF U es s]
  have pos: "0 < h_ts h" using U h(1) by (simp add: universe_ok_def doc_ok_def)
  have le: "h_ts h \<le> timestamp_millis c \<or> h \<in> ?R \<and> h_ts h \<le> ?m" using h(2) f(1) pos by (auto simp: covered_def watermark_of_def)
  then have ht: "h_ts h \<le> ?t" by (auto simp: next_timestamp_def)
  have bound: "hit_key h \<in> set (next_boundary c ?m (scan_boundary_ids s))" if eq: "h_ts h = ?t"
  proof (cases "h \<in> ?R")
    case True
    then have "h_ts h \<le> ?m" using f(1) pos by (auto simp: watermark_of_def)
    then have m: "h_ts h = ?m" using eq by (auto simp: next_timestamp_def split: if_splits)
    then have "hit_key h \<in> set (scan_boundary_ids s)" using f(1) True pos unfolding watermark_of_def by auto
    with m show ?thesis using eq pos by (auto simp: next_boundary_def next_timestamp_def split: if_splits)
  next
    case False
    then have cov: "covered c h" using h(2) by blast
    then have "h_ts h = timestamp_millis c" "?m \<le> timestamp_millis c" using eq by (auto simp: covered_def next_timestamp_def split: if_splits)
    then show ?thesis using cov by (auto simp: covered_def next_boundary_def)
  qed
  have tpos: "0 < ?t" using ht pos by linarith
  have newpos: "\<forall>k t. dget (scan_recent_event_millis s) k = Some t \<longrightarrow> 0 < t"
    using f(2) read_ok(3) [OF U es] by auto
  have okc: "dict_ok (recent_event_millis c)" using c by (simp add: cursor_ok_def)
  note get = next_recent_get [OF okc f(3) newpos tpos, of "hit_key h" "h_ts h"]
  have led: "overlap_saturated c \<or> dget (next_recent c ?m (Some (scan_recent_event_millis s))) (hit_key h) = Some (h_ts h)"
    if o: "in_overlap ?t (h_ts h)"
  proof (cases "h \<in> ?R")
    case True
    then have "dget (scan_recent_event_millis s) (hit_key h) = Some (h_ts h)" using f(2) by blast
    then show ?thesis using get o by blast
  next
    case False
    then have cov: "covered c h" using h(2) by blast
    then have "in_overlap (timestamp_millis c) (h_ts h)"
      using o by (intro overlap_mono [OF _ _ o]) (auto simp: next_timestamp_def covered_def)
    then have or: "overlap_saturated c \<or> dget (recent_event_millis c) (hit_key h) = Some (h_ts h)" using cov by (auto simp: covered_def)
    have none: "dget (scan_recent_event_millis s) (hit_key h) = None"
    proof (rule ccontr)
      assume "dget (scan_recent_event_millis s) (hit_key h) \<noteq> None"
      then obtain h' where "h' \<in> ?R" "hit_key h' = hit_key h" using f(2) by blast
      then show False using universe_same [OF U _ h(1)] read_hits_sub [OF es] False by blast
    qed
    show ?thesis using or get none o by blast
  qed
  show ?thesis unfolding covered_def advanced_state advance_fields using ht bound led by auto
qed

lemma poll_cursor_ok:
  assumes U: "universe_ok U" and es: "sound_store U es" and c: "cursor_ok c" and s: "s = poll_feed_scan es scope n owned c cold_from"
  shows "cursor_ok (advanced c s)"
proof -
  note f = scan_facts [OF U es s]
  have okd: "dict_ok (recent_event_millis (advanced c s))"
    unfolding advanced_state using c by (intro advance_dict_ok) (simp add: cursor_ok_def)
  have read: "key_ok (hit_key h)" if "h \<in> read_hits es scope n c cold_from" for h
    by (rule doc_key_ok [OF read_ok(2) [OF U es that]])
  have ids: "key_ok k" if "k \<in> set (scan_boundary_ids s)" for k
  proof -
    from f(1) that obtain h where "h \<in> read_hits es scope n c cold_from" "hit_key h = k" unfolding watermark_of_def by auto
    then show ?thesis using read by auto
  qed
  have new: "key_ok k" if "k \<in> set (dkeys (scan_recent_event_millis s))" for k
    using f(2) read that dget_None_iff [of "scan_recent_event_millis s" k] by (metis not_Some_eq)
  have merged: "key_ok k" if "k \<in> set (dkeys (merge_recent (recent_event_millis c) (scan_recent_event_millis s)))" for k
  proof -
    have newpos: "\<forall>k t. dget (scan_recent_event_millis s) k = Some t \<longrightarrow> 0 < t"
      using f(2) read_ok(3) [OF U es] by auto
    have "dget (merge_recent (recent_event_millis c) (scan_recent_event_millis s)) k \<noteq> None"
      using that dget_None_iff by metis
    then have "dget (scan_recent_event_millis s) k \<noteq> None \<or> dget (recent_event_millis c) k \<noteq> None"
      by (auto simp: merge_recent_get [OF f(3) newpos] split: option.splits)
    then show ?thesis using new c by (auto simp: dget_None_iff cursor_ok_def)
  qed
  have "key_ok k" if k: "k \<in> set (dkeys (recent_event_millis (advanced c s)))" for k
  proof -
    have "set (recent_event_millis (advanced c s)) \<subseteq> set (next_recent c (scan_max_ts s) (Some (scan_recent_event_millis s)))"
      unfolding advanced_state advance_fields using set_take_subset by (fastforce split: if_splits)
    moreover have "set (next_recent c (scan_max_ts s) (Some (scan_recent_event_millis s))) \<subseteq>
        set (merge_recent (recent_event_millis c) (scan_recent_event_millis s))"
      by (auto simp: next_recent_def Let_def)
    ultimately show ?thesis using k merged by (auto simp: dkeys_def)
  qed
  moreover have "key_ok k" if "k \<in> set (boundary_ids (advanced c s))" for k
    using that ids c by (auto simp: advanced_state advance_fields next_boundary_def cursor_ok_def split: if_splits)
  moreover have "0 \<le> timestamp_millis (advanced c s)"
    using c f(1) by (simp add: advanced_state advance_fields next_timestamp_def cursor_ok_def)
  ultimately show ?thesis using okd by (auto simp: cursor_ok_def)
qed

subsection \<open>Polling over time\<close>

text \<open>
  A feed's state is its stored cursor and what it has handed out so far, in order. A poll uses whatever the log store,
  the filters and the ownership of indices are at the time; nothing is assumed between polls.
\<close>

inductive feed_poll :: "hit set \<Rightarrow> cursor \<times> hit list \<Rightarrow> cursor \<times> hit list \<Rightarrow> bool" for U where
  feed_poll: "sound_store U es \<Longrightarrow> s = poll_feed_scan es scope n owned c cold_from \<Longrightarrow>
     feed_poll U (c, sent) (advanced c s, sent @ new_events c s)"

definition feed_inv :: "hit set \<Rightarrow> cursor \<times> hit list \<Rightarrow> bool" where
  "feed_inv U st = (cursor_ok (fst st) \<and> distinct (snd st) \<and> (\<forall>h\<in>set (snd st). h \<in> U \<and> covered (fst st) h))"

lemma events_distinct:
  assumes U: "universe_ok U" and es: "sound_store U es"
  shows "distinct (s_events (poll_feed_scan es scope n owned c cold_from))"
proof -
  obtain f l b where col: "collect_poll_hits es scope n c cold_from = (f, l, b)" by (cases "collect_poll_hits es scope n c cold_from") auto
  have drain: "distinct (fst (drain_pages es q n k))" for q k
  proof -
    have "distinct (stable_hits hs)" for hs using stable_hits_distinct [of hs] by (simp add: distinct_map)
    then show ?thesis by (simp add: drain_pages_def Let_def split: option.splits prod.splits)
  qed
  have "f = fst (drain_pages es (poll_query scope c cold_from) n MAX_FRONTIER_PAGES)"
    using col by (auto simp: collect_poll_hits_def split: prod.splits option.splits)
  then have df: "distinct f" using drain by simp
  have dl: "distinct l"
  proof (cases "late_arrival_query scope c")
    case None
    then show ?thesis using col by (simp add: collect_poll_hits_def split: prod.splits)
  next
    case (Some q)
    then have "l = fst (drain_pages es q n MAX_LATE_PAGES)" using col by (auto simp: collect_poll_hits_def split: prod.splits)
    then show ?thesis using drain by simp
  qed
  have "set f \<inter> set l = {}"
  proof (rule ccontr)
    assume "set f \<inter> set l \<noteq> {}"
    then obtain h where h: "h \<in> set f" "h \<in> set l" by blast
    have "poll_query scope c cold_from h" using collect_sub(1) [OF es col] h(1) by blast
    moreover obtain q where "late_arrival_query scope c = Some q" "q h" using collect_sub(2) [OF es col h(2)] by blast
    ultimately show False by (auto simp: poll_query_def late_arrival_query_def split: if_splits option.splits)
  qed
  then show ?thesis using df dl by (auto simp: poll_feed_scan_def col Let_def split: prod.splits)
qed

lemma feed_inv_next:
  assumes U: "universe_ok U" and inv: "feed_inv U st" and step: "feed_poll U st st'"
  shows "feed_inv U st'"
  using step inv
proof cases
  case (feed_poll es s scope n owned c cold_from sent)
  have c: "cursor_ok c" "distinct sent" "\<forall>h\<in>set sent. h \<in> U \<and> covered c h" using inv feed_poll by (auto simp: feed_inv_def)
  note es = feed_poll(3) and s = feed_poll(4)
  have read: "set (new_events c s) \<subseteq> read_hits es scope n c cold_from" using events_read by (auto simp: new_events_def s)
  have sub: "set (new_events c s) \<subseteq> U" using read read_hits_sub [OF es, of scope n c cold_from] by blast
  have "distinct (new_events c s)" using events_distinct [OF U es] by (simp add: new_events_def s)
  moreover have "h \<notin> set (new_events c s)" if "h \<in> set sent" for h
    using covered_not_read [OF U es c(1), of h scope n cold_from] c(3) that read by blast
  moreover have "covered (advanced c s) h" if "h \<in> set sent \<union> set (new_events c s)" for h
    using poll_covers [OF U es c(1) s, of h] c(3) that read sub by blast
  ultimately show ?thesis using poll_cursor_ok [OF U es c(1) s] c sub feed_poll(1,2) by (auto simp: feed_inv_def)
qed


subsection \<open>Behind the overlap\<close>

definition behind :: "cursor \<Rightarrow> hit \<Rightarrow> bool" where
  "behind c h = (is_set c \<and> h_ts h < timestamp_millis c - PULL_LATE_ARRIVAL_OVERLAP_MILLIS)"

lemma behind_not_read:
  assumes "universe_ok U" "sound_store U es" "behind c h"
  shows "h \<notin> read_hits es scope n c cold_from"
proof
  assume r: "h \<in> read_hits es scope n c cold_from"
  obtain f l b where col: "collect_poll_hits es scope n c cold_from = (f, l, b)" by (cases "collect_poll_hits es scope n c cold_from") auto
  note time = doc_time [OF read_ok(2) [OF assms(1,2) r]]
  from r consider "h \<in> set f" | "h \<in> set l" by (auto simp: read_hits_def col)
  then show False
  proof cases
    case 1
    then have "poll_query scope c cold_from h" using collect_sub(1) [OF assms(2) col] by blast
    then show False using assms(3) time by (auto simp: poll_query_def behind_def PULL_LATE_ARRIVAL_OVERLAP_MILLIS_def)
  next
    case 2
    then obtain q where "late_arrival_query scope c = Some q" "q h" using collect_sub(2) [OF assms(2) col] by blast
    then show False using assms(3) time by (auto simp: late_arrival_query_def behind_def split: if_splits)
  qed
qed

lemma behind_next: "behind c h \<Longrightarrow> behind (advanced c s) h"
  by (auto simp: behind_def is_set_def advanced_state advance_fields next_timestamp_def)

lemma behind_forever:
  assumes "universe_ok U" and "behind c h" and "h \<notin> set sent" and "(feed_poll U)\<^sup>*\<^sup>* (c, sent) (c', sent')"
  shows "h \<notin> set sent' \<and> behind c' h \<and> timestamp_millis c \<le> timestamp_millis c'"
  using assms(4)
proof (induction rule: rtranclp_induct2)
  case refl
  then show ?case using assms(2,3) by blast
next
  case (step a b c d)
  from step.hyps(2) show ?case
  proof cases
    case (feed_poll es' s' scope' n' owned' cold')
    have "h \<notin> read_hits es' scope' n' a cold'" using step.IH by (intro behind_not_read [OF assms(1) feed_poll(3)]) blast
    then have "h \<notin> set (s_events s')" using events_read [of h es' scope' n' owned' a cold'] unfolding feed_poll(4) by blast
    then have "h \<notin> set (new_events a s')" by (simp add: new_events_def)
    moreover have "timestamp_millis a \<le> timestamp_millis c" unfolding feed_poll(1) advanced_state advance_fields
      by (simp add: next_timestamp_def)
    ultimately show ?thesis using feed_poll(1,2) step.IH behind_next [of a h s'] by auto
  qed
qed

lemma frontier_passes:
  assumes "universe_ok U" and "sound_store U es" and "cursor_ok c" and "s = poll_feed_scan es scope n owned c cold_from"
    and "e \<in> set (s_events s)"
  shows "h_ts e \<le> timestamp_millis (advanced c s) \<and> 0 < h_ts e"
proof -
  have read: "e \<in> read_hits es scope n c cold_from" using assms(5) events_read unfolding assms(4) by blast
  note e = read_ok [OF assms(1,2) read]
  have "covered (advanced c s) e" using poll_covers [OF assms(1,2,3,4) e(1)] read by blast
  then show ?thesis using e(3) by (simp add: covered_def)
qed

text \<open>
  One event dated ahead hides the present. Reading an event moves the frontier to its time, however far ahead of
  the clock that is. From then on no poll hands out an event more than five minutes older than it that
  was not handed out before, whatever the log store holds.
\<close>

theorem future_event_blinds:
  assumes "universe_ok U" and "sound_store U es" and "cursor_ok c" and "s = poll_feed_scan es scope n owned c cold_from"
    and "e \<in> set (s_events s)" and "h_ts h < h_ts e - 300000" and "h \<notin> set (sent @ new_events c s)"
    and "(feed_poll U)\<^sup>*\<^sup>* (advanced c s, sent @ new_events c s) (c', sent')"
  shows "h \<notin> set sent' \<and> h_ts e \<le> timestamp_millis c'"
proof -
  note e = frontier_passes [OF assms(1-5)]
  have "behind (advanced c s) h" using assms(6) e by (simp add: behind_def is_set_def PULL_LATE_ARRIVAL_OVERLAP_MILLIS_def)
  from behind_forever [OF assms(1) this assms(7,8)] e show ?thesis by simp
qed

end
