(* ===== verification/Poll_Search.thy ===== *)
theory Poll_Search
  imports Poll_Safety
begin

section \<open>Polling a search service\<close>

text \<open>
  The log store as Elasticsearch documents it, as a locale: a query is answered from the
  documents in order of time, one slice of that order per page, and a call may fail. Over any such
  store the poller's drains read a prefix of what waits, and what they do not read keeps waiting.
\<close>

subsection \<open>A search service\<close>

locale search_service =
  fixes docs :: "hit set"
    and ranked :: "(hit \<Rightarrow> bool) \<Rightarrow> hit list"
    and es :: log_store
  assumes ranked_set: "set (ranked q) = {h \<in> docs. q h}"
    and ranked_sorted: "sorted (map h_ts (ranked q))"
    and pit_slice: "pit_page es q n a = Some (page, m) \<Longrightarrow>
      page = take n (drop (case a of None \<Rightarrow> 0 | Some k \<Rightarrow> k) (ranked q)) \<and>
      m = (if page = [] then None else Some ((case a of None \<Rightarrow> 0 | Some k \<Rightarrow> k) + length page))"
    and offset_slice: "offset_page es q n frm = Some page \<Longrightarrow> page = take n (drop frm (ranked q))"
begin

lemma sound: "sound_store docs es"
proof -
  have "set (take n (drop k (ranked q))) \<subseteq> {h \<in> docs. q h}" for n k q
    unfolding ranked_set [of q, symmetric] by (rule order_trans [OF set_take_subset set_drop_subset])
  then show ?thesis unfolding sound_store_def by (auto dest!: pit_slice offset_slice)
qed

lemma pit_prefix:
  "0 < n \<Longrightarrow> drain_pit k (pit_page es q n) n a acc = Some (hs, t) \<Longrightarrow>
     acc = take (case a of None \<Rightarrow> 0 | Some p \<Rightarrow> p) (ranked q) \<Longrightarrow>
     \<exists>j. hs = take j (ranked q) \<and> (\<not> t \<longrightarrow> hs = ranked q)"
proof (induction k arbitrary: a acc)
  case 0
  then show ?case by auto
next
  case (Suc k)
  let ?p = "case a of None \<Rightarrow> 0 | Some p \<Rightarrow> p"
  obtain page m where p: "pit_page es q n a = Some (page, m)" using Suc.prems(2) by (auto split: option.splits)
  have page: "page = take n (drop ?p (ranked q))" and m: "m = (if page = [] then None else Some (?p + length page))"
    using pit_slice [OF p] by simp_all
  have acc: "acc @ page = take (?p + n) (ranked q)" using Suc.prems(3) page by (simp add: take_add)
  show ?case
  proof (cases "length page < n")
    case True
    then have "length (ranked q) \<le> ?p + n" using page by auto
    then have "acc @ page = ranked q" using acc by simp
    then show ?thesis using Suc.prems(2) p True by (intro exI [of _ "length (ranked q)"]) auto
  next
    case False
    then have "length page = n" using page by simp
    then have m': "m = Some (?p + n)" using m Suc.prems(1) by auto
    then have "m \<noteq> a" using Suc.prems(1) by (cases a) auto
    then have "drain_pit k (pit_page es q n) n m (acc @ page) = Some (hs, t)" using Suc.prems(2) p False m' by simp
    from Suc.IH [OF Suc.prems(1) this] show ?thesis using acc m' by simp
  qed
qed

lemma offset_prefix:
  "drain_offset k (offset_page es q n) n frm acc = (hs, t) \<Longrightarrow> acc = take frm (ranked q) \<Longrightarrow>
     \<exists>j. hs = take j (ranked q) \<and> (\<not> t \<longrightarrow> hs = ranked q)"
proof (induction k arbitrary: frm acc)
  case 0
  then show ?case by auto
next
  case (Suc k)
  show ?case
  proof (cases "MAX_RESULT_WINDOW < frm + n \<or> offset_page es q n frm = None")
    case True
    then show ?thesis using Suc.prems by (auto split: if_splits)
  next
    case False
    then obtain page where p: "offset_page es q n frm = Some page" by blast
    have page: "page = take n (drop frm (ranked q))" by (rule offset_slice [OF p])
    have acc: "acc @ page = take (frm + n) (ranked q)" using Suc.prems(2) page by (simp add: take_add)
    show ?thesis
    proof (cases "length page < n")
      case True
      then have "length (ranked q) \<le> frm + n" using page by auto
      then have "acc @ page = ranked q" using acc by simp
      then show ?thesis using Suc.prems(1) p True False by (intro exI [of _ "length (ranked q)"]) auto
    next
      case full: False
      then have "drain_offset k (offset_page es q n) n (frm + n) (acc @ page) = (hs, t)" using Suc.prems(1) p False by simp
      then show ?thesis by (rule Suc.IH [OF _ acc])
    qed
  qed
qed

lemma drain_prefix:
  assumes U: "universe_ok U" "docs \<subseteq> U" and run: "drain_pages es q n k = (hs, t)"
  shows "\<exists>j. set hs = set (take j (ranked q)) \<and> (\<not> t \<longrightarrow> set hs = {h \<in> docs. q h})"
proof -
  define N where "N = max 1 n"
  define r where "r = (if has_pit es then drain_pit k (pit_page es q N) N None [] else None)"
  have n: "0 < N" by (simp add: N_def)
  have run': "(case r of Some (hs, t) \<Rightarrow> (stable_hits hs, t)
      | None \<Rightarrow> (let (hs, t) = drain_offset k (offset_page es q N) N 0 [] in (stable_hits hs, t))) = (hs, t)"
    using run by (simp only: drain_pages_def Let_def N_def r_def)
  have "\<exists>hs'. hs = stable_hits hs' \<and> (\<exists>j. hs' = take j (ranked q) \<and> (\<not> t \<longrightarrow> hs' = ranked q))"
  proof (cases r)
    case None
    obtain xs t' where o: "drain_offset k (offset_page es q N) N 0 [] = (xs, t')" by (meson surj_pair)
    have "hs = stable_hits xs" "t' = t" using run' None o by simp_all
    moreover have "\<exists>j. xs = take j (ranked q) \<and> (\<not> t' \<longrightarrow> xs = ranked q)" using offset_prefix [OF o] by simp
    ultimately show ?thesis by blast
  next
    case (Some p)
    obtain xs t' where p: "p = (xs, t')" by (cases p)
    have "hs = stable_hits xs" "t' = t" using run' Some p by simp_all
    moreover have "drain_pit k (pit_page es q N) N None [] = Some (xs, t')" using Some p by (simp add: r_def split: if_splits)
    from pit_prefix [OF n this] have "\<exists>j. xs = take j (ranked q) \<and> (\<not> t' \<longrightarrow> xs = ranked q)" by simp
    ultimately show ?thesis by blast
  qed
  then obtain hs' where hs': "hs = stable_hits hs'" "\<exists>j. hs' = take j (ranked q) \<and> (\<not> t \<longrightarrow> hs' = ranked q)" by blast
  then obtain j where j: "hs' = take j (ranked q)" "\<not> t \<longrightarrow> hs' = ranked q" by blast
  have "set hs' \<subseteq> U" using j(1) ranked_set [of q] set_take_subset [of j "ranked q"] U(2) by blast
  then have "set (stable_hits hs') = set hs'" using universe_same [OF U(1)] by (intro stable_hits_set) blast
  then show ?thesis using hs'(1) j ranked_set [of q] by (intro exI [of _ j]) auto
qed

lemma before_rest:
  assumes "h \<in> set (ranked q)" "h \<notin> set (take j (ranked q))" "x \<in> set (take j (ranked q))"
  shows "h_ts x \<le> h_ts h"
proof -
  have "h \<in> set (drop j (ranked q))" using assms(1,2) by (metis Un_iff append_take_drop_id set_append)
  moreover have "sorted (map h_ts (take j (ranked q) @ drop j (ranked q)))" using ranked_sorted [of q] by simp
  ultimately show ?thesis using assms(3) by (simp only: map_append sorted_append) auto
qed

end

text \<open>A log store that answers as documented: the documents in order of time, one slice per page.\<close>

definition ranked_docs :: "hit list \<Rightarrow> (hit \<Rightarrow> bool) \<Rightarrow> hit list" where
  "ranked_docs docs q = sort_key h_ts (filter q docs)"

definition shelf :: "hit list \<Rightarrow> log_store" where
  "shelf docs = \<lparr>has_pit = True,
     pit_page = (\<lambda>q n a. let k = (case a of None \<Rightarrow> 0 | Some k \<Rightarrow> k); page = take n (drop k (ranked_docs docs q))
                 in Some (page, if page = [] then None else Some (k + length page))),
     offset_page = (\<lambda>q n frm. Some (take n (drop frm (ranked_docs docs q))))\<rparr>"

interpretation shelf: search_service "set docs" "ranked_docs docs" "shelf docs" for docs
  by unfold_locales (auto simp: ranked_docs_def shelf_def Let_def)

definition waiting :: "cursor \<Rightarrow> hit \<Rightarrow> bool" where
  "waiting c h =
     (is_set c \<and> (timestamp_millis c < h_ts h \<or> h_ts h = timestamp_millis c \<and> hit_key h \<notin> set (boundary_ids c)))"

lemma waiting_query:
  "doc_ok h \<Longrightarrow> cursor_ok c \<Longrightarrow> is_set c \<Longrightarrow> poll_query scope c cold_from h \<longleftrightarrow> scope h \<and> waiting c h"
  using doc_time [of h] excludes_iff [of h "boundary_ids c"] by (auto simp: poll_query_def waiting_def cursor_ok_def)

lemma query_not_skipped:
  assumes ok: "doc_ok h" "cursor_ok c" and q: "poll_query scope c cold_from h"
  shows "\<not> should_skip c h \<and> timestamp_millis c \<le> h_ts h"
proof (cases "is_set c")
  case True
  have "h_id h \<notin> set (boundary_ids c)" using key_not_id [OF _ ok(1)] ok(2) by (auto simp: cursor_ok_def)
  then show ?thesis using q waiting_query [OF ok True] by (auto simp: should_skip_def waiting_def)
next
  case False
  then have "timestamp_millis c = 0" using ok(2) by (simp add: is_set_def cursor_ok_def)
  then show ?thesis using ok(1) by (simp add: should_skip_def doc_ok_def)
qed

lemma frontier_sent:
  assumes ok: "doc_ok h" "cursor_ok c" and col: "collect_poll_hits es scope n c cold_from = (f, l, b)" and h: "h \<in> set f" "owned (h_index h)"
    and q: "poll_query scope c cold_from h"
  shows "h \<in> set (new_events c (poll_feed_scan es scope n owned c cold_from))"
  using query_not_skipped [OF ok q] h by (auto simp: new_events_def poll_feed_scan_def col Let_def split: prod.splits)

context search_service
begin

lemma unread_waits:
  assumes U: "universe_ok U" "docs \<subseteq> U" and c: "cursor_ok c" and h: "h \<in> docs" and q: "poll_query scope c cold_from h"
    and s: "s = poll_feed_scan es scope n owned c cold_from" and unread: "h \<notin> read_hits es scope n c cold_from"
  shows "poll_query scope (advanced c s) cold_from h"
proof -
  have es: "sound_store U es" using sound U(2) by (fastforce simp: sound_store_def)
  obtain f l b where col: "collect_poll_hits es scope n c cold_from = (f, l, b)" by (cases "collect_poll_hits es scope n c cold_from") auto
  have hU: "h \<in> U" and hok: "doc_ok h" using h U by (auto simp: universe_ok_def)
  note skip = query_not_skipped [OF hok c q]
  obtain t where "drain_pages es (poll_query scope c cold_from) n MAX_FRONTIER_PAGES = (f, t)"
    using col by (auto simp: collect_poll_hits_def split: prod.splits option.splits)
  from drain_prefix [OF U this] obtain j where j: "set f = set (take j (ranked (poll_query scope c cold_from)))" by blast
  have ranked: "h \<in> set (ranked (poll_query scope c cold_from))" using h q ranked_set by simp
  have below: "h_ts x \<le> h_ts h" if x: "x \<in> read_hits es scope n c cold_from" for x
  proof (cases "x \<in> set f")
    case True
    then show ?thesis using before_rest [OF ranked, of j x] j unread by (auto simp: read_hits_def col)
  next
    case False
    then have "x \<in> set l" using x by (auto simp: read_hits_def col)
    then obtain q' where "late_arrival_query scope c = Some q'" "q' x" using collect_sub(2) [OF es col] by blast
    then have "h_ts x < timestamp_millis c" using doc_time [OF read_ok(2) [OF U(1) es x]]
      by (auto simp: late_arrival_query_def split: if_splits)
    then show ?thesis using skip by linarith
  qed
  note fct = scan_facts(1) [OF U(1) es s]
  let ?m = "scan_max_ts s" and ?t = "next_timestamp c (scan_max_ts s)"
  have hpos: "0 < h_ts h" using hok by (simp add: doc_ok_def)
  have "?m = 0 \<or> (\<exists>x\<in>read_hits es scope n c cold_from. h_ts x = ?m)" using fct by (simp add: watermark_of_def)
  then have m: "?m \<le> h_ts h"
  proof (elim disjE bexE)
    fix x assume x: "x \<in> read_hits es scope n c cold_from" "h_ts x = ?m"
    show "?m \<le> h_ts h" using below [OF x(1)] x(2) by simp
  qed (use hpos in simp)
  then have t: "?t \<le> h_ts h" using skip by (simp add: next_timestamp_def)
  have not_ids: "hit_key h \<notin> set (scan_boundary_ids s)"
  proof
    assume "hit_key h \<in> set (scan_boundary_ids s)"
    then obtain x where x: "x \<in> read_hits es scope n c cold_from" "hit_key x = hit_key h" using fct unfolding watermark_of_def by auto
    then show False using universe_same [OF U(1) read_ok(1) [OF U(1) es x(1)] hU] unread by auto
  qed
  have okc': "cursor_ok (advanced c s)" by (rule poll_cursor_ok [OF U(1) es c s])
  have ts': "timestamp_millis (advanced c s) = ?t" "boundary_ids (advanced c s) = next_boundary c ?m (scan_boundary_ids s)"
    by (simp_all add: advanced_state advance_fields)
  have scope: "scope h" using q by (simp add: poll_query_def)
  show ?thesis
  proof (cases "is_set (advanced c s)")
    case False
    then have "\<not> is_set c" using ts' by (auto simp: is_set_def next_timestamp_def split: if_splits)
    then have "scope h" "cold_from \<le> h_ts h" using q doc_time [OF hok] by (simp_all add: poll_query_def)
    then show ?thesis using False doc_time [OF hok] by (simp add: poll_query_def)
  next
    case True
    have "h_ts h = ?t \<longrightarrow> hit_key h \<notin> set (next_boundary c ?m (scan_boundary_ids s))"
    proof
      assume eq: "h_ts h = ?t"
      have "hit_key h \<notin> set (boundary_ids c)" if "?t = timestamp_millis c"
      proof -
        have "is_set c" using hpos eq that by (simp add: is_set_def)
        then show ?thesis using q waiting_query [OF hok c] eq that by (auto simp: waiting_def)
      qed
      then show "hit_key h \<notin> set (next_boundary c ?m (scan_boundary_ids s))"
        using not_ids by (auto simp: next_boundary_def next_timestamp_def split: if_splits)
    qed
    then have "waiting (advanced c s) h" using True t ts' by (auto simp: waiting_def)
    then show ?thesis using waiting_query [OF hok okc' True] scope by blast
  qed
qed

lemma frontier_complete:
  assumes U: "universe_ok U" "docs \<subseteq> U" and c: "cursor_ok c" and h: "h \<in> docs" "owned (h_index h)" and q: "poll_query scope c cold_from h"
    and all: "\<not> snd (drain_pages es (poll_query scope c cold_from) n MAX_FRONTIER_PAGES)"
  shows "h \<in> set (new_events c (poll_feed_scan es scope n owned c cold_from))"
proof -
  obtain f l b where col: "collect_poll_hits es scope n c cold_from = (f, l, b)" by (cases "collect_poll_hits es scope n c cold_from") auto
  obtain t where d: "drain_pages es (poll_query scope c cold_from) n MAX_FRONTIER_PAGES = (f, t)"
    using col by (auto simp: collect_poll_hits_def split: prod.splits option.splits)
  with all have "set f = {h \<in> docs. poll_query scope c cold_from h}" using drain_prefix [OF U d] by simp
  then have "h \<in> set f" using h q by simp
  moreover have "doc_ok h" using U h by (auto simp: universe_ok_def)
  ultimately show ?thesis using frontier_sent [OF _ c col _ _ q] h by blast
qed

lemma late_complete:
  assumes U: "universe_ok U" "docs \<subseteq> U" and c: "cursor_ok c" "overlap_initialized c" "\<not> overlap_saturated c" "late_arrival_overlap_enabled c"
    and h: "h \<in> docs" "owned (h_index h)" "scope h" and late: "in_overlap (timestamp_millis c) (h_ts h)" "h_ts h < timestamp_millis c"
    and new: "dget (recent_event_millis c) (hit_key h) = None"
    and all: "overlap_backfill_complete (poll_feed_scan es scope n owned c cold_from)"
  shows "h \<in> set (new_events c (poll_feed_scan es scope n owned c cold_from))"
proof -
  obtain f l b where col: "collect_poll_hits es scope n c cold_from = (f, l, b)" by (cases "collect_poll_hits es scope n c cold_from") auto
  have ok: "doc_ok h" using U h(1) by (auto simp: universe_ok_def)
  then have time: "h_time h = Some (h_ts h)" "0 < h_ts h" by (simp_all add: doc_time doc_ok_def)
  have set: "is_set c" using time(2) late(2) by (simp add: is_set_def)
  then obtain q where q: "late_arrival_query scope c = Some q" using c by (simp add: late_arrival_query_def)
  have keys: "\<forall>k\<in>set (dkeys (recent_event_millis c)). key_ok k" using c(1) by (simp add: cursor_ok_def)
  have "\<not> excludes (dkeys (recent_event_millis c)) h" using excludes_iff [OF ok keys] new by (simp add: dget_None_iff)
  then have qh: "q h" using q set c h(3) late time by (auto simp: late_arrival_query_def in_overlap_def)
  have b: "b" using all by (simp add: poll_feed_scan_def col Let_def split: prod.splits)
  then obtain t where d: "drain_pages es q n MAX_LATE_PAGES = (l, t)" "\<not> t"
    using col q by (auto simp: collect_poll_hits_def split: prod.splits)
  then have "h \<in> set l" using drain_prefix [OF U d(1)] qh h(1) by simp
  moreover have "\<not> should_skip c h" using c late new by (simp add: should_skip_def dget_None_iff)
  ultimately show ?thesis using c h(2) by (auto simp: new_events_def poll_feed_scan_def col Let_def split: prod.splits)
qed

end

text \<open>The feed sees the document: it is in the log store, within the filters, and its index is the feed's own.\<close>

definition in_view :: "hit set \<Rightarrow> (hit \<Rightarrow> bool) \<Rightarrow> (string \<Rightarrow> bool) \<Rightarrow> hit \<Rightarrow> bool" where
  "in_view docs scope owned h = (h \<in> docs \<and> scope h \<and> owned (h_index h))"

inductive served_poll :: "hit set \<Rightarrow> hit \<Rightarrow> cursor \<times> hit list \<Rightarrow> cursor \<times> hit list \<Rightarrow> bool" for U h where
  served_poll: "search_service docs ranked es \<Longrightarrow> docs \<subseteq> U \<Longrightarrow> in_view docs scope owned h \<Longrightarrow>
     s = poll_feed_scan es scope n owned c cold_from \<Longrightarrow>
     served_poll U h (c, sent) (advanced c s, sent @ new_events c s)"

lemma sound_store_mono:
  assumes "sound_store docs es" "docs \<subseteq> U"
  shows "sound_store U es"
proof -
  note pit = assms(1) [unfolded sound_store_def, THEN conjunct1, rule_format]
    and off = assms(1) [unfolded sound_store_def, THEN conjunct2, rule_format]
  have sub: "{h \<in> docs. q h} \<subseteq> {h \<in> U. q h}" for q using assms(2) by blast
  show ?thesis
    unfolding sound_store_def
  proof (intro conjI allI impI)
    show "set page \<subseteq> {h \<in> U. q h}" if "pit_page es q n a = Some (page, m)" for q n a page m
      by (rule order_trans [OF pit [OF that] sub])
    show "set page \<subseteq> {h \<in> U. q h}" if "offset_page es q n f = Some page" for q n f page
      by (rule order_trans [OF off [OF that] sub])
  qed
qed

lemma served_either:
  assumes U: "universe_ok U" "docs \<subseteq> U" and S: "search_service docs ranked es" and c: "cursor_ok c"
    and h: "h \<in> docs" "scope h" "owned (h_index h)" and w: "waiting c h" and s: "s = poll_feed_scan es scope n owned c cold_from"
  shows "h \<in> set (new_events c s) \<or> waiting (advanced c s) h"
proof -
  have okd: "doc_ok h" using h(1) U by (auto simp: universe_ok_def)
  have es: "sound_store U es" by (rule sound_store_mono [OF search_service.sound [OF S] U(2)])
  have set: "is_set c" using w by (simp add: waiting_def)
  have q: "poll_query scope c cold_from h" using waiting_query [OF okd c set, of scope cold_from] w h(2) by simp
  show ?thesis
  proof (cases "h \<in> read_hits es scope n c cold_from")
    case True
    obtain f l b where col: "collect_poll_hits es scope n c cold_from = (f, l, b)" by (cases "collect_poll_hits es scope n c cold_from") auto
    have "h \<notin> set l"
    proof
      assume "h \<in> set l"
      from collect_sub(2) [OF es col this] obtain q' where q': "late_arrival_query scope c = Some q'" "q' h" by (elim exE conjE)
      show False using q' doc_time [OF okd] w by (auto simp: late_arrival_query_def waiting_def split: if_splits)
    qed
    then have f: "h \<in> set f" using True by (simp add: read_hits_def col)
    have "h \<in> set (new_events c s)"
      unfolding s
      by (rule frontier_sent [where scope = scope and cold_from = cold_from and f = f and l = l and b = b])
        (rule okd, rule c, rule col, rule f, rule h(3), rule q)
    then show ?thesis by (rule disjI1)
  next
    case False
    have q': "poll_query scope (advanced c s) cold_from h"
      by (rule search_service.unread_waits [OF S U c h(1) q s False])
    have set': "is_set (advanced c s)" using set by (simp add: is_set_def advanced_state advance_fields next_timestamp_def)
    have ok': "cursor_ok (advanced c s)" by (rule poll_cursor_ok [OF U(1) es c s])
    show ?thesis using waiting_query [OF okd ok' set', of scope cold_from] q' by simp
  qed
qed

lemma served_next:
  assumes U: "universe_ok U" and c: "cursor_ok (fst st)" and h: "h \<in> set (snd st) \<or> waiting (fst st) h" and step: "served_poll U h st st'"
  shows "cursor_ok (fst st') \<and> (h \<in> set (snd st') \<or> waiting (fst st') h)"
  using step
proof cases
  case (served_poll docs ranked es scope owned s n c cold_from sent)
  have ok: "cursor_ok c" using c served_poll(1) by simp
  have view: "h \<in> docs" "scope h" "owned (h_index h)" using served_poll(5) by (simp_all add: in_view_def)
  have es: "sound_store U es" by (rule sound_store_mono [OF search_service.sound [OF served_poll(3)] served_poll(4)])
  have ok': "cursor_ok (advanced c s)" by (rule poll_cursor_ok [OF U es ok served_poll(6)])
  have "h \<in> set (sent @ new_events c s) \<or> waiting (advanced c s) h"
  proof (cases "h \<in> set sent")
    case False
    then have w: "waiting c h" using h served_poll(1) by simp
    show ?thesis
      using served_either [where scope = scope and owned = owned and h = h, OF U served_poll(4) served_poll(3) ok view w served_poll(6)]
      by simp
  qed simp
  then show ?thesis using ok' served_poll(2) by simp
qed


text \<open>
  Late events are picked up. While the overlap is initialised and its ledger has not overflowed, an event indexed
  late, up to five minutes behind the frontier, is handed out by the first poll that reads the overlap to its
  end, unless its key is already in the ledger.
\<close>

theorem late_event_picked_up:
  assumes "universe_ok U" and "search_service docs ranked es" and "docs \<subseteq> U" and "cursor_ok c" and "overlap_initialized c"
    and "\<not> overlap_saturated c" and "late_arrival_overlap_enabled c" and "h \<in> docs" and "owned (h_index h)" and "scope h"
    and "timestamp_millis c - 300000 \<le> h_ts h" and "h_ts h < timestamp_millis c" and "dget (recent_event_millis c) (hit_key h) = None"
    and "s = poll_feed_scan es scope n owned c cold_from" and "overlap_backfill_complete s"
  shows "h \<in> set (new_events c s) \<and> covered (advanced c s) h"
proof
  have okd: "doc_ok h" using assms(1,3,8) by (auto simp: universe_ok_def)
  have o: "in_overlap (timestamp_millis c) (h_ts h)"
    using assms(11,12) okd by (simp add: in_overlap_def PULL_LATE_ARRIVAL_OVERLAP_MILLIS_def doc_ok_def)
  show new: "h \<in> set (new_events c s)"
    unfolding assms(14)
    by (rule search_service.late_complete [where docs = docs and ranked = ranked and U = U])
      (rule assms(2), rule assms(1), rule assms(3), rule assms(4), rule assms(5), rule assms(6), rule assms(7), rule assms(8),
       rule assms(9), rule assms(10), rule o, rule assms(12), rule assms(13), rule assms(15) [unfolded assms(14)])
  have es: "sound_store U es" using search_service.sound [OF assms(2)] assms(3) by (rule sound_store_mono)
  have "h \<in> read_hits es scope n c cold_from" using new events_read unfolding assms(14) by (auto simp: new_events_def)
  then show "covered (advanced c s) h" using poll_covers [OF assms(1) es assms(4,14), of h] read_ok(1) [OF assms(1) es] by blast
qed

subsection \<open>Witnesses\<close>

definition sample_doc :: "string \<Rightarrow> int \<Rightarrow> hit" where
  "sample_doc i t = \<lparr>h_index = ''logs-app-1'', h_id = i, h_time = Some t\<rparr>"

definition sample_log :: "hit list" where
  "sample_log = [sample_doc ''a'' 1000000, sample_doc ''b'' 1000000, sample_doc ''late'' 900000, sample_doc ''c'' 1000005,
     sample_doc ''future'' 9000000]"

definition sample_scan :: "nat \<Rightarrow> cursor \<Rightarrow> feed_scan" where
  "sample_scan k c = poll_feed_scan (shelf (take k sample_log)) (\<lambda>_. True) 500 (\<lambda>_. True) c 0"

definition sample_cursor :: cursor where
  "sample_cursor = empty_cursor\<lparr>timestamp_millis := 1000000, boundary_ids := [hit_key (sample_doc ''a'' 1000000)],
     recent_event_millis := [(hit_key (sample_doc ''a'' 1000000), 1000000)], overlap_initialized := True\<rparr>"

lemma sample_universe: "universe_ok (set sample_log)" by code_simp

lemma sample_store: "sound_store (set sample_log) (shelf (take k sample_log))"
  by (rule sound_store_mono [OF shelf.sound set_take_subset])

lemma empty_cursor_ok: "cursor_ok empty_cursor"
  by (simp add: cursor_ok_def empty_cursor_def dkeys_def)

lemma sample_cursor_ok: "cursor_ok sample_cursor"
proof -
  have "key_ok (hit_key (sample_doc ''a'' 1000000))" by (rule doc_key_ok) code_simp
  then show ?thesis by (simp add: cursor_ok_def sample_cursor_def empty_cursor_def dkeys_def dict_ok_def)
qed

lemma shelf_small:
  assumes "length docs < psize" "0 < k"
  shows "drain_pages (shelf docs) q psize k = (stable_hits (ranked_docs docs q), False)"
proof -
  obtain k' where k: "k = Suc k'" using assms(2) by (cases k) auto
  have "length (filter q docs) < psize" using assms(1) length_filter_le [of q docs] by linarith
  then show ?thesis by (simp add: drain_pages_def shelf_def Let_def k ranked_docs_def max_def)
qed

lemma sample_poll: "feed_poll (set sample_log) (c, sent) (advanced c (sample_scan k c), sent @ new_events c (sample_scan k c))"
  by (rule feed_poll.intros [OF sample_store]) (simp add: sample_scan_def)

lemma sample_first: "new_events empty_cursor (sample_scan 2 empty_cursor) = [sample_doc ''a'' 1000000, sample_doc ''b'' 1000000]"
  by code_simp



lemma late_event_picked_up_witness:
  "sample_doc ''late'' 900000 \<in> set (new_events sample_cursor (sample_scan 4 sample_cursor)) \<and>
   covered (advanced sample_cursor (sample_scan 4 sample_cursor)) (sample_doc ''late'' 900000)"
proof (rule late_event_picked_up [where scope = "\<lambda>_. True" and owned = "\<lambda>_. True" and n = 500 and cold_from = 0,
      OF sample_universe shelf.search_service_axioms set_take_subset sample_cursor_ok])
  show "overlap_initialized sample_cursor" "\<not> overlap_saturated sample_cursor" "late_arrival_overlap_enabled sample_cursor"
    "timestamp_millis sample_cursor - 300000 \<le> h_ts (sample_doc ''late'' 900000)"
    "h_ts (sample_doc ''late'' 900000) < timestamp_millis sample_cursor"
    "dget (recent_event_millis sample_cursor) (hit_key (sample_doc ''late'' 900000)) = None"
    by code_simp+
  show "sample_doc ''late'' 900000 \<in> set (take 4 sample_log)" by (simp add: sample_log_def)
  show "sample_scan 4 sample_cursor = poll_feed_scan (shelf (take 4 sample_log)) (\<lambda>_. True) 500 (\<lambda>_. True) sample_cursor 0"
    by (simp add: sample_scan_def)
  show "overlap_backfill_complete (sample_scan 4 sample_cursor)" by code_simp
qed simp_all

text \<open>Two documents, one of them dated ahead: the scan that blinds the feed.\<close>

definition blinding_scan :: feed_scan where
  "blinding_scan = poll_feed_scan (shelf [sample_doc ''a'' 1000000, sample_doc ''future'' 9000000]) (\<lambda>_. True) 500 (\<lambda>_. True) empty_cursor 0"

lemma blinding_store: "sound_store (set sample_log) (shelf [sample_doc ''a'' 1000000, sample_doc ''future'' 9000000])"
  by (rule sound_store_mono [OF shelf.sound]) (simp add: sample_log_def)

lemma future_event_blinds_witness:
  "let c = advanced empty_cursor blinding_scan
   in sample_doc ''c'' 1000005 \<notin> set (([] @ new_events empty_cursor blinding_scan) @ new_events c (sample_scan 5 c))"
proof -
  let ?c = "advanced empty_cursor blinding_scan"
  have e: "sample_doc ''future'' 9000000 \<in> set (s_events blinding_scan)" by code_simp
  have t: "h_ts (sample_doc ''c'' 1000005) < h_ts (sample_doc ''future'' 9000000) - 300000" by code_simp
  have n: "sample_doc ''c'' 1000005 \<notin> set ([] @ new_events empty_cursor blinding_scan)" by code_simp
  have "(feed_poll (set sample_log))\<^sup>*\<^sup>* (?c, [] @ new_events empty_cursor blinding_scan)
      (advanced ?c (sample_scan 5 ?c), ([] @ new_events empty_cursor blinding_scan) @ new_events ?c (sample_scan 5 ?c))"
    by (rule r_into_rtranclp) (rule sample_poll)
  from future_event_blinds [OF sample_universe blinding_store empty_cursor_ok blinding_scan_def e t n this]
  show ?thesis unfolding Let_def by (rule conjunct1)
qed

end
