(* ===== verification/Feeds.thy ===== *)
theory Feeds
  imports Prelude
begin

section \<open>Feeds of a source\<close>

text \<open>
  \<^verbatim>\<open>config.IndexPattern\<close> with its derived id, and the ownership of indices by the longest
  matching pattern (\<^verbatim>\<open>connectors/elastic.py\<close>, \<^verbatim>\<open>engine/ingest.py\<close>). The glob matching of
  \<^verbatim>\<open>fnmatch\<close> is an argument.
\<close>

subsection \<open>Patterns and ids\<close>

datatype index_role = ALERTS | EVENTS | IGNORE

record feed =
  f_pattern :: string
  f_given_id :: string
  f_role :: index_role
  f_enabled :: bool
  f_correlate :: bool
  f_auto_investigate :: "bool option"

fun sub_runs :: "(char \<Rightarrow> bool) \<Rightarrow> char \<Rightarrow> bool \<Rightarrow> string \<Rightarrow> string" where
  "sub_runs keep sep in_run [] = []"
| "sub_runs keep sep in_run (c # cs) =
     (if keep c then c # sub_runs keep sep False cs
      else (if in_run then [] else [sep]) @ sub_runs keep sep True cs)"

definition strip_char :: "char \<Rightarrow> string \<Rightarrow> string" where
  "strip_char c s = rev (dropWhile (\<lambda>x. x = c) (rev (dropWhile (\<lambda>x. x = c) s)))"

definition lower_alnum :: "char \<Rightarrow> bool" where
  "lower_alnum c = (CHR ''a'' \<le> c \<and> c \<le> CHR ''z'' \<or> CHR ''0'' \<le> c \<and> c \<le> CHR ''9'')"

definition slug :: "string \<Rightarrow> string" where
  "slug v = str_or (strip_char CHR ''-'' (sub_runs lower_alnum CHR ''-'' False (py_lower v))) ''feed''"

definition feed_ident :: "feed \<Rightarrow> string" where
  "feed_ident f = (if f_given_id f = [] then slug (f_pattern f) else f_given_id f)"

definition poll_feeds :: "feed list \<Rightarrow> feed list" where
  "poll_feeds fs = filter (\<lambda>f. f_enabled f \<and> f_role f \<noteq> IGNORE) fs"

definition feed_for_index :: "(string \<Rightarrow> string \<Rightarrow> bool) \<Rightarrow> feed list \<Rightarrow> string \<Rightarrow> feed option" where
  "feed_for_index fnmatch fs index =
     fst (foldl (\<lambda>(best, n) f. if f_pattern f \<noteq> [] \<and> fnmatch index (f_pattern f) \<and> n < int (length (f_pattern f))
                              then (Some f, int (length (f_pattern f))) else (best, n)) (None, -1) fs)"

definition owns_index :: "(string \<Rightarrow> string \<Rightarrow> bool) \<Rightarrow> feed list \<Rightarrow> feed \<Rightarrow> string \<Rightarrow> bool" where
  "owns_index fnmatch fs f index =
     (case feed_for_index fnmatch fs index of None \<Rightarrow> True | Some owner \<Rightarrow> feed_ident owner = feed_ident f)"

definition effective_auto_investigate :: "feed \<Rightarrow> bool" where
  "effective_auto_investigate f =
     (case f_auto_investigate f of
        Some b \<Rightarrow> b
      | None \<Rightarrow> if f_role f = IGNORE then False else f_role f = ALERTS \<or> f_correlate f)"

subsection \<open>Who owns an index\<close>

definition claims :: "(string \<Rightarrow> string \<Rightarrow> bool) \<Rightarrow> string \<Rightarrow> feed \<Rightarrow> bool" where
  "claims fnmatch index f = (f_pattern f \<noteq> [] \<and> fnmatch index (f_pattern f))"

lemma feed_for_index_fold:
  assumes "foldl (\<lambda>(best, n) f. if f_pattern f \<noteq> [] \<and> fnmatch index (f_pattern f) \<and> n < int (length (f_pattern f))
                              then (Some f, int (length (f_pattern f))) else (best, n)) (b, m) fs = (b', m')"
    and "case b of None \<Rightarrow> m = -1 | Some f \<Rightarrow> m = int (length (f_pattern f)) \<and> claims fnmatch index f"
  shows "(case b' of None \<Rightarrow> m' = -1 | Some f \<Rightarrow> m' = int (length (f_pattern f)) \<and> claims fnmatch index f \<and> (b = Some f \<or> f \<in> set fs)) \<and>
    m \<le> m' \<and> (\<forall>g\<in>set fs. claims fnmatch index g \<longrightarrow> int (length (f_pattern g)) \<le> m')"
  using assms
proof (induction fs arbitrary: b m)
  case Nil
  then show ?case by (auto split: option.splits)
next
  case (Cons f fs)
  show ?case
  proof (cases "f_pattern f \<noteq> [] \<and> fnmatch index (f_pattern f) \<and> m < int (length (f_pattern f))")
    case True
    have "case Some f of None \<Rightarrow> int (length (f_pattern f)) = -1 | Some f' \<Rightarrow> int (length (f_pattern f)) = int (length (f_pattern f')) \<and> claims fnmatch index f'"
      using True by (simp add: claims_def)
    from Cons.IH [OF _ this] Cons.prems(1) True show ?thesis by (auto split: option.splits)
  next
    case False
    have nf: "claims fnmatch index f \<longrightarrow> int (length (f_pattern f)) \<le> m" using False by (auto simp: claims_def)
    have "foldl (\<lambda>(best, n) f. if f_pattern f \<noteq> [] \<and> fnmatch index (f_pattern f) \<and> n < int (length (f_pattern f))
                              then (Some f, int (length (f_pattern f))) else (best, n)) (b, m) fs = (b', m')"
      using Cons.prems(1) False by (auto split: if_splits)
    from Cons.IH [OF this Cons.prems(2)] nf show ?thesis by (auto split: option.splits)
  qed
qed

text \<open>The owner of an index is a feed that matches it, of the longest pattern; without a match every feed keeps the index.\<close>

lemma feed_for_index_longest:
  "case feed_for_index fnmatch fs index of
     None \<Rightarrow> \<forall>g\<in>set fs. \<not> claims fnmatch index g
   | Some f \<Rightarrow> f \<in> set fs \<and> claims fnmatch index f \<and>
       (\<forall>g\<in>set fs. claims fnmatch index g \<longrightarrow> length (f_pattern g) \<le> length (f_pattern f))"
proof -
  obtain b m where f: "foldl (\<lambda>(best, n) f. if f_pattern f \<noteq> [] \<and> fnmatch index (f_pattern f) \<and> n < int (length (f_pattern f))
                              then (Some f, int (length (f_pattern f))) else (best, n)) (None, -1) fs = (b, m)"
    by (rule prod.exhaust)
  have o: "feed_for_index fnmatch fs index = b" by (simp add: feed_for_index_def f)
  have "case None of None \<Rightarrow> (-1::int) = -1 | Some f \<Rightarrow> (-1::int) = int (length (f_pattern f)) \<and> claims fnmatch index f" by simp
  from feed_for_index_fold [OF f this] show ?thesis unfolding o by (auto split: option.splits)
qed

text \<open>The derived id of a feed is no key: two patterns that both read an index can have the same one, and so one cursor.\<close>

lemma slugs_collide:
  "slug ''logs-app*'' = slug ''logs-app-*'' \<and> slug ''logs-app*'' = ''logs-app''"
  by code_simp

end
