(* ===== verification/Poll_Tick.thy ===== *)
theory Poll_Tick
  imports Poll_Search Feeds
begin

section \<open>One tick of a poller\<close>

text \<open>
  \<^verbatim>\<open>Poller.poll_once\<close>: the feeds of a source with their own durable cursors, the split of an
  events feed between the batch funnel and the synchronous path, the handling of what is new, and the saving of the
  cursors. The window read, the correlation and the handling of its clusters are one parameter here, \<open>work\<close>: it says
  whether they ran to the end or raised (\<open>Correlation\<close> and \<open>Ingest\<close> model them).
\<close>

subsection \<open>The cursor store\<close>

definition cursor_key :: "string \<Rightarrow> string \<Rightarrow> string" where
  "cursor_key source_id fid = (if source_id = [] \<or> fid = [] then ''primary'' else source_id @ '':'' @ fid)"

definition id_char :: "char \<Rightarrow> bool" where
  "id_char c = (CHR ''A'' \<le> c \<and> c \<le> CHR ''Z'' \<or> CHR ''a'' \<le> c \<and> c \<le> CHR ''z'' \<or> CHR ''0'' \<le> c \<and> c \<le> CHR ''9'' \<or>
     c \<in> set ''_.:-'')"

definition doc_id :: "string \<Rightarrow> string" where
  "doc_id key = (if key = [] \<or> key = ''primary'' then ''primary'' else ''feed:'' @ sub_runs id_char CHR ''_'' False key)"

text \<open>\<open>reads\<close> and \<open>writes\<close> say for which documents the store answers; a read that raises gives a cold cursor.\<close>

definition load_keyed :: "(string \<Rightarrow> bool) \<Rightarrow> (string, cursor) dict \<Rightarrow> string \<Rightarrow> cursor" where
  "load_keyed reads docs key =
     (if reads (doc_id key) then (case dget docs (doc_id key) of None \<Rightarrow> empty_cursor | Some c \<Rightarrow> c) else empty_cursor)"

fun save_cursors :: "(string \<Rightarrow> bool) \<Rightarrow> (string \<times> cursor \<times> cursor) list \<Rightarrow> (string, cursor) dict \<Rightarrow> (string, cursor) dict \<times> bool" where
  "save_cursors writes [] docs = (docs, True)"
| "save_cursors writes ((key, c, c') # rows) docs =
     (if c' \<noteq> c then
        if writes (doc_id key) then save_cursors writes rows (dset docs (doc_id key) c') else (docs, False)
      else save_cursors writes rows docs)"

subsection \<open>The tick\<close>

datatype funnel_result = Accepted | Declined | Failed

record poller =
  connector_id :: string
  legacy_cursor_key :: string
  source_feeds :: "feed list"
  scan_feed :: "feed \<Rightarrow> cursor \<Rightarrow> int \<Rightarrow> feed_scan option"
  scan_source :: "cursor \<Rightarrow> int \<Rightarrow> feed_scan option"
  reads :: "string \<Rightarrow> bool"
  writes :: "string \<Rightarrow> bool"
  event_funnel :: "(hit list \<Rightarrow> funnel_result) option"
  batch_enabled :: bool
  baseline_enabled :: bool
  batch_eligible :: "hit \<Rightarrow> bool"
  work :: "hit list \<Rightarrow> bool"

record gathered =
  feed_state :: "(string \<times> cursor \<times> cursor) list"
  polled :: nat
  fresh :: "(hit \<times> bool) list"
  funnel_events :: "hit list"
  funnel_keys :: "string list"
  feed_failures :: "string list"

record tick =
  t_docs :: "(string, cursor) dict"
  t_handled :: "hit list"
  t_accepted :: "hit list"
  t_routed :: nat
  t_polled :: nat
  t_ok :: "bool option"
  t_failures :: "string list"

definition event_routing_active :: "poller \<Rightarrow> bool" where
  "event_routing_active p = (event_funnel p \<noteq> None \<and> batch_enabled p \<and> baseline_enabled p)"

definition split_batch_eligible_events :: "(hit \<Rightarrow> bool) \<Rightarrow> hit list \<Rightarrow> hit list \<times> hit list" where
  "split_batch_eligible_events eligible hs = (filter eligible hs, filter (\<lambda>h. \<not> eligible h) hs)"

text \<open>
  One turn of the loop over the feeds. The flag of a fresh event says that its object is in
  \<open>event_feed_sync_event_ids\<close>: a synchronous sibling of events that go to the funnel.
\<close>

definition read_feed :: "poller \<Rightarrow> (string, cursor) dict \<Rightarrow> int \<Rightarrow> gathered \<Rightarrow> feed \<Rightarrow> gathered" where
  "read_feed p docs cold_from g f =
     (let key = cursor_key (connector_id p) (feed_ident f); c = load_keyed (reads p) docs key
      in case scan_feed p f c cold_from of
           None \<Rightarrow> g\<lparr>feed_failures := feed_failures g @ [feed_ident f]\<rparr>
         | Some s \<Rightarrow>
             let new = new_events c s;
                 g' = g\<lparr>feed_state := feed_state g @ [(key, c, advanced c s)], polled := polled g + length (s_events s)\<rparr>
             in if event_routing_active p \<and> f_role f = EVENTS then
                  let (batch, sync) = split_batch_eligible_events (batch_eligible p) new
                  in g'\<lparr>fresh := fresh g @ map (\<lambda>h. (h, batch \<noteq> [])) sync, funnel_events := funnel_events g @ batch,
                       funnel_keys := (if batch \<noteq> [] then key # funnel_keys g else funnel_keys g)\<rparr>
                else g'\<lparr>fresh := fresh g @ map (\<lambda>h. (h, False)) new\<rparr>)"

definition nothing_gathered :: gathered where
  "nothing_gathered = \<lparr>feed_state = [], polled = 0, fresh = [], funnel_events = [], funnel_keys = [], feed_failures = []\<rparr>"

definition gather :: "poller \<Rightarrow> (string, cursor) dict \<Rightarrow> int \<Rightarrow> gathered option" where
  "gather p docs cold_from =
     (let feeds = poll_feeds (source_feeds p)
      in if feeds \<noteq> [] then Some (foldl (read_feed p docs cold_from) nothing_gathered feeds)
         else let key = legacy_cursor_key p; c = load_keyed (reads p) docs key
              in case scan_source p c cold_from of
                   None \<Rightarrow> None
                 | Some s \<Rightarrow> Some (nothing_gathered\<lparr>feed_state := [(key, c, advanced c s)], polled := length (s_events s),
                               fresh := map (\<lambda>h. (h, False)) (new_events c s)\<rparr>))"

definition route :: "poller \<Rightarrow> gathered \<Rightarrow> hit list \<times> gathered" where
  "route p g =
     (case event_funnel p of
        None \<Rightarrow> ([], g)
      | Some funnel \<Rightarrow>
          if funnel_events g = [] then ([], g)
          else let outcome = funnel (funnel_events g);
                   g' = (if outcome = Failed then g\<lparr>feed_failures := feed_failures g @ [''event_funnel'']\<rparr> else g)
               in if outcome = Accepted then (funnel_events g, g')
                  else ([], g'\<lparr>feed_state := filter (\<lambda>(key, c, c'). key \<notin> set (funnel_keys g)) (feed_state g'),
                               fresh := filter (\<lambda>(h, sibling). \<not> sibling) (fresh g')\<rparr>))"

definition unfinished :: "(string, cursor) dict \<Rightarrow> hit list \<Rightarrow> nat \<Rightarrow> gathered \<Rightarrow> tick" where
  "unfinished docs accepted routed g =
     \<lparr>t_docs = docs, t_handled = [], t_accepted = accepted, t_routed = routed, t_polled = polled g, t_ok = None,
      t_failures = feed_failures g\<rparr>"

definition finish :: "poller \<Rightarrow> (string, cursor) dict \<Rightarrow> hit list \<Rightarrow> nat \<Rightarrow> gathered \<Rightarrow> tick" where
  "finish p docs accepted routed g =
     (let new = map fst (fresh g)
      in if new \<noteq> [] \<and> \<not> work p new then unfinished docs accepted routed g
         else case save_cursors (writes p) (feed_state g) docs of (docs', saved) \<Rightarrow>
           (unfinished docs accepted routed g)
             \<lparr>t_docs := docs', t_handled := new, t_ok := (if saved then Some (feed_failures g = []) else None)\<rparr>)"

definition poll_once :: "poller \<Rightarrow> int \<Rightarrow> (string, cursor) dict \<Rightarrow> tick" where
  "poll_once p cold_from docs =
     (case gather p docs cold_from of
        None \<Rightarrow> unfinished docs [] 0 nothing_gathered
      | Some g \<Rightarrow> (case route p g of (accepted, g') \<Rightarrow> finish p docs accepted (length (funnel_events g)) g'))"

subsection \<open>What a tick saves\<close>

definition scanned :: "poller \<Rightarrow> (string, cursor) dict \<Rightarrow> int \<Rightarrow> string \<Rightarrow> feed_scan \<Rightarrow> bool" where
  "scanned p docs cold_from key s =
     (if poll_feeds (source_feeds p) = []
      then key = legacy_cursor_key p \<and> scan_source p (load_keyed (reads p) docs key) cold_from = Some s
      else list_ex (\<lambda>f. key = cursor_key (connector_id p) (feed_ident f) \<and> scan_feed p f (load_keyed (reads p) docs key) cold_from = Some s)
             (poll_feeds (source_feeds p)))"

text \<open>What is gathered: each row is the cursor of a scan, and everything new in that scan is on one of the two paths.\<close>

definition row_ok :: "(string \<Rightarrow> feed_scan \<Rightarrow> bool) \<Rightarrow> poller \<Rightarrow> (string, cursor) dict \<Rightarrow> gathered \<Rightarrow> string \<times> cursor \<times> cursor \<Rightarrow> bool" where
  "row_ok S p docs g row =
     (case row of (key, c, c') \<Rightarrow> c = load_keyed (reads p) docs key \<and>
        (\<exists>s. S key s \<and> c' = advanced c s \<and>
          (\<forall>h\<in>set (new_events c s). (h, False) \<in> set (fresh g) \<or>
             key \<in> set (funnel_keys g) \<and> (h \<in> set (funnel_events g) \<or> (h, True) \<in> set (fresh g)))))"

lemma row_ok_mono:
  assumes "row_ok S p docs g row" "set (fresh g) \<subseteq> set (fresh g')" "set (funnel_keys g) \<subseteq> set (funnel_keys g')"
    "set (funnel_events g) \<subseteq> set (funnel_events g')"
  shows "row_ok S p docs g' row"
  using assms by (force simp: row_ok_def split: prod.splits)

lemma read_feed_grows:
  "set (fresh g) \<subseteq> set (fresh (read_feed p docs cold_from g f)) \<and> set (funnel_keys g) \<subseteq> set (funnel_keys (read_feed p docs cold_from g f)) \<and>
   set (funnel_events g) \<subseteq> set (funnel_events (read_feed p docs cold_from g f))"
  by (auto simp: read_feed_def Let_def split: option.splits prod.splits)

lemma read_feed_rows:
  assumes S: "\<And>s. scan_feed p f (load_keyed (reads p) docs (cursor_key (connector_id p) (feed_ident f))) cold_from = Some s \<Longrightarrow>
      S (cursor_key (connector_id p) (feed_ident f)) s"
    and g: "\<forall>row\<in>set (feed_state g). row_ok S p docs g row"
  shows "\<forall>row\<in>set (feed_state (read_feed p docs cold_from g f)). row_ok S p docs (read_feed p docs cold_from g f) row"
proof -
  let ?g = "read_feed p docs cold_from g f" and ?key = "cursor_key (connector_id p) (feed_ident f)"
  have old: "\<forall>row\<in>set (feed_state g). row_ok S p docs ?g row" using g row_ok_mono read_feed_grows by blast
  show ?thesis
  proof (cases "scan_feed p f (load_keyed (reads p) docs ?key) cold_from")
    case None
    then show ?thesis using old by (simp add: read_feed_def Let_def)
  next
    case (Some s)
    let ?c = "load_keyed (reads p) docs ?key"
    have state: "feed_state ?g = feed_state g @ [(?key, ?c, advanced ?c s)]"
      by (simp add: read_feed_def Let_def Some split: prod.splits)
    have "row_ok S p docs ?g (?key, ?c, advanced ?c s)"
      using S [OF Some] by (auto simp: row_ok_def read_feed_def Let_def Some split_batch_eligible_events_def image_iff filter_empty_conv)
    then show ?thesis using old state by simp
  qed
qed

lemma gather_rows:
  assumes "gather p docs cold_from = Some g"
  shows "\<forall>row\<in>set (feed_state g). row_ok (scanned p docs cold_from) p docs g row"
proof (cases "poll_feeds (source_feeds p) = []")
  case True
  then show ?thesis using assms by (auto simp: gather_def Let_def row_ok_def scanned_def nothing_gathered_def split: option.splits)
next
  case False
  let ?R = "\<lambda>g. \<forall>row\<in>set (feed_state g). row_ok (scanned p docs cold_from) p docs g row"
  have fold: "?R (foldl (read_feed p docs cold_from) g0 fs)" if "set fs \<subseteq> set (poll_feeds (source_feeds p))" "?R g0" for fs g0
    using that
  proof (induction fs arbitrary: g0)
    case (Cons f fs)
    have S: "scanned p docs cold_from (cursor_key (connector_id p) (feed_ident f)) s"
      if "scan_feed p f (load_keyed (reads p) docs (cursor_key (connector_id p) (feed_ident f))) cold_from = Some s" for s
      using Cons.prems(1) False that by (auto simp: scanned_def list_ex_iff)
    have "?R (read_feed p docs cold_from g0 f)"
      by (rule read_feed_rows [where S = "scanned p docs cold_from", OF S Cons.prems(2)])
    then show ?case unfolding foldl_Cons using Cons.prems(1) by (intro Cons.IH) auto
  qed simp
  have "g = foldl (read_feed p docs cold_from) nothing_gathered (poll_feeds (source_feeds p))"
    using assms False by (simp add: gather_def Let_def)
  moreover have "?R nothing_gathered" by (simp add: nothing_gathered_def)
  ultimately show ?thesis using fold [OF subset_refl] by simp
qed

lemma save_cursors_get:
  "dget (fst (save_cursors W rows docs)) d \<noteq> dget docs d \<Longrightarrow>
     \<exists>(key, c, c')\<in>set rows. d = doc_id key \<and> dget (fst (save_cursors W rows docs)) d = Some c'"
proof (induction rows arbitrary: docs)
  case (Cons row rows)
  obtain key c c' where row: "row = (key, c, c')" by (cases row)
  show ?case
  proof (cases "c' \<noteq> c \<and> W (doc_id key)")
    case True
    let ?docs = "dset docs (doc_id key) c'"
    have eq: "save_cursors W (row # rows) docs = save_cursors W rows ?docs" using True by (simp add: row)
    show ?thesis
    proof (cases "dget (fst (save_cursors W rows ?docs)) d = dget ?docs d")
      case True
      then have "d = doc_id key" "dget (fst (save_cursors W rows ?docs)) d = Some c'" using Cons.prems eq by (auto split: if_splits)
      then show ?thesis unfolding eq by (auto simp: row)
    next
      case False
      from Cons.IH [OF this] show ?thesis unfolding eq by (auto simp: row)
    qed
  next
    case False
    then show ?thesis using Cons by (auto simp: row split: if_splits)
  qed
qed simp

lemma route_state:
  "route p g = (accepted, g') \<Longrightarrow> row \<in> set (feed_state g') \<Longrightarrow> row \<in> set (feed_state g)"
  by (auto simp: route_def Let_def split: option.splits if_splits)

text \<open>A row that is still there after routing: everything new in its scan is about to be handled or was accepted.\<close>

lemma route_rows:
  assumes g: "row_ok S p docs g (key, c, c')" and r: "route p g = (accepted, g')" and row: "(key, c, c') \<in> set (feed_state g')"
    and funnel: "event_funnel p = None \<longrightarrow> funnel_keys g = []" "key \<in> set (funnel_keys g) \<longrightarrow> funnel_events g \<noteq> []"
  shows "c = load_keyed (reads p) docs key \<and>
    (\<exists>s. S key s \<and> c' = advanced c s \<and> (\<forall>h\<in>set (new_events c s). h \<in> fst ` set (fresh g') \<or> h \<in> set accepted))"
proof -
  obtain s where s: "S key s" "c' = advanced c s"
    and new: "\<forall>h\<in>set (new_events c s). (h, False) \<in> set (fresh g) \<or>
             key \<in> set (funnel_keys g) \<and> (h \<in> set (funnel_events g) \<or> (h, True) \<in> set (fresh g))"
    using g by (auto simp: row_ok_def)
  have "\<forall>h\<in>set (new_events c s). h \<in> fst ` set (fresh g') \<or> h \<in> set accepted"
  proof
    fix h assume "h \<in> set (new_events c s)"
    with new consider "(h, False) \<in> set (fresh g)" | "key \<in> set (funnel_keys g)" "h \<in> set (funnel_events g) \<or> (h, True) \<in> set (fresh g)" by blast
    then show "h \<in> fst ` set (fresh g') \<or> h \<in> set accepted"
    proof cases
      case 1
      then have "(h, False) \<in> set (fresh g')" using r by (auto simp: route_def Let_def split: option.splits if_splits)
      then show ?thesis by force
    next
      case 2
      then obtain \<phi> where \<phi>: "event_funnel p = Some \<phi>" "funnel_events g \<noteq> []" using funnel by (cases "event_funnel p") auto
      have "\<phi> (funnel_events g) = Accepted"
        using r row 2(1) by (auto simp: route_def Let_def \<phi> split: if_splits)
      then have "accepted = funnel_events g" "fresh g' = fresh g" using r by (auto simp: route_def Let_def \<phi>)
      then show ?thesis using 2(2) by force
    qed
  qed
  then show ?thesis using g s by (auto simp: row_ok_def)
qed

lemma read_feed_funnel:
  "(event_funnel p = None \<longrightarrow> funnel_keys g = []) \<and> (funnel_keys g \<noteq> [] \<longrightarrow> funnel_events g \<noteq> []) \<Longrightarrow>
   (event_funnel p = None \<longrightarrow> funnel_keys (read_feed p docs cold_from g f) = []) \<and>
   (funnel_keys (read_feed p docs cold_from g f) \<noteq> [] \<longrightarrow> funnel_events (read_feed p docs cold_from g f) \<noteq> [])"
  by (auto simp: read_feed_def Let_def event_routing_active_def split: option.splits prod.splits)

lemma gather_funnel:
  assumes "gather p docs cold_from = Some g"
  shows "event_funnel p = None \<longrightarrow> funnel_keys g = []" "funnel_keys g \<noteq> [] \<longrightarrow> funnel_events g \<noteq> []"
proof -
  let ?Q = "\<lambda>g. (event_funnel p = None \<longrightarrow> funnel_keys g = []) \<and> (funnel_keys g \<noteq> [] \<longrightarrow> funnel_events g \<noteq> [])"
  have "?Q (foldl (read_feed p docs cold_from) g0 fs)" if "?Q g0" for fs g0
    using that
  proof (induction fs arbitrary: g0)
    case (Cons f fs)
    show ?case unfolding foldl_Cons by (rule Cons.IH) (rule read_feed_funnel [OF Cons.prems])
  qed simp
  moreover have "?Q nothing_gathered" by (simp add: nothing_gathered_def)
  ultimately have "?Q g" using assms by (auto simp: gather_def Let_def nothing_gathered_def split: if_splits option.splits)
  then show "event_funnel p = None \<longrightarrow> funnel_keys g = []" "funnel_keys g \<noteq> [] \<longrightarrow> funnel_events g \<noteq> []" by auto
qed

text \<open>
  C28. A cursor moves only over what was handled. Whenever a tick changes a stored cursor, the new value is the
  advanced cursor of a scan of that tick, and every new event of that scan was handled by a run that came to its end or
  accepted by the funnel; also when feeds fail, the funnel declines or saving stops half way.
\<close>

theorem cursor_moves_after_work:
  assumes "dget (t_docs (poll_once p cold_from docs)) d \<noteq> dget docs d"
  shows "\<exists>key s. d = doc_id key \<and> scanned p docs cold_from key s \<and>
    dget (t_docs (poll_once p cold_from docs)) d = Some (advanced (load_keyed (reads p) docs key) s) \<and>
    set (new_events (load_keyed (reads p) docs key) s) \<subseteq> set (t_handled (poll_once p cold_from docs)) \<union> set (t_accepted (poll_once p cold_from docs))"
proof -
  let ?t = "poll_once p cold_from docs"
  obtain g where g: "gather p docs cold_from = Some g" using assms by (cases "gather p docs cold_from") (auto simp: poll_once_def unfinished_def)
  obtain accepted g' where r: "route p g = (accepted, g')" by (cases "route p g")
  have t: "t_docs ?t = fst (save_cursors (writes p) (feed_state g') docs)" "t_handled ?t = map fst (fresh g')" "t_accepted ?t = accepted"
    using assms by (auto simp: poll_once_def g r finish_def unfinished_def Let_def split: if_splits prod.splits)
  obtain key c c' where row: "(key, c, c') \<in> set (feed_state g')" "d = doc_id key" "dget (t_docs ?t) d = Some c'"
    using save_cursors_get [of "writes p" "feed_state g'" docs d] assms unfolding t(1) by blast
  have "row_ok (scanned p docs cold_from) p docs g (key, c, c')" using gather_rows [OF g] route_state [OF r row(1)] by blast
  have funnel: "key \<in> set (funnel_keys g) \<longrightarrow> funnel_events g \<noteq> []" using gather_funnel(2) [OF g] by auto
  obtain s where "c = load_keyed (reads p) docs key" "scanned p docs cold_from key s" "c' = advanced c s"
    "\<forall>h\<in>set (new_events c s). h \<in> fst ` set (fresh g') \<or> h \<in> set accepted"
    using route_rows [OF \<open>row_ok (scanned p docs cold_from) p docs g (key, c, c')\<close> r row(1) gather_funnel(1) [OF g] funnel] by (elim conjE exE)
  then show ?thesis using row t by (intro exI [of _ key] exI [of _ s]) auto
qed

subsection \<open>Feeds that fail\<close>

definition healthy :: "poller \<Rightarrow> (string, cursor) dict \<Rightarrow> int \<Rightarrow> feed \<Rightarrow> bool" where
  "healthy p docs cold_from f =
     (scan_feed p f (load_keyed (reads p) docs (cursor_key (connector_id p) (feed_ident f))) cold_from \<noteq> None)"

lemma read_feed_failed:
  "\<not> healthy p docs cold_from f \<Longrightarrow> read_feed p docs cold_from g f = g\<lparr>feed_failures := feed_failures g @ [feed_ident f]\<rparr>"
  by (simp add: healthy_def read_feed_def Let_def)

lemma read_feed_failures:
  "healthy p docs cold_from f \<Longrightarrow>
     read_feed p docs cold_from (g\<lparr>feed_failures := xs\<rparr>) f = (read_feed p docs cold_from g f)\<lparr>feed_failures := xs\<rparr>"
  by (auto simp: healthy_def read_feed_def Let_def split: prod.splits)

lemma foldl_failures:
  "foldl (read_feed p docs cold_from) (g\<lparr>feed_failures := xs\<rparr>) fs =
     (foldl (read_feed p docs cold_from) g (filter (healthy p docs cold_from) fs))
       \<lparr>feed_failures := xs @ map feed_ident (filter (\<lambda>f. \<not> healthy p docs cold_from f) fs)\<rparr>"
proof (induction fs arbitrary: g xs)
  case (Cons f fs)
  show ?case
  proof (cases "healthy p docs cold_from f")
    case True
    then show ?thesis by (simp add: read_feed_failures Cons.IH)
  next
    case False
    then show ?thesis using Cons.IH [where g = g and xs = "xs @ [feed_ident f]"] by (simp add: read_feed_failed)
  qed
qed simp

lemma gather_failures:
  assumes "filter (healthy p docs cold_from) (poll_feeds (source_feeds p)) \<noteq> []"
  obtains g where
    "gather (p\<lparr>source_feeds := filter (healthy p docs cold_from) (source_feeds p)\<rparr>) docs cold_from = Some (g\<lparr>feed_failures := []\<rparr>)"
    "gather p docs cold_from =
       Some (g\<lparr>feed_failures := map feed_ident (filter (\<lambda>f. \<not> healthy p docs cold_from f) (poll_feeds (source_feeds p)))\<rparr>)"
proof -
  let ?h = "healthy p docs cold_from" and ?fs = "poll_feeds (source_feeds p)"
  have swap: "poll_feeds (filter ?h (source_feeds p)) = filter ?h ?fs" by (simp add: poll_feeds_def conj_commute conj_left_commute)
  have "event_routing_active (p\<lparr>source_feeds := x\<rparr>) = event_routing_active p" for x by (simp add: event_routing_active_def)
  then have same: "read_feed (p\<lparr>source_feeds := x\<rparr>) docs cold_from = read_feed p docs cold_from" for x
    by (intro ext) (simp add: read_feed_def Let_def split: option.splits)
  have ng: "nothing_gathered\<lparr>feed_failures := []\<rparr> = nothing_gathered" by (simp add: nothing_gathered_def)
  let ?g = "foldl (read_feed p docs cold_from) nothing_gathered (filter ?h ?fs)"
  have all: "?fs \<noteq> []" using assms by auto
  have all': "foldl (read_feed p docs cold_from) nothing_gathered ?fs = ?g\<lparr>feed_failures := map feed_ident (filter (\<lambda>f. \<not> ?h f) ?fs)\<rparr>"
    using foldl_failures [where g = nothing_gathered and xs = "[]" and fs = ?fs] by (simp add: ng)
  have "feed_failures ?g = []"
    using arg_cong [OF foldl_failures [where g = nothing_gathered and xs = "[]" and fs = "filter ?h ?fs"], of feed_failures] by (simp add: ng)
  then have none: "?g = ?g\<lparr>feed_failures := []\<rparr>" by (intro gathered.equality) simp_all
  have one: "gather (p\<lparr>source_feeds := filter ?h (source_feeds p)\<rparr>) docs cold_from = Some ?g"
    using assms by (simp add: gather_def Let_def swap same)
  show ?thesis
  proof (rule that [of ?g])
    show "gather (p\<lparr>source_feeds := filter ?h (source_feeds p)\<rparr>) docs cold_from = Some (?g\<lparr>feed_failures := []\<rparr>)"
      by (rule trans [OF one arg_cong [where f = Some, OF none]])
    show "gather p docs cold_from = Some (?g\<lparr>feed_failures := map feed_ident (filter (\<lambda>f. \<not> ?h f) ?fs)\<rparr>)"
      using all by (simp add: gather_def Let_def all')
  qed
qed

lemma finish_failures:
  "finish p docs a n (g\<lparr>feed_failures := bad @ feed_failures g\<rparr>) =
     (finish (p\<lparr>source_feeds := x\<rparr>) docs a n g)
       \<lparr>t_failures := bad @ t_failures (finish (p\<lparr>source_feeds := x\<rparr>) docs a n g),
        t_ok := map_option (\<lambda>ok. ok \<and> bad = []) (t_ok (finish (p\<lparr>source_feeds := x\<rparr>) docs a n g))\<rparr>"
proof (cases "map fst (fresh g) \<noteq> [] \<and> \<not> work p (map fst (fresh g))")
  case True
  then show ?thesis by (simp add: finish_def unfinished_def Let_def)
next
  case False
  obtain docs' saved where sv: "save_cursors (writes p) (feed_state g) docs = (docs', saved)"
    by (cases "save_cursors (writes p) (feed_state g) docs")
  have work: "(map fst (fresh g) \<noteq> [] \<and> \<not> work p (map fst (fresh g))) = False" using False by blast
  show ?thesis by (cases saved) (simp_all add: finish_def unfinished_def Let_def sv work conj_commute)
qed

text \<open>
  A feed that fails leaves the others alone. The tick stores, handles and accepts exactly what it would without the
  failing feeds, whose cursors stay as they are; the tick is reported failed, with their ids first.
\<close>

theorem failing_feeds_isolated:
  assumes "filter (healthy p docs cold_from) (poll_feeds (source_feeds p)) \<noteq> []"
    and "t = poll_once p cold_from docs"
    and "t' = poll_once (p\<lparr>source_feeds := filter (healthy p docs cold_from) (source_feeds p)\<rparr>) cold_from docs"
    and "bad = map feed_ident (filter (\<lambda>f. \<not> healthy p docs cold_from f) (poll_feeds (source_feeds p)))"
  shows "t = t'\<lparr>t_failures := bad @ t_failures t', t_ok := map_option (\<lambda>ok. ok \<and> bad = []) (t_ok t')\<rparr>"
proof -
  let ?p = "p\<lparr>source_feeds := filter (healthy p docs cold_from) (source_feeds p)\<rparr>"
  obtain g where g': "gather ?p docs cold_from = Some (g\<lparr>feed_failures := []\<rparr>)" and g: "gather p docs cold_from = Some (g\<lparr>feed_failures := bad\<rparr>)"
    using gather_failures [OF assms(1)] assms(4) by blast
  have route: "route p (g\<lparr>feed_failures := bad\<rparr>) = (case route ?p (g\<lparr>feed_failures := []\<rparr>) of (a, g') \<Rightarrow> (a, g'\<lparr>feed_failures := bad @ feed_failures g'\<rparr>))"
    by (simp add: route_def Let_def split: option.splits)
  obtain a g2 where r': "route ?p (g\<lparr>feed_failures := []\<rparr>) = (a, g2)" by (cases "route ?p (g\<lparr>feed_failures := []\<rparr>)")
  have r: "route p (g\<lparr>feed_failures := bad\<rparr>) = (a, g2\<lparr>feed_failures := bad @ feed_failures g2\<rparr>)" by (simp add: route r')
  have gather: "t = finish p docs a (length (funnel_events g)) (g2\<lparr>feed_failures := bad @ feed_failures g2\<rparr>)"
    "t' = finish ?p docs a (length (funnel_events g)) g2"
    unfolding assms(2,3) poll_once_def g g' option.case r r' prod.case by simp_all
  show ?thesis unfolding gather by (rule finish_failures)
qed

subsection \<open>A cursor that cannot be read\<close>


subsection \<open>A log store that is down\<close>

definition down :: "log_store \<Rightarrow> bool" where
  "down es = ((\<forall>q n a. pit_page es q n a = None) \<and> (\<forall>q n from. offset_page es q n from = None))"

lemma drain_down:
  assumes "down es" "0 < k"
  shows "drain_pages es q n k = ([], True)"
proof -
  obtain k' where "k = Suc k'" using assms(2) by (cases k) auto
  then show ?thesis using assms(1) by (simp add: down_def drain_pages_def Let_def stable_hits_def)
qed

lemma scan_down:
  "down es \<Longrightarrow> \<exists>b. poll_feed_scan es scope n owned c cold_from =
     \<lparr>s_events = [], scan_max_ts = 0, scan_boundary_ids = [], scan_recent_event_millis = [], overlap_backfill_complete = b\<rparr>"
  by (cases "late_arrival_query scope c") (auto simp: poll_feed_scan_def collect_poll_hits_def drain_down MAX_FRONTIER_PAGES_def
      MAX_LATE_PAGES_def Let_def stable_hits_def scan_watermark_def scan_recent_def)

text \<open>
  An outage reads as a quiet source. When every search of the log store fails, the scan is an empty one and not a
  failure: the tick handles nothing, names no failed feed and is recorded as a success.
\<close>

theorem outage_reads_as_quiet:
  assumes "down es" and "poll_feeds (source_feeds p) = []"
    and "scan_source p = (\<lambda>c from. Some (poll_feed_scan es scope n owned c from))" and "writes p (doc_id (legacy_cursor_key p))"
    and "t = poll_once p cold_from docs"
  shows "t_ok t = Some True \<and> t_failures t = [] \<and> t_polled t = 0 \<and> t_handled t = []"
proof -
  let ?c = "load_keyed (reads p) docs (legacy_cursor_key p)"
  obtain b where s: "poll_feed_scan es scope n owned ?c cold_from =
     \<lparr>s_events = [], scan_max_ts = 0, scan_boundary_ids = [], scan_recent_event_millis = [], overlap_backfill_complete = b\<rparr>"
    using scan_down [OF assms(1)] by blast
  obtain c' where g: "gather p docs cold_from = Some (nothing_gathered\<lparr>feed_state := [(legacy_cursor_key p, ?c, c')]\<rparr>)"
    using assms(2,3) by (simp add: gather_def Let_def s new_events_def nothing_gathered_def)
  have r: "route p g' = ([], g')" if "funnel_events g' = []" for g' using that by (simp add: route_def split: option.splits)
  show ?thesis
    using assms(4) unfolding assms(5)
    by (cases "c' = ?c") (simp_all add: poll_once_def g r finish_def unfinished_def Let_def nothing_gathered_def)
qed

subsection \<open>Witnesses\<close>

definition sample_poller :: "feed list \<Rightarrow> (string \<Rightarrow> bool) \<Rightarrow> poller" where
  "sample_poller fs answers =
     \<lparr>connector_id = ''es'', legacy_cursor_key = ''primary'', source_feeds = fs,
      scan_feed = (\<lambda>f c from. if f_pattern f = ''bad-*'' then None else Some (sample_scan 2 c)),
      scan_source = (\<lambda>c from. Some (poll_feed_scan (shelf (take 5 sample_log)) (\<lambda>_. True) 500 (\<lambda>_. True) c from)),
      reads = answers, writes = (\<lambda>_. True), event_funnel = None, batch_enabled = False, baseline_enabled = False,
      batch_eligible = (\<lambda>_. False), work = (\<lambda>_. True)\<rparr>"

definition sample_feed :: "string \<Rightarrow> feed" where
  "sample_feed pat = \<lparr>f_pattern = pat, f_given_id = [], f_role = ALERTS, f_enabled = True,
     f_correlate = True, f_auto_investigate = None\<rparr>"

lemma sample_advanced: "advanced empty_cursor (sample_scan 2 empty_cursor) \<noteq> empty_cursor"
proof -
  have "scan_max_ts (sample_scan 2 empty_cursor) = 1000000" by code_simp
  then have "timestamp_millis (advanced empty_cursor (sample_scan 2 empty_cursor)) = 1000000"
    by (simp add: advanced_state advance_fields next_timestamp_def empty_cursor_def)
  then show ?thesis by (auto simp: empty_cursor_def)
qed

lemma sample_keys:
  "cursor_key ''es'' (feed_ident (sample_feed ''logs-*'')) = ''es:logs''" "doc_id ''es:logs'' = ''feed:es:logs''"
  "cursor_key ''es'' (feed_ident (sample_feed ''bad-*'')) = ''es:bad''" "doc_id ''primary'' = ''primary''"
  by code_simp+

lemma sample_scans:
  "scan_feed (sample_poller fs a) (sample_feed ''logs-*'') c from = Some (sample_scan 2 c)"
  "scan_feed (sample_poller fs a) (sample_feed ''bad-*'') c from = None"
  by (simp_all add: sample_poller_def sample_feed_def)

lemma sample_fields:
  "connector_id (sample_poller fs a) = ''es''" "source_feeds (sample_poller fs a) = fs" "event_funnel (sample_poller fs a) = None"
  "writes (sample_poller fs a) = (\<lambda>_. True)" "work (sample_poller fs a) = (\<lambda>_. True)" "legacy_cursor_key (sample_poller fs a) = ''primary''"
  "reads (sample_poller fs a) = a"
  "poll_feeds [] = []" "poll_feeds (sample_feed pat # fs) = sample_feed pat # poll_feeds fs" "f_role (sample_feed pat) = ALERTS"
  by (simp_all add: sample_poller_def poll_feeds_def sample_feed_def)

lemma sample_tick:
  "poll_once (sample_poller [sample_feed ''logs-*''] (\<lambda>_. True)) 0 [] =
     \<lparr>t_docs = [(''feed:es:logs'', advanced empty_cursor (sample_scan 2 empty_cursor))],
      t_handled = new_events empty_cursor (sample_scan 2 empty_cursor), t_accepted = [], t_routed = 0,
      t_polled = length (s_events (sample_scan 2 empty_cursor)), t_ok = Some True, t_failures = []\<rparr>"
proof -
  have load: "load_keyed r [] k = empty_cursor" for r k by (simp add: load_keyed_def)
  have g: "gather (sample_poller [sample_feed ''logs-*''] (\<lambda>_. True)) [] 0 =
      Some (nothing_gathered\<lparr>feed_state := [(''es:logs'', empty_cursor, advanced empty_cursor (sample_scan 2 empty_cursor))],
        polled := length (s_events (sample_scan 2 empty_cursor)), fresh := map (\<lambda>h. (h, False)) (new_events empty_cursor (sample_scan 2 empty_cursor))\<rparr>)"
    by (simp add: gather_def sample_fields Let_def read_feed_def sample_keys sample_scans load nothing_gathered_def)
  show ?thesis
    using sample_advanced
    by (simp add: poll_once_def g route_def sample_fields finish_def unfinished_def Let_def nothing_gathered_def sample_keys comp_def dset_def)
qed

lemma cursor_moves_after_work_witness:
  "\<exists>key s. ''feed:es:logs'' = doc_id key \<and> scanned (sample_poller [sample_feed ''logs-*''] (\<lambda>_. True)) [] 0 key s"
proof -
  have "dget (t_docs (poll_once (sample_poller [sample_feed ''logs-*''] (\<lambda>_. True)) 0 [])) ''feed:es:logs'' \<noteq> dget [] ''feed:es:logs''"
    by (simp add: sample_tick dget_def)
  from cursor_moves_after_work [OF this] show ?thesis by blast
qed

lemma failing_feeds_isolated_witness:
  "let t' = poll_once ((sample_poller [sample_feed ''bad-*'', sample_feed ''logs-*''] (\<lambda>_. True))\<lparr>source_feeds := [sample_feed ''logs-*'']\<rparr>) 0 []
   in poll_once (sample_poller [sample_feed ''bad-*'', sample_feed ''logs-*''] (\<lambda>_. True)) 0 [] =
        t'\<lparr>t_failures := [''bad''] @ t_failures t', t_ok := map_option (\<lambda>ok. ok \<and> [''bad''] = []) (t_ok t')\<rparr>"
proof -
  let ?p = "sample_poller [sample_feed ''bad-*'', sample_feed ''logs-*''] (\<lambda>_. True)"
  have h: "healthy ?p [] 0 (sample_feed ''logs-*'')" "\<not> healthy ?p [] 0 (sample_feed ''bad-*'')"
    by (simp_all add: healthy_def sample_scans)
  have "[''bad''] = map feed_ident (filter (\<lambda>f. \<not> healthy ?p [] 0 f) (poll_feeds (source_feeds ?p)))"
    by (simp add: h sample_fields) code_simp
  moreover have "filter (healthy ?p [] 0) (source_feeds ?p) = [sample_feed ''logs-*'']"
    and "filter (healthy ?p [] 0) (poll_feeds (source_feeds ?p)) \<noteq> []"
    by (simp_all add: h sample_fields)
  ultimately show ?thesis
    using failing_feeds_isolated [of ?p "[]" 0, OF _ refl refl refl] unfolding Let_def by simp
qed


lemma outage_reads_as_quiet_witness:
  "let p = (sample_poller [] (\<lambda>_. True))\<lparr>scan_source := (\<lambda>c from. Some (poll_feed_scan
         \<lparr>has_pit = True, pit_page = (\<lambda>_ _ _. None), offset_page = (\<lambda>_ _ _. None)\<rparr> (\<lambda>_. True) 500 (\<lambda>_. True) c from))\<rparr>
   in t_ok (poll_once p 0 [(''primary'', sample_cursor)]) = Some True"
  using outage_reads_as_quiet [of "\<lparr>has_pit = True, pit_page = (\<lambda>_ _ _. None), offset_page = (\<lambda>_ _ _. None)\<rparr>"
      "(sample_poller [] (\<lambda>_. True))\<lparr>scan_source := (\<lambda>c from. Some (poll_feed_scan
         \<lparr>has_pit = True, pit_page = (\<lambda>_ _ _. None), offset_page = (\<lambda>_ _ _. None)\<rparr> (\<lambda>_. True) 500 (\<lambda>_. True) c from))\<rparr>",
      OF _ _ _ _ refl]
  unfolding Let_def by (simp add: down_def sample_fields)

end
