(* ===== verification/Risk.thy ===== *)
theory Risk
  imports Correlation
begin

section \<open>Risk scoring\<close>

text \<open>
  \<^verbatim>\<open>engine/risk.py\<close>: the deterministic score of a cluster and the routing score of the
  gate before an investigation. Floats are reals, rounded where the code rounds. \<open>addr_in value cidr\<close> is
  the address arithmetic of \<^verbatim>\<open>ipaddress\<close>: both strings parse and the address lies in the network.
\<close>

record risk_weights =
  w_volume :: real
  w_velocity :: real
  w_reputation :: real
  w_diversity :: real
  w_asset :: real

definition default_weights :: risk_weights where
  "default_weights = \<lparr>w_volume = 25/100, w_velocity = 20/100, w_reputation = 30/100, w_diversity = 15/100, w_asset = 10/100\<rparr>"

record asset_network =
  an_cidr :: string
  an_criticality :: real

record risk_prefs =
  weights :: risk_weights
  asset_networks :: "asset_network list"
  asset_map :: "(string, real) dict"

record risk_breakdown =
  rb_volume :: real
  rb_velocity :: real
  rb_reputation :: real
  rb_diversity :: real
  rb_asset :: real
  rb_total :: real

definition VOLUME_REF :: real where "VOLUME_REF = 50"
definition VELOCITY_REF :: real where "VELOCITY_REF = 10"
definition DIVERSITY_REF :: real where "DIVERSITY_REF = 5"

definition log_norm :: "real \<Rightarrow> real \<Rightarrow> real" where
  "log_norm v ref = (if v \<le> 0 then 0 else min 100 (100 * ln (1 + v) / ln (1 + ref)))"

definition clamp :: "real \<Rightarrow> real" where
  "clamp x = max 0 (min 100 x)"

definition asset_criticality :: "(string \<Rightarrow> string \<Rightarrow> bool) \<Rightarrow> risk_prefs \<Rightarrow> string \<Rightarrow> real" where
  "asset_criticality addr_in p value =
     (case foldl (\<lambda>acc net. if addr_in value (an_cidr net)
                           then Some (max (case acc of None \<Rightarrow> 0 | Some m \<Rightarrow> m) (an_criticality net)) else acc)
             None (asset_networks p) of
        Some m \<Rightarrow> m
      | None \<Rightarrow> (case dget (asset_map p) value of None \<Rightarrow> 0 | Some m \<Rightarrow> m))"

definition has_asset_context :: "(string \<Rightarrow> string \<Rightarrow> bool) \<Rightarrow> risk_prefs \<Rightarrow> string \<Rightarrow> bool" where
  "has_asset_context addr_in p value =
     (value \<in> set (dkeys (asset_map p)) \<or> list_ex (\<lambda>net. addr_in value (an_cidr net)) (asset_networks p))"

definition window_seconds :: "cluster \<Rightarrow> real" where
  "window_seconds cl =
     (if first_seen_millis cl \<noteq> 0 \<and> last_seen_millis cl \<noteq> 0
      then max 0 (of_int (last_seen_millis cl - first_seen_millis cl) / 1000) else 0)"

definition volume_of :: "nat \<Rightarrow> real" where
  "volume_of n = log_norm (of_nat n) VOLUME_REF"

definition velocity_of :: "nat \<Rightarrow> real \<Rightarrow> real" where
  "velocity_of n secs = (if 3 \<le> n then min 100 (100 * (of_nat n / (max secs 1 / 60)) / VELOCITY_REF) else 0)"

definition diversity_of :: "nat \<Rightarrow> real" where
  "diversity_of n = min 100 (100 * of_nat n / DIVERSITY_REF)"

definition total_of :: "risk_weights \<Rightarrow> real \<Rightarrow> real \<Rightarrow> real \<Rightarrow> real \<Rightarrow> real \<Rightarrow> real" where
  "total_of w v ve r d a =
     (let s = w_volume w + w_velocity w + w_reputation w + w_diversity w + w_asset w
      in (w_volume w * v + w_velocity w * ve + w_reputation w * r + w_diversity w * d + w_asset w * a) / (if s = 0 then 1 else s))"

definition compute_risk :: "(string \<Rightarrow> string \<Rightarrow> bool) \<Rightarrow> cluster \<Rightarrow> risk_prefs \<Rightarrow> real \<Rightarrow> risk_breakdown" where
  "compute_risk addr_in cl p reputation =
     (let v = volume_of (cl_count cl);
          ve = velocity_of (cl_count cl) (window_seconds cl);
          r = clamp reputation;
          d = diversity_of (length (rule_values cl));
          a = clamp (asset_criticality addr_in p (snd (cl_entity cl)))
      in \<lparr>rb_volume = py_round 2 v, rb_velocity = py_round 2 ve, rb_reputation = py_round 2 r, rb_diversity = py_round 2 d,
          rb_asset = py_round 2 a, rb_total = py_round 2 (total_of (weights p) v ve r d a)\<rparr>)"

definition compute_routing_risk :: "(string \<Rightarrow> string \<Rightarrow> bool) \<Rightarrow> cluster \<Rightarrow> risk_prefs \<Rightarrow> real option \<Rightarrow> risk_breakdown" where
  "compute_routing_risk addr_in cl p reputation =
     (let c = compute_risk addr_in cl p (case reputation of None \<Rightarrow> 0 | Some r \<Rightarrow> r);
          w = weights p;
          x0 = w_volume w * rb_volume c + w_velocity w * rb_velocity c + w_diversity w * rb_diversity c;
          s0 = w_volume w + w_velocity w + w_diversity w;
          (x1, s1) = (if reputation = None then (x0, s0) else (x0 + w_reputation w * rb_reputation c, s0 + w_reputation w));
          (x2, s2) = (if has_asset_context addr_in p (snd (cl_entity cl)) then (x1 + w_asset w * rb_asset c, s1 + w_asset w) else (x1, s1))
      in c\<lparr>rb_total := py_round 2 (clamp (x2 / (if s2 = 0 then 1 else s2)))\<rparr>)"

subsection \<open>Factors\<close>

definition weights_ok :: "risk_weights \<Rightarrow> bool" where
  "weights_ok w = (0 \<le> w_volume w \<and> 0 \<le> w_velocity w \<and> 0 \<le> w_reputation w \<and> 0 \<le> w_diversity w \<and> 0 \<le> w_asset w)"

lemma clamp_range: "0 \<le> clamp x \<and> clamp x \<le> 100" by (simp add: clamp_def)

lemma clamp_mono: "x \<le> y \<Longrightarrow> clamp x \<le> clamp y" by (simp add: clamp_def)

lemma log_norm_range: "0 < ref \<Longrightarrow> 0 \<le> log_norm v ref \<and> log_norm v ref \<le> 100"
  by (simp add: log_norm_def)

lemma volume_range: "0 \<le> volume_of n \<and> volume_of n \<le> 100"
  by (simp add: volume_of_def log_norm_range VOLUME_REF_def)

lemma velocity_range: "0 \<le> velocity_of n s \<and> velocity_of n s \<le> 100"
  by (simp add: velocity_of_def VELOCITY_REF_def)

lemma diversity_range: "0 \<le> diversity_of n \<and> diversity_of n \<le> 100"
  by (simp add: diversity_of_def DIVERSITY_REF_def)

lemma volume_mono: "m \<le> n \<Longrightarrow> volume_of m \<le> volume_of n"
proof (cases "m = 0")
  case True
  then show ?thesis using volume_range [of n] by (simp add: volume_of_def log_norm_def)
next
  case False
  assume mn: "m \<le> n"
  then have "100 * ln (1 + real m) / ln 51 \<le> 100 * ln (1 + real n) / ln 51"
    by (intro divide_right_mono mult_left_mono) simp_all
  then show ?thesis using False mn by (simp add: volume_of_def log_norm_def VOLUME_REF_def min.coboundedI2)
qed

lemma velocity_mono: "m \<le> n \<Longrightarrow> s' \<le> s \<Longrightarrow> velocity_of m s \<le> velocity_of n s'"
proof -
  assume mn: "m \<le> n" and s: "s' \<le> s"
  have "of_nat m / (max s 1 / 60) \<le> of_nat n / (max s' 1 / 60 :: real)"
    using mn s by (intro frac_le) auto
  then show ?thesis using mn velocity_range [of n s'] by (auto simp: velocity_of_def VELOCITY_REF_def intro!: min.mono)
qed

lemma diversity_mono: "m \<le> n \<Longrightarrow> diversity_of m \<le> diversity_of n"
  by (auto simp: diversity_of_def DIVERSITY_REF_def intro!: min.mono)

lemma total_mono:
  assumes "weights_ok w" "v \<le> v'" "ve \<le> ve'" "r \<le> r'" "d \<le> d'" "a \<le> a'"
  shows "total_of w v ve r d a \<le> total_of w v' ve' r' d' a'"
  unfolding total_of_def Let_def
  using assms by (intro divide_right_mono add_mono mult_left_mono) (auto simp: weights_ok_def)

lemma total_const: "weights_ok w \<Longrightarrow> total_of w 0 0 0 0 0 = 0 \<and> total_of w 100 100 100 100 100 \<le> 100"
  by (auto simp: total_of_def Let_def weights_ok_def field_simps)

lemma total_range:
  assumes "weights_ok w" and "0 \<le> v \<and> v \<le> 100" "0 \<le> ve \<and> ve \<le> 100" "0 \<le> r \<and> r \<le> 100" "0 \<le> d \<and> d \<le> 100" "0 \<le> a \<and> a \<le> 100"
  shows "0 \<le> total_of w v ve r d a \<and> total_of w v ve r d a \<le> 100"
  using total_mono [of w 0 v 0 ve 0 r 0 d 0 a] total_mono [of w v 100 ve 100 r 100 d 100 a 100] total_const [of w] assms by simp

lemma round_range: "0 \<le> x \<and> x \<le> 100 \<Longrightarrow> 0 \<le> py_round 2 x \<and> py_round 2 x \<le> (100::real)"
  using py_round_range [of 0 x 100 2] by simp

definition in_percent :: "risk_breakdown \<Rightarrow> bool" where
  "in_percent b = (\<forall>x\<in>{rb_volume b, rb_velocity b, rb_reputation b, rb_diversity b, rb_asset b, rb_total b}. 0 \<le> x \<and> x \<le> 100)"

lemma compute_risk_percent: "weights_ok (weights p) \<Longrightarrow> in_percent (compute_risk addr_in cl p r)"
  by (simp add: in_percent_def compute_risk_def Let_def round_range volume_range velocity_range diversity_range clamp_range total_range)

lemma routing_shape:
  "\<exists>t. compute_routing_risk addr_in cl p orep =
     (compute_risk addr_in cl p (case orep of None \<Rightarrow> 0 | Some r \<Rightarrow> r))\<lparr>rb_total := py_round 2 (clamp t)\<rparr>"
  by (auto simp: compute_routing_risk_def Let_def split: prod.splits)

text \<open>
  Risk scores are percentages. With weights that are not negative every factor and both totals lie between 0
  and 100, whatever the networks, criticalities and the reputation are, also with all weights zero.
\<close>

theorem risk_bounded:
  assumes "weights_ok (weights p)"
  shows "in_percent (compute_risk addr_in cl p rep) \<and> in_percent (compute_routing_risk addr_in cl p orep)"
proof -
  obtain t where t: "compute_routing_risk addr_in cl p orep =
      (compute_risk addr_in cl p (case orep of None \<Rightarrow> 0 | Some r \<Rightarrow> r))\<lparr>rb_total := py_round 2 (clamp t)\<rparr>"
    using routing_shape by blast
  show ?thesis
    using compute_risk_percent [OF assms] round_range [OF clamp_range, of t] unfolding t by (auto simp: in_percent_def)
qed

lemma risk_bounded_witness:
  "in_percent (compute_risk (\<lambda>_ _. False) sample_cluster \<lparr>weights = default_weights, asset_networks = [], asset_map = []\<rparr> 250)"
  using risk_bounded [of "\<lparr>weights = default_weights, asset_networks = [], asset_map = []\<rparr>" "\<lambda>_ _. False" sample_cluster 250 None]
  by (simp add: weights_ok_def default_weights_def)

text \<open>
  More evidence never lowers the risk. With the same window and entity, a cluster with at least as many events and
  rules and an entity of at least the same reputation scores at least as high, rounding included.
\<close>

theorem risk_monotone:
  assumes "weights_ok (weights p)" and "cl_count cl \<le> cl_count cl'" and "length (rule_values cl) \<le> length (rule_values cl')"
    and "window_seconds cl' \<le> window_seconds cl" and "snd (cl_entity cl) = snd (cl_entity cl')" and "rep \<le> rep'"
  shows "rb_total (compute_risk addr_in cl p rep) \<le> rb_total (compute_risk addr_in cl' p rep')"
proof -
  let ?a = "clamp (asset_criticality addr_in p (snd (cl_entity cl')))"
  have "total_of (weights p) (volume_of (cl_count cl)) (velocity_of (cl_count cl) (window_seconds cl)) (clamp rep)
          (diversity_of (length (rule_values cl))) ?a
      \<le> total_of (weights p) (volume_of (cl_count cl')) (velocity_of (cl_count cl') (window_seconds cl')) (clamp rep')
          (diversity_of (length (rule_values cl'))) ?a"
    using assms by (intro total_mono volume_mono velocity_mono clamp_mono diversity_mono order_refl)
  then show ?thesis unfolding compute_risk_def Let_def by (simp add: assms(5) py_round_mono)
qed

lemma risk_monotone_witness:
  "rb_total (compute_risk (\<lambda>_ _. False) sample_cluster \<lparr>weights = default_weights, asset_networks = [], asset_map = []\<rparr> 10) \<le>
   rb_total (compute_risk (\<lambda>_ _. False) (sample_cluster\<lparr>cl_count := cl_count sample_cluster + 5\<rparr>)
     \<lparr>weights = default_weights, asset_networks = [], asset_map = []\<rparr> 20)"
  by (rule risk_monotone) (simp_all add: weights_ok_def default_weights_def window_seconds_def)

text \<open>
  Without enrichment and asset context the canonical total cannot pass 60, so a floor of 70 is out of reach; the routing
  total of the same cluster reaches 100.
\<close>

lemma fresh_install_routing:
  assumes p: "p = \<lparr>weights = default_weights, asset_networks = [], asset_map = []\<rparr>"
  shows "rb_total (compute_risk addr_in cl p 0) \<le> 60"
    and "rb_volume (compute_risk addr_in cl p 0) = 100 \<Longrightarrow> rb_velocity (compute_risk addr_in cl p 0) = 100 \<Longrightarrow>
      rb_diversity (compute_risk addr_in cl p 0) = 100 \<Longrightarrow> rb_total (compute_routing_risk addr_in cl p None) = 100"
proof -
  have "total_of default_weights v ve 0 d 0 \<le> 60" if "v \<le> 100" "ve \<le> 100" "d \<le> 100" for v ve d
    using that by (simp add: total_of_def default_weights_def)
  then have "total_of default_weights (volume_of (cl_count cl)) (velocity_of (cl_count cl) (window_seconds cl)) 0
      (diversity_of (length (rule_values cl))) 0 \<le> 60"
    using volume_range velocity_range diversity_range by blast
  from py_round_mono [OF this, of 2] show "rb_total (compute_risk addr_in cl p 0) \<le> 60"
    by (simp add: compute_risk_def Let_def p clamp_def asset_criticality_def dget_def)
  show "rb_total (compute_routing_risk addr_in cl p None) = 100"
    if "rb_volume (compute_risk addr_in cl p 0) = 100" "rb_velocity (compute_risk addr_in cl p 0) = 100"
      "rb_diversity (compute_risk addr_in cl p 0) = 100"
    using that by (simp add: compute_routing_risk_def Let_def has_asset_context_def p dkeys_def default_weights_def clamp_def)
qed

end
