(* ===== verification/Case_Docs.thy ===== *)
theory Case_Docs
  imports Case_Manager Risk
begin

section \<open>Case documents\<close>

text \<open>
  \<^verbatim>\<open>models.Case\<close> and the store of cases as far as ingestion and the pipeline write them. The texts derived from
  the cluster (title, summary, reproduce query), the retrieval metrics and the build stamp are left out. What people
  and later passes put on a case is grouped in \<open>case_work\<close>. The history is a list of events; the
  decision events are those of \<open>Case_Manager\<close>.
\<close>

datatype source_surface = INVESTIGATE | AUTOMATED_SCAN | CHAT

datatype awaiting =
    Not_awaiting
  | Deferred_by_cap
  | Background_off
  | Below_feed_floor
  | Auto_correlate_off
  | Below_risk_floor int int

datatype case_event =
    Decided history_entry
  | Attached real nat
  | Policy_closed real "string list" "string list"

datatype status_change =
    By_decision status_history_entry
  | By_policy string string real

record verdict_entry =
  vh_ts :: real
  vh_verdict :: verdict
  vh_confidence :: real
  vh_risk :: real

record policy_match =
  pm_policy_ids :: "string list"
  pm_rule_ids :: "string list"
  pm_reasons :: "string list"

record case_work =
  feedback :: "string list"
  tags :: "string list"
  comments :: "string list"
  assignee :: string
  acknowledged_at :: "real option"
  campaign_id :: "string option"
  related_case_ids :: "string list"
  cross_source_cluster_id :: string

definition no_work :: case_work where
  "no_work = \<lparr>feedback = [], tags = [], comments = [], assignee = [], acknowledged_at = None, campaign_id = None,
     related_case_ids = [], cross_source_cluster_id = []\<rparr>"

record case_doc =
  d_id :: string
  d_signature :: string
  d_number :: string
  d_created_at :: real
  d_updated_at :: real
  d_surface :: source_surface
  d_origin :: "source_surface option"
  d_rule_ids :: "string list"
  d_entity :: "entity_type \<times> string"
  d_source_id :: "string option"
  d_source_name :: "string option"
  d_event_ids :: "string list"
  d_event_keys :: "string list"
  d_first_seen :: int
  d_trigger :: "trigger_reason option"
  d_risk :: risk_breakdown
  d_verdict :: "verdict option"
  d_confidence :: real
  d_evidence :: "string list"
  d_status :: case_status
  d_disposition :: "disposition option"
  d_decision_by :: "decision_by option"
  d_objection :: "real option"
  d_escalation :: int
  d_awaiting :: awaiting
  d_persona :: string
  d_playbook :: string
  d_token_cost :: real
  d_error :: "string option"
  d_verdict_history :: "verdict_entry list"
  d_status_history :: "status_change list"
  d_history :: "case_event list"
  d_precedent :: "string option"
  d_policy :: "policy_match option"
  d_work :: case_work

subsection \<open>Open cases\<close>

definition OPEN_CASE_STATUSES :: "case_status list" where
  "OPEN_CASE_STATUSES = [ST_NEW, ST_OPEN, ST_NEEDS_HUMAN, ST_INVESTIGATING, ST_ESCALATED, ST_ON_HOLD]"

definition is_open :: "case_doc \<Rightarrow> bool" where
  "is_open d = (d_status d \<in> set OPEN_CASE_STATUSES)"

type_synonym case_docs = "(string, case_doc) dict"

definition find_open_by_signature :: "case_docs \<Rightarrow> string \<Rightarrow> case_doc option" where
  "find_open_by_signature docs sig =
     (case sort_key (\<lambda>d. - d_updated_at d) (filter (\<lambda>d. d_signature d = sig \<and> is_open d) (dvals docs)) of
        [] \<Rightarrow> None
      | d # ds \<Rightarrow> Some d)"

definition save_case :: "case_doc \<Rightarrow> case_docs \<Rightarrow> case_docs" where
  "save_case d docs = dset docs (d_id d) d"

definition find_for_cluster :: "(string \<Rightarrow> string) \<Rightarrow> case_docs \<Rightarrow> cluster \<Rightarrow> case_doc option" where
  "find_for_cluster digest docs cl =
     (case find_open_case_for_cluster digest
             (\<lambda>sig. map_option (\<lambda>d. \<lparr>oc_id = d_id d, oc_source_id = d_source_id d\<rparr>) (find_open_by_signature docs sig)) cl of
        None \<Rightarrow> None
      | Some oc \<Rightarrow> dget docs (oc_id oc))"

subsection \<open>Merging a cluster into a case\<close>

definition case_event_keys :: "case_doc \<Rightarrow> string list" where
  "case_event_keys d = (if d_event_keys d \<noteq> [] then d_event_keys d else d_event_ids d)"

definition cluster_event_keys :: "cluster \<Rightarrow> string list" where
  "cluster_event_keys cl = (if member_event_keys cl \<noteq> [] then member_event_keys cl else member_event_ids cl)"

definition unknown_by_id :: "case_doc \<Rightarrow> cluster \<Rightarrow> string list" where
  "unknown_by_id d cl =
     map fst (filter (\<lambda>(key, event_id). event_id \<notin> set (d_event_ids d)) (zip (cluster_event_keys cl) (member_event_ids cl)))"

definition merge_event_keys :: "case_doc option \<Rightarrow> cluster \<Rightarrow> string list" where
  "merge_event_keys existing cl =
     (case existing of
        None \<Rightarrow> fromkeys (cluster_event_keys cl)
      | Some d \<Rightarrow> fromkeys (case_event_keys d @ (if d_event_keys d = [] then unknown_by_id d cl else cluster_event_keys cl)))"

definition merge_event_ids :: "case_doc option \<Rightarrow> cluster \<Rightarrow> string list" where
  "merge_event_ids existing cl = fromkeys ((case existing of None \<Rightarrow> [] | Some d \<Rightarrow> d_event_ids d) @ member_event_ids cl)"

definition merge_rules :: "case_doc option \<Rightarrow> cluster \<Rightarrow> string list" where
  "merge_rules existing cl = sort (remdups ((case existing of None \<Rightarrow> [] | Some d \<Rightarrow> d_rule_ids d) @ rule_values cl))"

definition first_seen_of :: "case_doc option \<Rightarrow> cluster \<Rightarrow> int" where
  "first_seen_of existing cl =
     (case filter (\<lambda>v. 0 < v) [case existing of None \<Rightarrow> 0 | Some d \<Rightarrow> d_first_seen d, first_seen_millis cl] of
        [] \<Rightarrow> 0
      | [v] \<Rightarrow> v
      | v # w # _ \<Rightarrow> min v w)"

definition source_id_of :: "case_doc option \<Rightarrow> cluster \<Rightarrow> string option" where
  "source_id_of existing cl = (if nonempty (cl_source_id cl) then cl_source_id cl else (case existing of None \<Rightarrow> None | Some d \<Rightarrow> d_source_id d))"

definition source_name_of :: "case_doc option \<Rightarrow> cluster \<Rightarrow> string option" where
  "source_name_of existing cl =
     (if nonempty (cl_source_name cl) then cl_source_name cl else (case existing of None \<Rightarrow> None | Some d \<Rightarrow> d_source_name d))"

definition trigger_of :: "case_doc option \<Rightarrow> cluster \<Rightarrow> trigger_reason option" where
  "trigger_of existing cl =
     (if cl_trigger cl \<noteq> None then cl_trigger cl else (case existing of None \<Rightarrow> None | Some d \<Rightarrow> d_trigger d))"

definition preserved_surface :: "case_doc option \<Rightarrow> source_surface \<Rightarrow> source_surface" where
  "preserved_surface existing surface = (case existing of None \<Rightarrow> surface | Some d \<Rightarrow> d_surface d)"

definition origin_surface :: "case_doc option \<Rightarrow> source_surface \<Rightarrow> source_surface option" where
  "origin_surface existing surface =
     (case existing of None \<Rightarrow> Some surface
      | Some d \<Rightarrow> (case d_origin d of Some s \<Rightarrow> Some s | None \<Rightarrow> Some (d_surface d)))"

subsection \<open>Attaching\<close>

definition attach_cluster :: "real \<Rightarrow> case_doc \<Rightarrow> cluster \<Rightarrow> case_doc option" where
  "attach_cluster now d cl =
     (let prior = case_event_keys d;
          new = (if d_event_keys d \<noteq> [] then filter (\<lambda>k. k \<notin> set prior) (cluster_event_keys cl) else unknown_by_id d cl);
          merged = fromkeys (prior @ new)
      in if length merged = length prior then None
         else Some (d\<lparr>d_event_keys := merged, d_event_ids := fromkeys (d_event_ids d @ member_event_ids cl),
                d_signature := signature cl,
                d_source_id := (if nonempty (cl_source_id cl) then cl_source_id cl else d_source_id d),
                d_source_name := (if nonempty (cl_source_name cl) then cl_source_name cl else d_source_name d),
                d_updated_at := now, d_rule_ids := sort (remdups (d_rule_ids d @ rule_values cl)),
                d_history := d_history d @ [Attached now (length merged - length prior)],
                d_trigger := (if d_trigger d = None \<and> cl_trigger cl \<noteq> None then cl_trigger cl else d_trigger d)\<rparr>))"

end
