(* ===== verification/Case_Pipeline.thy ===== *)
theory Case_Pipeline
  imports Case_Docs
begin

section \<open>The writers of the pipeline\<close>

text \<open>
  \<^verbatim>\<open>agents/pipeline.py\<close>: closing by an operator's rule policy, registering a candidate, and an
  investigation around the model run. The run itself (enrichment, personas, playbooks, graph and tools) is the
  \<open>run\<close> each call is given: what it answered, or that it ran out of time, or that something raised. Saving may fail:
  \<open>saves\<close> says which documents the store takes.
\<close>

subsection \<open>Analyst rule policies\<close>

record rule_policy =
  rp_id :: string
  rp_rule_id :: string
  rp_reason :: string
  rp_source_id :: "string option"
  rp_enabled :: bool
  rp_max_risk :: "real option"
  rp_expires_at :: "real option"

definition policy_live :: "real \<Rightarrow> rule_policy \<Rightarrow> bool" where
  "policy_live now rp = (rp_enabled rp \<and> (case rp_expires_at rp of None \<Rightarrow> True | Some e \<Rightarrow> \<not> e \<le> now))"

definition policy_applies :: "real \<Rightarrow> string \<Rightarrow> real \<Rightarrow> rule_policy \<Rightarrow> bool" where
  "policy_applies now scope risk rp =
     (policy_live now rp \<and>
      (let own = (case rp_source_id rp of None \<Rightarrow> [] | Some s \<Rightarrow> s) in own = [] \<or> own = scope) \<and>
      (case rp_max_risk rp of None \<Rightarrow> True | Some limit \<Rightarrow> \<not> limit < risk))"

definition wanted_rules :: "string list \<Rightarrow> string list" where
  "wanted_rules rule_ids = sort (remdups (filter (\<lambda>r. r \<noteq> []) (map py_strip rule_ids)))"

definition cover_step ::
  "real \<Rightarrow> string \<Rightarrow> real \<Rightarrow> string list \<Rightarrow> (string, string \<times> string) dict \<Rightarrow> rule_policy \<Rightarrow> (string, string \<times> string) dict" where
  "cover_step now scope risk wanted covered rp =
     (let target = py_strip (rp_rule_id rp)
      in if \<not> policy_applies now scope risk rp \<or> target = [] \<or> target \<notin> set wanted \<or> target \<in> set (dkeys covered) then covered
         else dset covered target (rp_id rp, rp_reason rp))"

definition match_analyst_rule_policy ::
  "real \<Rightarrow> string list \<Rightarrow> string option \<Rightarrow> rule_policy list \<Rightarrow> real \<Rightarrow> policy_match option" where
  "match_analyst_rule_policy now rule_ids source_id policies risk =
     (let wanted = wanted_rules rule_ids;
          covered = foldl (cover_step now (case source_id of None \<Rightarrow> [] | Some s \<Rightarrow> s) risk wanted) [] policies
      in if wanted = [] \<or> length covered \<noteq> length wanted then None
         else Some \<lparr>pm_policy_ids = map (\<lambda>r. fst (the (dget covered r))) wanted, pm_rule_ids = wanted,
                    pm_reasons = map (\<lambda>r. snd (the (dget covered r))) wanted\<rparr>)"

subsection \<open>The pipeline\<close>

text \<open>\<^verbatim>\<open>utils.truncate\<close>; the ellipsis is written as its UTF-8 bytes.\<close>

definition truncate_text :: "nat \<Rightarrow> string \<Rightarrow> string" where
  "truncate_text limit s = (if length s \<le> limit then s else take (limit - 1) s @ [CHR 0xE2, CHR 0x80, CHR 0xA6])"

record pipeline =
  digest :: "string \<Rightarrow> string"
  addr_in :: "string \<Rightarrow> string \<Rightarrow> bool"
  risk_of :: risk_prefs
  rule_policies :: "rule_policy list"
  manager :: case_manager
  killed :: bool
  next_number :: "cluster \<Rightarrow> string"
  new_id :: "string list \<Rightarrow> string"
  saves :: "case_doc \<Rightarrow> bool"

datatype outcome =
    Answered verdict real "string list"
  | Timed_out "string option"
  | Raised string risk_breakdown

record run =
  outcome_of :: outcome
  run_cost :: real
  run_persona :: string
  run_playbook :: string
  run_reputation :: real
  run_precedent :: "string option"
  recorded_cost :: "real option"

definition allocate_case_number :: "pipeline \<Rightarrow> case_doc option \<Rightarrow> cluster \<Rightarrow> string" where
  "allocate_case_number p existing cl =
     (case existing of Some d \<Rightarrow> if d_number d \<noteq> [] then d_number d else next_number p cl | None \<Rightarrow> next_number p cl)"

text \<open>A fresh document: what every writer takes from the cluster and the case it replaces; the other fields have their defaults.\<close>

definition fresh_doc :: "string \<Rightarrow> real \<Rightarrow> source_surface \<Rightarrow> case_doc option \<Rightarrow> cluster \<Rightarrow> case_doc" where
  "fresh_doc case_id now surface existing cl =
     \<lparr>d_id = case_id, d_signature = signature cl, d_number = [],
      d_created_at = (case existing of None \<Rightarrow> now | Some d \<Rightarrow> d_created_at d), d_updated_at = now,
      d_surface = preserved_surface existing surface, d_origin = origin_surface existing surface,
      d_rule_ids = merge_rules existing cl, d_entity = cl_entity cl,
      d_source_id = source_id_of existing cl, d_source_name = source_name_of existing cl,
      d_event_ids = merge_event_ids existing cl, d_event_keys = merge_event_keys existing cl,
      d_first_seen = first_seen_of existing cl, d_trigger = trigger_of existing cl,
      d_risk = \<lparr>rb_volume = 0, rb_velocity = 0, rb_reputation = 0, rb_diversity = 0, rb_asset = 0, rb_total = 0\<rparr>,
      d_verdict = None, d_confidence = 0, d_evidence = [], d_status = ST_OPEN, d_disposition = None, d_decision_by = None,
      d_objection = None, d_escalation = 0, d_awaiting = Not_awaiting, d_persona = [], d_playbook = [], d_token_cost = 0,
      d_error = None, d_verdict_history = (case existing of None \<Rightarrow> [] | Some d \<Rightarrow> d_verdict_history d), d_status_history = [],
      d_history = (case existing of None \<Rightarrow> [] | Some d \<Rightarrow> d_history d),
      d_precedent = (case existing of None \<Rightarrow> None | Some d \<Rightarrow> d_precedent d), d_policy = None, d_work = no_work\<rparr>"

definition close_by_analyst_policy ::
  "pipeline \<Rightarrow> real \<Rightarrow> source_surface \<Rightarrow> string \<Rightarrow> bool \<Rightarrow> case_doc option \<Rightarrow> cluster \<Rightarrow> case_doc option" where
  "close_by_analyst_policy p now surface case_id force existing cl =
     (if (case existing of None \<Rightarrow> False | Some d \<Rightarrow> d_verdict d \<noteq> None \<or> d_decision_by d = Some BY_ANALYST) \<or> force then None
      else let risk = compute_risk (addr_in p) cl (risk_of p) 0
           in case match_analyst_rule_policy now (merge_rules existing cl) (cl_source_id cl) (rule_policies p) (rb_total risk) of
                None \<Rightarrow> None
              | Some m \<Rightarrow>
                  let prev = map_option d_status existing
                  in Some ((fresh_doc case_id now surface existing cl)
                       \<lparr>d_number := allocate_case_number p existing cl, d_risk := risk, d_status := ST_CLOSED,
                        d_disposition := Some D_FALSE_POSITIVE, d_decision_by := Some BY_ANALYST_POLICY,
                        d_token_cost := (case existing of None \<Rightarrow> 0 | Some d \<Rightarrow> d_token_cost d),
                        d_work := (case existing of None \<Rightarrow> no_work
                                   | Some d \<Rightarrow> no_work\<lparr>feedback := feedback (d_work d), tags := tags (d_work d),
                                       comments := comments (d_work d), assignee := assignee (d_work d)\<rparr>),
                        d_history := (case existing of None \<Rightarrow> [] | Some d \<Rightarrow> d_history d) @
                          [Policy_closed now (pm_policy_ids m) (pm_rule_ids m)],
                        d_status_history := (case existing of None \<Rightarrow> [] | Some d \<Rightarrow> d_status_history d) @
                          (if prev = Some ST_CLOSED then []
                           else [By_policy (case prev of None \<Rightarrow> [] | Some s \<Rightarrow> status_value s) (status_value ST_CLOSED) now]),
                        d_policy := Some m\<rparr>))"

definition register_candidate ::
  "pipeline \<Rightarrow> real \<Rightarrow> source_surface \<Rightarrow> awaiting \<Rightarrow> cluster \<Rightarrow> case_docs \<Rightarrow> case_docs \<times> case_doc option" where
  "register_candidate p now surface reason cl docs =
     (let existing = find_for_cluster (digest p) docs cl;
          case_id = (case existing of None \<Rightarrow> new_id p (dkeys docs) | Some d \<Rightarrow> d_id d);
          d = (case close_by_analyst_policy p now surface case_id False existing cl of
                 Some shut \<Rightarrow> shut
               | None \<Rightarrow> (fresh_doc case_id now surface existing cl)
                   \<lparr>d_number := allocate_case_number p existing cl, d_risk := compute_risk (addr_in p) cl (risk_of p) 0,
                    d_awaiting := reason\<rparr>)
      in if saves p d then (save_case d docs, Some d) else (docs, None))"

definition assemble_case ::
  "pipeline \<Rightarrow> real \<Rightarrow> source_surface \<Rightarrow> string \<Rightarrow> case_doc option \<Rightarrow> cluster \<Rightarrow> run \<Rightarrow> verdict \<Rightarrow> real \<Rightarrow> string list \<Rightarrow> string option \<Rightarrow> case_doc" where
  "assemble_case p now surface case_id existing cl r v confidence evidence err =
     (let risk = compute_risk (addr_in p) cl (risk_of p) (run_reputation r);
          d = fresh_doc case_id now surface existing cl
      in d\<lparr>d_number := allocate_case_number p existing cl, d_risk := risk, d_verdict := Some v, d_confidence := confidence,
           d_evidence := evidence,
           d_error := (if nonempty err then map_option (truncate_text 500) err else None),
           d_token_cost := py_round 6 ((case existing of None \<Rightarrow> 0 | Some e \<Rightarrow> d_token_cost e) + run_cost r),
           d_verdict_history := d_verdict_history d @
             [\<lparr>vh_ts = now, vh_verdict = v, vh_confidence = confidence, vh_risk = rb_total risk\<rparr>],
           d_persona := str_or (run_persona r) (case existing of None \<Rightarrow> [] | Some e \<Rightarrow> d_persona e),
           d_playbook := str_or (run_playbook r) (case existing of None \<Rightarrow> [] | Some e \<Rightarrow> d_playbook e),
           d_precedent := (if run_precedent r \<noteq> None then run_precedent r else d_precedent d)\<rparr>)"

definition fail_to_human_case ::
  "real \<Rightarrow> source_surface \<Rightarrow> string \<Rightarrow> case_doc option \<Rightarrow> cluster \<Rightarrow> string \<Rightarrow> risk_breakdown \<Rightarrow> case_doc" where
  "fail_to_human_case now surface case_id existing cl err risk =
     (fresh_doc case_id now surface existing cl)
       \<lparr>d_risk := risk, d_verdict := Some NEEDS_HUMAN, d_status := ST_NEEDS_HUMAN, d_decision_by := Some BY_SYSTEM,
        d_error := Some (truncate_text 500 err)\<rparr>"

definition reconcile_cost :: "run \<Rightarrow> case_doc option \<Rightarrow> case_doc \<Rightarrow> case_doc" where
  "reconcile_cost r existing d =
     (case recorded_cost r of
        None \<Rightarrow> d
      | Some rec \<Rightarrow>
          if d_token_cost d \<le> rec + 1 / 1000000 \<and>
             (run_cost r \<le> 0 \<or> (case existing of None \<Rightarrow> 0 | Some e \<Rightarrow> d_token_cost e) < rec)
          then d\<lparr>d_token_cost := rec\<rparr> else d)"

subsection \<open>The Case Manager on a document\<close>

definition kase_of :: "case_doc \<Rightarrow> kase" where
  "kase_of d =
     \<lparr>k_verdict = d_verdict d, k_confidence = d_confidence d, k_risk_score = rb_total (d_risk d), k_status = d_status d,
      k_decision_by = d_decision_by d, k_objection_window_expires_at = d_objection d, k_updated_at = d_updated_at d,
      k_escalation_level = d_escalation d, k_disposition = d_disposition d, k_status_history = [], k_history = []\<rparr>"

definition with_kase :: "case_doc \<Rightarrow> kase \<Rightarrow> case_doc" where
  "with_kase d k =
     d\<lparr>d_status := k_status k, d_decision_by := k_decision_by k, d_objection := k_objection_window_expires_at k,
       d_updated_at := k_updated_at k, d_escalation := k_escalation_level k, d_disposition := k_disposition k,
       d_status_history := d_status_history d @ map By_decision (k_status_history k),
       d_history := d_history d @ map Decided (k_history k)\<rparr>"

definition apply_doc :: "case_manager \<Rightarrow> real \<Rightarrow> case_doc \<Rightarrow> cm_error + case_doc" where
  "apply_doc cm now d = (case apply_case cm now now (kase_of d) of Inl e \<Rightarrow> Inl e | Inr k \<Rightarrow> Inr (with_kase d k))"

subsection \<open>An investigation\<close>

datatype effect = Unchanged case_doc | Store case_doc | Fails string risk_breakdown

definition new_keys :: "case_doc \<Rightarrow> cluster \<Rightarrow> string list" where
  "new_keys d cl =
     (if d_event_keys d \<noteq> [] then filter (\<lambda>k. k \<notin> set (case_event_keys d)) (cluster_event_keys cl) else unknown_by_id d cl)"

definition decided_effect ::
  "pipeline \<Rightarrow> real \<Rightarrow> source_surface \<Rightarrow> string \<Rightarrow> case_doc option \<Rightarrow> cluster \<Rightarrow> run \<Rightarrow> verdict \<Rightarrow> real \<Rightarrow> string list \<Rightarrow> string option \<Rightarrow> effect" where
  "decided_effect p now surface case_id existing cl r v confidence evidence err =
     (let d = reconcile_cost r existing (assemble_case p now surface case_id existing cl r v confidence evidence err)
      in case apply_doc (manager p) now d of Inl e \<Rightarrow> Fails ''AssertionError'' (d_risk d) | Inr d' \<Rightarrow> Store d')"

definition run_effect ::
  "pipeline \<Rightarrow> real \<Rightarrow> source_surface \<Rightarrow> string \<Rightarrow> case_doc option \<Rightarrow> cluster \<Rightarrow> run \<Rightarrow> effect" where
  "run_effect p now surface case_id existing cl r =
     (case outcome_of r of
        Raised err risk \<Rightarrow> Fails err risk
      | Answered v confidence evidence \<Rightarrow>
          if killed p then decided_effect p now surface case_id existing cl r NEEDS_HUMAN 0 [] None
          else decided_effect p now surface case_id existing cl r v confidence evidence None
      | Timed_out err \<Rightarrow>
          if killed p then decided_effect p now surface case_id existing cl r NEEDS_HUMAN 0 [] None
          else decided_effect p now surface case_id existing cl r NEEDS_HUMAN 0 [] err)"

definition investigation_effect ::
  "pipeline \<Rightarrow> real \<Rightarrow> source_surface \<Rightarrow> string \<Rightarrow> bool \<Rightarrow> case_doc option \<Rightarrow> cluster \<Rightarrow> run \<Rightarrow> effect" where
  "investigation_effect p now surface case_id force existing cl r =
     (case close_by_analyst_policy p now surface case_id force existing cl of
        Some d \<Rightarrow> Store d
      | None \<Rightarrow>
          (case existing of
             None \<Rightarrow> run_effect p now surface case_id existing cl r
           | Some d \<Rightarrow> if d_verdict d \<noteq> None \<and> \<not> force \<and> new_keys d cl = [] then Unchanged d
                      else run_effect p now surface case_id existing cl r))"

definition investigate_cluster ::
  "pipeline \<Rightarrow> real \<Rightarrow> source_surface \<Rightarrow> bool \<Rightarrow> cluster \<Rightarrow> run \<Rightarrow> case_docs \<Rightarrow> case_docs \<times> case_doc option" where
  "investigate_cluster p now surface force cl r docs =
     (let existing = find_for_cluster (digest p) docs cl;
          case_id = (case existing of None \<Rightarrow> new_id p (dkeys docs) | Some d \<Rightarrow> d_id d);
          fail = (\<lambda>err risk. let d = fail_to_human_case now surface case_id existing cl err risk
                             in if saves p d then (save_case d docs, Some d) else (docs, None))
      in case investigation_effect p now surface case_id force existing cl r of
           Unchanged d \<Rightarrow> (docs, Some d)
         | Store d \<Rightarrow> if saves p d then (save_case d docs, Some d) else fail ''could not save'' (d_risk d)
         | Fails err risk \<Rightarrow> fail err risk)"

end
