(* ===== verification/Ingest.thy ===== *)
theory Ingest
  imports Case_Pipeline Case_Budget Feeds
begin

section \<open>From clusters to cases\<close>

text \<open>
  \<^verbatim>\<open>engine/ingest.py\<close>: the gates a cluster passes, the allowance of investigations per tick and
  \<open>handle_clusters\<close>. The section between finding a case and saving it runs under the lock of the cluster's signature, so
  one cluster is one step. The glob matching of feed patterns and the model runs are arguments.
\<close>

subsection \<open>Gates\<close>

record log_source =
  ls_id :: string
  ls_feeds :: "feed list"
  ls_auto_correlate :: bool

record ingest_prefs =
  log_sources :: "log_source list"
  allowlist :: "string list"
  risk_floor :: int
  background_scan :: bool
  max_per_tick :: int
  suppressions :: "suppression_rule list"

record ingest =
  ip :: ingest_prefs
  fnmatch :: "string \<Rightarrow> string \<Rightarrow> bool"
  shw :: "json \<Rightarrow> string"
  pipe :: pipeline
  surface :: source_surface

definition source_of :: "ingest_prefs \<Rightarrow> cluster \<Rightarrow> log_source option" where
  "source_of pr cl = (if nonempty (cl_source_id cl) then find (\<lambda>s. cl_source_id cl = Some (ls_id s)) (log_sources pr) else None)"

definition feed_of_event :: "(string \<Rightarrow> string \<Rightarrow> bool) \<Rightarrow> feed list \<Rightarrow> raw_event \<Rightarrow> feed option" where
  "feed_of_event glob fs ev =
     (case (if feed_id ev = [] then None else find (\<lambda>f. feed_ident f = feed_id ev) (rev fs)) of
        Some f \<Rightarrow> Some f
      | None \<Rightarrow> if ev_index ev = [] then None else feed_for_index glob fs (ev_index ev))"

definition auto_correlate_allowed :: "ingest \<Rightarrow> cluster \<Rightarrow> bool" where
  "auto_correlate_allowed g cl =
     (case source_of (ip g) cl of
        None \<Rightarrow> True
      | Some src \<Rightarrow>
          ls_auto_correlate src \<and>
          (ls_feeds src = [] \<or>
           list_all (\<lambda>ev. case feed_of_event (fnmatch g) (ls_feeds src) ev of None \<Rightarrow> True | Some f \<Rightarrow> effective_auto_investigate f)
             (member_events cl)))"

definition is_ignored_cluster :: "ingest \<Rightarrow> cluster \<Rightarrow> bool" where
  "is_ignored_cluster g cl =
     (case source_of (ip g) cl of
        None \<Rightarrow> False
      | Some src \<Rightarrow>
          list_ex (\<lambda>f. f_role f = IGNORE) (ls_feeds src) \<and> member_events cl \<noteq> [] \<and>
          list_all (\<lambda>ev. case feed_of_event (fnmatch g) (ls_feeds src) ev of None \<Rightarrow> False | Some f \<Rightarrow> f_role f = IGNORE)
            (member_events cl))"

definition routing_score :: "ingest \<Rightarrow> cluster \<Rightarrow> real" where
  "routing_score g cl = rb_total (compute_routing_risk (addr_in (pipe g)) cl (risk_of (pipe g)) None)"

definition eligible :: "ingest \<Rightarrow> cluster \<Rightarrow> bool" where
  "eligible g cl =
     (background_scan (ip g) \<and> auto_investigate_eligible cl \<and> auto_correlate_allowed g cl \<and>
      (is_alert cl \<or> ''*'' \<in> set (allowlist (ip g)) \<or> list_ex (\<lambda>r. r \<in> set (allowlist (ip g))) (rule_values cl) \<or>
       of_int (risk_floor (ip g)) \<le> routing_score g cl))"

definition candidate_reason :: "ingest \<Rightarrow> bool \<Rightarrow> cluster \<Rightarrow> awaiting" where
  "candidate_reason g over_cap cl =
     (if over_cap then Deferred_by_cap
      else if \<not> background_scan (ip g) then Background_off
      else if \<not> auto_investigate_eligible cl then Below_feed_floor
      else if \<not> auto_correlate_allowed g cl then Auto_correlate_off
      else Below_risk_floor \<lfloor>routing_score g cl\<rfloor> (risk_floor (ip g)))"

subsection \<open>One cluster\<close>

record ingest_stats =
  s_investigated :: nat
  s_candidates :: nat
  s_attached :: nat
  s_suppressed :: nat
  s_ignored :: nat
  s_deferred :: nat

definition no_stats :: ingest_stats where
  "no_stats = \<lparr>s_investigated = 0, s_candidates = 0, s_attached = 0, s_suppressed = 0, s_ignored = 0, s_deferred = 0\<rparr>"

text \<open>
  \<open>claimed\<close> counts the allowance spent: that of the shared \<^verbatim>\<open>InvestigationBudget\<close>, or the local count of a
  caller without one. \<open>alive\<close> turns false when a document could not be stored and the exception escapes.
\<close>

record ingest_state =
  cases :: case_docs
  claimed :: nat
  stats :: ingest_stats
  alive :: bool

definition tick_cap :: "ingest_prefs \<Rightarrow> nat" where
  "tick_cap pr = nat (max 1 (max_per_tick pr))"

definition try_claim :: "nat \<Rightarrow> nat \<Rightarrow> bool \<times> nat" where
  "try_claim limit n = (if limit \<le> n then (False, n) else (True, Suc n))"

definition put_case :: "ingest \<Rightarrow> case_doc option \<Rightarrow> ingest_state \<Rightarrow> ingest_state" where
  "put_case g d st =
     (case d of
        None \<Rightarrow> st
      | Some d \<Rightarrow> if saves (pipe g) d then st\<lparr>cases := save_case d (cases st)\<rparr> else st\<lparr>alive := False\<rparr>)"

definition attach_decided :: "ingest \<Rightarrow> real \<Rightarrow> case_doc \<Rightarrow> cluster \<Rightarrow> ingest_state \<Rightarrow> ingest_state" where
  "attach_decided g now d cl st =
     (let st' = put_case g (attach_cluster now d cl) st
      in if alive st' then st'\<lparr>stats := (stats st')\<lparr>s_attached := Suc (s_attached (stats st'))\<rparr>\<rparr> else st')"

definition refresh_candidate :: "ingest \<Rightarrow> real \<Rightarrow> awaiting \<Rightarrow> case_doc \<Rightarrow> cluster \<Rightarrow> ingest_state \<Rightarrow> ingest_state" where
  "refresh_candidate g now reason d cl st =
     (let d' = d\<lparr>d_awaiting := reason\<rparr>;
          st' = put_case g (case attach_cluster now d' cl of
                              Some d'' \<Rightarrow> Some d''
                            | None \<Rightarrow> if d_awaiting d \<noteq> reason then Some d' else None) st
      in if alive st' then st'\<lparr>stats := (stats st')\<lparr>s_attached := Suc (s_attached (stats st'))\<rparr>\<rparr> else st')"

definition forward :: "ingest \<Rightarrow> real \<Rightarrow> cluster \<Rightarrow> run \<Rightarrow> ingest_state \<Rightarrow> ingest_state" where
  "forward g now cl r st =
     (case investigate_cluster (pipe g) now (surface g) False cl r (cases st) of
        (docs, Some d) \<Rightarrow> st\<lparr>cases := docs, stats := (stats st)\<lparr>s_investigated := Suc (s_investigated (stats st))\<rparr>\<rparr>
      | (docs, None) \<Rightarrow> st\<lparr>cases := docs, alive := False\<rparr>)"

definition register :: "ingest \<Rightarrow> real \<Rightarrow> awaiting \<Rightarrow> cluster \<Rightarrow> ingest_state \<Rightarrow> ingest_state" where
  "register g now reason cl st =
     (case register_candidate (pipe g) now (surface g) reason cl (cases st) of
        (docs, Some d) \<Rightarrow> st\<lparr>cases := docs, stats := (stats st)\<lparr>s_candidates := Suc (s_candidates (stats st))\<rparr>\<rparr>
      | (docs, None) \<Rightarrow> st\<lparr>cases := docs, alive := False\<rparr>)"

definition count_deferred :: "bool \<Rightarrow> ingest_state \<Rightarrow> ingest_state" where
  "count_deferred over_cap st =
     (if over_cap then st\<lparr>stats := (stats st)\<lparr>s_deferred := Suc (s_deferred (stats st))\<rparr>\<rparr> else st)"

definition triage :: "ingest \<Rightarrow> nat \<Rightarrow> real \<Rightarrow> cluster \<Rightarrow> run \<Rightarrow> case_doc option \<Rightarrow> ingest_state \<Rightarrow> ingest_state" where
  "triage g limit now cl r existing st =
     (let (forwarded, n) = (if eligible g cl then try_claim limit (claimed st) else (False, claimed st));
          over_cap = (eligible g cl \<and> \<not> forwarded);
          reason = candidate_reason g over_cap cl;
          st' = st\<lparr>claimed := n\<rparr>
      in if forwarded then forward g now cl r st'
         else case existing of
                Some d \<Rightarrow> refresh_candidate g now reason d cl (count_deferred over_cap st')
              | None \<Rightarrow> register g now reason cl (count_deferred over_cap st'))"

definition handle_cluster :: "ingest \<Rightarrow> nat \<Rightarrow> real \<Rightarrow> cluster \<Rightarrow> run \<Rightarrow> ingest_state \<Rightarrow> ingest_state" where
  "handle_cluster g limit now cl r st =
     (if is_ignored_cluster g cl then st\<lparr>stats := (stats st)\<lparr>s_ignored := Suc (s_ignored (stats st))\<rparr>\<rparr>
      else if \<not> passes_suppression (shw g) (map ev_source (member_events cl)) (suppressions (ip g)) now
      then st\<lparr>stats := (stats st)\<lparr>s_suppressed := Suc (s_suppressed (stats st))\<rparr>\<rparr>
      else case find_for_cluster (digest (pipe g)) (cases st) cl of
             Some d \<Rightarrow> if d_verdict d \<noteq> None then attach_decided g now d cl st else triage g limit now cl r (Some d) st
           | None \<Rightarrow> triage g limit now cl r None st)"

fun handle_clusters :: "ingest \<Rightarrow> nat \<Rightarrow> (real \<times> cluster \<times> run) list \<Rightarrow> ingest_state \<Rightarrow> ingest_state" where
  "handle_clusters g limit [] st = st"
| "handle_clusters g limit ((now, cl, r) # rest) st =
     (let st' = handle_cluster g limit now cl r st in if alive st' then handle_clusters g limit rest st' else st')"

end
