(* ===== verification/Ingest_Safety.thy ===== *)
theory Ingest_Safety
  imports Ingest
begin

section \<open>One case per signature, nothing dropped\<close>

text \<open>
  The contract of the case store as a locale, its instance, and what a sequence of clusters from any number of
  sources does to the cases: at most one open case per signature, decided cases attach only, every cluster that is
  not muted ends in a case, and the allowance bounds the investigations.
\<close>

subsection \<open>The case store\<close>

definition one_open :: "(string \<Rightarrow> case_doc option) \<Rightarrow> bool" where
  "one_open get = (\<forall>k k' d d'. get k = Some d \<longrightarrow> get k' = Some d' \<longrightarrow> is_open d \<longrightarrow> is_open d' \<longrightarrow>
     d_signature d = d_signature d' \<longrightarrow> k = k')"

locale case_repository =
  fixes find_open :: "'s \<Rightarrow> string \<Rightarrow> case_doc option"
    and get :: "'s \<Rightarrow> string \<Rightarrow> case_doc option"
    and put :: "case_doc \<Rightarrow> 's \<Rightarrow> 's"
    and ok :: "'s \<Rightarrow> bool"
  assumes found: "ok s \<Longrightarrow> find_open s sig = Some d \<Longrightarrow> get s (d_id d) = Some d \<and> d_signature d = sig \<and> is_open d"
    and missed: "ok s \<Longrightarrow> find_open s sig = None \<Longrightarrow> get s k = Some d \<Longrightarrow> is_open d \<Longrightarrow> d_signature d \<noteq> sig"
    and get_put: "get (put d s) k = (if k = d_id d then Some d else get s k)"
    and get_id: "ok s \<Longrightarrow> get s k = Some d \<Longrightarrow> d_id d = k"
    and ok_put: "ok s \<Longrightarrow> ok (put d s)"
begin

lemma put_same: "ok s \<Longrightarrow> one_open (get s) \<Longrightarrow> get s (d_id d) = Some e \<Longrightarrow> is_open e \<Longrightarrow> d_signature d = d_signature e \<Longrightarrow> one_open (get (put d s))"
  unfolding one_open_def get_put by (metis option.inject)

lemma put_new:
  assumes "ok s" "one_open (get s)" "find_open s (d_signature d) = None"
  shows "one_open (get (put d s))"
  using assms missed [OF assms(1,3)] unfolding one_open_def get_put by (metis option.inject)

lemma open_unique: "ok s \<Longrightarrow> one_open (get s) \<Longrightarrow> find_open s sig = Some d \<Longrightarrow> get s k = Some e \<Longrightarrow> is_open e \<Longrightarrow> d_signature e = sig \<Longrightarrow> e = d"
  using found [of s sig d] unfolding one_open_def by (metis option.inject)

end

definition docs_ok :: "case_docs \<Rightarrow> bool" where
  "docs_ok docs = (dict_ok docs \<and> (\<forall>(k, d)\<in>set docs. d_id d = k))"

lemma sorted_head:
  assumes "sort_key f xs = d # ds"
  shows "d \<in> set xs"
  using assms by (metis list.set_intros(1) set_sort)

interpretation store: case_repository find_open_by_signature dget save_case docs_ok
proof
  fix s :: case_docs and sig d k
  assume ok: "docs_ok s"
  show "dget s (d_id d) = Some d \<and> d_signature d = sig \<and> is_open d" if "find_open_by_signature s sig = Some d"
  proof -
    from that have "d \<in> set (filter (\<lambda>d. d_signature d = sig \<and> is_open d) (dvals s))"
      by (auto simp: find_open_by_signature_def split: list.splits dest!: sorted_head)
    then obtain k where "(k, d) \<in> set s" "d_signature d = sig" "is_open d" by (auto simp: dvals_def)
    moreover from this ok have "d_id d = k" by (auto simp: docs_ok_def)
    ultimately show ?thesis using ok by (simp add: docs_ok_def dget_eq_Some)
  qed
  show "d_signature d \<noteq> sig" if "find_open_by_signature s sig = None" "dget s k = Some d" "is_open d"
  proof
    assume "d_signature d = sig"
    moreover have "d \<in> set (dvals s)" using dget_Some_in [OF that(2)] by (force simp: dvals_def)
    ultimately have "filter (\<lambda>d. d_signature d = sig \<and> is_open d) (dvals s) \<noteq> []" using that(3) by (auto simp: filter_empty_conv)
    then have "sort_key (\<lambda>d. - d_updated_at d) (filter (\<lambda>d. d_signature d = sig \<and> is_open d) (dvals s)) \<noteq> []"
      by (metis length_0_conv length_sort)
    then show False using that(1) by (auto simp: find_open_by_signature_def split: list.splits)
  qed
  show "d_id d = k" if "dget s k = Some d" using dget_Some_in [OF that] ok by (auto simp: docs_ok_def)
  show "docs_ok (save_case d s)" using ok by (auto simp: docs_ok_def save_case_def in_dset_iff split: if_splits)
next
  fix s :: case_docs and d k
  show "dget (save_case d s) k = (if k = d_id d then Some d else dget s k)" by (simp add: save_case_def)
qed

lemma found_for_cluster:
  assumes ok: "docs_ok docs" and f: "find_for_cluster dg docs cl = Some d"
  shows "dget docs (d_id d) = Some d \<and> is_open d \<and> (d_signature d = signature cl \<or> find_open_by_signature docs (signature cl) = None)"
proof -
  let ?look = "\<lambda>sig. map_option (\<lambda>d. \<lparr>oc_id = d_id d, oc_source_id = d_source_id d\<rparr>) (find_open_by_signature docs sig)"
  obtain oc where oc: "find_open_case_for_cluster dg ?look cl = Some oc" "dget docs (oc_id oc) = Some d"
    using f by (auto simp: find_for_cluster_def split: option.splits)
  then obtain sig e where e: "find_open_by_signature docs sig = Some e" "oc_id oc = d_id e" "sig = signature cl \<or> find_open_by_signature docs (signature cl) = None"
    by (auto simp: find_open_case_for_cluster_def Let_def split: if_splits option.splits)
  from store.found [OF ok e(1)] e(2) oc(2) have "e = d" by simp
  then show ?thesis using store.found [OF ok e(1)] e(3) by auto
qed

lemma missed_for_cluster:
  assumes ok: "docs_ok docs" and f: "find_for_cluster dg docs cl = None"
  shows "find_open_by_signature docs (signature cl) = None"
proof (rule ccontr)
  assume "find_open_by_signature docs (signature cl) \<noteq> None"
  then obtain d where d: "find_open_by_signature docs (signature cl) = Some d" by blast
  then have "find_for_cluster dg docs cl = dget docs (d_id d)" by (simp add: find_for_cluster_def find_open_case_for_cluster_def)
  then show False using f store.found [OF ok d] by simp
qed

text \<open>Storing the document a writer makes for a cluster.\<close>

definition written_for :: "pipeline \<Rightarrow> case_docs \<Rightarrow> cluster \<Rightarrow> case_doc \<Rightarrow> bool" where
  "written_for p docs cl d =
     (case find_for_cluster (digest p) docs cl of
        None \<Rightarrow> d_id d = new_id p (dkeys docs) \<and> d_signature d = signature cl
      | Some e \<Rightarrow> d_id d = d_id e \<and> d_signature d \<in> {signature cl, d_signature e})"

lemma save_written:
  assumes ok: "docs_ok docs" "one_open (dget docs)" and w: "written_for p docs cl d"
  shows "docs_ok (save_case d docs)" "one_open (dget (save_case d docs))"
proof -
  show "docs_ok (save_case d docs)" by (rule store.ok_put [OF ok(1)])
  show "one_open (dget (save_case d docs))"
  proof (cases "find_for_cluster (digest p) docs cl")
    case None
    then show ?thesis using w missed_for_cluster [OF ok(1) None] by (intro store.put_new [OF ok]) (simp add: written_for_def)
  next
    case (Some e)
    note e = found_for_cluster [OF ok(1) Some]
    have id: "d_id d = d_id e" and sig: "d_signature d \<in> {signature cl, d_signature e}" using w Some by (simp_all add: written_for_def)
    show ?thesis
    proof (cases "d_signature d = d_signature e")
      case True
      then show ?thesis using e id by (intro store.put_same [OF ok]) auto
    next
      case False
      then have "d_signature d = signature cl" "find_open_by_signature docs (signature cl) = None" using sig e by auto
      then show ?thesis by (intro store.put_new [OF ok]) simp
    qed
  qed
qed

subsection \<open>What the writers write\<close>

lemma fresh_fields [simp]:
  "d_id (fresh_doc i now s e cl) = i" "d_signature (fresh_doc i now s e cl) = signature cl"
  "d_event_keys (fresh_doc i now s e cl) = merge_event_keys e cl" "d_work (fresh_doc i now s e cl) = no_work"
  "d_status_history (fresh_doc i now s e cl) = []" "d_number (fresh_doc i now s e cl) = []"
  "d_token_cost (fresh_doc i now s e cl) = 0" "d_status (fresh_doc i now s e cl) = ST_OPEN"
  "d_history (fresh_doc i now s e cl) = (case e of None \<Rightarrow> [] | Some d \<Rightarrow> d_history d)"
  by (simp_all add: fresh_doc_def)

lemma policy_doc:
  "close_by_analyst_policy p now s i force e cl = Some d \<Longrightarrow> d_id d = i \<and> d_signature d = signature cl \<and> d_event_keys d = merge_event_keys e cl"
  by (auto simp: close_by_analyst_policy_def Let_def split: if_splits option.splits)

lemma reconcile_fields [simp]:
  "d_id (reconcile_cost r e d) = d_id d" "d_signature (reconcile_cost r e d) = d_signature d"
  "d_event_keys (reconcile_cost r e d) = d_event_keys d" "d_work (reconcile_cost r e d) = d_work d"
  "d_status_history (reconcile_cost r e d) = d_status_history d" "d_verdict (reconcile_cost r e d) = d_verdict d"
  "d_history (reconcile_cost r e d) = d_history d" "d_status (reconcile_cost r e d) = d_status d"
  by (simp_all add: reconcile_cost_def split: option.splits)

lemma apply_doc_shape: "apply_doc cm now d = Inr d' \<Longrightarrow> \<exists>k. apply_case cm now now (kase_of d) = Inr k \<and> d' = with_kase d k"
  by (auto simp: apply_doc_def split: sum.splits)

lemma with_kase_fields [simp]:
  "d_id (with_kase d k) = d_id d" "d_signature (with_kase d k) = d_signature d" "d_event_keys (with_kase d k) = d_event_keys d"
  "d_work (with_kase d k) = d_work d" "d_verdict (with_kase d k) = d_verdict d"
  by (simp_all add: with_kase_def)

lemma assemble_fields [simp]:
  "d_id (assemble_case p now s i e cl r v c ev err) = i" "d_signature (assemble_case p now s i e cl r v c ev err) = signature cl"
  "d_event_keys (assemble_case p now s i e cl r v c ev err) = merge_event_keys e cl" "d_work (assemble_case p now s i e cl r v c ev err) = no_work"
  "d_verdict (assemble_case p now s i e cl r v c ev err) = Some v" "d_status_history (assemble_case p now s i e cl r v c ev err) = []"
  by (simp_all add: assemble_case_def Let_def)

lemma fail_fields [simp]:
  "d_id (fail_to_human_case now s i e cl err risk) = i" "d_signature (fail_to_human_case now s i e cl err risk) = signature cl"
  "d_event_keys (fail_to_human_case now s i e cl err risk) = merge_event_keys e cl" "d_work (fail_to_human_case now s i e cl err risk) = no_work"
  "d_verdict (fail_to_human_case now s i e cl err risk) = Some NEEDS_HUMAN" "d_status_history (fail_to_human_case now s i e cl err risk) = []"
  "d_number (fail_to_human_case now s i e cl err risk) = []" "d_token_cost (fail_to_human_case now s i e cl err risk) = 0"
  by (simp_all add: fail_to_human_case_def)

lemma decided_effect_doc:
  assumes "decided_effect p now s i e cl r v c ev err = Store d"
  shows "d_id d = i \<and> d_signature d = signature cl \<and> d_event_keys d = merge_event_keys e cl \<and> d_verdict d = Some v \<and> d_work d = no_work"
proof -
  let ?d = "reconcile_cost r e (assemble_case p now s i e cl r v c ev err)"
  have "apply_doc (manager p) now ?d = Inr d" using assms by (simp add: decided_effect_def Let_def split: sum.splits)
  then obtain k where "d = with_kase ?d k" using apply_doc_shape by blast
  then show ?thesis by simp
qed

lemma run_effect_doc:
  assumes "run_effect p now s i e cl r = Store d"
  shows "d_id d = i \<and> d_signature d = signature cl \<and> d_event_keys d = merge_event_keys e cl \<and> d_verdict d \<noteq> None \<and> d_work d = no_work"
  using assms by (cases "outcome_of r") (auto simp: run_effect_def dest!: decided_effect_doc split: if_splits)

lemma run_effect_changes: "run_effect p now s i e cl r \<noteq> Unchanged d"
  by (cases "outcome_of r") (simp_all add: run_effect_def decided_effect_def Let_def split: sum.splits)

lemma effect_doc:
  "investigation_effect p now s i force e cl r = Store d \<Longrightarrow>
     d_id d = i \<and> d_signature d = signature cl \<and> d_event_keys d = merge_event_keys e cl \<and>
     (d_verdict d \<noteq> None \<or> close_by_analyst_policy p now s i force e cl = Some d)"
  by (auto simp: investigation_effect_def split: option.splits if_splits dest: run_effect_doc policy_doc)

lemma effect_unchanged:
  "investigation_effect p now s i force e cl r = Unchanged d \<Longrightarrow> e = Some d \<and> d_verdict d \<noteq> None \<and> \<not> force \<and> new_keys d cl = []"
  by (auto simp: investigation_effect_def run_effect_changes split: option.splits if_splits)

lemma register_writes:
  assumes "register_candidate p now s reason cl docs = (docs', res)"
  shows "case res of None \<Rightarrow> docs' = docs
    | Some d \<Rightarrow> docs' = save_case d docs \<and> written_for p docs cl d \<and> d_event_keys d = merge_event_keys (find_for_cluster (digest p) docs cl) cl"
  using assms by (auto simp: register_candidate_def Let_def written_for_def split: option.splits if_splits dest: policy_doc)

lemma investigate_writes:
  assumes "investigate_cluster p now s force cl r docs = (docs', res)"
  shows "case res of None \<Rightarrow> docs' = docs
    | Some d \<Rightarrow> docs' = docs \<and> find_for_cluster (digest p) docs cl = Some d \<and> d_verdict d \<noteq> None \<and> \<not> force \<and> new_keys d cl = [] \<or>
        docs' = save_case d docs \<and> written_for p docs cl d \<and> d_event_keys d = merge_event_keys (find_for_cluster (digest p) docs cl) cl"
  using assms
  by (auto simp: investigate_cluster_def Let_def written_for_def split: option.splits if_splits effect.splits
      dest: effect_doc effect_unchanged)

lemma attach_fields:
  "attach_cluster now d cl = Some d' \<Longrightarrow> d_id d' = d_id d \<and> d_signature d' = signature cl \<and> d_verdict d' = d_verdict d \<and>
     d_status d' = d_status d \<and> d_confidence d' = d_confidence d \<and> d_disposition d' = d_disposition d \<and>
     d_decision_by d' = d_decision_by d \<and> d_work d' = d_work d \<and> d_number d' = d_number d"
  by (auto simp: attach_cluster_def Let_def split: if_splits)

end
