(* ===== verification/Ingest_Runs.thy ===== *)
theory Ingest_Runs
  imports Ingest_Safety
begin

section \<open>What deliveries do to the cases\<close>

text \<open>
  A delivery hands one cluster to \<open>handle_cluster\<close>; deliveries of any feeds and services over one store may come in
  any order. The properties are invariants over such sequences: one open case per signature, decided cases only
  gain events, no unmuted cluster is lost, the allowance is kept.
\<close>

subsection \<open>One delivery\<close>

definition muted :: "ingest \<Rightarrow> real \<Rightarrow> cluster \<Rightarrow> bool" where
  "muted g now cl = (is_ignored_cluster g cl \<or> \<not> passes_suppression (shw g) (map ev_source (member_events cl)) (suppressions (ip g)) now)"

definition keyed :: "case_doc \<Rightarrow> bool" where
  "keyed d = (d_event_keys d \<noteq> [] \<and> distinct (d_event_keys d))"

definition judgement :: "case_doc \<Rightarrow> verdict option \<times> real \<times> case_status \<times> disposition option \<times> decision_by option \<times> case_work" where
  "judgement d = (d_verdict d, d_confidence d, d_status d, d_disposition d, d_decision_by d, d_work d)"

lemma fromkeys_empty [simp]: "fromkeys xs = [] \<longleftrightarrow> xs = []"
  by (metis set_empty set_fromkeys)

lemma keys_merged:
  "keyed e \<Longrightarrow> set (merge_event_keys (Some e) cl) = set (d_event_keys e) \<union> set (cluster_event_keys cl)"
  "distinct (merge_event_keys x cl)"
  by (simp_all add: keyed_def merge_event_keys_def case_event_keys_def split: option.splits)

lemma length_merged: "distinct prior \<Longrightarrow> length (fromkeys (prior @ filter (\<lambda>k. k \<notin> set prior) ks)) = length prior + card (set ks - set prior)"
  by (subst distinct_card [symmetric], simp, simp, subst card_Un_disjoint)
    (auto simp: distinct_card set_diff_eq intro: arg_cong [where f = card])

lemma attached_keys:
  assumes "attach_cluster now e cl = Some d"
  shows "keyed e \<longrightarrow> keyed d \<and> set (d_event_keys d) = set (d_event_keys e) \<union> set (cluster_event_keys cl)"
proof
  assume "keyed e"
  then have keys: "d_event_keys d = fromkeys (d_event_keys e @ filter (\<lambda>k. k \<notin> set (d_event_keys e)) (cluster_event_keys cl))"
    using assms by (auto simp: attach_cluster_def case_event_keys_def keyed_def Let_def split: if_splits)
  then have "set (d_event_keys d) = set (d_event_keys e) \<union> set (cluster_event_keys cl)" "distinct (d_event_keys d)" by auto
  then show "keyed d \<and> set (d_event_keys d) = set (d_event_keys e) \<union> set (cluster_event_keys cl)"
    using \<open>keyed e\<close> by (metis Un_empty keyed_def set_empty2)
qed

lemma unattached_keys:
  assumes "attach_cluster now e cl = None"
  shows "keyed e \<longrightarrow> set (cluster_event_keys cl) \<subseteq> set (d_event_keys e)"
proof
  assume k: "keyed e"
  let ?m = "fromkeys (d_event_keys e @ filter (\<lambda>k. k \<notin> set (d_event_keys e)) (cluster_event_keys cl))"
  have "length ?m = length (d_event_keys e)"
    using assms k by (auto simp: attach_cluster_def case_event_keys_def keyed_def Let_def split: if_splits)
  moreover have "length ?m = length (d_event_keys e) + card (set (cluster_event_keys cl) - set (d_event_keys e))"
    using k by (intro length_merged) (simp add: keyed_def)
  ultimately have "card (set (cluster_event_keys cl) - set (d_event_keys e)) = 0" by simp
  then show "set (cluster_event_keys cl) \<subseteq> set (d_event_keys e)" by simp
qed

lemma attach_awaiting: "attach_cluster now (e\<lparr>d_awaiting := a\<rparr>) cl = map_option (\<lambda>d. d\<lparr>d_awaiting := a\<rparr>) (attach_cluster now e cl)"
  by (simp add: attach_cluster_def case_event_keys_def unknown_by_id_def Let_def)

definition delivered :: "pipeline \<Rightarrow> case_docs \<Rightarrow> cluster \<Rightarrow> case_docs \<Rightarrow> bool" where
  "delivered p docs cl docs' =
     (case find_for_cluster (digest p) docs cl of
        None \<Rightarrow> (\<exists>d. docs' = save_case d docs \<and> written_for p docs cl d \<and> d_event_keys d = merge_event_keys None cl)
      | Some e \<Rightarrow> docs' = docs \<and> (keyed e \<longrightarrow> set (cluster_event_keys cl) \<subseteq> set (d_event_keys e)) \<or>
          (\<exists>d. docs' = save_case d docs \<and> written_for p docs cl d \<and>
             (keyed e \<longrightarrow> keyed d \<and> set (d_event_keys d) = set (d_event_keys e) \<union> set (cluster_event_keys cl)) \<and>
             (d_verdict e \<noteq> None \<longrightarrow> judgement d = judgement e)))"

lemma put_case_cases:
  "cases (put_case g d st) = (case d of None \<Rightarrow> cases st | Some d \<Rightarrow> if saves (pipe g) d then save_case d (cases st) else cases st)"
  "alive (put_case g d st) = (alive st \<and> (case d of None \<Rightarrow> True | Some d \<Rightarrow> saves (pipe g) d))"
  "claimed (put_case g d st) = claimed st" "stats (put_case g d st) = stats st"
  by (auto simp: put_case_def split: option.splits)

lemma attach_decided_state:
  "cases (attach_decided g now d cl st) = cases (put_case g (attach_cluster now d cl) st)"
  "alive (attach_decided g now d cl st) = alive (put_case g (attach_cluster now d cl) st)"
  "claimed (attach_decided g now d cl st) = claimed st" "s_investigated (stats (attach_decided g now d cl st)) = s_investigated (stats st)"
  by (simp_all add: attach_decided_def Let_def put_case_cases)

lemma count_deferred_state [simp]:
  "cases (count_deferred b st) = cases st" "alive (count_deferred b st) = alive st" "claimed (count_deferred b st) = claimed st"
  "s_investigated (stats (count_deferred b st)) = s_investigated (stats st)"
  by (simp_all add: count_deferred_def)

definition refreshed :: "real \<Rightarrow> awaiting \<Rightarrow> case_doc \<Rightarrow> cluster \<Rightarrow> case_doc option" where
  "refreshed now reason d cl =
     (case attach_cluster now (d\<lparr>d_awaiting := reason\<rparr>) cl of Some d'' \<Rightarrow> Some d''
      | None \<Rightarrow> if d_awaiting d \<noteq> reason then Some (d\<lparr>d_awaiting := reason\<rparr>) else None)"

lemma refresh_state:
  "cases (refresh_candidate g now reason d cl st) = cases (put_case g (refreshed now reason d cl) st)"
  "alive (refresh_candidate g now reason d cl st) = alive (put_case g (refreshed now reason d cl) st)"
  "claimed (refresh_candidate g now reason d cl st) = claimed st"
  "s_investigated (stats (refresh_candidate g now reason d cl st)) = s_investigated (stats st)"
  by (simp_all add: refresh_candidate_def refreshed_def Let_def put_case_cases)

lemma forward_state:
  "cases (forward g now cl r st) = fst (investigate_cluster (pipe g) now (surface g) False cl r (cases st))"
  "alive (forward g now cl r st) = (alive st \<and> snd (investigate_cluster (pipe g) now (surface g) False cl r (cases st)) \<noteq> None)"
  "claimed (forward g now cl r st) = claimed st"
  "s_investigated (stats (forward g now cl r st)) \<le> Suc (s_investigated (stats st))"
  by (simp_all add: forward_def split: prod.splits option.splits)

lemma register_state:
  "cases (register g now reason cl st) = fst (register_candidate (pipe g) now (surface g) reason cl (cases st))"
  "alive (register g now reason cl st) = (alive st \<and> snd (register_candidate (pipe g) now (surface g) reason cl (cases st)) \<noteq> None)"
  "claimed (register g now reason cl st) = claimed st" "s_investigated (stats (register g now reason cl st)) = s_investigated (stats st)"
  by (simp_all add: register_def split: prod.splits option.splits)

lemma kept_delivers:
  "find_for_cluster (digest p) docs cl = Some e \<Longrightarrow> keyed e \<longrightarrow> set (cluster_event_keys cl) \<subseteq> set (d_event_keys e) \<Longrightarrow> delivered p docs cl docs"
  by (simp add: delivered_def)

lemma put_delivers:
  "find_for_cluster (digest p) docs cl = Some e \<Longrightarrow> d_id d = d_id e \<Longrightarrow> d_signature d \<in> {signature cl, d_signature e} \<Longrightarrow>
     keyed e \<longrightarrow> keyed d \<and> set (d_event_keys d) = set (d_event_keys e) \<union> set (cluster_event_keys cl) \<Longrightarrow>
     d_verdict e \<noteq> None \<longrightarrow> judgement d = judgement e \<Longrightarrow> delivered p docs cl (save_case d docs)"
  unfolding delivered_def written_for_def by (simp, blast)

lemma attach_delivers:
  assumes f: "find_for_cluster (digest (pipe g)) (cases st) cl = Some e" and al: "alive (attach_decided g now e cl st)"
  shows "delivered (pipe g) (cases st) cl (cases (attach_decided g now e cl st))"
proof (cases "attach_cluster now e cl")
  case None
  then show ?thesis using kept_delivers [OF f unattached_keys [OF None]] by (simp add: attach_decided_state put_case_cases)
next
  case (Some d)
  have "delivered (pipe g) (cases st) cl (save_case d (cases st))"
    using attached_keys [OF Some] attach_fields [OF Some] by (intro put_delivers [OF f]) (auto simp: judgement_def)
  then show ?thesis using al Some by (simp add: attach_decided_state put_case_cases)
qed

lemma refresh_delivers:
  assumes f: "find_for_cluster (digest (pipe g)) (cases st) cl = Some e" "d_verdict e = None"
    and al: "alive st'" "st' = refresh_candidate g now reason e cl st0" "cases st0 = cases st"
  shows "delivered (pipe g) (cases st) cl (cases st')"
proof (cases "attach_cluster now e cl")
  case None
  then have "refreshed now reason e cl = (if d_awaiting e \<noteq> reason then Some (e\<lparr>d_awaiting := reason\<rparr>) else None)"
    by (simp add: refreshed_def attach_awaiting)
  moreover have "delivered (pipe g) (cases st) cl (save_case (e\<lparr>d_awaiting := reason\<rparr>) (cases st))"
    using unattached_keys [OF None] f(2) by (intro put_delivers [OF f(1)]) (auto simp: keyed_def)
  moreover have "delivered (pipe g) (cases st) cl (cases st)" by (rule kept_delivers [OF f(1) unattached_keys [OF None]])
  ultimately show ?thesis using al by (auto simp: refresh_state put_case_cases split: if_splits)
next
  case (Some d)
  have "delivered (pipe g) (cases st) cl (save_case (d\<lparr>d_awaiting := reason\<rparr>) (cases st))"
    using attached_keys [OF Some] attach_fields [OF Some] f(2) by (intro put_delivers [OF f(1)]) (auto simp: keyed_def)
  then show ?thesis using al Some by (simp add: refresh_state refreshed_def attach_awaiting put_case_cases)
qed

lemma written_delivers:
  assumes w: "written_for p docs cl d" "d_event_keys d = merge_event_keys (find_for_cluster (digest p) docs cl) cl"
    and u: "case find_for_cluster (digest p) docs cl of None \<Rightarrow> True | Some e \<Rightarrow> d_verdict e = None"
  shows "delivered p docs cl (save_case d docs)"
proof (cases "find_for_cluster (digest p) docs cl")
  case None
  then show ?thesis using w by (auto simp: delivered_def)
next
  case (Some e)
  have "keyed e \<longrightarrow> keyed d \<and> set (d_event_keys d) = set (d_event_keys e) \<union> set (cluster_event_keys cl)"
    using w(2) Some keys_merged(1) [of e cl] keys_merged(2) [of "Some e" cl] by (auto simp: keyed_def simp flip: set_empty2)
  then show ?thesis using Some w u by (intro put_delivers [OF Some]) (simp_all add: written_for_def)
qed

lemma forward_delivers:
  assumes u: "case find_for_cluster (digest (pipe g)) (cases st) cl of None \<Rightarrow> True | Some e \<Rightarrow> d_verdict e = None"
    and al: "alive st'" "st' = forward g now cl r st0" "cases st0 = cases st"
  shows "delivered (pipe g) (cases st) cl (cases st')"
proof -
  obtain docs' res where i: "investigate_cluster (pipe g) now (surface g) False cl r (cases st) = (docs', res)" by fastforce
  then obtain d where d: "res = Some d" using al by (auto simp: forward_state)
  show ?thesis using investigate_writes [OF i] d u al i written_delivers [OF _ _ u, of d] by (auto simp: forward_state)
qed

lemma register_delivers:
  assumes u: "find_for_cluster (digest (pipe g)) (cases st) cl = None"
    and al: "alive st'" "st' = register g now reason cl st0" "cases st0 = cases st"
  shows "delivered (pipe g) (cases st) cl (cases st')"
proof -
  obtain docs' res where i: "register_candidate (pipe g) now (surface g) reason cl (cases st) = (docs', res)" by fastforce
  then obtain d where d: "res = Some d" using al by (auto simp: register_state)
  show ?thesis using register_writes [OF i] d u al i written_delivers [of "pipe g" "cases st" cl d] by (simp add: register_state)
qed

lemma triage_cases:
  obtains (forwarded) st0 where "triage g limit now cl r e st = forward g now cl r st0" "cases st0 = cases st" "alive st0 = alive st"
      "eligible g cl" "claimed st < limit" "claimed st0 = Suc (claimed st)" "s_investigated (stats st0) = s_investigated (stats st)"
    | (refreshed) st0 d reason where "e = Some d" "triage g limit now cl r e st = refresh_candidate g now reason d cl st0" "cases st0 = cases st"
      "alive st0 = alive st" "claimed st0 = claimed st" "s_investigated (stats st0) = s_investigated (stats st)"
    | (registered) st0 reason where "e = None" "triage g limit now cl r e st = register g now reason cl st0" "cases st0 = cases st"
      "alive st0 = alive st" "claimed st0 = claimed st" "s_investigated (stats st0) = s_investigated (stats st)"
proof (cases "eligible g cl \<and> claimed st < limit")
  case True
  then have "triage g limit now cl r e st = forward g now cl r (st\<lparr>claimed := Suc (claimed st)\<rparr>)" by (simp add: triage_def try_claim_def)
  then show ?thesis by (rule forwarded) (use True in simp_all)
next
  case False
  let ?st0 = "count_deferred (eligible g cl) st"
  have t: "triage g limit now cl r e st =
      (case e of Some d \<Rightarrow> refresh_candidate g now (candidate_reason g (eligible g cl) cl) d cl ?st0
       | None \<Rightarrow> register g now (candidate_reason g (eligible g cl) cl) cl ?st0)"
    by (cases "eligible g cl"; cases e) (use False in \<open>simp_all add: triage_def try_claim_def Let_def\<close>)
  show ?thesis
  proof (cases e)
    case None
    show ?thesis by (rule registered [OF None, of "candidate_reason g (eligible g cl) cl" ?st0]) (use t None in simp_all)
  next
    case (Some d)
    show ?thesis by (rule refreshed [OF Some, of "candidate_reason g (eligible g cl) cl" ?st0]) (use t Some in simp_all)
  qed
qed

lemma triage_delivers:
  assumes f: "find_for_cluster (digest (pipe g)) (cases st) cl = e" "case e of None \<Rightarrow> True | Some d \<Rightarrow> d_verdict d = None"
    and al: "alive (triage g limit now cl r e st)"
  shows "delivered (pipe g) (cases st) cl (cases (triage g limit now cl r e st))"
proof (cases rule: triage_cases [where g = g and limit = limit and now = now and cl = cl and r = r and e = e and st = st])
  case (forwarded st0)
  then show ?thesis using f al by (intro forward_delivers [OF _ al forwarded(1,2)]) simp
next
  case (refreshed st0 d reason)
  then show ?thesis using f by (intro refresh_delivers [OF _ _ al refreshed(2,3)]) auto
next
  case (registered st0 reason)
  then show ?thesis using f by (intro register_delivers [OF _ al registered(2,3)]) simp
qed

lemma handle_delivers:
  assumes "\<not> muted g now cl" "alive (handle_cluster g limit now cl r st)"
  shows "delivered (pipe g) (cases st) cl (cases (handle_cluster g limit now cl r st))"
  using assms attach_delivers [of g st cl] triage_delivers [of g st cl _ limit now r]
  by (auto simp: handle_cluster_def muted_def split: option.splits if_splits)

lemma muted_keeps: "muted g now cl \<Longrightarrow> cases (handle_cluster g limit now cl r st) = cases st \<and> alive (handle_cluster g limit now cl r st) = alive st"
  by (auto simp: handle_cluster_def muted_def)

lemma triage_fails:
  assumes "\<not> alive (triage g limit now cl r e st)" "alive st"
  shows "cases (triage g limit now cl r e st) = cases st"
proof -
  have i: "fst (investigate_cluster (pipe g) now (surface g) False cl r docs) = docs"
    if "snd (investigate_cluster (pipe g) now (surface g) False cl r docs) = None" for docs
    using that investigate_writes [of "pipe g" now "surface g" False cl r docs] by (cases "investigate_cluster (pipe g) now (surface g) False cl r docs") simp
  have j: "fst (register_candidate (pipe g) now (surface g) reason cl docs) = docs"
    if "snd (register_candidate (pipe g) now (surface g) reason cl docs) = None" for docs reason
    using that register_writes [of "pipe g" now "surface g" reason cl docs] by (cases "register_candidate (pipe g) now (surface g) reason cl docs") simp
  show ?thesis
    by (cases rule: triage_cases [where g = g and limit = limit and now = now and cl = cl and r = r and e = e and st = st])
      (use assms i j in \<open>auto simp: forward_state register_state refresh_state put_case_cases split: option.splits if_splits\<close>)
qed

lemma handle_fails: "\<not> alive (handle_cluster g limit now cl r st) \<Longrightarrow> alive st \<Longrightarrow> cases (handle_cluster g limit now cl r st) = cases st"
  by (auto simp: handle_cluster_def attach_decided_state put_case_cases triage_fails split: option.splits if_splits)

subsection \<open>Sequences of deliveries\<close>

text \<open>One tick: any services and feeds deliver their clusters in any order, sharing the store and the allowance \<open>limit\<close>.\<close>

inductive deliveries :: "nat \<Rightarrow> ingest_state \<Rightarrow> (ingest \<times> real \<times> cluster) list \<Rightarrow> ingest_state \<Rightarrow> bool" for limit and st where
  nothing: "deliveries limit st [] st"
| another: "deliveries limit st ds st' \<Longrightarrow> alive st' \<Longrightarrow> deliveries limit st (ds @ [(g, now, cl)]) (handle_cluster g limit now cl r st')"

definition fresh_ids :: "pipeline \<Rightarrow> bool" where
  "fresh_ids p = (\<forall>ks. new_id p ks \<notin> set ks)"

definition proper :: "ingest \<times> real \<times> cluster \<Rightarrow> bool" where
  "proper = (\<lambda>(g, now, cl). fresh_ids (pipe g) \<and> cluster_event_keys cl \<noteq> [])"

definition sound :: "case_docs \<Rightarrow> bool" where
  "sound docs = (docs_ok docs \<and> one_open (dget docs) \<and> (\<forall>d \<in> set (dvals docs). keyed d))"

definition settled :: "case_doc \<Rightarrow> bool" where
  "settled d = (d_verdict d \<noteq> None \<or> \<not> is_open d)"

definition extends :: "case_docs \<Rightarrow> case_docs \<Rightarrow> bool" where
  "extends docs docs' = (\<forall>k d. dget docs k = Some d \<longrightarrow>
     (\<exists>d'. dget docs' k = Some d' \<and> set (d_event_keys d) \<subseteq> set (d_event_keys d') \<and> (settled d \<longrightarrow> judgement d' = judgement d)))"

definition holds_keys :: "case_docs \<Rightarrow> cluster \<Rightarrow> bool" where
  "holds_keys docs cl = (\<exists>k d. dget docs k = Some d \<and> set (cluster_event_keys cl) \<subseteq> set (d_event_keys d))"

lemma judgement_settled: "judgement d' = judgement d \<Longrightarrow> settled d' = settled d"
  by (simp add: judgement_def settled_def is_open_def)

lemma extends_refl [simp]: "extends docs docs"
  by (simp add: extends_def)

lemma extends_trans:
  assumes "extends a b" "extends b c"
  shows "extends a c"
  unfolding extends_def
proof (intro allI impI)
  fix k d
  assume "dget a k = Some d"
  then obtain d' where d': "dget b k = Some d'" "set (d_event_keys d) \<subseteq> set (d_event_keys d')" "settled d \<longrightarrow> judgement d' = judgement d"
    using assms(1) unfolding extends_def by blast
  then obtain d'' where "dget c k = Some d''" "set (d_event_keys d') \<subseteq> set (d_event_keys d'')" "settled d' \<longrightarrow> judgement d'' = judgement d'"
    using assms(2) unfolding extends_def by blast
  then show "\<exists>d''. dget c k = Some d'' \<and> set (d_event_keys d) \<subseteq> set (d_event_keys d'') \<and> (settled d \<longrightarrow> judgement d'' = judgement d)"
    using d' judgement_settled [of d' d] by auto
qed

lemma holds_extends: "holds_keys a cl \<Longrightarrow> extends a b \<Longrightarrow> holds_keys b cl"
  unfolding holds_keys_def extends_def by (meson subset_trans)

lemma dget_save: "dget (save_case d docs) k = (if k = d_id d then Some d else dget docs k)"
  by (simp add: save_case_def)

lemma sound_save:
  assumes "sound docs" "written_for p docs cl d" "keyed d"
  shows "sound (save_case d docs)"
  using assms save_written [of docs p cl d]
  by (auto simp: sound_def dvals_def docs_ok_def in_dset_iff save_case_def split: if_splits)

lemma sound_keyed: "sound docs \<Longrightarrow> dget docs k = Some d \<Longrightarrow> keyed d"
  by (force simp: sound_def dvals_def dest: dget_Some_in)

lemma delivered_sound:
  assumes s: "sound docs" and d: "delivered p docs cl docs'" and p: "fresh_ids p" "cluster_event_keys cl \<noteq> []"
  shows "sound docs'" "extends docs docs'" "holds_keys docs' cl"
proof -
  have ok: "docs_ok docs" using s by (simp add: sound_def)
  have "sound docs' \<and> extends docs docs' \<and> holds_keys docs' cl"
  proof (cases "find_for_cluster (digest p) docs cl")
    case None
    then obtain d where w: "docs' = save_case d docs" "written_for p docs cl d" "d_event_keys d = fromkeys (cluster_event_keys cl)"
      using d by (auto simp: delivered_def merge_event_keys_def)
    have "keyed d" using w(3) p(2) by (auto simp: keyed_def simp flip: set_empty2)
    moreover have "d_id d \<notin> set (dkeys docs)" using w(2) None p(1) by (simp add: written_for_def fresh_ids_def)
    ultimately show ?thesis using s w sound_save [OF s w(2)] dget_Some_in [of docs "d_id d"]
      by (force simp: extends_def holds_keys_def dget_save dkeys_def)
  next
    case (Some e)
    have e: "dget docs (d_id e) = Some e" "is_open e" "keyed e" using found_for_cluster [OF ok Some] sound_keyed [OF s] by auto
    show ?thesis
    proof (cases "docs' = docs \<and> set (cluster_event_keys cl) \<subseteq> set (d_event_keys e)")
      case True
      then show ?thesis using s e by (auto simp: holds_keys_def)
    next
      case False
      then obtain d where w: "docs' = save_case d docs" "written_for p docs cl d" "keyed d" "d_id d = d_id e"
        "set (d_event_keys d) = set (d_event_keys e) \<union> set (cluster_event_keys cl)" "d_verdict e \<noteq> None \<longrightarrow> judgement d = judgement e"
        using d Some e by (auto simp: delivered_def written_for_def)
      then show ?thesis using e sound_save [OF s w(2,3)] by (auto simp: extends_def holds_keys_def dget_save settled_def)
    qed
  qed
  then show "sound docs'" "extends docs docs'" "holds_keys docs' cl" by simp_all
qed

lemma handle_sound:
  assumes "sound (cases st)" "alive st" "proper (g, now, cl)"
  shows "sound (cases (handle_cluster g limit now cl r st))" "extends (cases st) (cases (handle_cluster g limit now cl r st))"
    "\<not> muted g now cl \<Longrightarrow> alive (handle_cluster g limit now cl r st) \<Longrightarrow> holds_keys (cases (handle_cluster g limit now cl r st)) cl"
  using delivered_sound [OF assms(1) handle_delivers [of g now cl limit r st]] handle_fails [of g limit now cl r st]
    muted_keeps [of g now cl limit r st] assms
  by (cases "muted g now cl"; cases "alive (handle_cluster g limit now cl r st)"; simp add: proper_def)+

lemma deliveries_sound:
  assumes "deliveries limit st ds st'" "sound (cases st)" "alive st" "\<forall>x \<in> set ds. proper x"
  shows "sound (cases st') \<and> extends (cases st) (cases st')"
  using assms
  by (induction rule: deliveries.induct) (auto intro: handle_sound extends_trans)

lemma deliveries_hold:
  assumes "deliveries limit st ds st'" "sound (cases st)" "alive st" "\<forall>x \<in> set ds. proper x" "alive st'" "(g, now, cl) \<in> set ds" "\<not> muted g now cl"
  shows "holds_keys (cases st') cl"
  using assms
proof (induction rule: deliveries.induct)
  case (another ds st' g' now' cl' r)
  have p: "proper (g', now', cl')" and s: "sound (cases st')" using another deliveries_sound [OF another.hyps(1)] by auto
  note h = handle_sound [OF s another.hyps(2) p, of limit r]
  show ?case
  proof (cases "(g, now, cl) \<in> set ds")
    case True
    then have "holds_keys (cases st') cl" using another by simp
    then show ?thesis using holds_extends h(2) by blast
  next
    case False
    then show ?thesis using another.prems h(3) by simp
  qed
qed simp

lemma triage_claims:
  "s_investigated (stats (triage g limit now cl r e st)) + claimed st \<le> s_investigated (stats st) + claimed (triage g limit now cl r e st) \<and>
   claimed (triage g limit now cl r e st) \<le> max limit (claimed st)"
proof (cases rule: triage_cases [where g = g and limit = limit and now = now and cl = cl and r = r and e = e and st = st])
  case (forwarded st0)
  then show ?thesis using forward_state(4) [of g now cl r st0] by (simp add: forward_state)
qed (simp_all add: refresh_state register_state)

lemma handle_claims:
  "s_investigated (stats (handle_cluster g limit now cl r st)) + claimed st \<le> s_investigated (stats st) + claimed (handle_cluster g limit now cl r st)"
  "claimed (handle_cluster g limit now cl r st) \<le> max limit (claimed st)"
  using triage_claims by (auto simp: handle_cluster_def attach_decided_state split: option.splits)

end
