(* ===== verification/Policy_Close.thy ===== *)
theory Policy_Close
  imports Case_Pipeline
begin

section \<open>Closing by an operator's policy\<close>

text \<open>
  When \<^verbatim>\<open>_close_by_analyst_policy\<close> closes a case without a model run: the coverage computed by
  the loop of \<^verbatim>\<open>match_analyst_rule_policy\<close> against its reading, one live policy in scope for every rule of the case.
\<close>

definition covers :: "real \<Rightarrow> string \<Rightarrow> real \<Rightarrow> string \<Rightarrow> rule_policy \<Rightarrow> bool" where
  "covers now scope risk r rp = (policy_applies now scope risk rp \<and> py_strip (rp_rule_id rp) = r)"

lemma cover_step_ok: "dict_ok c \<Longrightarrow> dict_ok (cover_step now scope risk wanted c rp)"
  by (simp add: cover_step_def Let_def)

lemma cover_step_keys:
  "set (dkeys (cover_step now scope risk wanted c rp)) = set (dkeys c) \<union> {r \<in> set wanted. r \<noteq> [] \<and> covers now scope risk r rp}"
  by (auto simp: cover_step_def Let_def covers_def)

lemma cover_loop:
  assumes "dict_ok c"
  shows "dict_ok (foldl (cover_step now scope risk wanted) c ps)"
    and "set (dkeys (foldl (cover_step now scope risk wanted) c ps)) =
      set (dkeys c) \<union> {r \<in> set wanted. r \<noteq> [] \<and> (\<exists>rp \<in> set ps. covers now scope risk r rp)}"
  using assms by (induction ps arbitrary: c) (auto simp: cover_step_ok cover_step_keys)

lemma wanted_distinct: "distinct (wanted_rules rs)" and wanted_nonempty: "r \<in> set (wanted_rules rs) \<Longrightarrow> r \<noteq> []"
  by (auto simp: wanted_rules_def)

lemma match_covers:
  "match_analyst_rule_policy now rs src ps risk \<noteq> None \<longleftrightarrow>
     wanted_rules rs \<noteq> [] \<and> (\<forall>r \<in> set (wanted_rules rs). \<exists>rp \<in> set ps. covers now (case src of None \<Rightarrow> [] | Some s \<Rightarrow> s) risk r rp)"
proof -
  let ?w = "wanted_rules rs" and ?scope = "case src of None \<Rightarrow> [] | Some s \<Rightarrow> s"
  let ?c = "foldl (cover_step now ?scope risk ?w) [] ps"
  have ok: "distinct (dkeys ?c)" and keys: "set (dkeys ?c) = {r \<in> set ?w. r \<noteq> [] \<and> (\<exists>rp \<in> set ps. covers now ?scope risk r rp)}"
    using cover_loop [OF dict_ok_Nil, of now ?scope risk ?w ps] by (simp_all add: distinct_dkeys) (simp add: dkeys_def)
  have len: "length ?c = card (set (dkeys ?c))" using distinct_card [OF ok] by (simp add: dkeys_def)
  have "length ?c = length ?w \<longleftrightarrow> set (dkeys ?c) = set ?w"
    using len keys wanted_distinct [of rs] by (metis (no_types, lifting) List.finite_set card_subset_eq distinct_card mem_Collect_eq subsetI)
  also have "\<dots> \<longleftrightarrow> (\<forall>r \<in> set ?w. \<exists>rp \<in> set ps. covers now ?scope risk r rp)" unfolding keys using wanted_nonempty by blast
  finally show ?thesis by (simp add: match_analyst_rule_policy_def Let_def)
qed

definition person_decided :: "case_doc option \<Rightarrow> bool" where
  "person_decided existing = (case existing of None \<Rightarrow> False | Some d \<Rightarrow> d_verdict d \<noteq> None \<or> d_decision_by d = Some BY_ANALYST)"

lemma close_happens:
  "close_by_analyst_policy p now s i force e cl \<noteq> None \<longleftrightarrow>
     \<not> force \<and> \<not> person_decided e \<and> match_analyst_rule_policy now (merge_rules e cl) (cl_source_id cl) (rule_policies p)
       (rb_total (compute_risk (addr_in p) cl (risk_of p) 0)) \<noteq> None"
  by (auto simp: close_by_analyst_policy_def person_decided_def Let_def split: option.splits)

lemma no_policy:
  assumes "rule_policies p = []"
  shows "close_by_analyst_policy p now s i force e cl = None"
proof (rule ccontr)
  assume "close_by_analyst_policy p now s i force e cl \<noteq> None"
  then show False unfolding close_happens match_covers using assms by (cases "wanted_rules (merge_rules e cl)") auto
qed

lemma close_shape:
  "close_by_analyst_policy p now s i force e cl = Some d \<Longrightarrow>
     d_status d = ST_CLOSED \<and> d_verdict d = None \<and> d_decision_by d = Some BY_ANALYST_POLICY \<and> d_id d = i \<and>
     d_disposition d = Some D_FALSE_POSITIVE \<and> d_awaiting d = Not_awaiting \<and> map_option pm_rule_ids (d_policy d) = Some (wanted_rules (merge_rules e cl))"
  by (auto simp: close_by_analyst_policy_def match_analyst_rule_policy_def fresh_doc_def Let_def split: option.splits if_splits)

definition sample_pipe :: pipeline where
  "sample_pipe = \<lparr>digest = id, addr_in = (\<lambda>_ _. False), risk_of = \<lparr>weights = default_weights, asset_networks = [], asset_map = []\<rparr>,
     rule_policies = [], manager = \<lparr>cm_preferences = \<lparr>auto_close = default_auto_close_policy, escalation_confidence = 6/10, critical_severity = 7\<rparr>\<rparr>,
     killed = False, next_number = (\<lambda>_. ''CASE-1''), new_id = (\<lambda>ks. concat ks @ ''c''), saves = (\<lambda>_. True)\<rparr>"

definition sample_policy :: rule_policy where
  "sample_policy = \<lparr>rp_id = ''p1'', rp_rule_id = ''brute'', rp_reason = ''scanner'', rp_source_id = None, rp_enabled = True,
     rp_max_risk = None, rp_expires_at = Some 10\<rparr>"

text \<open>
  C9. A case is closed by policy exactly when no one forced a run, it carries no verdict and no analyst's decision, and
  every one of its rules (the ones it already has and the cluster's) has an enabled, unexpired policy in the scope of
  the cluster's source whose ceiling the risk does not pass; a single uncovered rule keeps the case open. The closure
  records a policy decision, never a verdict.
\<close>

theorem policy_closes_iff_covered:
  "(\<exists>d. close_by_analyst_policy p now s i force e cl = Some d \<and> d_status d = ST_CLOSED \<and> d_verdict d = None \<and> d_decision_by d = Some BY_ANALYST_POLICY) =
   (\<not> force \<and> \<not> person_decided e \<and> wanted_rules (merge_rules e cl) \<noteq> [] \<and>
    (\<forall>r \<in> set (wanted_rules (merge_rules e cl)). \<exists>rp \<in> set (rule_policies p).
       policy_applies now (case cl_source_id cl of None \<Rightarrow> [] | Some src \<Rightarrow> src) (rb_total (compute_risk (addr_in p) cl (risk_of p) 0)) rp \<and>
       py_strip (rp_rule_id rp) = r))"
proof -
  have "(\<exists>d. close_by_analyst_policy p now s i force e cl = Some d \<and> d_status d = ST_CLOSED \<and> d_verdict d = None \<and> d_decision_by d = Some BY_ANALYST_POLICY) =
      (close_by_analyst_policy p now s i force e cl \<noteq> None)"
    using close_shape by (metis option.exhaust option.discI)
  then show ?thesis by (simp only: close_happens match_covers covers_def)
qed

theorem policy_closes_iff_covered_witness:
  "\<exists>d. close_by_analyst_policy (sample_pipe\<lparr>rule_policies := [sample_policy]\<rparr>) 5 AUTOMATED_SCAN ''c'' False None sample_cluster = Some d \<and>
     d_status d = ST_CLOSED \<and> d_verdict d = None \<and> d_decision_by d = Some BY_ANALYST_POLICY"
proof -
  have w: "wanted_rules (merge_rules None sample_cluster) = [''brute'']" and s: "py_strip ''brute'' = ''brute''"
    by (code_simp, code_simp)
  show ?thesis
    by (subst policy_closes_iff_covered)
      (simp add: w s person_decided_def sample_policy_def policy_applies_def policy_live_def)
qed

end
