(* ===== verification/Ingest_Props.thy ===== *)
theory Ingest_Props
  imports Ingest_Runs Policy_Close
begin

section \<open>What ingestion promises\<close>

text \<open>
  The properties of ingestion and of the writers of the pipeline, over the deliveries of one tick, with the start of a
  tick that carries no earlier error. The invariant is closed under ticks, so the statements chain.
\<close>

subsection \<open>Storing that works\<close>

lemma put_case_alive: "\<forall>d. saves (pipe g) d \<Longrightarrow> alive st \<Longrightarrow> alive (put_case g x st)"
  by (simp add: put_case_cases split: option.splits)

lemma writers_answer:
  assumes "\<forall>d. saves p d"
  shows "snd (investigate_cluster p now s force cl r docs) \<noteq> None" "snd (register_candidate p now s reason cl docs) \<noteq> None"
  using assms by (simp_all add: investigate_cluster_def register_candidate_def Let_def split: effect.splits)

lemma handle_alive:
  assumes "\<forall>d. saves (pipe g) d" "alive st"
  shows "alive (handle_cluster g limit now cl r st)"
proof -
  have "alive (triage g limit now cl r e st)" for e
    by (cases rule: triage_cases [where g = g and limit = limit and now = now and cl = cl and r = r and e = e and st = st])
      (use assms writers_answer [OF assms(1)] put_case_alive [OF assms(1)] in \<open>simp_all add: forward_state register_state refresh_state\<close>)
  then show ?thesis using assms by (auto simp: handle_cluster_def attach_decided_state put_case_alive split: option.splits)
qed

text \<open>A service handling its clusters one after the other is such a sequence.\<close>

lemma handle_clusters_deliveries:
  assumes "deliveries limit st0 ds st" "alive st" "alive (handle_clusters g limit xs st)"
  shows "deliveries limit st0 (ds @ map (\<lambda>(now, cl, r). (g, now, cl)) xs) (handle_clusters g limit xs st)"
  using assms
proof (induction xs arbitrary: ds st)
  case (Cons x xs)
  obtain now cl r where x: "x = (now, cl, r)" by (cases x) auto
  let ?st = "handle_cluster g limit now cl r st"
  have d: "deliveries limit st0 (ds @ [(g, now, cl)]) ?st" by (rule another [OF Cons.prems(1,2)])
  have "alive ?st" using Cons.prems(3) by (auto simp: x Let_def split: if_splits)
  then show ?case using Cons.IH [OF d] Cons.prems(3) by (simp add: x Let_def)
qed simp

subsection \<open>A small world\<close>

definition sample_ingest :: ingest where
  "sample_ingest = \<lparr>ip = \<lparr>log_sources = [], allowlist = [], risk_floor = 70, background_scan = True, max_per_tick = 1, suppressions = []\<rparr>,
     fnmatch = (\<lambda>_ _. False), shw = (\<lambda>_. []), pipe = sample_pipe, surface = AUTOMATED_SCAN\<rparr>"

definition sample_answer :: run where
  "sample_answer = \<lparr>outcome_of = Answered TRUE_POSITIVE (9/10) [''seen''], run_cost = 1/100, run_persona = [], run_playbook = [], run_reputation = 0,
     run_precedent = None, recorded_cost = None\<rparr>"

definition sample_doc :: case_doc where
  "sample_doc = (fresh_doc ''c1'' 1 AUTOMATED_SCAN None sample_cluster)\<lparr>d_verdict := Some TRUE_POSITIVE, d_confidence := 9/10,
     d_work := no_work\<lparr>comments := [''mine'']\<rparr>\<rparr>"

definition sample_start :: "case_docs \<Rightarrow> ingest_state" where
  "sample_start docs = \<lparr>cases = docs, claimed = 0, stats = no_stats, alive = True\<rparr>"

lemma sample_facts [simp]:
  "cases (sample_start docs) = docs" "claimed (sample_start docs) = 0" "alive (sample_start docs)" "stats (sample_start docs) = no_stats"
  "pipe sample_ingest = sample_pipe" "saves sample_pipe d" "rule_policies sample_pipe = []"
  by (simp_all add: sample_start_def sample_ingest_def sample_pipe_def)

lemma sample_cluster_keys [simp]: "cluster_event_keys sample_cluster \<noteq> []"
  by (simp add: cluster_event_keys_def sample_cluster_def build_cluster_def Let_def)

lemma sample_verdict: "d_verdict sample_doc = Some TRUE_POSITIVE"
  by (simp add: sample_doc_def)

lemma in_concat_length: "x \<in> set ks \<Longrightarrow> length x \<le> length (concat ks)"
  by (induction ks) auto

lemma sample_proper [simp]: "proper (sample_ingest, now, sample_cluster)"
proof -
  have "concat ks @ ''c'' \<notin> set ks" for ks :: "string list" using in_concat_length [of "concat ks @ ''c''" ks] by auto
  then show ?thesis by (simp add: proper_def fresh_ids_def sample_pipe_def)
qed

lemma sample_sound [simp]: "sound []" "sound [(''c1'', sample_doc)]"
proof -
  have "keyed sample_doc" by (simp add: keyed_def sample_doc_def merge_event_keys_def)
  then show "sound []" "sound [(''c1'', sample_doc)]"
    by (auto simp: sound_def docs_ok_def dict_ok_def one_open_def dget_def dvals_def sample_doc_def split: if_splits)
qed

lemma sample_unmuted [simp]: "\<not> muted sample_ingest now sample_cluster"
  by (simp add: muted_def is_ignored_cluster_def source_of_def sample_ingest_def passes_suppression_def)

lemma sample_deliveries:
  "deliveries limit (sample_start docs) [(sample_ingest, t, sample_cluster), (sample_ingest, u, sample_cluster)]
     (handle_cluster sample_ingest limit u sample_cluster r (handle_cluster sample_ingest limit t sample_cluster r' (sample_start docs)))"
proof -
  let ?mid = "handle_cluster sample_ingest limit t sample_cluster r' (sample_start docs)"
  have "deliveries limit (sample_start docs) ([] @ [(sample_ingest, t, sample_cluster)]) ?mid" by (rule deliveries.another [OF deliveries.nothing]) simp
  then have "deliveries limit (sample_start docs) (([] @ [(sample_ingest, t, sample_cluster)]) @ [(sample_ingest, u, sample_cluster)])
      (handle_cluster sample_ingest limit u sample_cluster r ?mid)"
    by (rule another) (intro handle_alive; simp)
  then show ?thesis by simp
qed

subsection \<open>The store of cases\<close>



text \<open>
  C5. Deliveries never change the judgement of a settled case. A case that has a verdict, or is no longer open, keeps its
  verdict, confidence, status, disposition, decider and what people put on it; its events only grow.
\<close>

theorem decided_case_stable:
  assumes "deliveries limit st ds st'" "sound (cases st)" "alive st" "\<forall>x \<in> set ds. proper x"
    and "dget (cases st) k = Some d" "d_verdict d \<noteq> None \<or> \<not> is_open d"
  shows "\<exists>d'. dget (cases st') k = Some d' \<and> judgement d' = judgement d \<and> set (d_event_keys d) \<subseteq> set (d_event_keys d')"
  using deliveries_sound [OF assms(1-4)] assms(5,6) unfolding extends_def settled_def by blast

theorem decided_case_stable_witness:
  "\<exists>st' d'. deliveries 1 (sample_start [(''c1'', sample_doc)]) [(sample_ingest, 5, sample_cluster), (sample_ingest, 6, sample_cluster)] st' \<and>
     dget (cases st') ''c1'' = Some d' \<and> judgement d' = judgement sample_doc"
proof -
  have g: "dget (cases (sample_start [(''c1'', sample_doc)])) ''c1'' = Some sample_doc" and v: "d_verdict sample_doc \<noteq> None \<or> \<not> is_open sample_doc"
    by (simp_all add: dget_def sample_doc_def)
  show ?thesis using decided_case_stable [OF sample_deliveries _ _ _ g v] sample_deliveries by fastforce
qed

text \<open>
  C4. Nothing is dropped. When a tick ends without an error, the events of every delivered cluster that no feed ignores
  and no live suppression rule covers are in one stored case, over the allowance or not, and the events every stored
  case had before are still in it.
\<close>

theorem nothing_dropped:
  assumes "deliveries limit st ds st'" "sound (cases st)" "alive st" "\<forall>x \<in> set ds. proper x" "alive st'"
    and "(g, now, cl) \<in> set ds" "\<not> muted g now cl"
  shows "\<exists>k d. dget (cases st') k = Some d \<and> set (cluster_event_keys cl) \<subseteq> set (d_event_keys d)"
  using deliveries_hold [OF assms] by (simp add: holds_keys_def)

theorem nothing_dropped_witness:
  "\<exists>st' k d. deliveries 0 (sample_start []) [(sample_ingest, 5, sample_cluster), (sample_ingest, 6, sample_cluster)] st' \<and>
     dget (cases st') k = Some d \<and> set (cluster_event_keys sample_cluster) \<subseteq> set (d_event_keys d)"
proof -
  let ?st = "handle_cluster sample_ingest 0 6 sample_cluster sample_answer (handle_cluster sample_ingest 0 5 sample_cluster sample_answer (sample_start []))"
  have "alive ?st" by (intro handle_alive) simp_all
  then show ?thesis using nothing_dropped [OF sample_deliveries, of "[]" 5 6 0 sample_answer sample_answer sample_ingest 5 sample_cluster] sample_deliveries by fastforce
qed

text \<open>
  C8. The allowance of a tick bounds its investigations, in every interleaving of the services that share it: the
  investigations counted never exceed what was left of the allowance.
\<close>

theorem tick_allowance:
  assumes "deliveries limit st ds st'" "claimed st \<le> limit"
  shows "s_investigated (stats st') + claimed st \<le> s_investigated (stats st) + claimed st' \<and> claimed st' \<le> limit"
  using assms
proof (induction rule: deliveries.induct)
  case (another ds st' g now cl r)
  then show ?case using handle_claims [of g limit now cl r st'] by auto
qed simp

theorem tick_allowance_witness:
  "\<exists>st'. deliveries 1 (sample_start []) [(sample_ingest, 5, sample_cluster), (sample_ingest, 6, sample_cluster)] st' \<and> s_investigated (stats st') \<le> 1"
proof -
  let ?st = "handle_cluster sample_ingest 1 6 sample_cluster sample_answer (handle_cluster sample_ingest 1 5 sample_cluster sample_answer (sample_start []))"
  have d: "deliveries 1 (sample_start []) [(sample_ingest, 5, sample_cluster), (sample_ingest, 6, sample_cluster)] ?st" by (rule sample_deliveries)
  from tick_allowance [OF d] have "s_investigated (stats ?st) \<le> 1" by (simp add: no_stats_def)
  with d show ?thesis by blast
qed

subsection \<open>A second delivery\<close>

lemma attach_again: "keyed e \<Longrightarrow> set (cluster_event_keys cl) \<subseteq> set (d_event_keys e) \<Longrightarrow> attach_cluster now e cl = None"
  by (simp add: attach_cluster_def keyed_def case_event_keys_def filter_False subset_eq fromkeys_id)

lemma found_after_attach:
  assumes s: "sound docs" and f: "find_for_cluster dg docs cl = Some e" and a: "attach_cluster now e cl = Some d"
  shows "find_for_cluster dg (save_case d docs) cl = Some d"
proof -
  note e = found_for_cluster [OF _ f] and d = attach_fields [OF a]
  have w: "written_for (sample_pipe\<lparr>digest := dg\<rparr>) docs cl d" using f d by (simp add: written_for_def)
  have k: "keyed d" using attached_keys [OF a] sound_keyed [OF s] e s by (auto simp: sound_def)
  have s': "docs_ok (save_case d docs)" "one_open (dget (save_case d docs))" using sound_save [OF s w k] by (simp_all add: sound_def)
  have g: "dget (save_case d docs) (d_id d) = Some d" by (simp add: dget_save)
  have o: "is_open d" using d e s by (simp add: is_open_def sound_def)
  obtain d' where f': "find_open_by_signature (save_case d docs) (signature cl) = Some d'"
    using store.missed [OF s'(1) _ g o] d by (cases "find_open_by_signature (save_case d docs) (signature cl)") auto
  have "d = d'" using store.open_unique [OF s' f' g o] d by simp
  then show ?thesis using f' g by (simp add: find_for_cluster_def find_open_case_for_cluster_def)
qed



text \<open>
  On a case from before event keys existed the first attachment keeps the bare ids as keys, so the second delivery of the
  same cluster no longer recognises them and attaches the events it already has.
\<close>

lemma legacy_attach_repeats:
  assumes "d_event_keys e = []" "d_event_ids e = [''a'']" "member_event_ids cl = [''a'', ''b'']" "member_event_keys cl = [''i|a'', ''i|b'']"
  shows "\<exists>d. attach_cluster now e cl = Some d \<and> d_event_keys d = [''a'', ''i|b''] \<and>
    (\<exists>d'. attach_cluster now d cl = Some d' \<and> d_event_keys d' = [''a'', ''i|b'', ''i|a''])"
  using assms by (simp add: attach_cluster_def case_event_keys_def cluster_event_keys_def unknown_by_id_def fromkeys_def Let_def)

subsection \<open>Investigating\<close>

lemma decided_effect_fresh:
  assumes "decided_effect p now s i e cl r v c ev err = Store d"
  shows "d_awaiting d = Not_awaiting"
proof -
  let ?d = "reconcile_cost r e (assemble_case p now s i e cl r v c ev err)"
  have "apply_doc (manager p) now ?d = Inr d" using assms by (simp add: decided_effect_def Let_def split: sum.splits)
  then obtain k where "d = with_kase ?d k" using apply_doc_shape by blast
  then show ?thesis by (simp add: with_kase_def reconcile_cost_def assemble_case_def fresh_doc_def Let_def split: option.splits)
qed

lemma run_effect_fresh: "run_effect p now s i e cl r = Store d \<Longrightarrow> d_awaiting d = Not_awaiting"
  by (cases "outcome_of r") (auto simp: run_effect_def dest!: decided_effect_fresh split: if_splits)

lemma fail_fresh [simp]: "d_awaiting (fail_to_human_case now s i e cl err risk) = Not_awaiting"
  by (simp add: fail_to_human_case_def fresh_doc_def)

definition case_id_for :: "pipeline \<Rightarrow> case_docs \<Rightarrow> cluster \<Rightarrow> string" where
  "case_id_for p docs cl = (case find_for_cluster (digest p) docs cl of None \<Rightarrow> new_id p (dkeys docs) | Some d \<Rightarrow> d_id d)"

lemma investigate_stores:
  assumes "\<forall>d. saves p d" "case find_for_cluster (digest p) docs cl of None \<Rightarrow> True | Some e \<Rightarrow> d_verdict e = None \<or> force \<or> new_keys e cl \<noteq> []"
  obtains d where "investigate_cluster p now s force cl r docs = (save_case d docs, Some d)" "d_id d = case_id_for p docs cl"
    "d_signature d = signature cl" "d_awaiting d = Not_awaiting"
    "close_by_analyst_policy p now s (case_id_for p docs cl) force (find_for_cluster (digest p) docs cl) cl = Some d \<or>
     close_by_analyst_policy p now s (case_id_for p docs cl) force (find_for_cluster (digest p) docs cl) cl = None \<and>
     d_verdict d \<noteq> None \<and> d_work d = no_work \<and> (case outcome_of r of Raised _ _ \<Rightarrow> d_number d = [] \<and> d_token_cost d = 0 | _ \<Rightarrow> True)"
proof -
  let ?e = "find_for_cluster (digest p) docs cl" and ?i = "case_id_for p docs cl"
  show ?thesis
  proof (cases "close_by_analyst_policy p now s ?i force ?e cl")
    case (Some d)
    then show ?thesis using that [of d] close_shape [OF Some] policy_doc [OF Some] assms(1)
      by (simp add: investigate_cluster_def investigation_effect_def case_id_for_def)
  next
    case None
    have eff: "investigation_effect p now s ?i force ?e cl r = run_effect p now s ?i ?e cl r"
      using None assms(2) by (auto simp: investigation_effect_def split: option.splits)
    show ?thesis
    proof (cases "run_effect p now s ?i ?e cl r")
      case (Unchanged d)
      then show ?thesis by (simp add: run_effect_changes)
    next
      case (Store d)
      have "case outcome_of r of Raised _ _ \<Rightarrow> d_number d = [] \<and> d_token_cost d = 0 | _ \<Rightarrow> True" using Store by (cases "outcome_of r") (simp_all add: run_effect_def)
      then show ?thesis using that [of d] run_effect_doc [OF Store] run_effect_fresh [OF Store] None eff Store assms(1)
        by (simp add: investigate_cluster_def case_id_for_def)
    next
      case (Fails err risk)
      then show ?thesis using that [of "fail_to_human_case now s ?i ?e cl err risk"] None eff assms(1)
        by (cases "outcome_of r") (simp_all add: investigate_cluster_def case_id_for_def Let_def)
    qed
  qed
qed

text \<open>
  C6. An eligible cluster with allowance left gets its answer. If the store takes documents, one delivery of a cluster whose
  case is undecided or new spends one unit of the allowance and stores a document of the cluster's signature that waits for
  nothing and is decided, by a verdict or by the operator's policy, however the model run went: answer, timeout or error.
\<close>

theorem eligible_candidate_drains:
  assumes "eligible g cl" "\<not> muted g now cl" "claimed st < limit" "\<forall>d. saves (pipe g) d" "alive st"
    and "case find_for_cluster (digest (pipe g)) (cases st) cl of None \<Rightarrow> True | Some e \<Rightarrow> d_verdict e = None"
  shows "\<exists>d st'. handle_cluster g limit now cl r st = st' \<and> alive st' \<and> claimed st' = Suc (claimed st) \<and>
    s_investigated (stats st') = Suc (s_investigated (stats st)) \<and> cases st' = save_case d (cases st) \<and>
    d_signature d = signature cl \<and> d_awaiting d = Not_awaiting \<and>
    (d_verdict d \<noteq> None \<or> d_status d = ST_CLOSED \<and> d_decision_by d = Some BY_ANALYST_POLICY)"
proof -
  let ?docs = "cases st"
  obtain d where d: "investigate_cluster (pipe g) now (surface g) False cl r ?docs = (save_case d ?docs, Some d)"
    "d_signature d = signature cl" "d_awaiting d = Not_awaiting"
    "d_verdict d \<noteq> None \<or> d_status d = ST_CLOSED \<and> d_decision_by d = Some BY_ANALYST_POLICY"
    by (rule investigate_stores [OF assms(4), where docs = ?docs and cl = cl and force = False and now = now and s = "surface g" and r = r]) (use assms(6) close_shape in \<open>auto split: option.splits\<close>)
  have "handle_cluster g limit now cl r st = triage g limit now cl r (find_for_cluster (digest (pipe g)) ?docs cl) st"
    using assms(2,6) by (auto simp: handle_cluster_def muted_def split: option.splits)
  also have "\<dots> = forward g now cl r (st\<lparr>claimed := Suc (claimed st)\<rparr>)" using assms(1,3) by (simp add: triage_def try_claim_def)
  finally show ?thesis using d assms(5) by (simp add: forward_def) blast
qed

theorem eligible_candidate_drains_witness:
  "\<exists>d st'. handle_cluster sample_ingest 1 5 sample_cluster sample_answer (sample_start []) = st' \<and> cases st' = save_case d [] \<and>
     d_awaiting d = Not_awaiting \<and> (d_verdict d \<noteq> None \<or> d_status d = ST_CLOSED)"
proof -
  have e: "eligible sample_ingest sample_cluster"
    by (simp add: eligible_def auto_correlate_allowed_def source_of_def sample_ingest_def sample_cluster_def sample_event_def)
  have f: "find_for_cluster d [] sample_cluster = None" for d
    by (simp add: find_for_cluster_def find_open_case_for_cluster_def find_open_by_signature_def dvals_def Let_def)
  from eligible_candidate_drains [OF e, of 5 "sample_start []" 1 sample_answer] f show ?thesis by simp blast
qed

text \<open>
  C10. A new investigation erases the work on the case. Unless an operator's policy closes it, investigating an open case
  again stores, under the same id, a document without the feedback, tags, comments, assignee, acknowledgement and
  campaign that people and later passes had put on it; when the run raises, the case number and the cost spent so far
  are lost as well.
\<close>

theorem reinvestigation_erases_work:
  assumes "find_for_cluster (digest p) docs cl = Some e" "\<forall>d. saves p d" "d_verdict e = None \<or> force \<or> new_keys e cl \<noteq> []"
    and "close_by_analyst_policy p now s (d_id e) force (Some e) cl = None"
  shows "\<exists>d. investigate_cluster p now s force cl r docs = (save_case d docs, Some d) \<and> d_id d = d_id e \<and> d_work d = no_work \<and>
    (case outcome_of r of Raised _ _ \<Rightarrow> d_number d = [] \<and> d_token_cost d = 0 | _ \<Rightarrow> True)"
  by (rule investigate_stores [OF assms(2), where docs = docs and cl = cl and force = force and now = now and s = s and r = r]) (use assms in \<open>auto simp: case_id_for_def\<close>)

theorem reinvestigation_erases_work_witness:
  "let e = sample_doc\<lparr>d_verdict := None\<rparr>
   in comments (d_work e) = [''mine''] \<and>
     (\<exists>d. investigate_cluster sample_pipe 9 AUTOMATED_SCAN False sample_cluster sample_answer [(''c1'', e)] = (save_case d [(''c1'', e)], Some d) \<and>
        d_id d = ''c1'' \<and> d_work d = no_work)"
proof -
  let ?e = "sample_doc\<lparr>d_verdict := None\<rparr>"
  have o: "find_open_by_signature [(''c1'', ?e)] (signature sample_cluster) = Some ?e" and i: "d_id ?e = ''c1''"
    by (simp_all add: find_open_by_signature_def dvals_def sample_doc_def is_open_def OPEN_CASE_STATUSES_def)
  then have f: "find_for_cluster (digest sample_pipe) [(''c1'', ?e)] sample_cluster = Some ?e"
    by (simp add: find_for_cluster_def find_open_case_for_cluster_def dget_def)
  have c: "close_by_analyst_policy sample_pipe 9 AUTOMATED_SCAN (d_id ?e) False (Some ?e) sample_cluster = None"
    by (rule no_policy) simp
  from reinvestigation_erases_work [OF f _ _ c, of sample_answer] i show ?thesis
    by (auto simp: Let_def sample_doc_def)
qed

end
