(* ===== verification/Proposals.thy ===== *)
theory Proposals
  imports Py_Json Feeds
begin

section \<open>Proposals\<close>

text \<open>
  \<^verbatim>\<open>stores/proposals.py\<close>: work an agent has drafted and a person must decide. The registry is one list in one
  document; every mutation is one compare-and-set of it (\<^verbatim>\<open>Kv_Cas\<close>), so an operation is a function on the list.
  A deadline or a lease start is the instant its text parses to, \<open>None\<close> where it is missing or does not parse.
  \<open>digest\<close> is SHA-256 in hexadecimal, \<open>dumps\<close> the sorted JSON text of a value, \<open>rd\<close> the reading of a number
  by \<^verbatim>\<open>int\<close>; all three are arguments (the record \<open>codec\<close>). The labels of the review card are left out.
\<close>

datatype proposal_kind = SUPPRESSION | MEMORY | TUNING | AUTOMATION_ACK
datatype proposal_status = P_PENDING | P_APPLYING | P_APPROVED | P_REJECTED | P_EXPIRED
datatype decision_action = APPROVE | REJECT

record proposal =
  p_id :: string
  p_kind :: proposal_kind
  p_status :: proposal_status
  p_payload :: "(string \<times> json) list"
  p_rationale :: string
  p_confidence :: real
  p_source_cases :: "string list"
  p_created_at :: real
  p_decided_by :: "string option"
  p_decided_at :: "real option"
  p_actor :: "string option"
  p_intent :: "decision_action option"
  p_audit_at :: "real option"
  p_token :: "string option"
  p_lease :: "real option"
  p_error :: "string option"
  p_expires :: "real option"
  p_reason :: "string option"
  p_fingerprint :: "string option"

subsection \<open>Evidence\<close>

definition PROVENANCE_COUNT_KEYS :: "string list" where
  "PROVENANCE_COUNT_KEYS = [''independent_analyst_outcomes'', ''analyst_feedback_labels'', ''explicit_disposition_labels'',
     ''bulk_ratified_model_verdicts'', ''unlabelled_cases'']"

definition FINGERPRINT_KEYS :: "string list" where
  "FINGERPRINT_KEYS = [''action'', ''target'', ''rule_id'', ''feed_key'', ''source_id'', ''feed_id'', ''before'', ''after'', ''analyst_samples'',
     ''confirmed_false_positives'', ''confirmed_true_positives'', ''observed_cases'', ''unconfirmed_cases'']"

fun as_int :: "(string \<Rightarrow> int option) \<Rightarrow> json \<Rightarrow> int" where
  "as_int rd (JBool b) = (if b then 1 else 0)"
| "as_int rd (JInt i) = i"
| "as_int rd (JFloat x) = (if 0 \<le> x then \<lfloor>x\<rfloor> else - \<lfloor>- x\<rfloor>)"
| "as_int rd (JStr s) = (case rd s of Some i \<Rightarrow> i | None \<Rightarrow> 0)"
| "as_int rd v = 0"

definition provenance_counts :: "(string \<Rightarrow> int option) \<Rightarrow> (string \<times> json) list \<Rightarrow> (string, int) dict option" where
  "provenance_counts rd payload =
     (case jget payload ''analyst_samples_provenance'' of
        JDict raw \<Rightarrow> Some (map (\<lambda>k. (k, as_int rd (jget raw k))) PROVENANCE_COUNT_KEYS)
      | _ \<Rightarrow> None)"

definition evidence_fingerprint ::
  "(string \<Rightarrow> string) \<Rightarrow> (json \<Rightarrow> string) \<Rightarrow> (string \<Rightarrow> int option) \<Rightarrow> (string \<times> json) list \<Rightarrow> string" where
  "evidence_fingerprint digest dumps rd body =
     ''ev1:'' @ digest (join_with ''|''
       (map (\<lambda>key. key @ ''='' @ dumps (jget body key)) FINGERPRINT_KEYS @
        [case provenance_counts rd body of
           None \<Rightarrow> ''provenance=absent''
         | Some counts \<Rightarrow> ''provenance='' @ join_with '','' (map (\<lambda>(k, n). k @ '':'' @ str_int n) counts)]))"

datatype provenance = Independent_analyst | Bulk_ratified | Mixed | No_analyst_evidence | Unverified

datatype blocked = Fingerprint_missing | Fingerprint_mismatch | Provenance_missing | Not_analyst_confirmed

record evidence =
  e_provenance :: provenance
  e_analyst_confirmed :: bool
  e_independent :: int
  e_bulk :: int
  e_verified :: bool
  e_applies_configuration :: bool
  e_blocked :: "blocked option"

record codec =
  cd_digest :: "string \<Rightarrow> string"
  cd_dumps :: "json \<Rightarrow> string"
  cd_int :: "string \<Rightarrow> int option"
  cd_float :: "string \<Rightarrow> real option"
  cd_show :: "json \<Rightarrow> string"

definition text_or_empty :: "(json \<Rightarrow> string) \<Rightarrow> json \<Rightarrow> string" where
  "text_or_empty sh v = (if truthy v then py_str sh v else [])"

definition count_of :: "(string, int) dict option \<Rightarrow> string \<Rightarrow> int" where
  "count_of counts key = (case counts of None \<Rightarrow> 0 | Some c \<Rightarrow> (case dget c key of None \<Rightarrow> 0 | Some n \<Rightarrow> n))"

definition evidence_summary :: "codec \<Rightarrow> proposal \<Rightarrow> evidence" where
  "evidence_summary cd p =
     (let payload = p_payload p;
          action = py_strip (text_or_empty (cd_show cd) (jget payload ''action''));
          applies = (p_kind p = TUNING \<and> action = ''apply_change'');
          counts = provenance_counts (cd_int cd) payload;
          recorded = py_strip (case p_fingerprint p of None \<Rightarrow> [] | Some f \<Rightarrow> f);
          matches = (recorded \<noteq> [] \<and> recorded = evidence_fingerprint (cd_digest cd) (cd_dumps cd) (cd_int cd) payload);
          independent = count_of counts ''independent_analyst_outcomes'';
          bulk = count_of counts ''bulk_ratified_model_verdicts'';
          verified = (recorded \<noteq> [] \<and> matches \<and> counts \<noteq> None);
          prov = (if \<not> verified then Unverified
                  else if 0 < independent \<and> 0 < bulk then Mixed
                  else if 0 < independent then Independent_analyst
                  else if 0 < bulk then Bulk_ratified
                  else No_analyst_evidence);
          confirmed = ((prov = Independent_analyst \<or> prov = Mixed) \<and> 0 < independent)
      in \<lparr>e_provenance = prov, e_analyst_confirmed = confirmed, e_independent = independent, e_bulk = bulk, e_verified = verified,
          e_applies_configuration = applies,
          e_blocked = (if \<not> applies then None
                       else if recorded = [] then Some Fingerprint_missing
                       else if \<not> matches then Some Fingerprint_mismatch
                       else if counts = None then Some Provenance_missing
                       else if \<not> confirmed then Some Not_analyst_confirmed
                       else None)\<rparr>)"

subsection \<open>Deadlines and reasons\<close>

definition proposal_is_expired :: "real \<Rightarrow> proposal \<Rightarrow> bool" where
  "proposal_is_expired now p =
     (if p_kind p = SUPPRESSION then False else (case p_expires p of None \<Rightarrow> False | Some d \<Rightarrow> d \<le> now))"

definition control_char :: "char \<Rightarrow> bool" where
  "control_char c = ((of_char c :: nat) \<le> 31 \<or> (of_char c :: nat) = 127)"

text \<open>\<^verbatim>\<open>str.split()\<close>: the runs of characters that are not white space; \<open>w\<close> is the run being read, reversed.\<close>

fun words :: "string \<Rightarrow> string \<Rightarrow> string list" where
  "words w [] = (if w = [] then [] else [rev w])"
| "words w (c # cs) = (if py_space c then (if w = [] then words [] cs else rev w # words [] cs) else words (c # w) cs)"

definition MAX_DECISION_REASON_CHARS :: nat where "MAX_DECISION_REASON_CHARS = 200"

definition sanitize_decision_reason :: "string option \<Rightarrow> string" where
  "sanitize_decision_reason reason =
     (let text = sub_runs (\<lambda>c. \<not> control_char c) CHR '' '' False (case reason of None \<Rightarrow> [] | Some r \<Rightarrow> r)
      in py_strip (take MAX_DECISION_REASON_CHARS (join_with '' '' (words [] text))))"

subsection \<open>The registry\<close>

definition projected :: "real \<Rightarrow> proposal list \<Rightarrow> proposal list" where
  "projected now es = map (\<lambda>p. if p_status p = P_PENDING \<and> proposal_is_expired now p then p\<lparr>p_status := P_EXPIRED\<rparr> else p) es"

definition list_proposals :: "real \<Rightarrow> proposal_status option \<Rightarrow> proposal list \<Rightarrow> proposal list" where
  "list_proposals now st es =
     sort_key (\<lambda>p. - p_created_at p)
       (case st of
          None \<Rightarrow> projected now es
        | Some P_PENDING \<Rightarrow> filter (\<lambda>p. p_status p = P_PENDING \<or> p_status p = P_APPLYING) (projected now es)
        | Some s \<Rightarrow> filter (\<lambda>p. p_status p = s) (projected now es))"

definition list_strict :: "proposal_status option \<Rightarrow> proposal list \<Rightarrow> proposal list" where
  "list_strict st es = sort_key (\<lambda>p. - p_created_at p) (case st of None \<Rightarrow> es | Some s \<Rightarrow> filter (\<lambda>p. p_status p = s) es)"

definition lapsed :: "real \<Rightarrow> proposal \<Rightarrow> bool" where
  "lapsed now p = (p_status p = P_PENDING \<and> proposal_is_expired now p)"

definition retired :: "proposal \<Rightarrow> proposal" where
  "retired p = p\<lparr>p_status := P_EXPIRED, p_token := None, p_lease := None\<rparr>"

definition SWEEP_BATCH_LIMIT :: nat where "SWEEP_BATCH_LIMIT = 500"

fun sweep_pass :: "real \<Rightarrow> nat \<Rightarrow> proposal list \<Rightarrow> proposal list \<times> proposal list" where
  "sweep_pass now bound [] = ([], [])"
| "sweep_pass now bound (p # ps) =
     (if bound = 0 then (p # ps, [])
      else if lapsed now p then (let (rest, swept) = sweep_pass now (bound - 1) ps in (retired p # rest, retired p # swept))
      else (let (rest, swept) = sweep_pass now bound ps in (p # rest, swept)))"

definition sweep_expired :: "real \<Rightarrow> nat \<Rightarrow> proposal list \<Rightarrow> proposal list \<times> proposal list" where
  "sweep_expired now bound es = (if list_ex (lapsed now) es then sweep_pass now bound es else (es, []))"

definition get_proposal :: "string \<Rightarrow> proposal list \<Rightarrow> proposal option" where
  "get_proposal i es = find (\<lambda>p. p_id p = i) es"

definition add_proposal :: "proposal \<Rightarrow> proposal list \<Rightarrow> proposal list" where
  "add_proposal p es = es @ [p]"

definition dedupe_key_of :: "(json \<Rightarrow> string) \<Rightarrow> proposal \<Rightarrow> string" where
  "dedupe_key_of sh p = text_or_empty sh (jget (p_payload p) ''dedupe_key'')"

definition add_unique :: "(json \<Rightarrow> string) \<Rightarrow> string \<Rightarrow> proposal \<Rightarrow> proposal list \<Rightarrow> proposal list \<times> (proposal \<times> bool)" where
  "add_unique sh dedupe p es =
     (let key = py_strip dedupe
      in if key = [] then (add_proposal p es, (p, True))
         else case find (\<lambda>q. dedupe_key_of sh q = key) es of
                Some q \<Rightarrow> (es, (q, False))
              | None \<Rightarrow> let created = p\<lparr>p_payload := dset (p_payload p) ''dedupe_key'' (JStr key)\<rparr> in (es @ [created], (created, True)))"

text \<open>The loops of the decision operations: change the first row of the id, or answer that there is none.\<close>

fun on_first :: "string \<Rightarrow> (proposal \<Rightarrow> proposal \<times> 'r) \<Rightarrow> 'r \<Rightarrow> proposal list \<Rightarrow> proposal list \<times> 'r" where
  "on_first i f missing [] = ([], missing)"
| "on_first i f missing (p # ps) =
     (if p_id p = i then (fst (f p) # ps, snd (f p)) else (p # fst (on_first i f missing ps), snd (on_first i f missing ps)))"

definition fixed_decision_actor :: "proposal \<Rightarrow> string \<Rightarrow> string" where
  "fixed_decision_actor p by =
     (case p_actor p of
        Some a \<Rightarrow> a
      | None \<Rightarrow> (case p_decided_by p of Some d \<Rightarrow> py_strip d | None \<Rightarrow> py_strip by))"

definition some_text :: "string \<Rightarrow> string option" where
  "some_text s = (if s = [] then None else Some s)"

definition set_status_row :: "real \<Rightarrow> proposal_status \<Rightarrow> string \<Rightarrow> proposal \<Rightarrow> proposal \<times> proposal option" where
  "set_status_row now st by p =
     (let actor = fixed_decision_actor p by;
          p' = p\<lparr>p_status := st, p_decided_by := some_text actor, p_decided_at := Some now, p_actor := Some actor\<rparr>
      in (p', Some p'))"

definition set_status :: "real \<Rightarrow> string \<Rightarrow> proposal_status \<Rightarrow> string \<Rightarrow> proposal list \<Rightarrow> proposal list \<times> proposal option" where
  "set_status now i st by es = on_first i (set_status_row now st by) None es"

definition APPROVAL_LEASE_SECONDS :: real where "APPROVAL_LEASE_SECONDS = 30"

definition lease_is_stale :: "real \<Rightarrow> proposal \<Rightarrow> bool" where
  "lease_is_stale now p = (case p_lease p of None \<Rightarrow> True | Some started \<Rightarrow> started \<le> now - APPROVAL_LEASE_SECONDS)"

subsection \<open>Decisions\<close>

datatype claim_outcome = Claimed | Missing | Lapsed | Conflict

definition claimed_row :: "real \<Rightarrow> string \<Rightarrow> string \<Rightarrow> decision_action \<Rightarrow> string \<Rightarrow> proposal \<Rightarrow> proposal" where
  "claimed_row now by token action reason p =
     (let actor = fixed_decision_actor p by
      in p\<lparr>p_status := P_APPLYING, p_actor := Some actor,
           p_intent := (case p_intent p of Some a \<Rightarrow> Some a | None \<Rightarrow> Some action),
           p_audit_at := (case p_audit_at p of Some t \<Rightarrow> Some t | None \<Rightarrow> Some now),
           p_reason := (case p_reason p of Some (c # cs) \<Rightarrow> Some (c # cs) | _ \<Rightarrow> some_text reason),
           p_token := Some token, p_lease := Some now, p_error := None,
           p_decided_by := some_text actor, p_decided_at := None\<rparr>)"

definition claim_one :: "real \<Rightarrow> string \<Rightarrow> string \<Rightarrow> decision_action \<Rightarrow> string \<Rightarrow> proposal \<Rightarrow> proposal \<times> (proposal option \<times> claim_outcome)" where
  "claim_one now by token action reason p =
     (if p_intent p \<noteq> None \<and> p_intent p \<noteq> Some action then (p, (Some p, Conflict))
      else if action = APPROVE \<and> (p_status p = P_EXPIRED \<or> lapsed now p) then (p, (Some p, Lapsed))
      else if p_status p = P_PENDING \<or> (p_status p = P_APPLYING \<and> lease_is_stale now p) \<or> (action = REJECT \<and> p_status p = P_EXPIRED)
      then (let c = claimed_row now by token action reason p in (c, (Some c, Claimed)))
      else (p, (Some p, Conflict)))"

definition claim_decision ::
  "real \<Rightarrow> string \<Rightarrow> string \<Rightarrow> string \<Rightarrow> decision_action \<Rightarrow> string option \<Rightarrow> proposal list \<Rightarrow> proposal list \<times> (proposal option \<times> claim_outcome)" where
  "claim_decision now i by token action reason es =
     on_first i (claim_one now by token action (sanitize_decision_reason reason)) (None, Missing) es"

definition claim_approval :: "real \<Rightarrow> string \<Rightarrow> string \<Rightarrow> string \<Rightarrow> proposal list \<Rightarrow> proposal list \<times> (proposal option \<times> claim_outcome)" where
  "claim_approval now i by token es = claim_decision now i by token APPROVE None es"

definition claim_rejection ::
  "real \<Rightarrow> string \<Rightarrow> string \<Rightarrow> string \<Rightarrow> string option \<Rightarrow> proposal list \<Rightarrow> proposal list \<times> (proposal option \<times> claim_outcome)" where
  "claim_rejection now i by token reason es = claim_decision now i by token REJECT reason es"

definition decided_status :: "decision_action \<Rightarrow> proposal_status" where
  "decided_status action = (if action = APPROVE then P_APPROVED else P_REJECTED)"

definition finalize_one :: "real \<Rightarrow> string \<Rightarrow> string \<Rightarrow> decision_action \<Rightarrow> proposal \<Rightarrow> proposal \<times> proposal option" where
  "finalize_one now by token action p =
     (if p_status p \<noteq> P_APPLYING \<or> p_token p \<noteq> Some token \<or> p_intent p \<noteq> Some action then (p, None)
      else let p' = p\<lparr>p_status := decided_status action, p_token := None, p_lease := None, p_error := None,
                      p_decided_by := some_text (fixed_decision_actor p by), p_decided_at := Some now\<rparr>
           in (p', Some p'))"

definition finalize_decision :: "real \<Rightarrow> string \<Rightarrow> string \<Rightarrow> string \<Rightarrow> decision_action \<Rightarrow> proposal list \<Rightarrow> proposal list \<times> proposal option" where
  "finalize_decision now i by token action es = on_first i (finalize_one now by token action) None es"

definition release_one :: "string \<Rightarrow> string \<Rightarrow> proposal \<Rightarrow> proposal \<times> proposal option" where
  "release_one token err p =
     (if p_status p \<noteq> P_APPLYING \<or> p_token p \<noteq> Some token then (p, None)
      else let p' = p\<lparr>p_status := P_PENDING, p_token := None, p_lease := None,
                      p_error := Some (take 500 (py_strip (str_or err ''Approval failed''))), p_decided_by := None, p_decided_at := None\<rparr>
           in (p', Some p'))"

definition release_approval :: "string \<Rightarrow> string \<Rightarrow> string \<Rightarrow> proposal list \<Rightarrow> proposal list \<times> proposal option" where
  "release_approval i token err es = on_first i (release_one token err) None es"

definition reject_one :: "real \<Rightarrow> string \<Rightarrow> proposal \<Rightarrow> proposal \<times> (proposal option \<times> claim_outcome)" where
  "reject_one now by p =
     (if p_status p \<noteq> P_PENDING then (p, (Some p, Conflict))
      else let actor = fixed_decision_actor p by;
               p' = p\<lparr>p_status := P_REJECTED, p_error := None, p_decided_by := some_text actor, p_decided_at := Some now, p_actor := Some actor\<rparr>
           in (p', (Some p', Claimed)))"

definition reject_pending :: "real \<Rightarrow> string \<Rightarrow> string \<Rightarrow> proposal list \<Rightarrow> proposal list \<times> (proposal option \<times> claim_outcome)" where
  "reject_pending now i by es = on_first i (reject_one now by) (None, Missing) es"

end
