(* ===== verification/Tuning_Apply.thy ===== *)
theory Tuning_Apply
  imports Proposals Correlation
begin

section \<open>Approved tuning\<close>

text \<open>
  What approving a tuning proposal changes (\<^verbatim>\<open>materialize_approved_tuning\<close> of \<^verbatim>\<open>engine/threshold_tuner.py\<close>):
  the evidence gate, the bounds of a step, the check that the recommendation is still current, the two writers and
  their compensation. A feed in the raw configuration is a bare pattern or an entry with its id, pattern and floor;
  the other settings of an entry, a rule or a source are untouched and left out.
\<close>

datatype feed_entry = Bare string | Entry string string "int option"

record tuned_source =
  ts_id :: string
  ts_feeds :: "feed_entry list option"
  ts_data_view :: string

record tuning_prefs =
  t_rules :: "(string, correlation_rule) dict"
  t_default :: correlation_rule
  t_max_step :: int
  t_sources :: "tuned_source list"

record tuning_change =
  tc_rule :: string
  tc_target :: string
  tc_before :: int
  tc_after :: int
  tc_feed_key :: "string option"
  tc_source :: "string option"
  tc_feed :: "string option"

record tuning_record =
  tl_rule :: string
  tl_target :: string
  tl_before :: int
  tl_after :: int
  tl_samples :: int
  tl_proposal :: string

datatype tuning_error =
    Unknown_action
  | Stale_evidence "blocked option"
  | Invalid_target
  | Invalid_threshold
  | Not_an_increase
  | Step_exceeds_policy
  | Live_threshold_changed
  | Bad_statistic
  | Target_gone

subsection \<open>The live thresholds\<close>

definition correlation_rule_for :: "tuning_prefs \<Rightarrow> string \<Rightarrow> correlation_rule" where
  "correlation_rule_for pr rid = (case dget (t_rules pr) rid of None \<Rightarrow> t_default pr | Some r \<Rightarrow> r)"

fun feed_view :: "feed_entry \<Rightarrow> (string \<times> string \<times> int option) list" where
  "feed_view (Bare s) = (if s = [] then [] else [(slug s, s, None)])"
| "feed_view (Entry i p fl) = (if p = [] then [] else [(if i = [] then slug p else i, p, fl)])"

definition views_of :: "tuned_source \<Rightarrow> (string \<times> string \<times> int option) list" where
  "views_of src =
     (let out = (case ts_feeds src of None \<Rightarrow> [] | Some es \<Rightarrow> concat (map feed_view es))
      in if out \<noteq> [] then out
         else if ts_data_view src \<noteq> [] then [(slug (ts_data_view src), ts_data_view src, None)] else [])"

definition SEVERITY_FLOOR_MIN :: int where "SEVERITY_FLOOR_MIN = 1"
definition SEVERITY_FLOOR_MAX :: int where "SEVERITY_FLOOR_MAX = 6"

definition current_feed_floor :: "tuning_prefs \<Rightarrow> string option \<Rightarrow> string option \<Rightarrow> int option" where
  "current_feed_floor pr source feed_name =
     (if \<not> nonempty source \<or> \<not> nonempty feed_name then None
      else case find (\<lambda>(i, p, fl). i = the feed_name \<or> p = the feed_name)
                  (concat (map views_of (filter (\<lambda>s. ts_id s = the source) (t_sources pr)))) of
             None \<Rightarrow> None
           | Some (i, p, fl) \<Rightarrow> Some (case fl of None \<Rightarrow> SEVERITY_FLOOR_MIN | Some n \<Rightarrow> if n = 0 then SEVERITY_FLOOR_MIN else n))"

subsection \<open>The writers\<close>

definition canonical_rules :: "(string, correlation_rule) dict \<Rightarrow> (string, correlation_rule) dict" where
  "canonical_rules rs = foldl (\<lambda>out (key, value). if py_strip key = [] then out else dset out (py_strip key) value) [] rs"

definition apply_correlation_n :: "tuning_prefs \<Rightarrow> tuning_change \<Rightarrow> tuning_prefs option" where
  "apply_correlation_n pr c =
     (let rid = py_strip (tc_rule c)
      in if rid = [] \<or> tc_after c \<le> tc_before c then None
         else let rs = canonical_rules (t_rules pr);
                  base = (case dget rs rid of Some r \<Rightarrow> r | None \<Rightarrow> correlation_rule_for pr rid)
              in Some (pr\<lparr>t_rules := dset rs rid (base\<lparr>cr_n := tc_after c\<rparr>)\<rparr>))"

fun is_feed :: "string option \<Rightarrow> feed_entry \<Rightarrow> bool" where
  "is_feed name (Bare s) = False"
| "is_feed name (Entry i p fl) = (Some i = name \<or> i = [] \<and> Some (slug p) = name \<or> Some p = name)"

fun set_floor :: "int \<Rightarrow> feed_entry \<Rightarrow> feed_entry" where
  "set_floor n (Bare s) = Bare s"
| "set_floor n (Entry i p fl) = Entry i p (Some n)"

fun write_floor :: "string \<Rightarrow> string option \<Rightarrow> int \<Rightarrow> tuned_source list \<Rightarrow> tuned_source list option" where
  "write_floor source name n [] = None"
| "write_floor source name n (s # ss) =
     (if ts_id s \<noteq> source then map_option ((#) s) (write_floor source name n ss)
      else case ts_feeds s of
             None \<Rightarrow> None
           | Some es \<Rightarrow> if list_ex (is_feed name) es
                       then Some (s\<lparr>ts_feeds := Some (map (\<lambda>e. if is_feed name e then set_floor n e else e) es)\<rparr> # ss) else None)"

definition apply_severity_floor :: "tuning_prefs \<Rightarrow> tuning_change \<Rightarrow> tuning_prefs option" where
  "apply_severity_floor pr c =
     (if \<not> nonempty (tc_source c) \<or> tc_after c \<le> tc_before c then None
      else map_option (\<lambda>ss. pr\<lparr>t_sources := ss\<rparr>) (write_floor (the (tc_source c)) (tc_feed c) (tc_after c) (t_sources pr)))"

definition apply_rollback :: "tuning_prefs \<Rightarrow> tuning_change \<Rightarrow> tuning_prefs option" where
  "apply_rollback pr c =
     (if tc_target c = ''correlation_n'' then
        (let rid = py_strip (tc_rule c)
         in if rid = [] then None
            else Some (pr\<lparr>t_rules := dset (t_rules pr) rid ((correlation_rule_for pr rid)\<lparr>cr_n := tc_after c\<rparr>)\<rparr>))
      else if tc_target c = ''severity_floor'' then
        (if \<not> nonempty (tc_source c) then None
         else map_option (\<lambda>ss. pr\<lparr>t_sources := ss\<rparr>) (write_floor (the (tc_source c)) (tc_feed c) (tc_after c) (t_sources pr)))
      else None)"

subsection \<open>Materialising\<close>

fun parse_int :: "(string \<Rightarrow> int option) \<Rightarrow> json \<Rightarrow> int option" where
  "parse_int rd (JBool b) = Some (if b then 1 else 0)"
| "parse_int rd (JInt i) = Some i"
| "parse_int rd (JFloat x) = Some (if 0 \<le> x then \<lfloor>x\<rfloor> else - \<lfloor>- x\<rfloor>)"
| "parse_int rd (JStr s) = rd s"
| "parse_int rd v = None"

definition int_or_0 :: "(string \<Rightarrow> int option) \<Rightarrow> json \<Rightarrow> int option" where
  "int_or_0 rd v = (if truthy v then parse_int rd v else Some 0)"

definition text_of :: "codec \<Rightarrow> proposal \<Rightarrow> string \<Rightarrow> string" where
  "text_of cd p key = text_or_empty (cd_show cd) (jget (p_payload p) key)"

definition change_of :: "codec \<Rightarrow> proposal \<Rightarrow> int \<Rightarrow> int \<Rightarrow> tuning_change" where
  "change_of cd p before after =
     \<lparr>tc_rule = py_strip (text_of cd p ''rule_id''), tc_target = text_of cd p ''target'', tc_before = before, tc_after = after,
      tc_feed_key = some_text (text_of cd p ''feed_key''), tc_source = some_text (text_of cd p ''source_id''),
      tc_feed = some_text (text_of cd p ''feed_id'')\<rparr>"

definition live_threshold :: "tuning_prefs \<Rightarrow> tuning_change \<Rightarrow> int" where
  "live_threshold pr c =
     (if tc_target c = ''correlation_n'' then cr_n (correlation_rule_for pr (tc_rule c))
      else case current_feed_floor pr (tc_source c) (tc_feed c) of None \<Rightarrow> -1 | Some n \<Rightarrow> n)"

definition step_allowed :: "tuning_prefs \<Rightarrow> tuning_change \<Rightarrow> bool" where
  "step_allowed pr c =
     (if tc_target c = ''correlation_n'' then 0 < t_max_step pr \<and> tc_after c - tc_before c \<le> t_max_step pr
      else tc_after c - tc_before c = 1 \<and> tc_after c \<le> SEVERITY_FLOOR_MAX)"

definition write_change :: "tuning_prefs \<Rightarrow> tuning_change \<Rightarrow> tuning_prefs option" where
  "write_change pr c = (if tc_target c = ''correlation_n'' then apply_correlation_n pr c else apply_severity_floor pr c)"

definition statistics_ok :: "codec \<Rightarrow> proposal \<Rightarrow> bool" where
  "statistics_ok cd p =
     (list_all (\<lambda>key. int_or_0 (cd_int cd) (jget (p_payload p) key) \<noteq> None)
        [''observed_cases'', ''analyst_samples'', ''confirmed_false_positives'', ''confirmed_true_positives'', ''unconfirmed_cases''] \<and>
      float_or_0 (cd_float cd) (jget (p_payload p) ''fp_rate'') \<noteq> None)"

definition record_of :: "codec \<Rightarrow> proposal \<Rightarrow> tuning_change \<Rightarrow> tuning_record" where
  "record_of cd p c =
     \<lparr>tl_rule = (case tc_feed_key c of Some k \<Rightarrow> k | None \<Rightarrow> tc_rule c), tl_target = tc_target c, tl_before = tc_before c,
      tl_after = tc_after c,
      tl_samples = (case int_or_0 (cd_int cd) (jget (p_payload p) ''analyst_samples'') of None \<Rightarrow> 0 | Some n \<Rightarrow> n),
      tl_proposal = p_id p\<rparr>"

definition materialize_change :: "codec \<Rightarrow> tuning_prefs \<Rightarrow> proposal \<Rightarrow> tuning_change \<Rightarrow> tuning_error + (tuning_prefs \<times> tuning_record option \<times> bool)" where
  "materialize_change cd pr p c =
     (let applied = (live_threshold pr c = tc_after c)
      in if tc_after c \<le> tc_before c then Inl Not_an_increase
         else if \<not> step_allowed pr c then Inl Step_exceeds_policy
         else if live_threshold pr c \<noteq> tc_before c \<and> \<not> applied then Inl Live_threshold_changed
         else if \<not> statistics_ok cd p then Inl Bad_statistic
         else if applied then Inr (pr, Some (record_of cd p c), False)
         else case write_change pr c of None \<Rightarrow> Inl Target_gone | Some pr' \<Rightarrow> Inr (pr', Some (record_of cd p c), True))"

definition materialize_approved_tuning :: "codec \<Rightarrow> tuning_prefs \<Rightarrow> proposal \<Rightarrow> tuning_error + (tuning_prefs \<times> tuning_record option \<times> bool)" where
  "materialize_approved_tuning cd pr p =
     (let action = text_of cd p ''action'';
          e = evidence_summary cd (p\<lparr>p_kind := TUNING\<rparr>);
          rid = py_strip (text_of cd p ''rule_id'');
          target = text_of cd p ''target''
      in if action \<in> {''review_history'', ''collect_evidence'', ''review_finding''} then Inr (pr, None, False)
         else if action \<noteq> ''apply_change'' then Inl Unknown_action
         else if e_blocked e \<noteq> None then Inl (Stale_evidence (e_blocked e))
         else if rid = [] \<or> target \<notin> {''correlation_n'', ''severity_floor''} then Inl Invalid_target
         else case (parse_int (cd_int cd) (jget (p_payload p) ''before''), parse_int (cd_int cd) (jget (p_payload p) ''after'')) of
                (Some before, Some after) \<Rightarrow> materialize_change cd pr p (change_of cd p before after)
              | _ \<Rightarrow> Inl Invalid_threshold)"

text \<open>Undoing the change when the ledger row could not be confirmed; \<open>None\<close> where it raises.\<close>

definition compensate :: "codec \<Rightarrow> tuning_prefs \<Rightarrow> proposal \<Rightarrow> tuning_record \<Rightarrow> tuning_prefs option" where
  "compensate cd pr p r =
     (let c = change_of cd p (tl_before r) (tl_after r)
      in if live_threshold pr c = tl_before r then Some pr
         else if live_threshold pr c \<noteq> tl_after r then None
         else apply_rollback pr (c\<lparr>tc_before := tl_after r, tc_after := tl_before r\<rparr>))"

end
