(* ===== verification/Approvals.thy ===== *)
theory Approvals
  imports Tuning_Apply
begin

section \<open>Deciding a proposal\<close>

text \<open>
  \<^verbatim>\<open>approve_proposal\<close> and \<^verbatim>\<open>_reject_one\<close> of \<^verbatim>\<open>api/routes.py\<close>: claim, validate, audit, apply, finalise, with
  the release of the lease on any failure. The registry, the audit trail, the settings, the facts and the tuning ledger
  are separate documents, so a request is a sequence of moves between which other requests run; a move that writes
  may fail. A request that never moves again is a crashed server. The category and the tags of a fact are left out. \<open>check\<close> is the validation of a suppression rule's
  body by its schema, \<open>None\<close> where it is rejected.
\<close>

record sup_rule =
  r_body :: "(string \<times> json) list"
  r_approval :: string

record fact =
  m_text :: string
  m_author :: string
  m_approval :: string

record decision_row =
  a_actor :: string
  a_kind :: proposal_kind
  a_reason :: string

datatype phase =
    Preparing proposal
  | Auditing proposal
  | Effecting proposal
  | Ledgering proposal tuning_record bool
  | Compensating proposal tuning_record
  | Finalizing proposal
  | Releasing proposal string
  | Stopped

record worker =
  w_by :: string
  w_action :: decision_action
  w_phase :: phase

record desk_env =
  codec_of :: codec
  check :: "(string \<times> json) list \<Rightarrow> (string \<times> json) list option"

record desk =
  entries :: "proposal list"
  trail :: "(string, decision_row) dict"
  sup_rules :: "sup_rule list"
  tuning :: tuning_prefs
  facts :: "fact list"
  ledger :: "tuning_record list"
  team :: "string \<Rightarrow> worker option"

subsection \<open>The audit row\<close>

definition action_text :: "decision_action \<Rightarrow> string" where
  "action_text a = (if a = APPROVE then ''approve'' else ''reject'')"

definition event_id :: "string \<Rightarrow> decision_action \<Rightarrow> string" where
  "event_id i a = ''proposal-decision:'' @ i @ '':'' @ action_text a"

definition row_for :: "decision_action \<Rightarrow> proposal \<Rightarrow> decision_row" where
  "row_for a p =
     \<lparr>a_actor = str_or (case p_actor p of None \<Rightarrow> [] | Some x \<Rightarrow> x) ''analyst'', a_kind = p_kind p,
      a_reason = (if a = APPROVE then [] else sanitize_decision_reason (p_reason p))\<rparr>"

text \<open>The strict append keyed by event: an equal row is accepted, another one is a collision.\<close>

definition record_strict :: "string \<Rightarrow> decision_row \<Rightarrow> (string, decision_row) dict \<Rightarrow> (string, decision_row) dict option" where
  "record_strict key row tr =
     (case dget tr key of None \<Rightarrow> Some (dset tr key row) | Some old \<Rightarrow> if old = row then Some tr else None)"

subsection \<open>Validation and effects\<close>

definition payload_or :: "proposal \<Rightarrow> string \<Rightarrow> json \<Rightarrow> json" where
  "payload_or p key d = (case dget (p_payload p) key of None \<Rightarrow> d | Some v \<Rightarrow> v)"

definition suppression_body :: "proposal \<Rightarrow> (string \<times> json) list" where
  "suppression_body p =
     [(''source_case_ids'', payload_or p ''source_case_ids'' (JList (map JStr (p_source_cases p)))), (''field'', payload_or p ''field'' JNull), (''value'', payload_or p ''value'' JNull), (''reason'', payload_or p ''reason'' (JStr [])),
      (''confidence'', payload_or p ''confidence'' (JFloat (p_confidence p))), (''rationale'', payload_or p ''rationale'' (JStr (p_rationale p))),
      (''created_by'', payload_or p ''created_by'' (JStr ''agent'')),
      (''expires_at'', payload_or p ''expires_at'' (case p_expires p of None \<Rightarrow> JNull | Some t \<Rightarrow> JFloat t)),
      (''enabled'', payload_or p ''enabled'' (JBool True))]"

definition memory_text :: "desk_env \<Rightarrow> proposal \<Rightarrow> string" where
  "memory_text env p =
     (let v = payload_or p ''text'' (JStr []) in py_strip (py_str (cd_show (codec_of env)) (if truthy v then v else JStr (p_rationale p))))"

definition prepared :: "desk_env \<Rightarrow> desk \<Rightarrow> proposal \<Rightarrow> bool" where
  "prepared env h p =
     (case p_kind p of
        SUPPRESSION \<Rightarrow> check env (suppression_body p) \<noteq> None
      | MEMORY \<Rightarrow> memory_text env p \<noteq> []
      | TUNING \<Rightarrow> (case materialize_approved_tuning (codec_of env) (tuning h) p of Inl e \<Rightarrow> False | Inr r \<Rightarrow> True)
      | AUTOMATION_ACK \<Rightarrow> True)"

definition append_rule :: "desk_env \<Rightarrow> proposal \<Rightarrow> sup_rule list \<Rightarrow> sup_rule list" where
  "append_rule env p rs =
     (if list_ex (\<lambda>r. r_approval r = p_id p) rs then rs
      else case check env (suppression_body p) of None \<Rightarrow> rs | Some b \<Rightarrow> rs @ [\<lparr>r_body = b, r_approval = p_id p\<rparr>])"

definition append_fact :: "desk_env \<Rightarrow> proposal \<Rightarrow> fact list \<Rightarrow> fact list" where
  "append_fact env p fs =
     (let i = py_strip (p_id p)
      in if list_ex (\<lambda>f. m_approval f = i) fs then fs
         else fs @ [\<lparr>m_text = memory_text env p, m_author = py_strip (case p_actor p of None \<Rightarrow> [] | Some a \<Rightarrow> a), m_approval = i\<rparr>])"

definition append_ledger :: "tuning_record \<Rightarrow> tuning_record list \<Rightarrow> tuning_record list" where
  "append_ledger r rs = (if list_ex (\<lambda>x. tl_proposal x = py_strip (tl_proposal r)) rs then rs else rs @ [r])"

text \<open>The effect phase: the desk after it and the phase that follows.\<close>

definition effect_move :: "desk_env \<Rightarrow> bool \<Rightarrow> desk \<Rightarrow> proposal \<Rightarrow> desk \<times> phase" where
  "effect_move env works h p =
     (case p_kind p of
        AUTOMATION_ACK \<Rightarrow> (h, Finalizing p)
      | SUPPRESSION \<Rightarrow>
          if works then (h\<lparr>sup_rules := append_rule env p (sup_rules h)\<rparr>, Finalizing p) else (h, Releasing p ''effect'')
      | MEMORY \<Rightarrow>
          if works \<and> py_strip (p_id p) \<noteq> [] then (h\<lparr>facts := append_fact env p (facts h)\<rparr>, Finalizing p) else (h, Releasing p ''effect'')
      | TUNING \<Rightarrow>
          (case materialize_approved_tuning (codec_of env) (tuning h) p of
             Inl e \<Rightarrow> (h, Releasing p ''stale'')
           | Inr (pr, None, changed) \<Rightarrow> (h, Finalizing p)
           | Inr (pr, Some r, changed) \<Rightarrow> if works then (h\<lparr>tuning := pr\<rparr>, Ledgering p r changed) else (h, Releasing p ''effect'')))"

definition ledger_move :: "bool \<Rightarrow> desk \<Rightarrow> proposal \<Rightarrow> tuning_record \<Rightarrow> bool \<Rightarrow> desk \<times> phase" where
  "ledger_move works h p r changed =
     (if works \<and> py_strip (tl_proposal r) \<noteq> [] then (h\<lparr>ledger := append_ledger r (ledger h)\<rparr>, Finalizing p)
      else (h, if changed then Compensating p r else Releasing p ''ledger''))"

definition compensate_move :: "desk_env \<Rightarrow> bool \<Rightarrow> desk \<Rightarrow> proposal \<Rightarrow> tuning_record \<Rightarrow> desk \<times> phase" where
  "compensate_move env works h p r =
     (case compensate (codec_of env) (tuning h) p r of
        None \<Rightarrow> (h, Releasing p ''compensation'')
      | Some pr \<Rightarrow> if works then (h\<lparr>tuning := pr\<rparr>, Releasing p ''ledger'') else (h, Releasing p ''compensation''))"

definition audit_move :: "bool \<Rightarrow> desk \<Rightarrow> decision_action \<Rightarrow> proposal \<Rightarrow> desk \<times> phase" where
  "audit_move works h a p =
     (case record_strict (event_id (p_id p) a) (row_for a p) (trail h) of
        None \<Rightarrow> (h, Releasing p ''audit event id collision'')
      | Some tr \<Rightarrow> if works then (h\<lparr>trail := tr\<rparr>, if a = APPROVE then Effecting p else Finalizing p) else (h, Releasing p ''audit''))"

definition finalize_move :: "bool \<Rightarrow> real \<Rightarrow> string \<Rightarrow> string \<Rightarrow> decision_action \<Rightarrow> desk \<Rightarrow> proposal \<Rightarrow> desk \<times> phase" where
  "finalize_move works now token by a h p =
     (if \<not> works then (h, Releasing p ''finalize'')
      else case finalize_decision now (p_id p) by token a (entries h) of
             (es, None) \<Rightarrow> (h\<lparr>entries := es\<rparr>, Releasing p ''approval lease was lost before finalisation'')
           | (es, Some q) \<Rightarrow> (h\<lparr>entries := es\<rparr>, Stopped))"

definition release_move :: "bool \<Rightarrow> string \<Rightarrow> desk \<Rightarrow> proposal \<Rightarrow> string \<Rightarrow> desk \<times> phase" where
  "release_move works token h p err =
     (if works then (h\<lparr>entries := fst (release_approval (p_id p) token err (entries h))\<rparr>, Stopped) else (h, Stopped))"

fun phase_move :: "desk_env \<Rightarrow> real \<Rightarrow> string \<Rightarrow> bool \<Rightarrow> worker \<Rightarrow> desk \<Rightarrow> phase \<Rightarrow> desk \<times> phase" where
  "phase_move env now token works w h (Preparing p) = (h, if prepared env h p then Auditing p else Releasing p ''invalid'')"
| "phase_move env now token works w h (Auditing p) = audit_move works h (w_action w) p"
| "phase_move env now token works w h (Effecting p) = effect_move env works h p"
| "phase_move env now token works w h (Ledgering p r changed) = ledger_move works h p r changed"
| "phase_move env now token works w h (Compensating p r) = compensate_move env works h p r"
| "phase_move env now token works w h (Finalizing p) = finalize_move works now token (w_by w) (w_action w) h p"
| "phase_move env now token works w h (Releasing p err) = release_move works token h p err"
| "phase_move env now token works w h Stopped = (h, Stopped)"

definition worker_move :: "desk_env \<Rightarrow> real \<Rightarrow> string \<Rightarrow> bool \<Rightarrow> desk \<Rightarrow> desk" where
  "worker_move env now token works h =
     (case team h token of
        None \<Rightarrow> h
      | Some w \<Rightarrow> (case phase_move env now token works w h (w_phase w) of
                    (h', ph) \<Rightarrow> h'\<lparr>team := (team h')(token := Some (w\<lparr>w_phase := ph\<rparr>))\<rparr>))"

subsection \<open>Starting a request\<close>

definition start_approval :: "real \<Rightarrow> string \<Rightarrow> string \<Rightarrow> string \<Rightarrow> desk \<Rightarrow> desk \<times> claim_outcome" where
  "start_approval now i by token h =
     (case claim_approval now i by token (entries h) of
        (es, Some p, Claimed) \<Rightarrow>
          (h\<lparr>entries := es, team := (team h)(token := Some \<lparr>w_by = by, w_action = APPROVE, w_phase = Preparing p\<rparr>)\<rparr>, Claimed)
      | (es, x, c) \<Rightarrow> (h\<lparr>entries := es\<rparr>, c))"

definition start_rejection :: "real \<Rightarrow> string \<Rightarrow> string \<Rightarrow> string \<Rightarrow> string option \<Rightarrow> desk \<Rightarrow> desk \<times> claim_outcome" where
  "start_rejection now i by token reason h =
     (case claim_rejection now i by token reason (entries h) of
        (es, Some p, Claimed) \<Rightarrow>
          (h\<lparr>entries := es, team := (team h)(token := Some \<lparr>w_by = by, w_action = REJECT, w_phase = Auditing p\<rparr>)\<rparr>, Claimed)
      | (es, x, c) \<Rightarrow> (h\<lparr>entries := es\<rparr>, c))"

end
