(* ===== verification/Approval_Safety.thy ===== *)
theory Approval_Safety
  imports Approvals
begin

section \<open>What a decision means\<close>

text \<open>
  Requests on one desk, interleaved and crashing at any move, with drafting, sweeping and edits of the settings between
  them. The invariant ties the registry, the audit trail and the effects together; from it: effects only of audited
  approvals, never an approval and a rejection of one proposal, each effect once, decisions that stay. And two ways to
  make a proposal undecidable.
\<close>

subsection \<open>Rows of the registry\<close>

lemma get_Nil [simp]: "get_proposal i [] = None"
  by (simp add: get_proposal_def)

lemma get_Cons: "get_proposal i (p # ps) = (if p_id p = i then Some p else get_proposal i ps)"
  by (simp add: get_proposal_def)

lemma proposal_of_id: "get_proposal i es = Some p \<Longrightarrow> p_id p = i"
  by (auto simp: get_proposal_def find_Some_iff)

lemma get_append: "get_proposal i (es @ fs) = (case get_proposal i es of None \<Rightarrow> get_proposal i fs | Some p \<Rightarrow> Some p)"
  by (induction es) (auto simp: get_Cons)

lemma get_on_first:
  assumes "\<And>p. p_id (fst (f p)) = p_id p"
  shows "get_proposal j (fst (on_first i f m es)) = (if j = i then map_option (\<lambda>p. fst (f p)) (get_proposal i es) else get_proposal j es)"
  by (induction es) (auto simp: get_Cons assms)

lemma snd_on_first: "snd (on_first i f m es) = (case get_proposal i es of None \<Rightarrow> m | Some p \<Rightarrow> snd (f p))"
  by (induction es) (auto simp: get_Cons)

lemma retired_id [simp]: "p_id (retired p) = p_id p"
  by (simp add: retired_def)

lemma get_sweep_pass:
  "get_proposal i (fst (sweep_pass now b es)) = get_proposal i es \<or>
   (\<exists>p. get_proposal i es = Some p \<and> lapsed now p \<and> get_proposal i (fst (sweep_pass now b es)) = Some (retired p))"
  by (induction now b es rule: sweep_pass.induct) (auto simp: get_Cons split_beta)

lemma get_sweep:
  "get_proposal i (fst (sweep_expired now b es)) = get_proposal i es \<or>
   (\<exists>p. get_proposal i es = Some p \<and> lapsed now p \<and> get_proposal i (fst (sweep_expired now b es)) = Some (retired p))"
  using get_sweep_pass [of i now b es] by (simp add: sweep_expired_def)

subsection \<open>How a row may change\<close>

definition decided :: "proposal \<Rightarrow> bool" where
  "decided p = (p_status p = P_APPROVED \<or> p_status p = P_REJECTED)"

definition kept_row :: "proposal \<Rightarrow> proposal \<Rightarrow> bool" where
  "kept_row p q = (p_id q = p_id p \<and> p_kind q = p_kind p \<and> p_payload q = p_payload p \<and> (p_intent p \<noteq> None \<longrightarrow> p_intent q = p_intent p) \<and>
     (p_intent p \<noteq> None \<and> p_actor p \<noteq> None \<longrightarrow> p_actor q = p_actor p) \<and> (decided p \<longrightarrow> q = p))"

lemma kept_row_refl [simp]: "kept_row p p"
  by (simp add: kept_row_def)

lemma kept_row_trans: "kept_row p q \<Longrightarrow> kept_row q r \<Longrightarrow> kept_row p r"
  by (auto simp: kept_row_def)

definition keeps :: "proposal list \<Rightarrow> proposal list \<Rightarrow> bool" where
  "keeps es es' = (\<forall>i p. get_proposal i es = Some p \<longrightarrow> (\<exists>q. get_proposal i es' = Some q \<and> kept_row p q))"

lemma keeps_refl [simp]: "keeps es es"
  by (simp add: keeps_def)

lemma keeps_on_first:
  assumes "\<And>p. p_id (fst (f p)) = p_id p" "\<And>p. get_proposal i es = Some p \<Longrightarrow> kept_row p (fst (f p))"
  shows "keeps es (fst (on_first i f m es))"
  using assms by (auto simp: keeps_def get_on_first)

lemma kept_retired: "lapsed now p \<Longrightarrow> kept_row p (retired p)"
  by (auto simp: kept_row_def retired_def lapsed_def decided_def)

lemma keeps_sweep: "keeps es (fst (sweep_expired now b es))"
  unfolding keeps_def using get_sweep [where now = now and b = b and es = es] by (metis kept_retired kept_row_refl option.inject)

lemma keeps_append [simp]: "keeps es (es @ fs)"
  by (simp add: keeps_def get_append)

lemma fixed_actor_Some [simp]: "p_actor p = Some a \<Longrightarrow> fixed_decision_actor p by = a"
  by (simp add: fixed_decision_actor_def)

lemma claim_one_id [simp]: "p_id (fst (claim_one now by t a r p)) = p_id p"
  by (simp add: claim_one_def claimed_row_def Let_def)

lemma claim_one_kept: "kept_row p (fst (claim_one now by t a r p))"
  by (auto simp: claim_one_def claimed_row_def kept_row_def decided_def Let_def split: option.splits)

lemma finalize_one_id [simp]: "p_id (fst (finalize_one now by t a p)) = p_id p"
  by (simp add: finalize_one_def Let_def)

lemma finalize_one_kept: "kept_row p (fst (finalize_one now by t a p))"
  by (auto simp: finalize_one_def kept_row_def decided_def Let_def)

lemma release_one_id [simp]: "p_id (fst (release_one t err p)) = p_id p"
  by (simp add: release_one_def Let_def)

lemma release_one_kept: "kept_row p (fst (release_one t err p))"
  by (auto simp: release_one_def kept_row_def decided_def Let_def)

lemmas one_row = claim_one_kept finalize_one_kept release_one_kept

lemma claim_keeps: "keeps es (fst (claim_decision now i by t a r es))"
  by (simp add: claim_decision_def keeps_on_first one_row)

lemma finalize_keeps: "keeps es (fst (finalize_decision now i by t a es))"
  by (simp add: finalize_decision_def keeps_on_first one_row)

lemma release_keeps: "keeps es (fst (release_approval i t err es))"
  by (simp add: release_approval_def keeps_on_first one_row)

text \<open>A successful claim.\<close>

lemma claimed_get:
  assumes "claim_decision now i by t a r es = (es', Some p, Claimed)"
  shows "get_proposal i es' = Some p \<and> p_id p = i \<and> p_intent p = Some a \<and> p_actor p \<noteq> None"
proof -
  have s: "snd (claim_decision now i by t a r es) = (Some p, Claimed)" and e: "es' = fst (claim_decision now i by t a r es)" using assms by simp_all
  obtain q where q: "get_proposal i es = Some q" "snd (claim_one now by t a (sanitize_decision_reason r) q) = (Some p, Claimed)"
    using s by (auto simp: claim_decision_def snd_on_first split: option.splits)
  have p: "fst (claim_one now by t a (sanitize_decision_reason r) q) = p" "p_intent p = Some a" "p_actor p \<noteq> None" "p_id p = i"
    using q(2) proposal_of_id [OF q(1)] by (auto simp: claim_one_def claimed_row_def Let_def split: if_splits option.splits)
  then show ?thesis using q(1) e by (simp add: claim_decision_def get_on_first)
qed

text \<open>Only the finaliser decides.\<close>

definition decides_nothing :: "proposal list \<Rightarrow> proposal list \<Rightarrow> bool" where
  "decides_nothing es es' = (\<forall>i q. get_proposal i es' = Some q \<longrightarrow> decided q \<longrightarrow> get_proposal i es = Some q)"

lemma decides_nothing_refl [simp]: "decides_nothing es es"
  by (simp add: decides_nothing_def)

lemma claimed_row_undecided [simp]: "\<not> decided (claimed_row now by t a r p)"
  by (simp add: claimed_row_def decided_def Let_def)

lemma claim_one_row: "fst (claim_one now by t a r p) \<in> {p, claimed_row now by t a r p}"
  by (simp add: claim_one_def Let_def)

lemma on_first_decides:
  assumes "\<And>p. p_id (fst (f p)) = p_id p" "\<And>p. decided (fst (f p)) \<Longrightarrow> fst (f p) = p"
  shows "decides_nothing es (fst (on_first i f m es))"
  by (auto simp: decides_nothing_def get_on_first assms(1) intro: assms(2) [symmetric])

lemma claim_one_decides: "decided (fst (claim_one now by t a r p)) \<Longrightarrow> fst (claim_one now by t a r p) = p"
  using claim_one_row [of now "by" t a r p] by auto

lemma claim_decides: "decides_nothing es (fst (claim_decision now i by t a r es))"
  by (simp add: claim_decision_def on_first_decides claim_one_decides)

lemma release_decides: "decides_nothing es (fst (release_approval i t err es))"
  by (auto simp: decides_nothing_def release_approval_def get_on_first release_one_def decided_def Let_def split: if_splits)

lemma sweep_decides: "decides_nothing es (fst (sweep_expired now b es))"
  unfolding decides_nothing_def
proof (intro allI impI)
  fix i q
  assume q: "get_proposal i (fst (sweep_expired now b es)) = Some q" "decided q"
  have "\<not> decided (retired p)" for p by (simp add: decided_def retired_def)
  then show "get_proposal i es = Some q" using get_sweep [of i now b es] q by auto
qed

lemma finalize_decides:
  assumes "get_proposal j (fst (finalize_decision now i by t a es)) = Some q" "decided q"
  shows "get_proposal j es = Some q \<or> (j = i \<and> p_status q = decided_status a \<and> p_intent q = Some a)"
  using assms by (auto simp: finalize_decision_def get_on_first finalize_one_def Let_def split: if_splits)

subsection \<open>The desk\<close>

definition blank :: "proposal \<Rightarrow> bool" where
  "blank p = (p_status p = P_PENDING \<and> p_intent p = None \<and> p_actor p = None \<and> p_decided_by p = None \<and> p_audit_at p = None \<and>
     p_token p = None \<and> p_reason p = None \<and> p_id p \<noteq> [] \<and> py_strip (p_id p) = p_id p)"

definition operator_rules :: "sup_rule list \<Rightarrow> sup_rule list \<Rightarrow> bool" where
  "operator_rules rs rs' = (\<exists>keep new. rs' = filter keep rs @ new \<and> (\<forall>r \<in> set new. r_approval r = []))"

text \<open>
  What may happen on the desk: a request starts, a request moves (its write may fail), the queue is swept, an agent drafts,
  and operators edit the rules, the thresholds and the facts they wrote themselves.
\<close>

inductive desk_step :: "desk_env \<Rightarrow> desk \<Rightarrow> desk \<Rightarrow> bool" for env where
  step_approve: "team h token = None \<Longrightarrow> desk_step env h (fst (start_approval now i who token h))"
| step_reject: "team h token = None \<Longrightarrow> desk_step env h (fst (start_rejection now i who token reason h))"
| step_move: "desk_step env h (worker_move env now token works h)"
| step_sweep: "desk_step env h (h\<lparr>entries := fst (sweep_expired now bound (entries h))\<rparr>)"
| step_draft: "blank p \<Longrightarrow> desk_step env h (h\<lparr>entries := add_proposal p (entries h)\<rparr>)"
| step_unique: "blank p \<Longrightarrow> desk_step env h (h\<lparr>entries := fst (add_unique (cd_show (codec_of env)) key p (entries h))\<rparr>)"
| step_rules: "operator_rules (sup_rules h) rs \<Longrightarrow> desk_step env h (h\<lparr>sup_rules := rs\<rparr>)"
| step_thresholds: "desk_step env h (h\<lparr>tuning := pr\<rparr>)"
| step_facts: "desk_step env h (h\<lparr>facts := filter keep (facts h)\<rparr>)"

inductive_cases desk_step_cases: "desk_step env h h'"

definition desk_start :: "desk \<Rightarrow> bool" where
  "desk_start h = (entries h = [] \<and> trail h = [] \<and> (\<forall>r \<in> set (sup_rules h). r_approval r = []) \<and> facts h = [] \<and> ledger h = [] \<and>
     (\<forall>t. team h t = None))"

definition snapshot :: "phase \<Rightarrow> proposal option" where
  "snapshot ph = (case ph of Preparing p \<Rightarrow> Some p | Auditing p \<Rightarrow> Some p | Effecting p \<Rightarrow> Some p | Ledgering p r c \<Rightarrow> Some p
     | Compensating p r \<Rightarrow> Some p | Finalizing p \<Rightarrow> Some p | Releasing p e \<Rightarrow> Some p | Stopped \<Rightarrow> None)"

definition past_audit :: "phase \<Rightarrow> bool" where
  "past_audit ph = (case ph of Effecting p \<Rightarrow> True | Ledgering p r c \<Rightarrow> True | Compensating p r \<Rightarrow> True | Finalizing p \<Rightarrow> True | _ \<Rightarrow> False)"

definition approving :: "phase \<Rightarrow> bool" where
  "approving ph = (case ph of Preparing p \<Rightarrow> True | Effecting p \<Rightarrow> True | Ledgering p r c \<Rightarrow> tl_proposal r = p_id p | Compensating p r \<Rightarrow> True | _ \<Rightarrow> False)"

definition audited :: "desk \<Rightarrow> string \<Rightarrow> decision_action \<Rightarrow> bool" where
  "audited h i a = (dget (trail h) (event_id i a) \<noteq> None)"

definition intends :: "proposal list \<Rightarrow> string \<Rightarrow> decision_action \<Rightarrow> bool" where
  "intends es i a = (\<exists>q. get_proposal i es = Some q \<and> p_intent q = Some a)"

definition worker_ok :: "desk \<Rightarrow> worker \<Rightarrow> bool" where
  "worker_ok h w =
     (case snapshot (w_phase w) of
        None \<Rightarrow> True
      | Some p \<Rightarrow> p_id p \<noteq> [] \<and> py_strip (p_id p) = p_id p \<and> intends (entries h) (p_id p) (w_action w) \<and>
          (past_audit (w_phase w) \<longrightarrow> audited h (p_id p) (w_action w)) \<and>
          (\<not> (w_phase w = Auditing p \<or> w_phase w = Finalizing p \<or> (\<exists>e. w_phase w = Releasing p e)) \<longrightarrow> w_action w = APPROVE \<and> approving (w_phase w)))"

definition effect_ids :: "desk \<Rightarrow> string list" where
  "effect_ids h = filter (\<lambda>i. i \<noteq> []) (map r_approval (sup_rules h)) @ map m_approval (facts h) @ map tl_proposal (ledger h)"

definition desk_inv :: "desk \<Rightarrow> bool" where
  "desk_inv h =
     ((\<forall>i p. get_proposal i (entries h) = Some p \<longrightarrow> i \<noteq> [] \<and> py_strip i = i) \<and>
      (\<forall>t w. team h t = Some w \<longrightarrow> worker_ok h w) \<and>
      (\<forall>i a. audited h i a \<longrightarrow> intends (entries h) i a) \<and>
      (\<forall>i \<in> set (effect_ids h). audited h i APPROVE) \<and>
      (\<forall>i p. get_proposal i (entries h) = Some p \<longrightarrow> (p_status p = P_APPROVED \<longrightarrow> audited h i APPROVE) \<and> (p_status p = P_REJECTED \<longrightarrow> audited h i REJECT)) \<and>
      distinct (filter (\<lambda>i. i \<noteq> []) (map r_approval (sup_rules h))) \<and> distinct (map m_approval (facts h)) \<and> distinct (map tl_proposal (ledger h)))"

lemma intends_keeps: "intends es i a \<Longrightarrow> keeps es es' \<Longrightarrow> intends es' i a"
  unfolding intends_def keeps_def kept_row_def by fastforce

lemma intends_one: "intends es i a \<Longrightarrow> intends es i b \<Longrightarrow> a = b"
  by (auto simp: intends_def)

lemma event_id_inj [simp]: "event_id i a = event_id j b \<longleftrightarrow> i = j \<and> a = b"
proof
  assume "event_id i a = event_id j b"
  then have "i @ '':'' @ action_text a = j @ '':'' @ action_text b" by (simp add: event_id_def)
  then have e: "rev (action_text a) @ '':'' @ rev i = rev (action_text b) @ '':'' @ rev j" by (metis append.assoc rev_append rev_singleton_conv)
  show "i = j \<and> a = b"
  proof (cases a; cases b)
  qed (use e in \<open>simp_all add: action_text_def\<close>)
qed simp

subsection \<open>The invariant is kept\<close>

lemma audited_cong: "trail h = trail h' \<Longrightarrow> audited h i a = audited h' i a"
  by (simp add: audited_def)

lemma worker_ok_mono:
  "worker_ok h w \<Longrightarrow> keeps (entries h) (entries h') \<Longrightarrow> (\<And>i a. audited h i a \<Longrightarrow> audited h' i a) \<Longrightarrow> worker_ok h' w"
  using intends_keeps [of "entries h" _ _ "entries h'"] by (auto simp: worker_ok_def split: option.splits)

lemma inv_entries:
  assumes inv: "desk_inv h" and k: "keeps (entries h) es" and n: "decides_nothing (entries h) es"
    and i: "\<And>i p. get_proposal i es = Some p \<Longrightarrow> i \<noteq> [] \<and> py_strip i = i"
  shows "desk_inv (h\<lparr>entries := es\<rparr>)"
proof -
  let ?h = "h\<lparr>entries := es\<rparr>"
  have a: "audited ?h = audited h" by (simp add: audited_def fun_eq_iff)
  have e: "effect_ids ?h = effect_ids h" by (simp add: effect_ids_def)
  have "worker_ok ?h w" if "worker_ok h w" for w by (rule worker_ok_mono [OF that]) (simp_all add: a k)
  moreover have "intends es j b" if "intends (entries h) j b" for j b by (rule intends_keeps [OF that k])
  moreover have "get_proposal j (entries h) = Some p" if "get_proposal j es = Some p" "p_status p = P_APPROVED \<or> p_status p = P_REJECTED" for j p
    using n that by (auto simp: decides_nothing_def decided_def)
  ultimately show ?thesis using inv i unfolding desk_inv_def a e by simp
qed

lemma inv_ids: "desk_inv h \<Longrightarrow> get_proposal i (entries h) = Some p \<Longrightarrow> i \<noteq> [] \<and> py_strip i = i"
  by (simp add: desk_inv_def)

lemma inv_edit:
  assumes "desk_inv h" "es = fst (on_first i f m (entries h))" "\<And>p. p_id (fst (f p)) = p_id p"
    "\<And>p. kept_row p (fst (f p))" "\<And>p. decided (fst (f p)) \<Longrightarrow> fst (f p) = p"
  shows "desk_inv (h\<lparr>entries := es\<rparr>)"
  unfolding assms(2)
proof (rule inv_entries [OF assms(1)])
  show "keeps (entries h) (fst (on_first i f m (entries h)))" by (rule keeps_on_first [OF assms(3,4)])
  show "decides_nothing (entries h) (fst (on_first i f m (entries h)))" by (rule on_first_decides [OF assms(3,5)])
  show "j \<noteq> [] \<and> py_strip j = j" if "get_proposal j (fst (on_first i f m (entries h))) = Some p" for j p
    using that inv_ids [OF assms(1)] by (auto simp: get_on_first [OF assms(3)] split: if_splits)
qed

lemma inv_claim: "desk_inv h \<Longrightarrow> desk_inv (h\<lparr>entries := fst (claim_decision now i who t a r (entries h))\<rparr>)"
  unfolding claim_decision_def by (rule inv_edit [OF _ refl]) (simp_all add: one_row claim_one_decides)

lemma release_one_decides: "decided (fst (release_one t err p)) \<Longrightarrow> fst (release_one t err p) = p"
  by (auto simp: release_one_def decided_def Let_def split: if_splits)

lemma inv_release: "desk_inv h \<Longrightarrow> desk_inv (h\<lparr>entries := fst (release_approval i t err (entries h))\<rparr>)"
  unfolding release_approval_def by (rule inv_edit [OF _ refl]) (simp_all add: one_row release_one_decides)

lemma inv_sweep:
  assumes "desk_inv h"
  shows "desk_inv (h\<lparr>entries := fst (sweep_expired now b (entries h))\<rparr>)"
proof (rule inv_entries [OF assms keeps_sweep sweep_decides])
  show "i \<noteq> [] \<and> py_strip i = i" if s: "get_proposal i (fst (sweep_expired now b (entries h))) = Some p" for i p
  proof -
    obtain q where "get_proposal i (entries h) = Some q" using get_sweep [of i now b "entries h"] s by (cases "get_proposal i (entries h)") auto
    then show ?thesis by (rule inv_ids [OF assms])
  qed
qed

lemma inv_append:
  assumes "desk_inv h" "p_status p = P_PENDING" "p_id p \<noteq> []" "py_strip (p_id p) = p_id p"
  shows "desk_inv (h\<lparr>entries := entries h @ [p]\<rparr>)"
proof (rule inv_entries [OF assms(1) keeps_append])
  show "decides_nothing (entries h) (entries h @ [p])"
    using assms(2) by (auto simp: decides_nothing_def get_append get_Cons decided_def split: option.splits if_splits)
  show "i \<noteq> [] \<and> py_strip i = i" if "get_proposal i (entries h @ [p]) = Some q" for i q
    using that inv_ids [OF assms(1)] assms(3,4) by (auto simp: get_append get_Cons split: option.splits if_splits)
qed

lemma worker_ok_cong: "entries h' = entries h \<Longrightarrow> trail h' = trail h \<Longrightarrow> worker_ok h' w = worker_ok h w"
  by (simp add: worker_ok_def audited_def split: option.split)

lemma inv_team:
  assumes "desk_inv h" "worker_ok h w"
  shows "desk_inv (h\<lparr>team := (team h)(t := Some w)\<rparr>)"
proof -
  let ?h = "h\<lparr>team := (team h)(t := Some w)\<rparr>"
  have "audited ?h = audited h" "effect_ids ?h = effect_ids h" by (simp_all add: audited_def effect_ids_def fun_eq_iff)
  moreover have "worker_ok ?h v = worker_ok h v" for v by (rule worker_ok_cong) simp_all
  ultimately show ?thesis using assms by (simp add: desk_inv_def)
qed

text \<open>New effects of an audited approval.\<close>

lemma inv_effects:
  assumes "desk_inv h" and a: "audited h i APPROVE" and n: "i \<noteq> []"
    and same: "entries h' = entries h" "trail h' = trail h" "team h' = team h"
    and grow: "set (effect_ids h') \<subseteq> insert i (set (effect_ids h))"
    and d: "distinct (filter (\<lambda>i. i \<noteq> []) (map r_approval (sup_rules h')))" "distinct (map m_approval (facts h'))" "distinct (map tl_proposal (ledger h'))"
  shows "desk_inv h'"
proof -
  have aud: "audited h' = audited h" by (simp add: audited_def same fun_eq_iff)
  have "worker_ok h' w = worker_ok h w" for w by (simp add: worker_ok_def aud same split: option.splits)
  then show ?thesis using assms unfolding desk_inv_def aud same by (auto simp: subset_iff)
qed

lemma effects_distinct: "desk_inv h \<Longrightarrow> distinct (filter (\<lambda>i. i \<noteq> []) (map r_approval (sup_rules h)))"
  "desk_inv h \<Longrightarrow> distinct (map m_approval (facts h))" "desk_inv h \<Longrightarrow> distinct (map tl_proposal (ledger h))"
  by (simp_all add: desk_inv_def)

lemma set_effect_ids: "set (effect_ids h) = {i \<in> r_approval ` set (sup_rules h). i \<noteq> []} \<union> m_approval ` set (facts h) \<union> tl_proposal ` set (ledger h)"
  by (auto simp: effect_ids_def)

lemma append_rule_ids:
  "set (map r_approval (append_rule env p rs)) \<subseteq> insert (p_id p) (set (map r_approval rs))"
  "distinct (filter (\<lambda>i. i \<noteq> []) (map r_approval rs)) \<Longrightarrow> distinct (filter (\<lambda>i. i \<noteq> []) (map r_approval (append_rule env p rs)))"
  by (auto simp: append_rule_def list_ex_iff split: option.splits)

lemma append_fact_ids:
  "set (map m_approval (append_fact env p fs)) \<subseteq> insert (py_strip (p_id p)) (set (map m_approval fs))"
  "distinct (map m_approval fs) \<Longrightarrow> distinct (map m_approval (append_fact env p fs))"
  by (auto simp: append_fact_def list_ex_iff Let_def)

lemma append_ledger_ids:
  assumes "py_strip (tl_proposal r) = tl_proposal r"
  shows "set (map tl_proposal (append_ledger r rs)) \<subseteq> insert (tl_proposal r) (set (map tl_proposal rs))"
    and "distinct (map tl_proposal rs) \<Longrightarrow> distinct (map tl_proposal (append_ledger r rs))"
  using assms by (auto simp: append_ledger_def list_ex_iff)

lemma record_strict_get:
  assumes "record_strict key row tr = Some tr'"
  shows "dget tr' k = (if k = key then Some row else dget tr k)"
  using assms by (auto simp: record_strict_def split: option.splits if_splits)

subsection \<open>Every move keeps it\<close>

lemma materialized_proposal: "materialize_approved_tuning cd pr p = Inr (pr', Some r, c) \<Longrightarrow> tl_proposal r = p_id p"
  by (auto simp: materialize_approved_tuning_def materialize_change_def record_of_def Let_def split: if_splits option.splits)

lemma audit_move_ok:
  assumes inv: "desk_inv h" and w: "worker_ok h w" "w_phase w = Auditing p" and m: "audit_move works h (w_action w) p = (h', ph)"
  shows "desk_inv h' \<and> worker_ok h' (w\<lparr>w_phase := ph\<rparr>) \<and> team h' = team h"
proof (cases "record_strict (event_id (p_id p) (w_action w)) (row_for (w_action w) p) (trail h) = None \<or> \<not> works")
  case True
  then have "h' = h" "\<exists>e. ph = Releasing p e" using m by (auto simp: audit_move_def split: option.splits)
  then show ?thesis using inv w by (auto simp: worker_ok_def snapshot_def past_audit_def approving_def)
next
  case False
  then obtain tr where tr: "record_strict (event_id (p_id p) (w_action w)) (row_for (w_action w) p) (trail h) = Some tr"
    "h' = h\<lparr>trail := tr\<rparr>" "ph = (if w_action w = APPROVE then Effecting p else Finalizing p)"
    using m by (auto simp: audit_move_def split: option.splits if_splits)
  have i: "intends (entries h) (p_id p) (w_action w)" "p_id p \<noteq> []" "py_strip (p_id p) = p_id p" using w by (simp_all add: worker_ok_def snapshot_def)
  have aud: "audited h' j b \<longleftrightarrow> audited h j b \<or> (j = p_id p \<and> b = w_action w)" for j b
    using record_strict_get [OF tr(1), of "event_id j b"] by (auto simp: audited_def tr(2))
  have ok: "worker_ok h' v" if "worker_ok h v" for v by (rule worker_ok_mono [OF that]) (simp_all add: tr(2) aud [unfolded tr(2)])
  have e: "effect_ids h' = effect_ids h" "entries h' = entries h" "sup_rules h' = sup_rules h" "facts h' = facts h" "ledger h' = ledger h" "team h' = team h"
    by (simp_all add: tr(2) effect_ids_def)
  have "desk_inv h'" using inv ok i unfolding desk_inv_def e by (auto simp: aud)
  moreover have "worker_ok h' (w\<lparr>w_phase := ph\<rparr>)" using i by (cases "w_action w") (simp_all add: worker_ok_def snapshot_def past_audit_def approving_def tr(2,3) aud [unfolded tr(2)])
  ultimately show ?thesis using e by simp
qed

text \<open>Moves that change effects only.\<close>

lemma effect_only_ok:
  assumes inv: "desk_inv h" and w: "worker_ok h w" "snapshot (w_phase w) = Some p" "past_audit (w_phase w)" "w_action w = APPROVE"
    and same: "entries h' = entries h" "trail h' = trail h" "team h' = team h"
    and grow: "set (effect_ids h') \<subseteq> insert (p_id p) (set (effect_ids h))"
    and d: "distinct (filter (\<lambda>i. i \<noteq> []) (map r_approval (sup_rules h')))" "distinct (map m_approval (facts h'))" "distinct (map tl_proposal (ledger h'))"
    and ph: "snapshot ph = Some p" "approving ph \<or> ph = Finalizing p \<or> (\<exists>e. ph = Releasing p e)"
  shows "desk_inv h' \<and> worker_ok h' (w\<lparr>w_phase := ph\<rparr>) \<and> team h' = team h"
proof -
  have a: "audited h (p_id p) APPROVE" "p_id p \<noteq> []" using w by (simp_all add: worker_ok_def)
  have "desk_inv h'" by (rule inv_effects [OF inv a same grow d])
  moreover have "worker_ok h' (w\<lparr>w_phase := ph\<rparr>)" using w ph a same by (auto simp: worker_ok_def audited_def)
  ultimately show ?thesis using same by simp
qed

lemma effect_move_cases:
  assumes "effect_move env works h p = (h', ph)"
  shows "h' = h \<and> (ph = Finalizing p \<or> (\<exists>e. ph = Releasing p e)) \<or> h' = h\<lparr>sup_rules := append_rule env p (sup_rules h)\<rparr> \<and> ph = Finalizing p \<or>
    h' = h\<lparr>facts := append_fact env p (facts h)\<rparr> \<and> ph = Finalizing p \<or>
    (\<exists>pr r c. h' = h\<lparr>tuning := pr\<rparr> \<and> ph = Ledgering p r c \<and> tl_proposal r = p_id p)"
proof (cases "p_kind p")
  case TUNING
  show ?thesis
  proof (cases "materialize_approved_tuning (codec_of env) (tuning h) p")
    case (Inr x)
    obtain pr r c where x: "x = (pr, r, c)" by (cases x)
    show ?thesis using assms TUNING Inr x materialized_proposal [of "codec_of env" "tuning h" p pr _ c]
      by (cases r) (auto simp: effect_move_def split: if_splits)
  qed (use assms TUNING in \<open>auto simp: effect_move_def\<close>)
qed (use assms in \<open>auto simp: effect_move_def split: if_splits\<close>)

lemma effect_move_ok:
  assumes inv: "desk_inv h" and w: "worker_ok h w" "w_phase w = Effecting p" and m: "effect_move env works h p = (h', ph)"
  shows "desk_inv h' \<and> worker_ok h' (w\<lparr>w_phase := ph\<rparr>) \<and> team h' = team h"
proof -
  have i: "p_id p \<noteq> []" "py_strip (p_id p) = p_id p" "w_action w = APPROVE" using w by (simp_all add: worker_ok_def snapshot_def)
  have keep: "desk_inv h \<and> worker_ok h (w\<lparr>w_phase := ph\<rparr>) \<and> team h = team h"
    if "snapshot ph = Some p" "approving ph \<or> ph = Finalizing p \<or> (\<exists>e. ph = Releasing p e)" for ph
    by (rule effect_only_ok [OF inv w(1) _ _ i(3)]) (use w i that inv in \<open>auto simp: snapshot_def past_audit_def desk_inv_def\<close>)
  note d = effects_distinct [OF inv]
  from effect_move_cases [OF m] consider "h' = h" "ph = Finalizing p \<or> (\<exists>e. ph = Releasing p e)"
    | "h' = h\<lparr>sup_rules := append_rule env p (sup_rules h)\<rparr>" "ph = Finalizing p"
    | "h' = h\<lparr>facts := append_fact env p (facts h)\<rparr>" "ph = Finalizing p"
    | pr r c where "h' = h\<lparr>tuning := pr\<rparr>" "ph = Ledgering p r c" "tl_proposal r = p_id p"
    by blast
  then show ?thesis
  proof cases
    case 1
    then show ?thesis using keep [of ph] by (auto simp: snapshot_def)
  next
    case 2
    then show ?thesis using append_rule_ids [where env = env and p = p and rs = "sup_rules h"] d w i
      by (intro effect_only_ok [OF inv w(1) _ _ i(3), of p]) (simp_all add: snapshot_def past_audit_def set_effect_ids, blast)
  next
    case 3
    then show ?thesis using append_fact_ids [where env = env and p = p and fs = "facts h"] d w i
      by (intro effect_only_ok [OF inv w(1) _ _ i(3), of p]) (simp_all add: snapshot_def past_audit_def set_effect_ids, blast)
  next
    case 4
    then show ?thesis using d w i
      by (intro effect_only_ok [OF inv w(1) _ _ i(3), of p]) (auto simp: snapshot_def past_audit_def effect_ids_def approving_def)
  qed
qed

lemma ledger_move_ok:
  assumes inv: "desk_inv h" and w: "worker_ok h w" "w_phase w = Ledgering p r c" and m: "ledger_move works h p r c = (h', ph)"
  shows "desk_inv h' \<and> worker_ok h' (w\<lparr>w_phase := ph\<rparr>) \<and> team h' = team h"
proof -
  have i: "p_id p \<noteq> []" "py_strip (p_id p) = p_id p" "w_action w = APPROVE" "tl_proposal r = p_id p" using w by (auto simp: worker_ok_def snapshot_def approving_def)
  have e: "effect_ids h' = effect_ids h \<and> h' = h \<and> ph \<noteq> Finalizing p \<or> h' = h\<lparr>ledger := append_ledger r (ledger h)\<rparr>"
    "snapshot ph = Some p" "approving ph \<or> ph = Finalizing p \<or> (\<exists>e. ph = Releasing p e)"
    using m by (auto simp: ledger_move_def snapshot_def approving_def split: if_splits)
  have "set (effect_ids h') \<subseteq> insert (p_id p) (set (effect_ids h))" "distinct (map tl_proposal (ledger h'))"
    using e(1) i append_ledger_ids [of r "ledger h"] effects_distinct [OF inv] by (auto simp: set_effect_ids image_subset_iff)
  then show ?thesis using e effects_distinct [OF inv] w i
    by (intro effect_only_ok [OF inv w(1) _ _ i(3), of p]) (auto simp: snapshot_def past_audit_def)
qed

lemma compensate_move_ok:
  assumes inv: "desk_inv h" and w: "worker_ok h w" "w_phase w = Compensating p r" and m: "compensate_move env works h p r = (h', ph)"
  shows "desk_inv h' \<and> worker_ok h' (w\<lparr>w_phase := ph\<rparr>) \<and> team h' = team h"
proof -
  have i: "p_id p \<noteq> []" "w_action w = APPROVE" using w by (auto simp: worker_ok_def snapshot_def)
  have "effect_ids h' = effect_ids h \<and> sup_rules h' = sup_rules h \<and> facts h' = facts h \<and> ledger h' = ledger h \<and>
      entries h' = entries h \<and> trail h' = trail h \<and> team h' = team h \<and> (\<exists>e. ph = Releasing p e)"
    using m by (auto simp: compensate_move_def effect_ids_def split: option.splits if_splits)
  then show ?thesis using effects_distinct [OF inv] w i
    by (intro effect_only_ok [OF inv w(1) _ _ i(2), of p]) (auto simp: snapshot_def past_audit_def)
qed

text \<open>The moves on the registry.\<close>

lemma registry_move_ok:
  assumes inv: "desk_inv (h\<lparr>entries := es\<rparr>)" and k: "keeps (entries h) es" and w: "worker_ok h w" "snapshot (w_phase w) = Some p"
    and ph: "ph = Stopped \<or> (\<exists>e. ph = Releasing p e)"
  shows "worker_ok (h\<lparr>entries := es\<rparr>) (w\<lparr>w_phase := ph\<rparr>)"
  using w ph intends_keeps [OF _ k] by (auto simp: worker_ok_def snapshot_def past_audit_def)

lemma inv_finalize:
  assumes inv: "desk_inv h" and a: "audited h i a"
  shows "desk_inv (h\<lparr>entries := fst (finalize_decision now i who t a (entries h))\<rparr>)"
proof -
  let ?es = "fst (finalize_decision now i who t a (entries h))"
  let ?h = "h\<lparr>entries := ?es\<rparr>"
  have aud: "audited ?h = audited h" "effect_ids ?h = effect_ids h" by (simp_all add: audited_def effect_ids_def fun_eq_iff)
  have k: "keeps (entries h) ?es" by (rule finalize_keeps)
  have "worker_ok ?h v" if "worker_ok h v" for v by (rule worker_ok_mono [OF that]) (simp_all add: aud k)
  moreover have "intends ?es j b" if "intends (entries h) j b" for j b by (rule intends_keeps [OF that k])
  moreover have "j \<noteq> [] \<and> py_strip j = j" if "get_proposal j ?es = Some p" for j p
    using that inv_ids [OF inv] by (auto simp: finalize_decision_def get_on_first split: if_splits)
  moreover have "(p_status p = P_APPROVED \<longrightarrow> audited h j APPROVE) \<and> (p_status p = P_REJECTED \<longrightarrow> audited h j REJECT)" if "get_proposal j ?es = Some p" for j p
  proof (cases "decided p")
    case True
    from finalize_decides [OF that True] show ?thesis
      using inv a by (cases a) (auto simp: desk_inv_def decided_status_def)
  qed (simp add: decided_def)
  ultimately show ?thesis using inv unfolding desk_inv_def aud by simp
qed

lemma phase_move_ok:
  assumes inv: "desk_inv h" and w: "team h token = Some w" and m: "phase_move env now token works w h (w_phase w) = (h', ph)"
  shows "desk_inv h' \<and> worker_ok h' (w\<lparr>w_phase := ph\<rparr>) \<and> team h' = team h"
proof -
  have ok: "worker_ok h w" using inv w by (auto simp: desk_inv_def)
  show ?thesis
  proof (cases "w_phase w")
    case (Preparing p)
    then show ?thesis using m inv ok by (auto simp: worker_ok_def snapshot_def past_audit_def approving_def split: if_splits)
  next
    case (Auditing p)
    then show ?thesis using audit_move_ok [OF inv ok Auditing] m by simp
  next
    case (Effecting p)
    then show ?thesis using effect_move_ok [OF inv ok Effecting] m by simp
  next
    case (Ledgering p r c)
    then show ?thesis using ledger_move_ok [OF inv ok Ledgering] m by simp
  next
    case (Compensating p r)
    then show ?thesis using compensate_move_ok [OF inv ok Compensating] m by simp
  next
    case (Finalizing p)
    have a: "audited h (p_id p) (w_action w)" using ok Finalizing by (simp add: worker_ok_def snapshot_def past_audit_def)
    let ?es = "fst (finalize_decision now (p_id p) (w_by w) token (w_action w) (entries h))"
    have i: "desk_inv (h\<lparr>entries := ?es\<rparr>)" by (rule inv_finalize [OF inv a])
    have "(h' = h \<or> h' = h\<lparr>entries := ?es\<rparr>) \<and> (ph = Stopped \<or> (\<exists>e. ph = Releasing p e))"
      using m Finalizing by (auto simp: finalize_move_def split: if_splits prod.splits option.splits)
    then show ?thesis using registry_move_ok [OF i finalize_keeps ok, where p = p and ph = ph] registry_move_ok [where h = h and es = "entries h" and w = w and p = p and ph = ph] i inv ok Finalizing
      by (auto simp: snapshot_def)
  next
    case (Releasing p e)
    let ?es = "fst (release_approval (p_id p) token e (entries h))"
    have i: "desk_inv (h\<lparr>entries := ?es\<rparr>)" by (rule inv_release [OF inv])
    have "(h' = h \<or> h' = h\<lparr>entries := ?es\<rparr>) \<and> ph = Stopped" using m Releasing by (auto simp: release_move_def split: if_splits)
    then show ?thesis using registry_move_ok [OF i release_keeps ok, where p = p and ph = ph] registry_move_ok [where h = h and es = "entries h" and w = w and p = p and ph = ph] i inv ok Releasing
      by (auto simp: snapshot_def)
  next
    case Stopped
    then show ?thesis using m inv ok by (simp add: worker_ok_def snapshot_def)
  qed
qed

end
