(* ===== verification/Reason_Text.thy ===== *)
theory Reason_Text
  imports Proposals
begin

section \<open>The recorded reason\<close>

text \<open>
  What \<^verbatim>\<open>sanitize_decision_reason\<close> leaves: a bounded single line. A second pass changes nothing, so the row a
  retry writes is the row the first attempt wrote.
\<close>

lemma sub_runs_id: "\<forall>c \<in> set s. keep c \<Longrightarrow> sub_runs keep sep b s = s"
  by (induction s arbitrary: b) auto

lemma sub_runs_set: "set (sub_runs keep sep b s) \<subseteq> insert sep {c. keep c}"
  by (induction s arbitrary: b) auto

fun neat :: "bool \<Rightarrow> string \<Rightarrow> bool" where
  "neat after [] = True"
| "neat after (c # cs) = (if py_space c then c = CHR '' '' \<and> \<not> after \<and> neat True cs else neat False cs)"

lemma neat_take: "neat b s \<Longrightarrow> neat b (take n s)"
proof (induction s arbitrary: b n)
  case (Cons c s)
  then show ?case by (cases n) (auto split: if_splits)
qed simp

lemma neat_word: "x \<noteq> [] \<Longrightarrow> \<forall>c \<in> set x. \<not> py_space c \<Longrightarrow> neat b (x @ y) = neat False y"
proof (induction x arbitrary: b)
  case (Cons c x)
  then show ?case by (cases "x = []") simp_all
qed simp

lemma words_plain: "\<forall>c \<in> set w. \<not> py_space c \<Longrightarrow> x \<in> set (words w s) \<Longrightarrow> x \<noteq> [] \<and> (\<forall>c \<in> set x. \<not> py_space c \<and> c \<in> set w \<union> set s)"
proof (induction w s rule: words.induct)
  case (1 w)
  then show ?case by (cases "w = []") simp_all
next
  case (2 w c cs)
  consider "py_space c" "w = []" | "py_space c" "w \<noteq> []" "x = rev w" | "py_space c" "w \<noteq> []" "x \<in> set (words [] cs)" | "\<not> py_space c"
    using "2.prems"(2) by (cases "py_space c"; cases "w = []") auto
  then show ?case
  proof cases
    case 1
    with "2.prems"(2) have "x \<in> set (words [] cs)" by simp
    from "2.IH"(1) [OF 1 _ this] show ?thesis by simp
  next
    case 2
    then show ?thesis using "2.prems"(1) by simp
  next
    case 3
    from "2.IH"(2) [OF 3(1,2) _ 3(3)] show ?thesis by simp
  next
    case 4
    with "2.prems" have "x \<in> set (words (c # w) cs)" "\<forall>d \<in> set (c # w). \<not> py_space d" by simp_all
    from "2.IH"(3) [OF 4 this(2,1)] show ?thesis by auto
  qed
qed

lemma neat_join: "\<forall>x \<in> set ws. x \<noteq> [] \<and> (\<forall>c \<in> set x. \<not> py_space c) \<Longrightarrow> neat b (join_with '' '' ws)"
proof (induction ws arbitrary: b rule: induct_list012)
  case (2 p)
  then show ?case using neat_word [of p b "[]"] by simp
next
  case (3 p q ps)
  then show ?case using neat_word [of p b "'' '' @ join_with '' '' (q # ps)"] by (simp add: py_space_def)
qed simp

lemma words_Nil: "s \<noteq> [] \<Longrightarrow> neat True s \<Longrightarrow> words [] s \<noteq> []"
proof -
  have "words w s \<noteq> []" if "w \<noteq> []" for w s using that by (induction w s rule: words.induct) auto
  then show "s \<noteq> [] \<Longrightarrow> neat True s \<Longrightarrow> words [] s \<noteq> []" by (cases s) (auto split: if_splits)
qed

lemma join_words: "neat (w = []) s \<Longrightarrow> s = [] \<or> \<not> py_space (last s) \<Longrightarrow> join_with '' '' (words w s) = rev w @ s"
proof (induction w s rule: words.induct)
  case (2 w c cs)
  show ?case
  proof (cases "py_space c")
    case True
    then have c: "w \<noteq> []" "c = CHR '' ''" "cs \<noteq> []" "neat True cs" "\<not> py_space (last cs)" using "2.prems" by (auto split: if_splits)
    then have "join_with '' '' (words [] cs) = cs" using "2.IH"(2) [OF True c(1)] by simp
    then show ?thesis using True c words_Nil [OF c(3,4)] by (cases "words [] cs") simp_all
  next
    case False
    then show ?thesis using "2.IH"(3) [OF False] "2.prems" by (cases "cs = []") auto
  qed
qed simp

lemma join_set: "set (join_with '' '' ws) \<subseteq> insert CHR '' '' (\<Union>x \<in> set ws. set x)"
  by (induction ws rule: induct_list012) auto

lemma sanitized_shape:
  fixes reason
  defines "t \<equiv> sanitize_decision_reason reason"
  shows "length t \<le> MAX_DECISION_REASON_CHARS" "neat True t" "\<forall>c \<in> set t. \<not> control_char c" "py_strip t = t"
proof -
  let ?raw = "sub_runs (\<lambda>c. \<not> control_char c) CHR '' '' False (case reason of None \<Rightarrow> [] | Some r \<Rightarrow> r)"
  let ?j = "join_with '' '' (words [] ?raw)"
  let ?k = "take MAX_DECISION_REASON_CHARS ?j"
  have t: "t = py_strip ?k" by (simp add: t_def sanitize_decision_reason_def Let_def)
  have neatk: "neat True ?k" using words_plain [of "[]" _ ?raw] by (intro neat_take neat_join) auto
  then have "?k = [] \<or> \<not> py_space (hd ?k)" by (cases ?k) (auto split: if_splits)
  then have "py_lstrip ?k = ?k" unfolding py_lstrip_def by (cases ?k) auto
  then have k: "?k = t @ rev (takeWhile py_space (rev ?k))" unfolding t py_strip_def by (metis rev_append rev_rev_ident takeWhile_dropWhile_id)
  then have pre: "t = take (length t) ?k" by (metis append_eq_conv_conj)
  show "neat True t" by (subst pre) (rule neat_take [OF neatk])
  have "length t \<le> length ?k" using k by (metis length_append le_add1)
  then show "length t \<le> MAX_DECISION_REASON_CHARS" by simp
  have "set t \<subseteq> set ?j" using py_strip_sub [of ?k] set_take_subset [of _ ?j] unfolding t by blast
  also have "\<dots> \<subseteq> insert CHR '' '' (set ?raw)" using join_set [of "words [] ?raw"] words_plain [of "[]" _ ?raw] by fastforce
  also have "\<dots> \<subseteq> {c. \<not> control_char c}" using sub_runs_set [where keep = "\<lambda>c. \<not> control_char c" and sep = "CHR '' ''" and b = False and s = "case reason of None \<Rightarrow> [] | Some r \<Rightarrow> r"] by (auto simp: control_char_def)
  finally show "\<forall>c \<in> set t. \<not> control_char c" by blast
  show "py_strip t = t" by (simp add: t)
qed

text \<open>
  C17. Whatever a person types, the reason on record has at most 200 characters, none of them a control character, and no
  white space at its ends; sanitising the recorded reason again gives the same text, which keeps the audit row of
  a retried rejection equal to the first.
\<close>

theorem recorded_reason_type:
  "length (sanitize_decision_reason reason) \<le> 200 \<and> list_all (\<lambda>c. \<not> control_char c) (sanitize_decision_reason reason) \<and>
   py_strip (sanitize_decision_reason reason) = sanitize_decision_reason reason \<and>
   sanitize_decision_reason (Some (sanitize_decision_reason reason)) = sanitize_decision_reason reason"
proof -
  let ?t = "sanitize_decision_reason reason"
  note s = sanitized_shape [of reason]
  have "?t = [] \<or> \<not> py_space (last ?t)" using py_strip_last [of ?t] s(4) by auto
  then have "join_with '' '' (words [] ?t) = ?t" using join_words [of "[]" ?t] s(2) by simp
  then have "sanitize_decision_reason (Some ?t) = ?t" using s by (simp add: sanitize_decision_reason_def [of "Some ?t"] sub_runs_id)
  then show ?thesis using s by (simp add: MAX_DECISION_REASON_CHARS_def list_all_iff)
qed

end
