(* ===== verification/Approval_Props.thy ===== *)
theory Approval_Props
  imports Approval_Safety Reason_Text
begin

section \<open>What the desk promises\<close>

text \<open>The invariant holds on every reachable desk; the properties are read off it, with a desk to show each one happens.\<close>

subsection \<open>The desk as a system\<close>

lemma worker_move_ok:
  assumes inv: "desk_inv h"
  shows "desk_inv (worker_move env now token works h)"
proof (cases "team h token")
  case None
  then show ?thesis using inv by (simp add: worker_move_def)
next
  case (Some w)
  obtain h' ph where m: "phase_move env now token works w h (w_phase w) = (h', ph)" by fastforce
  then show ?thesis using inv_team [of h' "w\<lparr>w_phase := ph\<rparr>" token] phase_move_ok [OF inv Some m] Some by (simp add: worker_move_def)
qed

lemma start_ok:
  assumes inv: "desk_inv h" and c: "claim_decision now i who token a reason (entries h) = (es, Some p, Claimed)"
    and ph: "ph = Auditing p \<or> ph = Preparing p \<and> a = APPROVE"
  shows "desk_inv (h\<lparr>entries := es, team := (team h)(token := Some \<lparr>w_by = who, w_action = a, w_phase = ph\<rparr>)\<rparr>)"
proof -
  let ?h = "h\<lparr>entries := es\<rparr>"
  have i: "desk_inv ?h" using inv_claim [OF inv, of now i who token a reason] c by simp
  note g = claimed_get [OF c]
  have "worker_ok ?h \<lparr>w_by = who, w_action = a, w_phase = ph\<rparr>"
    using ph g inv_ids [OF i, of i p] by (auto simp: worker_ok_def snapshot_def past_audit_def approving_def intends_def)
  from inv_team [OF i this] show ?thesis by simp
qed

lemma start_approval_ok:
  assumes "desk_inv h"
  shows "desk_inv (fst (start_approval now i who token h))"
proof -
  obtain es x c where e: "claim_decision now i who token APPROVE None (entries h) = (es, x, c)" by (cases "claim_decision now i who token APPROVE None (entries h)") auto
  have "desk_inv (h\<lparr>entries := es\<rparr>)" using inv_claim [OF assms, of now i who token APPROVE None] e by simp
  then show ?thesis using start_ok [OF assms, of now i who token APPROVE None es _ "Preparing (the x)"] e
    by (cases x; cases c) (simp_all add: start_approval_def claim_approval_def)
qed

lemma start_rejection_ok:
  assumes "desk_inv h"
  shows "desk_inv (fst (start_rejection now i who token reason h))"
proof -
  obtain es x c where e: "claim_decision now i who token REJECT reason (entries h) = (es, x, c)" by (cases "claim_decision now i who token REJECT reason (entries h)") auto
  have "desk_inv (h\<lparr>entries := es\<rparr>)" using inv_claim [OF assms, of now i who token REJECT reason] e by simp
  then show ?thesis using start_ok [OF assms, of now i who token REJECT reason es _ "Auditing (the x)"] e
    by (cases x; cases c) (simp_all add: start_rejection_def claim_rejection_def)
qed

lemma inv_same:
  assumes "desk_inv h" "entries h' = entries h" "trail h' = trail h" "team h' = team h" "set (effect_ids h') \<subseteq> set (effect_ids h)"
    "distinct (filter (\<lambda>i. i \<noteq> []) (map r_approval (sup_rules h')))" "distinct (map m_approval (facts h'))" "distinct (map tl_proposal (ledger h'))"
  shows "desk_inv h'"
proof -
  have aud: "audited h' = audited h" by (simp add: audited_def assms fun_eq_iff)
  have "worker_ok h' w = worker_ok h w" for w by (rule worker_ok_cong) (simp_all add: assms)
  then show ?thesis using assms unfolding desk_inv_def aud by auto
qed

lemma distinct_filter_map: "distinct (filter P (map f xs)) \<Longrightarrow> distinct (filter P (map f (filter Q xs)))"
  by (induction xs) auto

lemma operator_rules_ok:
  assumes "desk_inv h" "operator_rules (sup_rules h) rs"
  shows "desk_inv (h\<lparr>sup_rules := rs\<rparr>)"
proof -
  obtain keep new where r: "rs = filter keep (sup_rules h) @ new" "\<forall>r \<in> set new. r_approval r = []" using assms(2) by (auto simp: operator_rules_def)
  have n: "filter (\<lambda>i. i \<noteq> []) (map r_approval new) = []" using r(2) by (auto simp: filter_empty_conv)
  show ?thesis using r effects_distinct [OF assms(1)] n
    by (intro inv_same [OF assms(1)]) (auto simp: set_effect_ids distinct_filter_map)
qed

lemma desk_inv_step:
  assumes "desk_inv h" "desk_step env h h'"
  shows "desk_inv h'"
  using assms(2)
proof (cases rule: desk_step.cases)
  case (step_unique p key)
  have "fst (add_unique (cd_show (codec_of env)) key p (entries h)) = entries h \<or>
      (\<exists>q. fst (add_unique (cd_show (codec_of env)) key p (entries h)) = entries h @ [q] \<and> p_status q = p_status p \<and> p_id q = p_id p)"
    by (auto simp: add_unique_def add_proposal_def Let_def split: option.splits)
  then show ?thesis using step_unique assms(1) inv_append [OF assms(1)] by (auto simp: blank_def)
next
  case (step_facts keep)
  then show ?thesis using effects_distinct [OF assms(1)] by (intro inv_same [OF assms(1)]) (auto simp: set_effect_ids distinct_map_filter)
next
  case (step_thresholds pr)
  then show ?thesis using effects_distinct [OF assms(1)] by (intro inv_same [OF assms(1)]) (auto simp: effect_ids_def)
qed (use assms(1) in \<open>auto simp: start_approval_ok start_rejection_ok worker_move_ok inv_sweep inv_append blank_def add_proposal_def operator_rules_ok\<close>)

interpretation desk_system: safe_system desk_start "desk_step env" desk_inv for env
proof unfold_locales
  show "desk_inv h" if "desk_start h" for h
    using that by (auto simp: desk_start_def desk_inv_def audited_def effect_ids_def dget_def filter_empty_conv)
  show "desk_inv h'" if "desk_inv h" "desk_step env h h'" for h h'
    using that by (rule desk_inv_step)
qed

lemma start_approval_entries: "entries (fst (start_approval now i who token h)) = fst (claim_decision now i who token APPROVE None (entries h))"
  by (simp add: start_approval_def claim_approval_def split: prod.splits option.splits claim_outcome.splits)

lemma start_rejection_entries: "entries (fst (start_rejection now i who token reason h)) = fst (claim_decision now i who token REJECT reason (entries h))"
  by (simp add: start_rejection_def claim_rejection_def split: prod.splits option.splits claim_outcome.splits)

text \<open>What a step does to the registry.\<close>

lemma move_entries:
  "entries (worker_move env now token works h) \<in> {entries h} \<union> {fst (finalize_decision now i who token a (entries h)) | i who a. True} \<union>
     {fst (release_approval i token err (entries h)) | i err. True}"
proof (cases "team h token")
  case None
  then show ?thesis by (simp add: worker_move_def)
next
  case (Some w)
  obtain h' ph where m: "phase_move env now token works w h (w_phase w) = (h', ph)" by fastforce
  then have e: "entries (worker_move env now token works h) = entries h'" using Some by (simp add: worker_move_def)
  show ?thesis
  proof (cases "w_phase w")
    case (Effecting p)
    from effect_move_cases [of env works h p h' ph] m Effecting have "entries h' = entries h" by auto
    then show ?thesis using e by simp
  next
    case (Finalizing p)
    have "h' = h \<or> h' = h\<lparr>entries := fst (finalize_decision now (p_id p) (w_by w) token (w_action w) (entries h))\<rparr>"
      using m Finalizing by (auto simp: finalize_move_def split: if_splits prod.splits option.splits)
    then show ?thesis using e by (elim disjE) (simp, auto)
  next
    case (Releasing p err)
    have "h' = h \<or> h' = h\<lparr>entries := fst (release_approval (p_id p) token err (entries h))\<rparr>"
      using m Releasing by (auto simp: release_move_def split: if_splits)
    then show ?thesis using e by (elim disjE) (simp, auto)
  qed (use m e in \<open>auto simp: audit_move_def ledger_move_def compensate_move_def split: option.splits if_splits\<close>)
qed

lemma step_entries:
  assumes "desk_step env h h'"
  obtains (same) "entries h' = entries h"
    | (claim) now i who t a r where "entries h' = fst (claim_decision now i who t a r (entries h))"
    | (finalize) now i who t a where "entries h' = fst (finalize_decision now i who t a (entries h))"
    | (release) i t err where "entries h' = fst (release_approval i t err (entries h))"
    | (sweep) now b where "entries h' = fst (sweep_expired now b (entries h))"
    | (draft) p where "entries h' = entries h @ [p]"
  using assms
proof (cases rule: desk_step.cases)
  case (step_move now token works)
  then show ?thesis using that move_entries [of env now token works h] by auto
next
  case (step_unique p key)
  then show ?thesis using that by (auto simp: add_unique_def add_proposal_def Let_def split: option.splits if_splits)
qed (use that in \<open>auto simp: start_approval_entries start_rejection_entries add_proposal_def\<close>)

lemma step_keeps: "desk_step env h h' \<Longrightarrow> keeps (entries h) (entries h')"
  by (erule step_entries) (simp_all add: claim_keeps finalize_keeps release_keeps keeps_sweep)

lemma steps_keep: "(desk_step env)\<^sup>*\<^sup>* h h' \<Longrightarrow> get_proposal i (entries h) = Some p \<Longrightarrow> \<exists>q. get_proposal i (entries h') = Some q \<and> kept_row p q"
proof (induction rule: rtranclp_induct)
  case (step g h')
  then obtain q where q: "get_proposal i (entries g) = Some q" "kept_row p q" by blast
  then obtain r where "get_proposal i (entries h') = Some r" "kept_row q r" using step_keeps [OF step.hyps(2)] by (auto simp: keeps_def)
  then show ?case using kept_row_trans [OF q(2)] by blast
qed auto

text \<open>A row no operation touches any more.\<close>

definition frozen :: "proposal \<Rightarrow> bool" where
  "frozen p = (p_status p = P_EXPIRED \<and> p_intent p = Some APPROVE)"

lemma get_finalize: "get_proposal j (fst (finalize_decision now i who t a es)) =
    (if j = i then map_option (\<lambda>p. fst (finalize_one now who t a p)) (get_proposal i es) else get_proposal j es)"
  by (simp add: finalize_decision_def get_on_first)

lemma get_release: "get_proposal j (fst (release_approval i t err es)) =
    (if j = i then map_option (\<lambda>p. fst (release_one t err p)) (get_proposal i es) else get_proposal j es)"
  by (simp add: release_approval_def get_on_first)

lemma get_claim: "get_proposal j (fst (claim_decision now i who t a r es)) =
    (if j = i then map_option (\<lambda>p. fst (claim_one now who t a (sanitize_decision_reason r) p)) (get_proposal i es) else get_proposal j es)"
  by (simp add: claim_decision_def get_on_first)

lemma frozen_step:
  assumes "desk_step env h h'" "get_proposal i (entries h) = Some p" "frozen p"
  shows "get_proposal i (entries h') = Some p"
  using assms(1)
proof (cases rule: step_entries)
  case (claim now j who t a r)
  have "fst (claim_one now who t a (sanitize_decision_reason r) p) = p" using assms(3) by (cases a) (simp_all add: claim_one_def frozen_def)
  then show ?thesis using assms(2) claim by (auto simp: get_claim)
next
  case (finalize now j who t a)
  have "fst (finalize_one now who t a p) = p" using assms(3) by (simp add: finalize_one_def frozen_def)
  then show ?thesis using assms(2) finalize by (cases "i = j") (simp_all add: get_finalize)
next
  case (release j t err)
  have "fst (release_one t err p) = p" using assms(3) by (simp add: release_one_def frozen_def)
  then show ?thesis using assms(2) release by (cases "i = j") (simp_all add: get_release)
next
  case (sweep now b)
  then show ?thesis using assms(2,3) get_sweep [of i now b "entries h"] by (auto simp: lapsed_def frozen_def)
qed (use assms in \<open>auto simp: get_append\<close>)

lemma frozen_steps: "(desk_step env)\<^sup>*\<^sup>* h h' \<Longrightarrow> get_proposal i (entries h) = Some p \<Longrightarrow> frozen p \<Longrightarrow> get_proposal i (entries h') = Some p"
  by (induction rule: rtranclp_induct) (auto intro: frozen_step)

lemma frozen_answers:
  assumes "get_proposal i es = Some p" "frozen p"
  shows "claim_approval now i who t es = (es, Some p, Lapsed)" "claim_rejection now i who t r es = (es, Some p, Conflict)"
proof -
  have f: "on_first i g m es = (es, snd (g p))" if "fst (g p) = p" for g :: "proposal \<Rightarrow> proposal \<times> (proposal option \<times> claim_outcome)" and m
    using assms(1) that by (induction es) (auto simp: get_Cons split: if_splits)
  have c: "claim_one now who t APPROVE s p = (p, (Some p, Lapsed))" "claim_one now who t REJECT s p = (p, (Some p, Conflict))" for s
    using assms(2) by (simp_all add: claim_one_def frozen_def)
  show "claim_approval now i who t es = (es, Some p, Lapsed)" unfolding claim_approval_def claim_decision_def by (simp add: f c)
  show "claim_rejection now i who t r es = (es, Some p, Conflict)" unfolding claim_rejection_def claim_decision_def by (simp add: f c)
qed


subsection \<open>The trail only grows\<close>

lemma move_trail: "dget (trail h) k = Some row \<Longrightarrow> dget (trail (worker_move env now token works h)) k = Some row"
proof (cases "team h token")
  case (Some w)
  assume r: "dget (trail h) k = Some row"
  obtain h' ph where m: "phase_move env now token works w h (w_phase w) = (h', ph)" by fastforce
  then have e: "trail (worker_move env now token works h) = trail h'" using Some by (simp add: worker_move_def)
  show ?thesis
  proof (cases "w_phase w")
    case (Auditing p)
    have "h' = h \<or> (\<exists>tr. record_strict (event_id (p_id p) (w_action w)) (row_for (w_action w) p) (trail h) = Some tr \<and> h' = h\<lparr>trail := tr\<rparr>)"
      using m Auditing by (auto simp: audit_move_def split: option.splits if_splits)
    then show ?thesis using r e by (auto simp: record_strict_def split: option.splits if_splits)
  next
    case (Effecting p)
    from effect_move_cases [of env works h p h' ph] m Effecting have "trail h' = trail h" by auto
    then show ?thesis using r e by simp
  qed (use m e r in \<open>auto simp: ledger_move_def compensate_move_def finalize_move_def release_move_def split: option.splits if_splits prod.splits\<close>)
qed (simp add: worker_move_def)

lemma start_trail: "trail (fst (start_approval now i who token h)) = trail h" "trail (fst (start_rejection now i who token reason h)) = trail h"
  by (simp_all add: start_approval_def start_rejection_def split: prod.splits option.splits claim_outcome.splits)

lemma step_trail: "desk_step env h h' \<Longrightarrow> dget (trail h) k = Some row \<Longrightarrow> dget (trail h') k = Some row"
proof (induction rule: desk_step.induct)
  case (step_move h now token works)
  then show ?case by (rule move_trail)
qed (simp_all add: start_trail)

lemma steps_trail: "(desk_step env)\<^sup>*\<^sup>* h h' \<Longrightarrow> dget (trail h) k = Some row \<Longrightarrow> dget (trail h') k = Some row"
proof (induction rule: rtranclp_induct)
  case (step g h')
  from step.hyps(2) step.IH [OF step.prems] show ?case by (rule step_trail)
qed

lemma audited_intends: "desk_inv h \<Longrightarrow> audited h i a \<Longrightarrow> intends (entries h) i a"
  by (simp add: desk_inv_def)

lemma audited_one: "desk_inv h \<Longrightarrow> audited h i a \<Longrightarrow> audited h i b \<Longrightarrow> a = b"
  by (rule intends_one [OF audited_intends audited_intends])

lemma decided_intent:
  assumes "desk_inv h" "get_proposal i (entries h) = Some p" "p_status p = decided_status a"
  shows "audited h i a" "b \<noteq> a \<Longrightarrow> \<not> audited h i b" "p_intent p = Some a"
proof -
  show c: "audited h i a" using assms by (cases a) (auto simp: desk_inv_def decided_status_def)
  show "b \<noteq> a \<Longrightarrow> \<not> audited h i b" using audited_one [OF assms(1) c] by blast
  show "p_intent p = Some a" using audited_intends [OF assms(1) c] assms(2) by (simp add: intends_def)
qed

lemma effect_audited:
  assumes "desk_inv h" "i \<in> set (effect_ids h)"
  shows "audited h i APPROVE" "\<not> audited h i REJECT" "intends (entries h) i APPROVE"
proof -
  show c: "audited h i APPROVE" using assms by (simp add: desk_inv_def)
  show "\<not> audited h i REJECT" using audited_one [OF assms(1) c] by blast
  show "intends (entries h) i APPROVE" by (rule audited_intends [OF assms(1) c])
qed

subsection \<open>A desk at work\<close>

text \<open>A desk on which one acknowledgement is approved and one suppression rejected, and how it got there.\<close>

definition sample_env :: desk_env where
  "sample_env = \<lparr>codec_of = \<lparr>cd_digest = id, cd_dumps = (\<lambda>_. []), cd_int = (\<lambda>_. None), cd_float = (\<lambda>_. None), cd_show = (\<lambda>_. [])\<rparr>, check = Some\<rparr>"

definition sample_draft :: "proposal_kind \<Rightarrow> string \<Rightarrow> real option \<Rightarrow> proposal" where
  "sample_draft k i d =
     \<lparr>p_id = i, p_kind = k, p_status = P_PENDING, p_payload = [], p_rationale = [], p_confidence = 0, p_source_cases = [], p_created_at = 0, p_decided_by = None,
      p_decided_at = None, p_actor = None, p_intent = None, p_audit_at = None, p_token = None, p_lease = None, p_error = None,
      p_expires = d, p_reason = None, p_fingerprint = None\<rparr>"

definition empty_desk :: desk where
  "empty_desk = \<lparr>entries = [], trail = [], sup_rules = [], tuning = \<lparr>t_rules = [], t_default = sample_rule_cfg, t_max_step = 1, t_sources = []\<rparr>,
     facts = [], ledger = [], team = (\<lambda>_. None)\<rparr>"

fun moves :: "desk_env \<Rightarrow> real \<Rightarrow> string \<Rightarrow> nat \<Rightarrow> desk \<Rightarrow> desk" where
  "moves env now token 0 h = h"
| "moves env now token (Suc n) h = moves env now token n (worker_move env now token True h)"

lemma reach_moves: "reach desk_start (desk_step env) h \<Longrightarrow> reach desk_start (desk_step env) (moves env now token n h)"
  by (induction n arbitrary: h) (auto intro: reach_next step_move)


definition drafted_desk :: "proposal list \<Rightarrow> desk" where
  "drafted_desk ps = empty_desk\<lparr>entries := ps\<rparr>"

lemma reach_drafted: "\<forall>p \<in> set ps. blank p \<Longrightarrow> reach desk_start (desk_step env) (drafted_desk ps)"
proof (induction ps rule: rev_induct)
  case Nil
  have "desk_start (drafted_desk [])" by (simp add: desk_start_def drafted_desk_def empty_desk_def)
  then show ?case by (rule reach_start)
next
  case (snoc p ps)
  then have "reach desk_start (desk_step env) (drafted_desk ps)" "blank p" by simp_all
  from reach_next [OF this(1) step_draft [OF this(2)]] show ?case by (simp add: drafted_desk_def add_proposal_def)
qed

lemma blank_sample: "i \<noteq> [] \<Longrightarrow> py_strip i = i \<Longrightarrow> blank (sample_draft k i d)"
  by (simp add: blank_def sample_draft_def)

text \<open>The desk after a suppression rule was approved and, next to it, a second one was rejected.\<close>

definition approved_desk :: desk where
  "approved_desk = moves sample_env 1 ''t1'' 4 (fst (start_approval 1 ''s1'' ''ann'' ''t1''
     (drafted_desk [sample_draft SUPPRESSION ''s1'' None, sample_draft MEMORY ''m1'' (Some 100)])))"

lemma reach_approved: "reach desk_start (desk_step sample_env) approved_desk"
  unfolding approved_desk_def
proof (intro reach_moves reach_next [OF reach_drafted step_approve])
  show "\<forall>p \<in> set [sample_draft SUPPRESSION ''s1'' None, sample_draft MEMORY ''m1'' (Some 100)]. blank p"
    by (simp add: blank_sample py_strip_def py_lstrip_def py_space_def)
qed (simp add: drafted_desk_def empty_desk_def)

lemma approved_desk_effects: "effect_ids approved_desk = [''s1'']"
  by code_simp

text \<open>The desk after the approval of a memory proposal without a text was refused, and the proposal has expired.\<close>

definition stranded_desk :: desk where
  "stranded_desk =
     (let h = moves sample_env 2 ''t2'' 2 (fst (start_approval 2 ''m1'' ''ann'' ''t2'' approved_desk))
      in h\<lparr>entries := fst (sweep_expired 200 SWEEP_BATCH_LIMIT (entries h))\<rparr>)"

lemma reach_stranded: "reach desk_start (desk_step sample_env) stranded_desk"
  unfolding stranded_desk_def Let_def
  by (intro reach_next [OF reach_moves step_sweep] reach_next [OF reach_approved step_approve]) code_simp

lemma stranded_row: "map_option (\<lambda>p. (p_status p, p_intent p)) (get_proposal ''m1'' (entries stranded_desk)) = Some (P_EXPIRED, Some APPROVE)"
  by code_simp

lemma approved_row: "map_option (\<lambda>p. (p_status p, p_intent p)) (get_proposal ''s1'' (entries approved_desk)) = Some (P_APPROVED, Some APPROVE)"
  by code_simp


lemma steps_moves: "(desk_step env)\<^sup>*\<^sup>* h (moves env now token n h)"
  by (induction n arbitrary: h) (auto intro: converse_rtranclp_into_rtranclp step_move)

lemma stranded_steps: "(desk_step sample_env)\<^sup>*\<^sup>* approved_desk stranded_desk"
proof -
  have "team approved_desk ''t2'' = None" by code_simp
  from step_approve [OF this] have "(desk_step sample_env)\<^sup>*\<^sup>* approved_desk (fst (start_approval 2 ''m1'' ''ann'' ''t2'' approved_desk))" by blast
  from rtranclp_trans [OF this steps_moves] show ?thesis
    unfolding stranded_desk_def Let_def by (rule rtranclp.rtrancl_into_rtrancl) (rule step_sweep)
qed

subsection \<open>Conflicts\<close>

lemma start_rejection_answer: "snd (start_rejection now i who token reason h) = snd (snd (claim_rejection now i who token reason (entries h)))"
  by (simp add: start_rejection_def split: prod.splits option.splits claim_outcome.splits)

lemma other_intent_refused:
  assumes "get_proposal i (entries h) = Some p" "p_intent p = Some APPROVE"
  shows "snd (start_rejection now i who token reason h) = Conflict"
proof -
  have "snd (claim_rejection now i who token reason (entries h)) = (Some p, Conflict)"
    using assms by (simp add: claim_rejection_def claim_decision_def snd_on_first claim_one_def)
  then show ?thesis by (simp add: start_rejection_answer)
qed

text \<open>A rejection whose audit row was written without the reason the row of the registry has now.\<close>

definition jammed :: "desk \<Rightarrow> string \<Rightarrow> bool" where
  "jammed h i = (\<exists>p r row. get_proposal i (entries h) = Some p \<and> p_status p = P_PENDING \<and> p_intent p = Some REJECT \<and> p_reason p = Some r \<and> r \<noteq> [] \<and>
     dget (trail h) (event_id i REJECT) = Some row \<and> a_reason row \<noteq> sanitize_decision_reason (Some r))"

lemma jammed_round:
  fixes now who token reason env works
  assumes "jammed h i"
  defines "h1 \<equiv> fst (start_rejection now i who token reason h)"
  defines "h2 \<equiv> worker_move env now token works h1"
  defines "h3 \<equiv> worker_move env now token True h2"
  shows "snd (start_rejection now i who token reason h) = Claimed \<and>
    (\<exists>w p. team h2 token = Some w \<and> w_phase w = Releasing p ''audit event id collision'') \<and> trail h3 = trail h \<and> jammed h3 i"
proof -
  obtain p r row where p: "get_proposal i (entries h) = Some p" "p_status p = P_PENDING" "p_intent p = Some REJECT" "p_reason p = Some r" "r \<noteq> []"
    "dget (trail h) (event_id i REJECT) = Some row" "a_reason row \<noteq> sanitize_decision_reason (Some r)"
    using assms(1) by (auto simp: jammed_def)
  let ?c = "claimed_row now who token REJECT (sanitize_decision_reason reason) p"
  have one: "claim_one now who token REJECT (sanitize_decision_reason reason) p = (?c, (Some ?c, Claimed))"
    using p(2,3) by (simp add: claim_one_def Let_def)
  have i: "p_id p = i" using proposal_of_id [OF p(1)] .
  have c: "p_id ?c = i" "p_status ?c = P_APPLYING" "p_token ?c = Some token" "p_intent ?c = Some REJECT" "p_reason ?c = Some r"
    using p i by (simp_all add: claimed_row_def Let_def split: list.split)
  obtain es where e: "claim_rejection now i who token reason (entries h) = (es, Some ?c, Claimed)" and g: "get_proposal i es = Some ?c"
  proof -
    have "snd (claim_rejection now i who token reason (entries h)) = (Some ?c, Claimed)"
      using p(1) one by (simp add: claim_rejection_def claim_decision_def snd_on_first)
    then have "claim_rejection now i who token reason (entries h) = (fst (claim_rejection now i who token reason (entries h)), Some ?c, Claimed)" by (metis prod.collapse)
    moreover have "get_proposal i (fst (claim_rejection now i who token reason (entries h))) = Some ?c"
      using p(1) one by (simp add: claim_rejection_def get_claim)
    ultimately show ?thesis using that by blast
  qed
  have h1: "h1 = h\<lparr>entries := es, team := (team h)(token := Some \<lparr>w_by = who, w_action = REJECT, w_phase = Auditing ?c\<rparr>)\<rparr>"
    unfolding h1_def by (simp add: start_rejection_def e)
  have "row \<noteq> row_for REJECT ?c" using p(7) c(5) by (auto simp: row_for_def)
  then have a: "audit_move works h1 REJECT ?c = (h1, Releasing ?c ''audit event id collision'')"
    using p(6) c(1) by (simp add: audit_move_def record_strict_def h1)
  have h2: "h2 = h1\<lparr>team := (team h1)(token := Some \<lparr>w_by = who, w_action = REJECT, w_phase = Releasing ?c ''audit event id collision''\<rparr>)\<rparr>"
    unfolding h2_def worker_move_def using a by (simp add: h1)
  have h3: "entries h3 = fst (release_approval i token ''audit event id collision'' es)" "trail h3 = trail h"
    unfolding h3_def by (simp_all add: worker_move_def h2 release_move_def h1 c(1))
  let ?q = "fst (release_one token ''audit event id collision'' ?c)"
  have q: "get_proposal i (entries h3) = Some ?q" using g by (simp add: h3 get_release)
  have f: "p_status ?q = P_PENDING" "p_intent ?q = Some REJECT" "p_reason ?q = Some r" using c by (simp_all add: release_one_def Let_def)
  have "jammed h3 i" unfolding jammed_def using q f p(5,6,7) h3(2) by auto
  then show ?thesis using h3(2) e by (simp add: h2 start_rejection_def)
qed

definition jammed_desk :: desk where
  "jammed_desk =
     moves sample_env 40 ''t2'' 2 (fst (start_rejection 40 ''m1'' ''bob'' ''t2'' (Some ''dup'')
       (moves sample_env 1 ''t1'' 1 (fst (start_rejection 1 ''m1'' ''ann'' ''t1'' None (drafted_desk [sample_draft MEMORY ''m1'' (Some 100)]))))))"

lemma reach_jammed: "reach desk_start (desk_step sample_env) jammed_desk"
  unfolding jammed_desk_def
proof (rule reach_moves, rule reach_next [OF reach_moves], rule reach_next)
  show "reach desk_start (desk_step sample_env) (drafted_desk [sample_draft MEMORY ''m1'' (Some 100)])"
    by (rule reach_drafted) (simp add: blank_sample py_strip_def py_lstrip_def py_space_def)
qed (rule step_reject, code_simp)+

lemma jammed_sample: "jammed jammed_desk ''m1''"
proof -
  have "case get_proposal ''m1'' (entries jammed_desk) of None \<Rightarrow> False
      | Some p \<Rightarrow> p_status p = P_PENDING \<and> p_intent p = Some REJECT \<and> p_reason p = Some ''dup''"
    "map_option a_reason (dget (trail jammed_desk) (event_id ''m1'' REJECT)) = Some []" "sanitize_decision_reason (Some ''dup'') = ''dup''"
    by code_simp+
  then show ?thesis unfolding jammed_def by (auto split: option.splits)
qed

end
