(* ===== verification/Approval_Claims.thy ===== *)
theory Approval_Claims
  imports Approval_Props
begin

section \<open>Decisions on proposals: the properties\<close>

text \<open>What holds on every desk the requests can reach, in any interleaving and with any of them crashed.\<close>

text \<open>
  C11. Nothing takes effect without an audited approval. Every suppression rule, fact and tuning record that names a proposal
  belongs to a proposal whose approval is in the audit trail, whose rejection is not, and which was not rejected.
\<close>

theorem effects_only_of_audited_approvals:
  assumes "reach desk_start (desk_step env) h" "i \<in> set (effect_ids h)"
  shows "dget (trail h) (event_id i APPROVE) \<noteq> None \<and> dget (trail h) (event_id i REJECT) = None \<and>
    (\<exists>p. get_proposal i (entries h) = Some p \<and> p_intent p = Some APPROVE \<and> p_status p \<noteq> P_REJECTED)"
proof -
  have inv: "desk_inv h" by (rule desk_system.reach_inv [OF assms(1)])
  note e = effect_audited [OF inv assms(2)]
  then obtain p where p: "get_proposal i (entries h) = Some p" "p_intent p = Some APPROVE" by (auto simp: intends_def)
  have "p_status p \<noteq> P_REJECTED" using decided_intent(1) [OF inv p(1), of REJECT] e(2) by (auto simp: decided_status_def)
  then show ?thesis using e p by (auto simp: audited_def)
qed

theorem effects_only_of_audited_approvals_witness:
  "''s1'' \<in> set (effect_ids approved_desk) \<and> dget (trail approved_desk) (event_id ''s1'' APPROVE) \<noteq> None"
  using effects_only_of_audited_approvals [OF reach_approved, of "''s1''"] by (simp add: approved_desk_effects)

text \<open>
  C12. An approval takes effect once. However often an approval is retried, by however many requests, no two suppression
  rules, no two facts and no two tuning records name the same proposal.
\<close>

theorem approved_effect_once:
  assumes "reach desk_start (desk_step env) h"
  shows "distinct (filter (\<lambda>i. i \<noteq> []) (map r_approval (sup_rules h))) \<and> distinct (map m_approval (facts h)) \<and>
    distinct (map tl_proposal (ledger h))"
  using effects_distinct [OF desk_system.reach_inv [OF assms]] by simp

theorem approved_effect_once_witness:
  "map r_approval (sup_rules approved_desk) \<noteq> [] \<and> distinct (filter (\<lambda>i. i \<noteq> []) (map r_approval (sup_rules approved_desk)))"
proof -
  have "map r_approval (sup_rules approved_desk) \<noteq> []" by code_simp
  then show ?thesis using approved_effect_once [OF reach_approved] by simp
qed

text \<open>
  C13. A decision is final. Once a proposal is approved or rejected, its row, with who decided and when, stays as it is
  whatever requests, sweeps and edits follow; the decision has its audit row, that row never changes, and the trail never
  gets one of the other decision.
\<close>

theorem decision_final:
  assumes "reach desk_start (desk_step env) h" "get_proposal i (entries h) = Some p" "p_status p = decided_status a"
    and "(desk_step env)\<^sup>*\<^sup>* h h'" "b \<noteq> a"
  shows "get_proposal i (entries h') = Some p \<and> dget (trail h') (event_id i b) = None \<and>
    (\<exists>row. dget (trail h) (event_id i a) = Some row \<and> dget (trail h') (event_id i a) = Some row)"
proof -
  have inv: "desk_inv h" by (rule desk_system.reach_inv [OF assms(1)])
  have inv': "desk_inv h'" by (rule desk_system.steps_inv [OF assms(4) inv])
  obtain q where q: "get_proposal i (entries h') = Some q" "kept_row p q" using steps_keep [OF assms(4,2)] by blast
  have g: "get_proposal i (entries h') = Some p" using q assms(3) by (cases a) (auto simp: kept_row_def decided_def decided_status_def)
  obtain row where r: "dget (trail h) (event_id i a) = Some row" using decided_intent(1) [OF inv assms(2,3)] by (auto simp: audited_def)
  have "dget (trail h') (event_id i b) = None" using decided_intent(2) [OF inv' g assms(3) assms(5)] by (simp add: audited_def)
  then show ?thesis using g r steps_trail [OF assms(4) r] by blast
qed

theorem decision_final_witness:
  "\<exists>p. get_proposal ''s1'' (entries approved_desk) = Some p \<and> p_status p = P_APPROVED \<and>
     get_proposal ''s1'' (entries stranded_desk) = Some p \<and> dget (trail stranded_desk) (event_id ''s1'' REJECT) = None"
proof -
  obtain p where p: "get_proposal ''s1'' (entries approved_desk) = Some p" "p_status p = P_APPROVED" using approved_row by auto
  then show ?thesis using decision_final [OF reach_approved p(1), of APPROVE stranded_desk REJECT] stranded_steps by (simp add: decided_status_def)
qed

text \<open>
  C15. An approval that was tried can never be turned into a rejection, even when it was refused before anything was audited.
  From then on every rejection is answered with a conflict; and once the proposal has expired, every approval is
  answered with \<^verbatim>\<open>proposal_expired\<close>, whose message asks to reject it, and its row never changes again.
\<close>

theorem refused_approval_strands:
  assumes "(desk_step env)\<^sup>*\<^sup>* h h'" "get_proposal i (entries h) = Some p" "p_intent p = Some APPROVE"
  shows "\<exists>q. get_proposal i (entries h') = Some q \<and> snd (start_rejection now i who token reason h') = Conflict \<and>
    (p_status p = P_EXPIRED \<longrightarrow> q = p \<and> snd (start_approval now i who token h') = Lapsed)"
proof -
  obtain q where q: "get_proposal i (entries h') = Some q" "kept_row p q" using steps_keep [OF assms(1,2)] by blast
  have "p_intent q = Some APPROVE" using q(2) assms(3) by (simp add: kept_row_def)
  then have r: "snd (start_rejection now i who token reason h') = Conflict" by (rule other_intent_refused [OF q(1)])
  have "q = p \<and> snd (start_approval now i who token h') = Lapsed" if "p_status p = P_EXPIRED"
  proof -
    have f: "frozen p" using that assms(3) by (simp add: frozen_def)
    from frozen_steps [OF assms(1,2) f] q(1) frozen_answers(1) [OF _ f] show ?thesis by (simp add: start_approval_def)
  qed
  then show ?thesis using q(1) r by blast
qed

theorem refused_approval_strands_witness:
  "\<exists>p. get_proposal ''m1'' (entries stranded_desk) = Some p \<and> p_status p = P_EXPIRED \<and>
     snd (start_rejection 300 ''m1'' ''bob'' ''t3'' None stranded_desk) = Conflict \<and> snd (start_approval 300 ''m1'' ''bob'' ''t3'' stranded_desk) = Lapsed"
proof -
  obtain p where p: "get_proposal ''m1'' (entries stranded_desk) = Some p" "p_status p = P_EXPIRED" "p_intent p = Some APPROVE" using stranded_row by auto
  from refused_approval_strands [OF rtranclp.rtrancl_refl p(1,3), where now = 300 and who = "''bob''" and token = "''t3''" and reason = None] p
  show ?thesis by auto
qed

text \<open>
  C16. A rejection can be jammed for good. When a first rejection without a reason was audited but not finalised, and a later one gave
  a reason, every further attempt is claimed, collides with the audit row on record and is released; the trail stays
  as it was and the proposal is ready to jam the next one.
\<close>

theorem late_reason_jams_rejection:
  assumes "jammed h i" "team h token = None"
  shows "let (h1, answer) = start_rejection now i who token reason h; h2 = worker_move env now token works h1; h3 = worker_move env now token True h2
     in answer = Claimed \<and> (\<exists>w p. team h2 token = Some w \<and> w_phase w = Releasing p ''audit event id collision'') \<and>
        trail h3 = trail h \<and> jammed h3 i"
  using jammed_round [OF assms(1)] by (simp add: Let_def split_beta)

theorem late_reason_jams_rejection_witness:
  "jammed jammed_desk ''m1'' \<and> snd (start_rejection 90 ''m1'' ''bob'' ''t9'' None jammed_desk) = Claimed"
proof -
  have j: "jammed jammed_desk ''m1''" by (rule jammed_sample)
  moreover have "team jammed_desk ''t9'' = None" by code_simp
  ultimately show ?thesis using late_reason_jams_rejection [of jammed_desk "''m1''" "''t9''" 90 "''bob''" None] by (simp add: Let_def split_beta)
qed

end
