(* ===== verification/Tuning_Safety.thy ===== *)
theory Tuning_Safety
  imports Tuning_Apply
begin

section \<open>What approved tuning may change\<close>

text \<open>The gate in front of the thresholds: evidence, size of the step, currency; and one effect the gate does not see.\<close>

subsection \<open>The gate\<close>

lemma unblocked_confirmed:
  assumes "e_blocked (evidence_summary cd (p\<lparr>p_kind := TUNING\<rparr>)) = None" "text_of cd p ''action'' = ''apply_change''"
  shows "e_verified (evidence_summary cd (p\<lparr>p_kind := TUNING\<rparr>)) \<and> e_analyst_confirmed (evidence_summary cd (p\<lparr>p_kind := TUNING\<rparr>)) \<and>
    0 < e_independent (evidence_summary cd (p\<lparr>p_kind := TUNING\<rparr>))"
proof -
  have "py_strip ''apply_change'' = ''apply_change''" by code_simp
  then show ?thesis using assms by (auto simp: evidence_summary_def text_of_def Let_def split: if_splits)
qed

lemma materialize_gate:
  assumes "materialize_approved_tuning cd pr p = Inr (pr', Some r, changed)"
  obtains c where "materialize_change cd pr p c = Inr (pr', Some r, changed)" "c = change_of cd p (tc_before c) (tc_after c)"
    "tc_rule c \<noteq> []" "tc_target c \<in> {''correlation_n'', ''severity_floor''}"
    "e_blocked (evidence_summary cd (p\<lparr>p_kind := TUNING\<rparr>)) = None" "text_of cd p ''action'' = ''apply_change''"
proof -
  obtain b a where ba: "parse_int (cd_int cd) (jget (p_payload p) ''before'') = Some b" "parse_int (cd_int cd) (jget (p_payload p) ''after'') = Some a"
    "materialize_change cd pr p (change_of cd p b a) = Inr (pr', Some r, changed)"
    using assms by (auto simp: materialize_approved_tuning_def Let_def split: if_splits option.splits)
  moreover have "py_strip (text_of cd p ''rule_id'') \<noteq> []" "text_of cd p ''target'' \<in> {''correlation_n'', ''severity_floor''}"
    "e_blocked (evidence_summary cd (p\<lparr>p_kind := TUNING\<rparr>)) = None" "text_of cd p ''action'' = ''apply_change''"
    using assms by (auto simp: materialize_approved_tuning_def Let_def split: if_splits)
  ultimately show ?thesis using that [of "change_of cd p b a"] by (simp add: change_of_def)
qed

lemma materialized_change:
  assumes "materialize_change cd pr p c = Inr (pr', Some r, changed)"
  shows "r = record_of cd p c" "tc_before c < tc_after c" "step_allowed pr c"
    "changed \<and> live_threshold pr c = tc_before c \<and> write_change pr c = Some pr' \<or> \<not> changed \<and> live_threshold pr c = tc_after c \<and> pr' = pr"
  using assms by (auto simp: materialize_change_def Let_def split: if_splits option.splits)

lemma written_n:
  assumes "apply_correlation_n pr c = Some pr'" "py_strip (tc_rule c) = tc_rule c"
  shows "cr_n (correlation_rule_for pr' (tc_rule c)) = tc_after c"
  using assms by (auto simp: apply_correlation_n_def correlation_rule_for_def Let_def split: if_splits)

text \<open>
  C14. Approved tuning stays within its evidence and its policy. A change that is written or confirmed rests on a verified
  fingerprint and at least one independent analyst outcome; it only raises the threshold, by at most the configured step, or by one up to
  six for a severity floor; it starts from the live value or finds it already applied; and a correlation threshold then has the approved value.
\<close>

theorem approved_tuning_bounded:
  assumes "materialize_approved_tuning cd pr p = Inr (pr', Some r, changed)"
  defines "e \<equiv> evidence_summary cd (p\<lparr>p_kind := TUNING\<rparr>)"
    and "c \<equiv> change_of cd p (tl_before r) (tl_after r)"
  shows "e_verified e \<and> e_analyst_confirmed e \<and> 0 < e_independent e \<and> tl_before r < tl_after r \<and>
    live_threshold pr c = (if changed then tl_before r else tl_after r) \<and>
    (tl_target r = ''correlation_n'' \<and> tl_after r - tl_before r \<le> t_max_step pr \<and> live_threshold pr' c = tl_after r \<or>
     tl_target r = ''severity_floor'' \<and> tl_after r = tl_before r + 1 \<and> tl_after r \<le> 6)"
proof -
  obtain d where d: "materialize_change cd pr p d = Inr (pr', Some r, changed)" "d = change_of cd p (tc_before d) (tc_after d)"
    "tc_rule d \<noteq> []" "tc_target d \<in> {''correlation_n'', ''severity_floor''}"
    "e_blocked (evidence_summary cd (p\<lparr>p_kind := TUNING\<rparr>)) = None" "text_of cd p ''action'' = ''apply_change''"
    using materialize_gate [OF assms(1)] by blast
  note m = materialized_change [OF d(1)]
  have r: "tl_before r = tc_before d" "tl_after r = tc_after d" "tl_target r = tc_target d" by (simp_all add: m(1) record_of_def)
  have c: "c = d" using d(2) by (simp add: c_def r)
  have s: "py_strip (tc_rule d) = tc_rule d" by (subst (1 2) d(2)) (simp add: change_of_def)
  have "live_threshold pr' d = tc_after d" if "tc_target d = ''correlation_n''"
    using m(4) that written_n [OF _ s, of pr pr'] by (auto simp: live_threshold_def write_change_def)
  moreover have "live_threshold pr d = (if changed then tc_before d else tc_after d)" using m(4) by auto
  ultimately show ?thesis using unblocked_confirmed [OF d(5,6)] m(2,3) d(4)
    by (auto simp: e_def c r step_allowed_def SEVERITY_FLOOR_MAX_def)
qed

definition sample_codec :: codec where
  "sample_codec = \<lparr>cd_digest = id, cd_dumps = (\<lambda>_. ''v''), cd_int = (\<lambda>_. None), cd_float = (\<lambda>_. None), cd_show = (\<lambda>_. [])\<rparr>"

definition sample_payload :: "(string \<times> json) list" where
  "sample_payload = [(''action'', JStr ''apply_change''), (''rule_id'', JStr ''brute''), (''target'', JStr ''correlation_n''),
     (''before'', JInt 2), (''after'', JInt 3), (''analyst_samples_provenance'', JDict [(''independent_analyst_outcomes'', JInt 4)])]"

definition sample_tuning :: proposal where
  "sample_tuning =
     \<lparr>p_id = ''p1'', p_kind = TUNING, p_status = P_PENDING, p_payload = sample_payload, p_rationale = [], p_confidence = 0, p_source_cases = [], p_created_at = 0,
      p_decided_by = None, p_decided_at = None, p_actor = None, p_intent = None, p_audit_at = None, p_token = None, p_lease = None,
      p_error = None, p_expires = None, p_reason = None,
      p_fingerprint = Some (evidence_fingerprint id (\<lambda>_. ''v'') (\<lambda>_. None) sample_payload)\<rparr>"

definition sample_thresholds :: tuning_prefs where
  "sample_thresholds = \<lparr>t_rules = [], t_default = \<lparr>cr_mode = THRESHOLD, cr_n = 2, cr_window_seconds = 10, cr_group_by = IP\<rparr>,
     t_max_step = 2, t_sources = []\<rparr>"

lemma sample_materialized:
  "case materialize_approved_tuning sample_codec sample_thresholds sample_tuning of
     Inr (pr', Some r, changed) \<Rightarrow> changed \<and> tl_before r = 2 \<and> tl_after r = 3 \<and> tl_target r = ''correlation_n'' | _ \<Rightarrow> False"
  by code_simp

theorem approved_tuning_bounded_witness:
  "\<exists>pr' r. materialize_approved_tuning sample_codec sample_thresholds sample_tuning = Inr (pr', Some r, True) \<and> tl_after r = 3 \<and>
     e_analyst_confirmed (evidence_summary sample_codec (sample_tuning\<lparr>p_kind := TUNING\<rparr>)) \<and>
     live_threshold pr' (change_of sample_codec sample_tuning 2 3) = 3"
proof -
  obtain pr' r where m: "materialize_approved_tuning sample_codec sample_thresholds sample_tuning = Inr (pr', Some r, True)"
    "tl_before r = 2" "tl_after r = 3" "tl_target r = ''correlation_n''"
    using sample_materialized by (auto split: sum.splits prod.splits option.splits)
  from approved_tuning_bounded [OF m(1)] m show ?thesis by auto
qed

subsection \<open>Feeds that share a name\<close>

text \<open>
  The floor that is read is the one of the first feed whose id or pattern has the name; the floor that is written is
  that of every entry whose id or pattern has it. So raising one feed from 1 to 2 takes another one from 5 down to 2.
\<close>

definition shared_name :: tuning_prefs where
  "shared_name = sample_thresholds\<lparr>t_sources := [\<lparr>ts_id = ''src'', ts_feeds = Some [Entry ''web'' ''web-*'' (Some 1), Entry ''web'' ''app-*'' (Some 5)],
     ts_data_view = []\<rparr>]\<rparr>"

lemma floor_raise_lowers_sibling:
  "let c = \<lparr>tc_rule = ''brute'', tc_target = ''severity_floor'', tc_before = 1, tc_after = 2, tc_feed_key = None, tc_source = Some ''src'', tc_feed = Some ''web''\<rparr>
   in live_threshold shared_name c = 1 \<and> step_allowed shared_name c \<and>
      map_option (\<lambda>pr. map ts_feeds (t_sources pr)) (write_change shared_name c) = Some [Some [Entry ''web'' ''web-*'' (Some 2), Entry ''web'' ''app-*'' (Some 2)]]"
  by code_simp

end
